(* ===== verification/Skynet_Prelude.thy ===== *)
theory Skynet_Prelude
  imports Main "HOL-Library.Word" "HOL-Library.Monad_Syntax" "HOL-Library.Multiset"
begin

text \<open>
  What every other theory of the development shares: names for the machine types, the
  option monad as the model of code that can hit a failed \<open>assert\<close> or leave its memory,
  checked array access, and the interfaces (locales) between the components.

  Conventions.
  \<^item> \<open>None\<close> is a C execution that does not survive: a failed \<open>assert\<close>, a null or
    dangling dereference, an index outside its array, a read of an uninitialised cell.
    Return codes and null results that the callers test are ordinary values.
  \<^item> A critical section (\<open>SPIN_LOCK\<close> to \<open>SPIN_UNLOCK\<close>, or under the rwlock) is one function
    of the state it protects; how sections of several threads interleave is the subject of
    the step relations.
  \<^item> Unsigned C integers whose wrap-around matters are words.
\<close>

unbundle bit_operations_syntax

type_synonym u8 = "8 word"
type_synonym u32 = "32 word"
type_synonym u64 = "64 word"

named_theorems mq_simps "unfolding rules of the message queue operations"
named_theorems mem_simps "checked memory access"

subsection \<open>Checked execution\<close>

definition c_assert :: "bool \<Rightarrow> unit option" where
  "c_assert b = (if b then Some () else None)"

definition rd :: "'a list \<Rightarrow> nat \<Rightarrow> 'a option" where
  "rd xs i = (if i < length xs then Some (xs ! i) else None)"

definition wr :: "'a list \<Rightarrow> nat \<Rightarrow> 'a \<Rightarrow> 'a list option" where
  "wr xs i x = (if i < length xs then Some (xs[i := x]) else None)"

lemma c_assert_simps [simp]: "c_assert True = Some ()" "c_assert False = None"
  by (simp_all add: c_assert_def)

lemma c_assert_bind_eq_Some [simp]:
  "(c_assert b \<bind> f) = Some y \<longleftrightarrow> b \<and> f () = Some y"
  by (simp add: c_assert_def)

lemma rd_in [simp]: "i < length xs \<Longrightarrow> rd xs i = Some (xs ! i)"
  by (simp add: rd_def)

lemma wr_in [simp]: "i < length xs \<Longrightarrow> wr xs i x = Some (xs[i := x])"
  by (simp add: wr_def)

lemma rd_eq_Some [mem_simps]: "rd xs i = Some x \<longleftrightarrow> i < length xs \<and> xs ! i = x"
  by (auto simp: rd_def)

lemma wr_eq_Some [mem_simps]: "wr xs i x = Some ys \<longleftrightarrow> i < length xs \<and> ys = xs[i := x]"
  by (auto simp: wr_def)

lemma set_clear:
  assumes "i < length xs" "xs ! i = Some c" "\<And>k. k < length xs \<Longrightarrow> k \<noteq> i \<Longrightarrow> xs ! k \<noteq> Some c"
  shows "set (xs[i := None]) - {None} = set xs - {None, Some c}"
proof (intro equalityI subsetI)
  fix x assume "x \<in> set (xs[i := None]) - {None}"
  then have "x \<in> set (xs[i := None])" "x \<noteq> None" by auto
  then obtain k where k: "k < length xs" "xs[i := None] ! k = x" "x \<noteq> None"
    by (metis in_set_conv_nth length_list_update)
  then have "k \<noteq> i" using assms(1) by auto
  with k have "k < length xs" "k \<noteq> i" "xs ! k = x" "x \<noteq> None" by auto
  with assms(3) [of k] nth_mem [of k xs] show "x \<in> set xs - {None, Some c}" by auto
next
  fix x assume "x \<in> set xs - {None, Some c}"
  then obtain k where k: "k < length xs" "xs ! k = x" "x \<noteq> None" "x \<noteq> Some c"
    by (auto simp: in_set_conv_nth)
  with assms(2) have "k \<noteq> i" by auto
  with k have "xs[i := None] ! k = x" "k < length (xs[i := None])" by auto
  with k(3) show "x \<in> set (xs[i := None]) - {None}" by (metis DiffI empty_iff insert_iff nth_mem)
qed

lemma u32_bound: "unat (x :: u32) < 2 ^ 32"
proof -
  have "unat x < 2 ^ LENGTH(32)" by (rule unsigned_less)
  then show ?thesis by simp
qed

subsection \<open>Ring indices\<close>

text \<open>\<open>if (++i >= cap) i = 0\<close>\<close>

definition ring_next :: "nat \<Rightarrow> nat \<Rightarrow> nat" where
  "ring_next c i = (if i + 1 \<ge> c then 0 else i + 1)"

lemma ring_next_less: "0 < c \<Longrightarrow> ring_next c i < c"
  by (auto simp: ring_next_def)

lemma ring_count_pos:
  "h < c \<Longrightarrow> t < c \<Longrightarrow> (t + c - h) mod c = (if h \<le> t then t - h else t + c - (h::nat))"
  by (auto simp: mod_if)

lemma ring_last: "h < c \<Longrightarrow> t < c \<Longrightarrow> (h + (t + c - h) mod c) mod c = (t::nat)"
  by (auto simp: ring_count_pos)

lemma ring_inj_le:
  "i \<le> j \<Longrightarrow> j < c \<Longrightarrow> (h + i) mod c = (h + j) mod c \<Longrightarrow> i = (j::nat)"
  using mod_eq_dvd_iff_nat [of "h + i" "h + j" c] by (auto dest!: dvd_imp_le)

lemma ring_inj: "i < c \<Longrightarrow> j < c \<Longrightarrow> (h + i) mod c = (h + j) mod c \<Longrightarrow> i = (j::nat)"
  by (metis nat_le_linear ring_inj_le)

lemma ring_next_mod: "h < c \<Longrightarrow> ring_next c h = Suc h mod c"
  by (auto simp: ring_next_def mod_if)

lemma ring_next_add: "h < c \<Longrightarrow> (ring_next c h + i) mod c = (h + Suc i) mod c"
  by (simp add: ring_next_mod mod_add_left_eq)

lemma ring_drop: "h < c \<Longrightarrow> t < c \<Longrightarrow> h \<noteq> t \<Longrightarrow>
    (t + c - ring_next c h) mod c = (t + c - h) mod c - 1"
  by (auto simp: ring_count_pos ring_next_def)

lemma ring_grow: "h < c \<Longrightarrow> t < c \<Longrightarrow> h \<noteq> ring_next c t \<Longrightarrow>
    (ring_next c t + c - h) mod c = Suc ((t + c - h) mod c)"
  by (auto simp: ring_count_pos ring_next_def)

lemma ring_full: "h < c \<Longrightarrow> t < c \<Longrightarrow> h = ring_next c t \<Longrightarrow> Suc ((t + c - h) mod c) = c"
  by (auto simp: ring_count_pos ring_next_def split: if_splits)

lemma option_eqI: "(\<And>c. x = Some c \<longleftrightarrow> y = Some c) \<Longrightarrow> x = y"
  by (metis not_None_eq)

lemma map_Some_the: "None \<notin> set xs \<Longrightarrow> map (Some \<circ> the) xs = xs"
  by (induction xs) auto

lemma those_Some [simp]: "those (map (\<lambda>i. Some (f i)) is) = Some (map f is)"
  by (induction "is") auto

subsection \<open>The interface of a first-in first-out queue\<close>

text \<open>
  What the dispatcher relies on: an enqueue and a dequeue that never fail in a state that
  satisfies the invariant and that act on the abstract list as append and head/tail.
\<close>

datatype 'm queue_op = Enq 'm | Deq

text \<open>What a list does on a sequence of operations: the answers of the dequeues, and what is left.\<close>

fun list_run :: "'m queue_op list \<Rightarrow> 'm list \<Rightarrow> 'm option list \<times> 'm list" where
  "list_run [] xs = ([], xs)"
| "list_run (Enq m # ops) xs = list_run ops (xs @ [m])"
| "list_run (Deq # ops) [] = (let (rs, ys) = list_run ops [] in (None # rs, ys))"
| "list_run (Deq # ops) (x # xs) = (let (rs, ys) = list_run ops xs in (Some x # rs, ys))"

locale bounded_fifo =
  fixes enq :: "'q \<Rightarrow> 'm \<Rightarrow> 'q option"
    and deq :: "'q \<Rightarrow> ('m option \<times> 'q) option"
    and contents :: "'q \<Rightarrow> 'm list"
    and ok :: "'q \<Rightarrow> bool"
    and fits :: "'q \<Rightarrow> 'm \<Rightarrow> bool"
  assumes enq_ok: "ok q \<Longrightarrow> fits q m \<Longrightarrow>
      \<exists>q'. enq q m = Some q' \<and> ok q' \<and> contents q' = contents q @ [m]"
    and deq_empty: "ok q \<Longrightarrow> contents q = [] \<Longrightarrow>
      \<exists>q'. deq q = Some (None, q') \<and> ok q' \<and> contents q' = []"
    and deq_cons: "ok q \<Longrightarrow> contents q = m # ms \<Longrightarrow>
      \<exists>q'. deq q = Some (Some m, q') \<and> ok q' \<and> contents q' = ms"
begin

primrec deq_n :: "nat \<Rightarrow> 'q \<Rightarrow> ('m list \<times> 'q) option" where
  "deq_n 0 q = Some ([], q)"
| "deq_n (Suc n) q = deq q \<bind> (\<lambda>(r, q').
     case r of None \<Rightarrow> Some ([], q')
     | Some m \<Rightarrow> deq_n n q' \<bind> (\<lambda>(ms, q''). Some (m # ms, q'')))"

lemma deq_n_ok:
  "ok q \<Longrightarrow> \<exists>q'. deq_n n q = Some (take n (contents q), q') \<and> ok q'
     \<and> contents q' = drop n (contents q)"
proof (induction n arbitrary: q)
  case (Suc n)
  show ?case
  proof (cases "contents q")
    case Nil
    from deq_empty [OF Suc.prems Nil] show ?thesis using Nil by auto
  next
    case (Cons m ms)
    obtain q1 where q1: "deq q = Some (Some m, q1)" "ok q1" "contents q1 = ms"
      using deq_cons [OF Suc.prems Cons] by blast
    from Suc.IH [OF q1(2)] q1 Cons show ?thesis by auto
  qed
qed auto

lemma deq_result:
  assumes "ok q"
  obtains q' where "contents q = []" "deq q = Some (None, q')" "ok q'" "contents q' = []"
    | m ms q' where "contents q = m # ms" "deq q = Some (Some m, q')" "ok q'" "contents q' = ms"
  using deq_empty [OF assms] deq_cons [OF assms] by (cases "contents q") blast+

end

locale fifo = bounded_fifo +
  assumes fits_always: "ok q \<Longrightarrow> fits q m"
begin

primrec enq_all :: "'a \<Rightarrow> 'b list \<Rightarrow> 'a option" where
  "enq_all q [] = Some q"
| "enq_all q (m # ms) = enq q m \<bind> (\<lambda>q'. enq_all q' ms)"

lemma enq_all_ok:
  "ok q \<Longrightarrow> \<exists>q'. enq_all q ms = Some q' \<and> ok q' \<and> contents q' = contents q @ ms"
proof (induction ms arbitrary: q)
  case (Cons m ms)
  obtain q1 where q1: "enq q m = Some q1" "ok q1" "contents q1 = contents q @ [m]"
    using enq_ok [OF Cons.prems fits_always [OF Cons.prems]] by blast
  from Cons.IH [OF q1(2)] q1 show ?case by auto
qed auto

fun run :: "'b queue_op list \<Rightarrow> 'a \<Rightarrow> ('b option list \<times> 'a) option" where
  "run [] q = Some ([], q)"
| "run (Enq m # ops) q = enq q m \<bind> run ops"
| "run (Deq # ops) q = deq q \<bind> (\<lambda>(r, q'). run ops q' \<bind> (\<lambda>(rs, q''). Some (r # rs, q'')))"

lemma run_ok:
  "ok q \<Longrightarrow> \<exists>q'. run ops q = Some (fst (list_run ops (contents q)), q') \<and> ok q' \<and>
     contents q' = snd (list_run ops (contents q))"
proof (induction ops arbitrary: q)
  case (Cons oper ops)
  show ?case
  proof (cases oper)
    case (Enq m)
    obtain q1 where "enq q m = Some q1" "ok q1" "contents q1 = contents q @ [m]"
      using enq_ok [OF Cons.prems fits_always [OF Cons.prems]] by blast
    with Cons.IH [of q1] Enq show ?thesis by auto
  next
    case Deq
    show ?thesis
    proof (rule deq_result [OF Cons.prems])
      fix q1 assume q1: "contents q = []" "deq q = Some (None, q1)" "ok q1" "contents q1 = []"
      from Cons.IH [OF q1(3)] q1 Deq show ?thesis by (auto simp: split_beta)
    next
      fix m ms q1 assume q1: "contents q = m # ms" "deq q = Some (Some m, q1)" "ok q1" "contents q1 = ms"
      from Cons.IH [OF q1(3)] q1 Deq show ?thesis by (auto simp: split_beta)
    qed
  qed
qed auto

lemma fifo_order:
  assumes "ok q"
  shows "\<exists>q1 q2. enq_all q ms = Some q1
    \<and> deq_n (length (contents q) + length ms) q1 = Some (contents q @ ms, q2) \<and> contents q2 = []"
proof -
  obtain q1 where q1: "enq_all q ms = Some q1" "ok q1" "contents q1 = contents q @ ms"
    using enq_all_ok [OF assms] by blast
  from deq_n_ok [OF q1(2), of "length (contents q) + length ms"] q1 show ?thesis by auto
qed

end

subsection \<open>The interface of a table that allocates\<close>

text \<open>
  The handle table and the connection table of the gate have one contract: adding an entry
  binds a key that was free to a value that was free, removing unbinds exactly one key, and
  nothing else changes. Either the key (a handle) or the value (a slot index) is what the
  table chooses.
\<close>

locale id_table =
  fixes find :: "'s \<Rightarrow> 'k \<Rightarrow> 'v option"
    and add :: "'s \<Rightarrow> 'x \<Rightarrow> (('k \<times> 'v) \<times> 's) option"
    and del :: "'s \<Rightarrow> 'k \<Rightarrow> ('v option \<times> 's) option"
    and ok :: "'s \<Rightarrow> bool"
    and room :: "'s \<Rightarrow> 'x \<Rightarrow> bool"
  assumes add_ok: "ok s \<Longrightarrow> room s x \<Longrightarrow> \<exists>k v s'. add s x = Some ((k, v), s') \<and> ok s' \<and>
      find s k = None \<and> v \<notin> ran (find s) \<and> find s' = (find s)(k \<mapsto> v)"
    and del_ok: "ok s \<Longrightarrow> \<exists>s'. del s k = Some (find s k, s') \<and> ok s' \<and> find s' = (find s)(k := None)"
    and find_inj: "ok s \<Longrightarrow> find s k = Some v \<Longrightarrow> find s k' = Some v \<Longrightarrow> k = k'"
begin

lemma add_then_del:
  assumes "ok s" "room s x"
  shows "\<exists>k v s1 s2. add s x = Some ((k, v), s1) \<and> find s1 k = Some v \<and>
    del s1 k = Some (Some v, s2) \<and> ok s2 \<and> find s2 = find s"
proof -
  obtain k v s1 where add: "add s x = Some ((k, v), s1)" "ok s1" "find s k = None"
    "find s1 = (find s)(k \<mapsto> v)" using add_ok [OF assms] by blast
  obtain s2 where del: "del s1 k = Some (find s1 k, s2)" "ok s2" "find s2 = (find s1)(k := None)"
    using del_ok [OF add(2)] by blast
  have "find s2 = find s" using add(3,4) del(3) by (auto simp: fun_eq_iff)
  with add del show ?thesis by auto
qed

lemma add_keeps_others:
  assumes "ok s" "room s x" "find s k = Some v"
  shows "\<exists>k' v' s'. add s x = Some ((k', v'), s') \<and> k' \<noteq> k \<and> v' \<noteq> v \<and> find s' k = Some v"
proof -
  obtain k' v' s' where add: "add s x = Some ((k', v'), s')" "find s k' = None" "v' \<notin> ran (find s)"
    "find s' = (find s)(k' \<mapsto> v')" using add_ok [OF assms(1,2)] by blast
  with assms(3) show ?thesis by (auto simp: ran_def)
qed

lemma del_twice: "ok s \<Longrightarrow> \<exists>s1 s2. del s k = Some (find s k, s1) \<and> del s1 k = Some (None, s2) \<and> find s2 = find s1"
  using del_ok [of s k] del_ok [of _ k] by (metis fun_upd_same fun_upd_upd)

end

subsection \<open>The interface of a stream of bytes\<close>

text \<open>
  The buffers of received data have one contract: chunks are added behind, and any number of
  bytes that is there can be taken from the front. The abstraction is a relation \<open>rep\<close> between
  a state and the bytes it holds; \<open>fits\<close> says how much a buffer can hold.
\<close>

primrec pieces :: "nat list \<Rightarrow> 'b list \<Rightarrow> 'b list list" where
  "pieces [] bs = []"
| "pieces (n # ns) bs = take n bs # pieces ns (drop n bs)"

lemma pieces_concat: "pieces (map length xs) (concat xs @ ys) = xs"
  by (induction xs) auto

locale byte_stream =
  fixes push :: "'s \<Rightarrow> 'b list \<Rightarrow> 's option"
    and pop :: "'s \<Rightarrow> nat \<Rightarrow> ('b list \<times> 's) option"
    and rep :: "'s \<Rightarrow> 'b list \<Rightarrow> bool"
    and fits :: "'b list \<Rightarrow> bool"
  assumes push_ok: "rep s bs \<Longrightarrow> c \<noteq> [] \<Longrightarrow> fits (bs @ c) \<Longrightarrow> \<exists>s'. push s c = Some s' \<and> rep s' (bs @ c)"
    and pop_ok: "rep s bs \<Longrightarrow> 0 < n \<Longrightarrow> n \<le> length bs \<Longrightarrow> \<exists>s'. pop s n = Some (take n bs, s') \<and> rep s' (drop n bs)"
    and fits_prefix: "fits (xs @ ys) \<Longrightarrow> fits xs"
begin

primrec push_all :: "'s \<Rightarrow> 'b list list \<Rightarrow> 's option" where
  "push_all s [] = Some s"
| "push_all s (c # cs) = push s c \<bind> (\<lambda>s'. push_all s' cs)"

primrec pop_all :: "'s \<Rightarrow> nat list \<Rightarrow> ('b list list \<times> 's) option" where
  "pop_all s [] = Some ([], s)"
| "pop_all s (n # ns) = pop s n \<bind> (\<lambda>(x, s'). pop_all s' ns \<bind> (\<lambda>(xs, s''). Some (x # xs, s'')))"

lemma push_all_ok:
  "rep s bs \<Longrightarrow> [] \<notin> set cs \<Longrightarrow> fits (bs @ concat cs) \<Longrightarrow> \<exists>s'. push_all s cs = Some s' \<and> rep s' (bs @ concat cs)"
proof (induction cs arbitrary: s bs)
  case (Cons c cs)
  have "fits ((bs @ c) @ concat cs)" using Cons.prems(3) by simp
  then have "fits (bs @ c)" by (rule fits_prefix)
  moreover have "c \<noteq> []" using Cons.prems(2) by auto
  ultimately obtain s1 where "push s c = Some s1" "rep s1 (bs @ c)"
    using push_ok [OF Cons.prems(1)] by blast
  with Cons.IH [of s1 "bs @ c"] Cons.prems(2,3) show ?case by auto
qed auto

lemma pop_all_ok:
  "rep s bs \<Longrightarrow> 0 \<notin> set ns \<Longrightarrow> sum_list ns \<le> length bs \<Longrightarrow>
   \<exists>s'. pop_all s ns = Some (pieces ns bs, s') \<and> rep s' (drop (sum_list ns) bs)"
proof (induction ns arbitrary: s bs)
  case (Cons n ns)
  from pop_ok [OF Cons.prems(1), of n] Cons.prems(2,3) obtain s1 where
    "pop s n = Some (take n bs, s1)" "rep s1 (drop n bs)" by auto
  moreover have "sum_list ns \<le> length (drop n bs)" using Cons.prems(3) by simp
  ultimately show ?case using Cons.IH [of s1 "drop n bs"] Cons.prems(2) by (auto simp: add.commute)
qed auto

text \<open>However the data was cut into chunks, reading by the sizes of its parts gives the parts.\<close>

lemma reads_parts:
  assumes "rep s []" "[] \<notin> set cs" "[] \<notin> set xs" "fits (concat cs)" "concat cs = concat xs @ rest"
  shows "\<exists>s1 s2. push_all s cs = Some s1 \<and> pop_all s1 (map length xs) = Some (xs, s2) \<and> rep s2 rest"
proof -
  obtain s1 where s1: "push_all s cs = Some s1" "rep s1 (concat xs @ rest)"
    using push_all_ok [OF assms(1,2)] assms(4,5) by auto
  have "sum_list (map length xs) = length (concat xs)" by (simp add: length_concat)
  then have "sum_list (map length xs) \<le> length (concat xs @ rest)" "drop (sum_list (map length xs)) (concat xs @ rest) = rest" by simp_all
  moreover have "0 \<notin> set (map length xs)" using assms(3) by auto
  ultimately obtain s2 where "pop_all s1 (map length xs) = Some (xs, s2)" "rep s2 rest"
    using pop_all_ok [OF s1(2), of "map length xs"] pieces_concat [of xs rest] by auto
  with s1 show ?thesis by blast
qed

end

end
