(* ===== verification/Message_Queue.thy ===== *)
theory Message_Queue
  imports Skynet_Prelude
begin

text \<open>
  The message queue of a service and the global queue of queues:
  \<^verbatim>\<open>skynet-src/skynet_mq.c\<close>. A \<open>message_queue\<close> is a growing ring buffer; the global queue is a
  singly linked list of message queues threaded through their \<open>next\<close> fields, so both
  live in a heap that maps addresses to message queues.
\<close>

subsection \<open>Data\<close>

type_synonym qptr = nat

text \<open>
  What a \<open>void *\<close> payload points to: nothing, raw bytes, the \<open>remote_message\<close> of
  \<^verbatim>\<open>skynet_harbor.h\<close> (name and handle of the destination, payload, size, type), or the
  \<open>skynet_socket_message\<close> of \<^verbatim>\<open>skynet_socket.h\<close> (type, id, ud, buffer, and the bytes after
  the struct).
\<close>

datatype payload =
    PNull
  | PBytes "u8 list"
  | PRemote string u32 payload u64 int
  | PSocket int int int payload "u8 list"

record skynet_message =
  msg_source :: u32
  msg_session :: int
  msg_data :: payload
  msg_sz :: u64

text \<open>The type of a message is in the high 8 bits of its size.\<close>

definition MESSAGE_TYPE_SHIFT :: nat where "MESSAGE_TYPE_SHIFT = 56"
definition MESSAGE_TYPE_MASK :: u64 where "MESSAGE_TYPE_MASK = drop_bit 8 (-1)"

definition PTYPE_TEXT :: int where "PTYPE_TEXT = 0"
definition PTYPE_RESPONSE :: int where "PTYPE_RESPONSE = 1"
definition PTYPE_CLIENT :: int where "PTYPE_CLIENT = 3"
definition PTYPE_SYSTEM :: int where "PTYPE_SYSTEM = 4"
definition PTYPE_HARBOR :: int where "PTYPE_HARBOR = 5"
definition PTYPE_SOCKET :: int where "PTYPE_SOCKET = 6"
definition PTYPE_ERROR :: int where "PTYPE_ERROR = 7"

definition typed_sz :: "int \<Rightarrow> u64" where
  "typed_sz ty = push_bit MESSAGE_TYPE_SHIFT (of_int ty)"

definition DEFAULT_QUEUE_SIZE :: nat where "DEFAULT_QUEUE_SIZE = 64"
definition MQ_IN_GLOBAL :: nat where "MQ_IN_GLOBAL = 1"
definition MQ_OVERLOAD :: nat where "MQ_OVERLOAD = 1024"

text \<open>The \<open>queue\<close> array is fresh memory: a cell that was never written is \<open>None\<close>.\<close>

record 'm message_queue =
  q_handle :: u32
  q_cap :: nat
  q_head :: nat
  q_tail :: nat
  q_release :: nat
  q_in_global :: nat
  q_overload :: nat
  q_threshold :: nat
  q_cells :: "'m option list"
  q_next :: "qptr option"

record 'm global_queue =
  queues :: "qptr \<Rightarrow> 'm message_queue option"
  ghead :: "qptr option"
  gtail :: "qptr option"

subsection \<open>One queue\<close>

definition mq_new :: "u32 \<Rightarrow> 'm message_queue" where
  "mq_new h = \<lparr>q_handle = h, q_cap = DEFAULT_QUEUE_SIZE, q_head = 0, q_tail = 0, q_release = 0,
     q_in_global = MQ_IN_GLOBAL, q_overload = 0, q_threshold = MQ_OVERLOAD,
     q_cells = replicate DEFAULT_QUEUE_SIZE None, q_next = None\<rparr>"

definition skynet_mq_length :: "'m message_queue \<Rightarrow> int" where
  "skynet_mq_length q =
     (if q_head q \<le> q_tail q then int (q_tail q) - int (q_head q)
      else int (q_tail q) + int (q_cap q) - int (q_head q))"

definition skynet_mq_overload :: "'m message_queue \<Rightarrow> nat \<times> 'm message_queue" where
  "skynet_mq_overload q =
     (if q_overload q \<noteq> 0 then (q_overload q, q\<lparr>q_overload := 0\<rparr>) else (0, q))"

text \<open>The loop \<open>while (length > overload_threshold)\<close> of \<open>skynet_mq_pop\<close>.\<close>

partial_function (option) overload_loop ::
    "nat \<Rightarrow> 'm message_queue \<Rightarrow> 'm message_queue option" where
  "overload_loop len q =
     (if len > q_threshold q
      then overload_loop len
             (q\<lparr>q_overload := len, q_threshold := q_threshold q * 2\<rparr>)
      else Some q)"

definition mq_pop_length :: "nat \<Rightarrow> nat \<Rightarrow> nat \<Rightarrow> nat" where
  "mq_pop_length h t c =
     (let len = int t - int h in nat (if len < 0 then len + int c else len))"

definition skynet_mq_pop :: "'m message_queue \<Rightarrow> ('m option \<times> 'm message_queue) option" where
  "skynet_mq_pop q =
     (if q_head q \<noteq> q_tail q then do {
        cell \<leftarrow> rd (q_cells q) (q_head q);
        message \<leftarrow> cell;
        let h2 = ring_next (q_cap q) (q_head q);
        let len = mq_pop_length h2 (q_tail q) (q_cap q);
        q2 \<leftarrow> overload_loop len (q\<lparr>q_head := h2\<rparr>);
        Some (Some message, q2)
      } else Some (None, q\<lparr>q_threshold := MQ_OVERLOAD, q_in_global := 0\<rparr>))"

text \<open>The copy loop of \<open>expand_queue\<close> and the update of the indices.\<close>

definition expand_queue :: "'m message_queue \<Rightarrow> 'm message_queue option" where
  "expand_queue q = do {
     cells \<leftarrow> those (map (\<lambda>i. rd (q_cells q) ((q_head q + i) mod q_cap q)) [0..<q_cap q]);
     Some (q\<lparr>q_cells := cells @ replicate (q_cap q) None, q_head := 0, q_tail := q_cap q,
             q_cap := q_cap q * 2\<rparr>)
   }"

text \<open>The part of \<open>skynet_mq_push\<close> that only touches the queue itself.\<close>

definition mq_store :: "'m message_queue \<Rightarrow> 'm \<Rightarrow> 'm message_queue option" where
  "mq_store q m = do {
     cells \<leftarrow> wr (q_cells q) (q_tail q) (Some m);
     let q1 = q\<lparr>q_cells := cells, q_tail := ring_next (q_cap q) (q_tail q)\<rparr>;
     (if q_head q1 = q_tail q1 then expand_queue q1 else Some q1)
   }"

subsection \<open>The ring buffer as a list\<close>

definition mq_count :: "'m message_queue \<Rightarrow> nat" where
  "mq_count q = (q_tail q + q_cap q - q_head q) mod q_cap q"

definition mq_cell :: "'m message_queue \<Rightarrow> nat \<Rightarrow> 'm option" where
  "mq_cell q i = q_cells q ! ((q_head q + i) mod q_cap q)"

definition mq_contents :: "'m message_queue \<Rightarrow> 'm list" where
  "mq_contents q = map (\<lambda>i. the (mq_cell q i)) [0..<mq_count q]"

definition mq_inv :: "'m message_queue \<Rightarrow> bool" where
  "mq_inv q \<longleftrightarrow> 0 < q_cap q \<and> length (q_cells q) = q_cap q \<and> q_head q < q_cap q \<and>
     q_tail q < q_cap q \<and> 0 < q_threshold q \<and> (\<forall>i<mq_count q. mq_cell q i \<noteq> None)"

lemma mq_inv_new: "mq_inv (mq_new h)"
  by (simp add: mq_inv_def mq_new_def mq_count_def DEFAULT_QUEUE_SIZE_def MQ_OVERLOAD_def)

lemma mq_contents_new: "mq_contents (mq_new h) = []"
  by (simp add: mq_contents_def mq_new_def mq_count_def DEFAULT_QUEUE_SIZE_def)

lemma mq_count_less: "mq_inv q \<Longrightarrow> mq_count q < q_cap q"
  by (simp add: mq_inv_def mq_count_def)

lemma length_mq_contents [simp]: "length (mq_contents q) = mq_count q"
  by (simp add: mq_contents_def)

lemma mq_empty_iff: "mq_inv q \<Longrightarrow> q_head q = q_tail q \<longleftrightarrow> mq_contents q = []"
  by (auto simp: mq_inv_def mq_contents_def mq_count_def ring_count_pos split: if_splits)

text \<open>Only the four ring fields matter for the contents.\<close>

lemma mq_frame [simp]:
  "mq_count (q\<lparr>q_in_global := x\<rparr>) = mq_count q"
  "mq_count (q\<lparr>q_release := x\<rparr>) = mq_count q"
  "mq_count (q\<lparr>q_overload := x\<rparr>) = mq_count q"
  "mq_count (q\<lparr>q_threshold := x\<rparr>) = mq_count q"
  "mq_count (q\<lparr>q_next := y\<rparr>) = mq_count q"
  "mq_cell (q\<lparr>q_in_global := x\<rparr>) = mq_cell q"
  "mq_cell (q\<lparr>q_release := x\<rparr>) = mq_cell q"
  "mq_cell (q\<lparr>q_overload := x\<rparr>) = mq_cell q"
  "mq_cell (q\<lparr>q_threshold := x\<rparr>) = mq_cell q"
  "mq_cell (q\<lparr>q_next := y\<rparr>) = mq_cell q"
  by (auto simp: mq_count_def mq_cell_def)

lemma mq_inv_frame [simp]:
  "mq_inv (q\<lparr>q_in_global := x\<rparr>) = mq_inv q"
  "mq_inv (q\<lparr>q_release := x\<rparr>) = mq_inv q"
  "mq_inv (q\<lparr>q_overload := x\<rparr>) = mq_inv q"
  "mq_inv (q\<lparr>q_next := y\<rparr>) = mq_inv q"
  "mq_contents (q\<lparr>q_in_global := x\<rparr>) = mq_contents q"
  "mq_contents (q\<lparr>q_release := x\<rparr>) = mq_contents q"
  "mq_contents (q\<lparr>q_overload := x\<rparr>) = mq_contents q"
  "mq_contents (q\<lparr>q_threshold := x\<rparr>) = mq_contents q"
  "mq_contents (q\<lparr>q_next := y\<rparr>) = mq_contents q"
  by (auto simp: mq_inv_def mq_contents_def)

subsection \<open>The overload loop\<close>

lemma overload_loop_ok:
  "0 < q_threshold q \<Longrightarrow> \<exists>n. len \<le> n \<and> q_threshold q \<le> n \<and> overload_loop len q =
     Some (q\<lparr>q_overload := (if len > q_threshold q then len else q_overload q), q_threshold := n\<rparr>)"
proof (induction "len - q_threshold q" arbitrary: q rule: less_induct)
  case less
  show ?case
  proof (cases "len > q_threshold q")
    case True
    let ?q1 = "q\<lparr>q_overload := len, q_threshold := q_threshold q * 2\<rparr>"
    have q1: "0 < q_threshold ?q1" "len - q_threshold ?q1 < len - q_threshold q"
      using less.prems True by simp_all
    have "overload_loop len q = overload_loop len ?q1"
      using True by (simp add: overload_loop.simps [of len q])
    with less.hyps [OF q1(2,1)] True show ?thesis by auto
  next
    case False
    then have "overload_loop len q = Some q" by (simp add: overload_loop.simps [of len q])
    with False show ?thesis by (intro exI [of _ "q_threshold q"]) auto
  qed
qed

subsection \<open>Pop, push and expansion on the list\<close>

lemma mq_pop_length_eq:
  "h < c \<Longrightarrow> t < c \<Longrightarrow> mq_pop_length h t c = (t + c - h) mod c"
  by (auto simp: mq_pop_length_def ring_count_pos)

lemma skynet_mq_length_eq: "mq_inv q \<Longrightarrow> skynet_mq_length q = int (length (mq_contents q))"
  by (auto simp: skynet_mq_length_def mq_inv_def mq_count_def ring_count_pos)

lemma skynet_mq_pop_empty:
  assumes "mq_inv q" "mq_contents q = []"
  shows "skynet_mq_pop q = Some (None, q\<lparr>q_threshold := MQ_OVERLOAD, q_in_global := 0\<rparr>)"
  using assms mq_empty_iff [OF assms(1)] by (simp add: skynet_mq_pop_def)

lemma mq_inv_threshold: "mq_inv q \<Longrightarrow> 0 < n \<Longrightarrow> mq_inv (q\<lparr>q_threshold := n\<rparr>)"
  by (simp add: mq_inv_def)

lemma mq_advance:
  assumes inv: "mq_inv q" and c: "mq_contents q = m # ms"
  defines "h2 \<equiv> ring_next (q_cap q) (q_head q)"
  shows "mq_inv (q\<lparr>q_head := h2\<rparr>)" "mq_contents (q\<lparr>q_head := h2\<rparr>) = ms"
    "q_cells q ! q_head q = Some m" "mq_pop_length h2 (q_tail q) (q_cap q) = length ms"
proof -
  have ne: "q_head q \<noteq> q_tail q" using c mq_empty_iff [OF inv] by auto
  have b: "q_head q < q_cap q" "q_tail q < q_cap q" "0 < q_cap q"
    using inv by (auto simp: mq_inv_def)
  have h2: "h2 < q_cap q" using b by (simp add: h2_def ring_next_less)
  have cnt: "mq_count (q\<lparr>q_head := h2\<rparr>) = mq_count q - 1"
    using ring_drop [OF b(1,2) ne] by (simp add: mq_count_def h2_def)
  have cell: "mq_cell (q\<lparr>q_head := h2\<rparr>) i = mq_cell q (Suc i)" for i
    using ring_next_add [OF b(1), of i] by (simp add: mq_cell_def h2_def)
  have len: "mq_count q = Suc (length ms)"
    using c length_mq_contents [of q] by simp
  show "mq_inv (q\<lparr>q_head := h2\<rparr>)"
    using inv h2 len by (simp add: mq_inv_def cnt cell)
  have "mq_contents q = the (mq_cell q 0) # map (\<lambda>i. the (mq_cell q (Suc i))) [0..<length ms]"
    by (simp add: mq_contents_def len upt_conv_Cons map_Suc_upt [symmetric] del: upt_Suc)
  with c have m: "the (mq_cell q 0) = m"
    and ms: "map (\<lambda>i. the (mq_cell q (Suc i))) [0..<length ms] = ms" by auto
  show "mq_contents (q\<lparr>q_head := h2\<rparr>) = ms"
    using ms len by (simp add: mq_contents_def cnt cell)
  have "mq_cell q 0 \<noteq> None" using inv len by (simp add: mq_inv_def)
  with m b show "q_cells q ! q_head q = Some m" by (auto simp: mq_cell_def)
  show "mq_pop_length h2 (q_tail q) (q_cap q) = length ms"
    using cnt len by (simp add: mq_pop_length_eq [OF h2 b(2)] mq_count_def)
qed

lemma skynet_mq_pop_cons:
  assumes inv: "mq_inv q" and c: "mq_contents q = m # ms"
  shows "\<exists>q'. skynet_mq_pop q = Some (Some m, q') \<and> mq_inv q' \<and> mq_contents q' = ms \<and>
    length ms \<le> q_threshold q' \<and>
    q_overload q' = (if length ms > q_threshold q then length ms else q_overload q) \<and>
    q_in_global q' = q_in_global q \<and> q_release q' = q_release q \<and> q_next q' = q_next q \<and>
    q_handle q' = q_handle q"
proof -
  define h2 where "h2 = ring_next (q_cap q) (q_head q)"
  note adv = mq_advance [OF inv c, folded h2_def]
  have ne: "q_head q \<noteq> q_tail q" using c mq_empty_iff [OF inv] by auto
  have hb: "q_head q < length (q_cells q)" and thr: "0 < q_threshold q"
    using inv by (auto simp: mq_inv_def)
  obtain n where n: "length ms \<le> n" "q_threshold q \<le> n"
    "overload_loop (length ms) (q\<lparr>q_head := h2\<rparr>) = Some (q\<lparr>q_head := h2, q_overload :=
        (if length ms > q_threshold q then length ms else q_overload q), q_threshold := n\<rparr>)"
    using overload_loop_ok [of "q\<lparr>q_head := h2\<rparr>" "length ms"] thr by auto
  have "skynet_mq_pop q = Some (Some m, q\<lparr>q_head := h2, q_overload :=
        (if length ms > q_threshold q then length ms else q_overload q), q_threshold := n\<rparr>)"
    using ne hb adv(3,4) n(3) by (simp add: skynet_mq_pop_def h2_def [symmetric] Let_def)
  with adv(1,2) n(1,2) thr show ?thesis by (simp add: mq_inv_threshold)
qed

lemma expand_queue_ok:
  assumes inv: "0 < q_cap q" "length (q_cells q) = q_cap q"
    and live: "\<forall>i<q_cap q. mq_cell q i \<noteq> None" and thr: "0 < q_threshold q"
  shows "\<exists>q'. expand_queue q = Some q' \<and> mq_inv q' \<and> q_cap q' = 2 * q_cap q \<and>
    mq_contents q' = map (\<lambda>i. the (mq_cell q i)) [0..<q_cap q]"
proof -
  let ?cells = "map (mq_cell q) [0..<q_cap q]"
  let ?q' = "q\<lparr>q_cells := ?cells @ replicate (q_cap q) None, q_head := 0, q_tail := q_cap q,
      q_cap := q_cap q * 2\<rparr>"
  have rds: "map (\<lambda>i. rd (q_cells q) ((q_head q + i) mod q_cap q)) [0..<q_cap q]
      = map (\<lambda>i. Some (mq_cell q i)) [0..<q_cap q]"
    using inv by (simp add: mq_cell_def)
  have ex: "expand_queue q = Some ?q'"
    by (simp add: expand_queue_def rds)
  have cnt: "mq_count ?q' = q_cap q" using inv by (simp add: mq_count_def)
  have cell: "mq_cell ?q' i = mq_cell q i" if "i < q_cap q" for i
    using that by (simp add: mq_cell_def nth_append)
  have "mq_inv ?q'" using inv live thr by (simp add: mq_inv_def cnt cell)
  moreover have "mq_contents ?q' = map (\<lambda>i. the (mq_cell q i)) [0..<q_cap q]"
    by (simp add: mq_contents_def cnt cell)
  ultimately show ?thesis using ex by simp
qed

text \<open>Writing the tail cell appends one element to the ring.\<close>

lemma mq_cell_store:
  assumes inv: "mq_inv q" and i: "i \<le> mq_count q"
    and q1: "q1 = q\<lparr>q_cells := (q_cells q)[q_tail q := Some m], q_tail := t\<rparr>"
  shows "mq_cell q1 i = (if i = mq_count q then Some m else mq_cell q i)"
proof -
  have b: "q_head q < q_cap q" "q_tail q < q_cap q" "length (q_cells q) = q_cap q"
    using inv by (auto simp: mq_inv_def)
  have last: "(q_head q + mq_count q) mod q_cap q = q_tail q"
    using ring_last [OF b(1,2)] by (simp add: mq_count_def)
  have "(q_head q + i) mod q_cap q \<noteq> q_tail q" if "i < mq_count q"
    using ring_inj [of i "q_cap q" "mq_count q" "q_head q"] that last mq_count_less [OF inv] by auto
  with i last b show ?thesis
    by (cases "i = mq_count q") (auto simp: q1 mq_cell_def)
qed

lemma mq_store_ok:
  assumes inv: "mq_inv q"
  shows "\<exists>q'. mq_store q m = Some q' \<and> mq_inv q' \<and> mq_contents q' = mq_contents q @ [m]"
proof -
  define q1 where "q1 = q\<lparr>q_cells := (q_cells q)[q_tail q := Some m],
      q_tail := ring_next (q_cap q) (q_tail q)\<rparr>"
  have b: "0 < q_cap q" "q_head q < q_cap q" "q_tail q < q_cap q" "length (q_cells q) = q_cap q"
    "0 < q_threshold q" "\<forall>i<mq_count q. mq_cell q i \<noteq> None"
    using inv by (auto simp: mq_inv_def)
  note cell = mq_cell_store [OF inv _ q1_def]
  have store: "mq_store q m = (if q_head q1 = q_tail q1 then expand_queue q1 else Some q1)"
    using b by (simp add: mq_store_def q1_def Let_def)
  have cs: "map (\<lambda>i. the (mq_cell q1 i)) [0..<Suc (mq_count q)] = mq_contents q @ [m]"
    by (simp add: mq_contents_def cell)
  show ?thesis
  proof (cases "q_head q1 = q_tail q1")
    case True
    then have full: "Suc (mq_count q) = q_cap q1"
      using ring_full [OF b(2,3)] by (simp add: q1_def mq_count_def)
    have live: "\<forall>i<q_cap q1. mq_cell q1 i \<noteq> None"
      using b(6) by (auto simp: full [symmetric] cell)
    have "0 < q_cap q1" "length (q_cells q1) = q_cap q1" "0 < q_threshold q1"
      using b by (simp_all add: q1_def)
    from expand_queue_ok [OF this(1,2) live this(3)] True store full cs show ?thesis by auto
  next
    case False
    then have cnt: "mq_count q1 = Suc (mq_count q)"
      using ring_grow [OF b(2,3)] by (simp add: q1_def mq_count_def)
    have "mq_inv q1"
      using b ring_next_less [OF b(1)] by (auto simp: mq_inv_def cnt cell) (auto simp: q1_def)
    then show ?thesis using False store cs by (auto simp: mq_contents_def cnt)
  qed
qed

lemma expand_queue_frame:
  assumes "expand_queue q = Some q'"
  obtains cs t c where "q' = q\<lparr>q_cells := cs, q_head := 0, q_tail := t, q_cap := c\<rparr>"
  using assms unfolding expand_queue_def bind_eq_Some_conv by blast

lemma mq_store_frame:
  assumes "mq_store q m = Some q'"
  shows "q_in_global q' = q_in_global q \<and> q_release q' = q_release q \<and> q_next q' = q_next q \<and>
    q_handle q' = q_handle q \<and> q_threshold q' = q_threshold q \<and> q_overload q' = q_overload q"
proof -
  obtain cs where cs: "(let q1 = q\<lparr>q_cells := cs, q_tail := ring_next (q_cap q) (q_tail q)\<rparr>
      in if q_head q1 = q_tail q1 then expand_queue q1 else Some q1) = Some q'"
    using assms unfolding mq_store_def bind_eq_Some_conv by blast
  define q1 where "q1 = q\<lparr>q_cells := cs, q_tail := ring_next (q_cap q) (q_tail q)\<rparr>"
  have "expand_queue q1 = Some q' \<or> q1 = q'"
    using cs unfolding Let_def q1_def [symmetric] by (cases "q_head q1 = q_tail q1") simp_all
  then show ?thesis
  proof
    assume "expand_queue q1 = Some q'"
    then show ?thesis by (rule expand_queue_frame) (simp add: q1_def)
  next
    assume "q1 = q'"
    from this [symmetric] show ?thesis by (simp add: q1_def)
  qed
qed

lemma mq_empty_result: "mq_inv q \<Longrightarrow> mq_contents q = [] \<Longrightarrow>
    \<exists>q'. skynet_mq_pop q = Some (None, q') \<and> mq_inv q' \<and> mq_contents q' = []"
  by (simp add: skynet_mq_pop_empty mq_inv_threshold MQ_OVERLOAD_def)

lemma mq_cons_result: "mq_inv q \<Longrightarrow> mq_contents q = m # ms \<Longrightarrow>
    \<exists>q'. skynet_mq_pop q = Some (Some m, q') \<and> mq_inv q' \<and> mq_contents q' = ms"
  by (drule (1) skynet_mq_pop_cons) auto

interpretation mq: fifo mq_store skynet_mq_pop mq_contents mq_inv "\<lambda>_ _. True"
  by unfold_locales (assumption | rule TrueI mq_store_ok mq_empty_result mq_cons_result)+

subsection \<open>The heap of queues and the global queue\<close>

definition skynet_mq_init :: "'m global_queue" where
  "skynet_mq_init = \<lparr>queues = Map.empty, ghead = None, gtail = None\<rparr>"

definition set_next :: "'m global_queue \<Rightarrow> qptr \<Rightarrow> qptr option \<Rightarrow> 'm global_queue option" where
  "set_next g p r = do {
     q \<leftarrow> queues g p;
     Some (g\<lparr>queues := (queues g)(p \<mapsto> q\<lparr>q_next := r\<rparr>)\<rparr>)
   }"

definition skynet_globalmq_push :: "'m global_queue \<Rightarrow> qptr \<Rightarrow> 'm global_queue option" where
  "skynet_globalmq_push g p = do {
     q \<leftarrow> queues g p;
     c_assert (q_next q = None);
     (case gtail g of
        Some t \<Rightarrow> do {
          g1 \<leftarrow> set_next g t (Some p);
          Some (g1\<lparr>gtail := Some p\<rparr>)
        }
      | None \<Rightarrow> Some (g\<lparr>ghead := Some p, gtail := Some p\<rparr>))
   }"

definition skynet_globalmq_pop :: "'m global_queue \<Rightarrow> (qptr option \<times> 'm global_queue) option" where
  "skynet_globalmq_pop g =
     (case ghead g of
        None \<Rightarrow> Some (None, g)
      | Some p \<Rightarrow> do {
          q \<leftarrow> queues g p;
          let g1 = g\<lparr>ghead := q_next q\<rparr>;
          g2 \<leftarrow> (if ghead g1 = None
                 then do { c_assert (gtail g1 = Some p); Some (g1\<lparr>gtail := None\<rparr>) }
                 else Some g1);
          g3 \<leftarrow> set_next g2 p None;
          Some (Some p, g3)
        })"

text \<open>The allocator hands out an address that is not in use; which one is a parameter.\<close>

definition skynet_mq_create :: "'m global_queue \<Rightarrow> qptr \<Rightarrow> u32 \<Rightarrow> 'm global_queue" where
  "skynet_mq_create g p h = g\<lparr>queues := (queues g)(p \<mapsto> mq_new h)\<rparr>"

definition mq_release_mem :: "'m global_queue \<Rightarrow> qptr \<Rightarrow> 'm global_queue option" where
  "mq_release_mem g p = do {
     q \<leftarrow> queues g p;
     c_assert (q_next q = None);
     Some (g\<lparr>queues := (queues g)(p := None)\<rparr>)
   }"

definition skynet_mq_handle :: "'m global_queue \<Rightarrow> qptr \<Rightarrow> u32 option" where
  "skynet_mq_handle g p = map_option q_handle (queues g p)"

definition mq_pop_at :: "'m global_queue \<Rightarrow> qptr \<Rightarrow> ('m option \<times> 'm global_queue) option" where
  "mq_pop_at g p = do {
     q \<leftarrow> queues g p;
     (r, q') \<leftarrow> skynet_mq_pop q;
     Some (r, g\<lparr>queues := (queues g)(p \<mapsto> q')\<rparr>)
   }"

definition skynet_mq_push :: "'m global_queue \<Rightarrow> qptr \<Rightarrow> 'm \<Rightarrow> 'm global_queue option" where
  "skynet_mq_push g p m = do {
     q \<leftarrow> queues g p;
     q1 \<leftarrow> mq_store q m;
     (if q_in_global q1 = 0
      then skynet_globalmq_push
             (g\<lparr>queues := (queues g)(p \<mapsto> q1\<lparr>q_in_global := MQ_IN_GLOBAL\<rparr>)\<rparr>) p
      else Some (g\<lparr>queues := (queues g)(p \<mapsto> q1)\<rparr>))
   }"

definition skynet_mq_mark_release :: "'m global_queue \<Rightarrow> qptr \<Rightarrow> 'm global_queue option" where
  "skynet_mq_mark_release g p = do {
     q \<leftarrow> queues g p;
     c_assert (q_release q = 0);
     let g1 = g\<lparr>queues := (queues g)(p \<mapsto> q\<lparr>q_release := 1\<rparr>)\<rparr>;
     (if q_in_global q \<noteq> MQ_IN_GLOBAL then skynet_globalmq_push g1 p else Some g1)
   }"

subsection \<open>The linked list of queues\<close>

definition next_of :: "'m global_queue \<Rightarrow> qptr \<Rightarrow> qptr option option" where
  "next_of g p = map_option q_next (queues g p)"

definition body_of :: "'m global_queue \<Rightarrow> qptr \<Rightarrow> 'm message_queue option" where
  "body_of g p = map_option (\<lambda>q. q\<lparr>q_next := None\<rparr>) (queues g p)"

fun chain :: "'m global_queue \<Rightarrow> qptr list \<Rightarrow> bool" where
  "chain g [] = True"
| "chain g [p] = (next_of g p = Some None)"
| "chain g (p # r # ps) = (next_of g p = Some (Some r) \<and> chain g (r # ps))"

definition gq_rep :: "'m global_queue \<Rightarrow> qptr list \<Rightarrow> bool" where
  "gq_rep g ps \<longleftrightarrow> distinct ps \<and> chain g ps \<and>
     ghead g = (case ps of [] \<Rightarrow> None | p # _ \<Rightarrow> Some p) \<and>
     gtail g = (if ps = [] then None else Some (last ps)) \<and>
     (\<forall>p. p \<notin> set ps \<longrightarrow> next_of g p \<in> {None, Some None})"

lemma gq_rep_init: "gq_rep skynet_mq_init []"
  by (simp add: gq_rep_def skynet_mq_init_def next_of_def)

lemma chain_cong: "(\<And>p. p \<in> set ps \<Longrightarrow> next_of g p = next_of g' p) \<Longrightarrow> chain g ps = chain g' ps"
  by (induction ps rule: chain.induct [of _ g]) auto

lemma chain_append_one:
  "chain g (ps @ [t]) \<Longrightarrow> t \<notin> set ps \<Longrightarrow> p \<notin> set (ps @ [t]) \<Longrightarrow> next_of g p = Some None \<Longrightarrow>
   (\<And>r. r \<noteq> t \<Longrightarrow> next_of g' r = next_of g r) \<Longrightarrow> next_of g' t = Some (Some p) \<Longrightarrow>
   chain g' (ps @ [t, p])"
proof (induction ps)
  case Nil
  then show ?case by auto
next
  case (Cons a ps)
  then show ?case by (cases ps) auto
qed

lemma chain_in_heap: "chain g ps \<Longrightarrow> p \<in> set ps \<Longrightarrow> \<exists>q. queues g p = Some q"
  by (induction ps rule: chain.induct [of _ g]) (auto simp: next_of_def)

lemma set_next_Some: "queues g p = Some q \<Longrightarrow>
    set_next g p r = Some (g\<lparr>queues := (queues g)(p \<mapsto> q\<lparr>q_next := r\<rparr>)\<rparr>)"
  by (simp add: set_next_def)

lemma gq_rep_next_free:
  "gq_rep g ps \<Longrightarrow> queues g p = Some q \<Longrightarrow> p \<notin> set ps \<Longrightarrow> q_next q = None"
  by (force simp: gq_rep_def next_of_def)

lemma skynet_globalmq_push_ok:
  assumes rep: "gq_rep g ps" and q: "queues g p = Some q" and new: "p \<notin> set ps"
  shows "\<exists>g'. skynet_globalmq_push g p = Some g' \<and> gq_rep g' (ps @ [p]) \<and> body_of g' = body_of g"
proof (cases "ps = []")
  case True
  with rep q gq_rep_next_free [OF rep q new] show ?thesis
    by (auto simp: gq_rep_def skynet_globalmq_push_def next_of_def body_of_def)
next
  case False
  then obtain ps0 t where ps: "ps = ps0 @ [t]" by (metis append_butlast_last_id)
  obtain tq where tq: "queues g t = Some tq"
    using rep chain_in_heap [of g ps t] by (auto simp: gq_rep_def ps)
  let ?g = "g\<lparr>queues := (queues g)(t \<mapsto> tq\<lparr>q_next := Some p\<rparr>), gtail := Some p\<rparr>"
  have nq: "next_of g p = Some None"
    using rep new q by (auto simp: gq_rep_def next_of_def)
  have push: "skynet_globalmq_push g p = Some ?g"
    using rep q tq nq by (simp add: skynet_globalmq_push_def gq_rep_def ps next_of_def set_next_Some)
  have other: "r \<noteq> t \<Longrightarrow> next_of ?g r = next_of g r" for r by (simp add: next_of_def)
  have "chain ?g (ps0 @ [t, p])"
    by (rule chain_append_one [of g]) (use rep new nq in \<open>auto simp: gq_rep_def ps next_of_def\<close>)
  then have "gq_rep ?g (ps @ [p])"
    using rep new other by (cases ps0) (auto simp: gq_rep_def ps)
  moreover have "body_of ?g = body_of g" using tq by (auto simp: body_of_def)
  ultimately show ?thesis using push by blast
qed

lemma skynet_globalmq_pop_Nil: "gq_rep g [] \<Longrightarrow> skynet_globalmq_pop g = Some (None, g)"
  by (simp add: gq_rep_def skynet_globalmq_pop_def)

lemma skynet_globalmq_pop_Cons:
  assumes rep: "gq_rep g (p # ps)"
  shows "\<exists>g'. skynet_globalmq_pop g = Some (Some p, g') \<and> gq_rep g' ps \<and> body_of g' = body_of g"
proof -
  obtain q where q: "queues g p = Some q"
    using rep chain_in_heap [of g "p # ps" p] by (auto simp: gq_rep_def)
  have nx: "q_next q = (case ps of [] \<Rightarrow> None | r # _ \<Rightarrow> Some r)"
    using rep q by (cases ps) (auto simp: gq_rep_def next_of_def)
  let ?g = "g\<lparr>queues := (queues g)(p \<mapsto> q\<lparr>q_next := None\<rparr>), ghead := q_next q,
      gtail := (if ps = [] then None else gtail g)\<rparr>"
  have pop: "skynet_globalmq_pop g = Some (Some p, ?g)"
    using rep q nx
    by (cases ps) (auto simp: skynet_globalmq_pop_def gq_rep_def set_next_def)
  have "chain ?g ps = chain g ps"
    by (rule chain_cong) (use rep in \<open>auto simp: gq_rep_def next_of_def\<close>)
  moreover have "chain g ps" using rep by (cases ps) (auto simp: gq_rep_def)
  ultimately have "gq_rep ?g ps"
    using rep nx by (auto simp: gq_rep_def next_of_def split: list.splits)
  moreover have "body_of ?g = body_of g" using q by (auto simp: body_of_def)
  ultimately show ?thesis using pop by blast
qed


text \<open>What a push does to the queue, the list of scheduled queues and the other queues.\<close>

lemma body_next [simp]: "body_of (g\<lparr>queues := (queues g)(p \<mapsto> q)\<rparr>) = (body_of g)(p \<mapsto> q\<lparr>q_next := None\<rparr>)"
  by (auto simp: body_of_def)

lemma gq_rep_cong:
  "gq_rep g ps \<Longrightarrow> next_of g' = next_of g \<Longrightarrow> ghead g' = ghead g \<Longrightarrow> gtail g' = gtail g \<Longrightarrow> gq_rep g' ps"
  using chain_cong [of ps g g'] by (simp add: gq_rep_def)

lemma gq_rep_update:
  "gq_rep g ps \<Longrightarrow> queues g p = Some q \<Longrightarrow> q_next q' = q_next q \<Longrightarrow>
   gq_rep (g\<lparr>queues := (queues g)(p \<mapsto> q')\<rparr>) ps"
  by (erule gq_rep_cong) (auto simp: next_of_def)

lemma skynet_mq_push_eq:
  assumes rep: "gq_rep g ps" and q: "queues g p = Some q" and inv: "mq_inv q"
    and sched: "q_in_global q = 0 \<Longrightarrow> p \<notin> set ps"
  shows "\<exists>g' q'. skynet_mq_push g p m = Some g' \<and> mq_store q m = Some q' \<and>
    gq_rep g' (if q_in_global q = 0 then ps @ [p] else ps) \<and>
    body_of g' = (body_of g)(p \<mapsto>
      q'\<lparr>q_in_global := (if q_in_global q = 0 then MQ_IN_GLOBAL else q_in_global q), q_next := None\<rparr>)"
proof -
  obtain q' where st: "mq_store q m = Some q'" using mq_store_ok [OF inv] by blast
  note fr = mq_store_frame [OF st]
  show ?thesis
  proof (cases "q_in_global q = 0")
    case True
    let ?q = "q'\<lparr>q_in_global := MQ_IN_GLOBAL\<rparr>"
    let ?g = "g\<lparr>queues := (queues g)(p \<mapsto> ?q)\<rparr>"
    have "gq_rep ?g ps" by (rule gq_rep_update [OF rep q]) (simp add: fr)
    then obtain g' where g': "skynet_globalmq_push ?g p = Some g'" "gq_rep g' (ps @ [p])" "body_of g' = body_of ?g"
      using skynet_globalmq_push_ok [of ?g ps p ?q] sched [OF True] by auto
    with True st q fr show ?thesis by (simp add: skynet_mq_push_def)
  next
    case False
    let ?g = "g\<lparr>queues := (queues g)(p \<mapsto> q')\<rparr>"
    have "gq_rep ?g ps" by (rule gq_rep_update [OF rep q]) (simp add: fr)
    with False st q fr show ?thesis by (auto simp: skynet_mq_push_def)
  qed
qed

subsection \<open>Properties\<close>

text \<open>A sequence of pushes and pops on one queue: the answers of the pops.\<close>

fun mq_run :: "'m queue_op list \<Rightarrow> 'm message_queue \<Rightarrow> ('m option list \<times> 'm message_queue) option" where
  "mq_run [] q = Some ([], q)"
| "mq_run (Enq m # ops) q = do { q' \<leftarrow> mq_store q m; mq_run ops q' }"
| "mq_run (Deq # ops) q = do {
     (r, q') \<leftarrow> skynet_mq_pop q;
     (rs, q'') \<leftarrow> mq_run ops q';
     Some (r # rs, q'')
   }"

lemma mq_run_eq: "mq_run ops q = mq.run ops q"
proof (induction ops arbitrary: q)
  case (Cons oper ops)
  have "mq_run ops = mq.run ops" by (rule ext) (rule Cons.IH)
  then show ?case by (cases oper) (simp_all add: case_prod_beta')
qed simp

text \<open>
  C3: whatever sequence of pushes and pops runs on a queue that holds \<open>xs\<close>, no operation
  fails, the pops answer what a list answers, and the queue ends holding what the list
  ends with, through every growth of the ring buffer.
\<close>

theorem mq_refines_list:
  assumes "mq_inv q"
  shows "\<exists>q'. mq_run ops q = Some (fst (list_run ops (mq_contents q)), q') \<and> mq_inv q' \<and>
    mq_contents q' = snd (list_run ops (mq_contents q)) \<and>
    skynet_mq_length q' = int (length (mq_contents q'))"
proof -
  obtain q' where "mq.run ops q = Some (fst (list_run ops (mq_contents q)), q')" "mq_inv q'"
    "mq_contents q' = snd (list_run ops (mq_contents q))" using mq.run_ok [OF assms] by blast
  with skynet_mq_length_eq show ?thesis unfolding mq_run_eq by blast
qed

theorem mq_refines_list_witness:
  "\<exists>q'. mq_run (map Enq [0..<65] @ [Deq, Enq 65, Deq]) (mq_new 7) = Some ([Some 0, Some 1], q') \<and>
     mq_contents q' = [2..<66]"
proof -
  have app: "list_run (map Enq xs @ ops) ys = list_run ops (ys @ xs)" for xs ys :: "nat list" and ops
    by (induction xs arbitrary: ys) auto
  have "[0..<65::nat] = 0 # 1 # [2..<65]" "[2..<66::nat] = [2..<65] @ [65]"
    by (simp_all add: upt_rec)
  then have "list_run (map Enq [0..<65] @ [Deq, Enq 65, Deq]) [] = ([Some 0, Some 1], [2..<66::nat])"
    by (simp only: app) simp
  with mq_refines_list [of "mq_new 7" "map Enq [0..<65::nat] @ [Deq, Enq 65, Deq]"]
  show ?thesis by (auto simp: mq_inv_new mq_contents_new simp del: map_append upt_rec)
qed

text \<open>
  A pop removes the oldest message, never grows the queue, and records an overload exactly
  when more messages than the threshold are left behind; the threshold then covers the backlog,
  so the same backlog is reported once.
\<close>

theorem skynet_mq_pop_overload:
  assumes "mq_inv q" "mq_contents q = m # ms"
  shows "\<exists>q'. skynet_mq_pop q = Some (Some m, q') \<and> mq_contents q' = ms \<and> mq_inv q' \<and>
    q_in_global q' = q_in_global q \<and> q_release q' = q_release q \<and> length ms \<le> q_threshold q' \<and>
    (if q_threshold q < length ms
     then skynet_mq_overload q' = (length ms, q'\<lparr>q_overload := 0\<rparr>)
     else fst (skynet_mq_overload q') = q_overload q)"
proof -
  obtain q' where "skynet_mq_pop q = Some (Some m, q') \<and> mq_inv q' \<and> mq_contents q' = ms \<and>
    length ms \<le> q_threshold q' \<and>
    q_overload q' = (if length ms > q_threshold q then length ms else q_overload q) \<and>
    q_in_global q' = q_in_global q \<and> q_release q' = q_release q"
    using skynet_mq_pop_cons [OF assms] by blast
  then show ?thesis by (auto simp: skynet_mq_overload_def)
qed

theorem skynet_mq_pop_overload_witness:
  "\<exists>q'. skynet_mq_pop (mq_new 7\<lparr>q_tail := 2, q_cells := [Some 5, Some 6] @ replicate 62 None\<rparr>) = Some (Some (5::nat), q')
     \<and> mq_contents q' = [6]"
proof -
  let ?q = "mq_new 7\<lparr>q_tail := 2, q_cells := [Some 5, Some (6::nat)] @ replicate 62 None\<rparr>"
  have "mq_inv ?q" "mq_contents ?q = [5, 6]"
    by (auto simp: mq_inv_def mq_new_def mq_count_def mq_cell_def mq_contents_def DEFAULT_QUEUE_SIZE_def
        MQ_OVERLOAD_def less_Suc_eq numeral_2_eq_2 upt_rec)
  from skynet_mq_pop_overload [OF this] show ?thesis by blast
qed

text \<open>
  A push appends the message and puts the queue at the end of the global list exactly when
  the queue was not marked as scheduled, after which it is marked; no other queue changes.
\<close>

theorem skynet_mq_push_schedules:
  assumes "gq_rep g ps" "queues g p = Some q" "mq_inv q" "q_in_global q = 0 \<Longrightarrow> p \<notin> set ps"
  shows "\<exists>g' q'. skynet_mq_push g p m = Some g' \<and> body_of g' = (body_of g)(p \<mapsto> q') \<and>
    mq_inv q' \<and> mq_contents q' = mq_contents q @ [m] \<and> q_in_global q' \<noteq> 0 \<and>
    gq_rep g' (if q_in_global q = 0 then ps @ [p] else ps)"
proof -
  obtain g' q' where p: "skynet_mq_push g p m = Some g'" "mq_store q m = Some q'"
    "gq_rep g' (if q_in_global q = 0 then ps @ [p] else ps)"
    "body_of g' = (body_of g)(p \<mapsto>
      q'\<lparr>q_in_global := (if q_in_global q = 0 then MQ_IN_GLOBAL else q_in_global q), q_next := None\<rparr>)"
    using skynet_mq_push_eq [OF assms] by blast
  have "mq_inv q'" "mq_contents q' = mq_contents q @ [m]"
    using mq_store_ok [OF assms(3), of m] p(2) by auto
  with p(1,3,4) show ?thesis by (auto simp: MQ_IN_GLOBAL_def)
qed

theorem skynet_mq_push_schedules_witness:
  "\<exists>g' q'. skynet_mq_push (skynet_mq_create skynet_mq_init 3 7\<lparr>queues := [3 \<mapsto> mq_new 7\<lparr>q_in_global := 0\<rparr>]\<rparr>) 3 (42::nat) = Some g'
     \<and> gq_rep g' [3] \<and> body_of g' 3 = Some q' \<and> mq_contents q' = [42]"
proof -
  let ?g = "skynet_mq_create skynet_mq_init 3 7\<lparr>queues := [3 \<mapsto> mq_new 7\<lparr>q_in_global := 0\<rparr>]\<rparr> :: nat global_queue"
  have "gq_rep ?g []" "queues ?g 3 = Some (mq_new 7\<lparr>q_in_global := 0\<rparr>)" "mq_inv (mq_new 7\<lparr>q_in_global := 0\<rparr> :: nat message_queue)"
    by (auto simp: mq_inv_new gq_rep_def skynet_mq_create_def skynet_mq_init_def next_of_def) (simp_all add: mq_new_def)
  from skynet_mq_push_schedules [OF this, of 42] show ?thesis by (auto simp: mq_contents_new)
qed

text \<open>
  C6: the linked list threaded through the \<open>next\<close> fields is a first-in first-out list of
  queues: a push appends, a pop takes the head, both keep the list well formed and leave
  every queue's own fields alone.
\<close>

theorem globalmq_refines_list:
  assumes rep: "gq_rep g ps"
  shows "(\<forall>p q. queues g p = Some q \<and> p \<notin> set ps \<longrightarrow>
            (\<exists>g'. skynet_globalmq_push g p = Some g' \<and> gq_rep g' (ps @ [p]) \<and> body_of g' = body_of g))
    \<and> (case ps of [] \<Rightarrow> skynet_globalmq_pop g = Some (None, g)
        | p # rest \<Rightarrow> \<exists>g'. skynet_globalmq_pop g = Some (Some p, g') \<and> gq_rep g' rest \<and> body_of g' = body_of g)"
  using skynet_globalmq_push_ok [OF rep] skynet_globalmq_pop_Nil skynet_globalmq_pop_Cons rep
  by (auto split: list.split)

theorem globalmq_refines_list_witness:
  "\<exists>g'. skynet_globalmq_push (skynet_mq_create skynet_mq_init 3 7 :: nat global_queue) 3 = Some g' \<and> gq_rep g' [3]"
proof -
  have "gq_rep (skynet_mq_create skynet_mq_init 3 7 :: nat global_queue) []"
    "queues (skynet_mq_create skynet_mq_init 3 7 :: nat global_queue) 3 = Some (mq_new 7)"
    by (auto simp: gq_rep_def skynet_mq_create_def skynet_mq_init_def next_of_def mq_new_def)
  with globalmq_refines_list show ?thesis by fastforce
qed

end
