(* ===== verification/Handle_Storage.thy ===== *)
theory Handle_Storage
  imports Skynet_Prelude "HOL-Library.List_Lexorder"
begin

text \<open>
  The table of service handles and the sorted table of local names:
  \<^verbatim>\<open>skynet-src/skynet_handle.c\<close>. The table stores addresses of contexts and reads the handle
  of a context through its pointer (\<open>skynet_context_handle\<close>), so the operations take that
  read, \<open>hof\<close>, as an argument; the theory of the server supplies it from its own store.
  The reference counting that \<open>skynet_handle_grab\<close> and \<open>skynet_handle_retire\<close> do on the
  context they find is in the theory of the server as well.
\<close>

subsection \<open>Data\<close>

type_synonym cptr = nat

definition HANDLE_MASK :: u32 where "HANDLE_MASK = 0xffffff"
definition HANDLE_REMOTE_SHIFT :: nat where "HANDLE_REMOTE_SHIFT = 24"
definition DEFAULT_SLOT_SIZE :: nat where "DEFAULT_SLOT_SIZE = 4"
definition MAX_SLOT_SIZE :: nat where "MAX_SLOT_SIZE = 0x40000000"

record handle_name =
  nm_name :: string
  nm_handle :: u32

record handle_storage =
  h_harbor :: u32
  h_index :: u32
  h_slot_size :: nat
  h_slot :: "cptr option list"
  h_name_cap :: nat
  h_name_count :: nat
  h_name :: "handle_name option list"

definition skynet_handle_init :: "u32 \<Rightarrow> handle_storage" where
  "skynet_handle_init harbor =
     \<lparr>h_harbor = push_bit HANDLE_REMOTE_SHIFT (harbor AND 0xff), h_index = 1,
      h_slot_size = DEFAULT_SLOT_SIZE, h_slot = replicate DEFAULT_SLOT_SIZE None,
      h_name_cap = 2, h_name_count = 0, h_name = replicate 2 None\<rparr>"

subsection \<open>The slot table\<close>

text \<open>\<open>handle & (slot_size - 1)\<close>\<close>

definition slot_hash :: "u32 \<Rightarrow> nat \<Rightarrow> nat" where
  "slot_hash h sz = unat (h AND of_nat (sz - 1))"

text \<open>The inner loop of \<open>skynet_handle_register\<close>; \<open>n\<close> counts the iterations left.\<close>

primrec register_scan :: "cptr option list \<Rightarrow> nat \<Rightarrow> nat \<Rightarrow> u32 \<Rightarrow> (u32 \<times> nat) option" where
  "register_scan sl sz 0 h = None"
| "register_scan sl sz (Suc n) h =
     (let h1 = (if h > HANDLE_MASK then 1 else h);
          hash = slot_hash h1 sz
      in if sl ! hash = None then Some (h1, hash) else register_scan sl sz n (h1 + 1))"

text \<open>The loop that moves the contexts into the doubled table.\<close>

primrec rehash :: "(cptr \<Rightarrow> u32) \<Rightarrow> nat \<Rightarrow> cptr option list \<Rightarrow> cptr option list \<Rightarrow> cptr option list option" where
  "rehash hof sz [] new_slot = Some new_slot"
| "rehash hof sz (c # cs) new_slot = do {
     p \<leftarrow> c;
     let hash = slot_hash (hof p) sz;
     cell \<leftarrow> rd new_slot hash;
     c_assert (cell = None);
     new_slot' \<leftarrow> wr new_slot hash (Some p);
     rehash hof sz cs new_slot'
   }"

partial_function (option) skynet_handle_register ::
    "(cptr \<Rightarrow> u32) \<Rightarrow> handle_storage \<Rightarrow> cptr \<Rightarrow> (u32 \<times> handle_storage) option" where
  "skynet_handle_register hof s ctx =
     (case register_scan (h_slot s) (h_slot_size s) (h_slot_size s) (h_index s) of
        Some (handle, hash) \<Rightarrow>
          Some (handle OR h_harbor s,
                s\<lparr>h_slot := (h_slot s)[hash := Some ctx], h_index := handle + 1\<rparr>)
      | None \<Rightarrow> do {
          c_assert (h_slot_size s * 2 - 1 \<le> unat HANDLE_MASK);
          new_slot \<leftarrow> rehash hof (h_slot_size s * 2) (h_slot s) (replicate (h_slot_size s * 2) None);
          skynet_handle_register hof
            (s\<lparr>h_slot := new_slot, h_slot_size := h_slot_size s * 2\<rparr>) ctx
        })"

text \<open>The lookup of \<open>skynet_handle_grab\<close>, before it takes its reference.\<close>

definition handle_find :: "(cptr \<Rightarrow> u32) \<Rightarrow> handle_storage \<Rightarrow> u32 \<Rightarrow> cptr option" where
  "handle_find hof s handle =
     (case h_slot s ! slot_hash handle (h_slot_size s) of
        None \<Rightarrow> None
      | Some ctx \<Rightarrow> if hof ctx = handle then Some ctx else None)"

subsection \<open>The name table\<close>

text \<open>\<open>strcmp\<close>: only the sign of its result is used.\<close>

fun strcmp :: "string \<Rightarrow> string \<Rightarrow> int" where
  "strcmp [] [] = 0"
| "strcmp [] (y # ys) = -1"
| "strcmp (x # xs) [] = 1"
| "strcmp (x # xs) (y # ys) =
     (if (of_char x :: nat) < of_char y then -1
      else if (of_char y :: nat) < of_char x then 1 else strcmp xs ys)"

text \<open>
  The binary search that \<open>skynet_handle_findname\<close> and \<open>_insert_name\<close> share: either the
  index of the name, or the index before which it belongs.
\<close>

datatype search = Found nat | Missing int

function name_search :: "handle_name option list \<Rightarrow> string \<Rightarrow> int \<Rightarrow> int \<Rightarrow> search option" where
  "name_search ns nm b e =
     (if b \<le> e then do {
        let mid = (b + e) div 2;
        cell \<leftarrow> rd ns (nat mid);
        n \<leftarrow> cell;
        let c = strcmp (nm_name n) nm;
        (if c = 0 then Some (Found (nat mid))
         else if c < 0 then name_search ns nm (mid + 1) e
         else name_search ns nm b (mid - 1))
      } else Some (Missing b))"
  by pat_completeness auto
termination by (relation "measure (\<lambda>(ns, nm, b, e). nat (e + 1 - b))") auto

declare name_search.simps [simp del]

definition skynet_handle_findname :: "handle_storage \<Rightarrow> string \<Rightarrow> u32 option" where
  "skynet_handle_findname s name = do {
     r \<leftarrow> name_search (h_name s) name 0 (int (h_name_count s) - 1);
     (case r of
        Found i \<Rightarrow> do { cell \<leftarrow> rd (h_name s) i; n \<leftarrow> cell; Some (nm_handle n) }
      | Missing _ \<Rightarrow> Some 0)
   }"

text \<open>\<open>for (i = count; i > before; i--) name[i] = name[i-1]\<close>\<close>

function shift_up :: "'a list \<Rightarrow> nat \<Rightarrow> nat \<Rightarrow> 'a list option" where
  "shift_up ns before i =
     (if i > before then do {
        x \<leftarrow> rd ns (i - 1);
        ns' \<leftarrow> wr ns i x;
        shift_up ns' before (i - 1)
      } else Some ns)"
  by pat_completeness auto
termination by (relation "measure (\<lambda>(ns, before, i). i)") auto

declare shift_up.simps [simp del]

definition insert_name_before :: "handle_storage \<Rightarrow> string \<Rightarrow> u32 \<Rightarrow> nat \<Rightarrow> handle_storage option" where
  "insert_name_before s name handle before = do {
     s1 \<leftarrow> (if h_name_count s \<ge> h_name_cap s then do {
              let cap2 = h_name_cap s * 2;
              c_assert (cap2 \<le> MAX_SLOT_SIZE);
              low \<leftarrow> those (map (rd (h_name s)) [0..<before]);
              high \<leftarrow> those (map (rd (h_name s)) [before..<h_name_count s]);
              Some (s\<lparr>h_name_cap := cap2,
                      h_name := low @ None # high @ replicate (cap2 - (h_name_count s + 1)) None\<rparr>)
            } else do {
              ns \<leftarrow> shift_up (h_name s) before (h_name_count s);
              Some (s\<lparr>h_name := ns\<rparr>)
            });
     ns \<leftarrow> wr (h_name s1) before (Some \<lparr>nm_name = name, nm_handle = handle\<rparr>);
     Some (s1\<lparr>h_name := ns, h_name_count := h_name_count s1 + 1\<rparr>)
   }"

text \<open>The result is \<open>None\<close> inside for the null pointer: the name is taken.\<close>

definition insert_name :: "handle_storage \<Rightarrow> string \<Rightarrow> u32 \<Rightarrow> (string option \<times> handle_storage) option" where
  "insert_name s name handle = do {
     r \<leftarrow> name_search (h_name s) name 0 (int (h_name_count s) - 1);
     (case r of
        Found _ \<Rightarrow> Some (None, s)
      | Missing b \<Rightarrow> do {
          s' \<leftarrow> insert_name_before s name handle (nat b);
          Some (Some name, s')
        })
   }"

definition skynet_handle_namehandle ::
    "handle_storage \<Rightarrow> u32 \<Rightarrow> string \<Rightarrow> (string option \<times> handle_storage) option" where
  "skynet_handle_namehandle s handle name = insert_name s name handle"

text \<open>The loop of \<open>skynet_handle_retire\<close> that drops the names of a handle in place.\<close>

function compact_names :: "handle_name option list \<Rightarrow> u32 \<Rightarrow> nat \<Rightarrow> nat \<Rightarrow> nat \<Rightarrow>
    (handle_name option list \<times> nat) option" where
  "compact_names ns handle n i j =
     (if i < n then do {
        cell \<leftarrow> rd ns i;
        e \<leftarrow> cell;
        (if nm_handle e = handle then compact_names ns handle n (i + 1) j
         else do {
           ns' \<leftarrow> (if i \<noteq> j then wr ns j (Some e) else Some ns);
           compact_names ns' handle n (i + 1) (j + 1)
         })
      } else Some (ns, j))"
  by pat_completeness auto
termination by (relation "measure (\<lambda>(ns, handle, n, i, j). n - i)") auto

declare compact_names.simps [simp del]

text \<open>
  The locked part of \<open>skynet_handle_retire\<close>: the return value, and the context whose
  reference the table gives up.
\<close>

definition handle_retire :: "(cptr \<Rightarrow> u32) \<Rightarrow> handle_storage \<Rightarrow> u32 \<Rightarrow>
    (cptr option \<times> handle_storage) option" where
  "handle_retire hof s handle =
     (let hash = slot_hash handle (h_slot_size s) in
      case h_slot s ! hash of
        None \<Rightarrow> Some (None, s)
      | Some ctx \<Rightarrow>
          if hof ctx = handle then do {
            let s1 = s\<lparr>h_slot := (h_slot s)[hash := None]\<rparr>;
            (ns, j) \<leftarrow> compact_names (h_name s1) handle (h_name_count s1) 0 0;
            Some (Some ctx, s1\<lparr>h_name := ns, h_name_count := j\<rparr>)
          } else Some (None, s))"

subsection \<open>Facts about the hash\<close>

lemma slot_hash_take_bit: "slot_hash h (2 ^ k) = unat (take_bit k h)"
proof -
  have "(of_nat (2 ^ k - 1) :: u32) = mask k"
    by (simp add: mask_eq_exp_minus_1 of_nat_diff)
  then show ?thesis unfolding slot_hash_def by (simp only: take_bit_eq_mask)
qed

lemma slot_hash_mod: "slot_hash h (2 ^ k) = unat h mod 2 ^ k"
  unfolding slot_hash_take_bit unsigned_take_bit_eq by (simp only: take_bit_eq_mod)

definition slot_sizes :: "nat set" where "slot_sizes = (\<lambda>k. 2 ^ k) ` {2..24}"

lemma slot_sizesE:
  assumes "sz \<in> slot_sizes" obtains k where "2 \<le> k" "k \<le> 24" "sz = 2 ^ k"
  using assms by (auto simp: slot_sizes_def)

lemma slot_sizes_hash: "sz \<in> slot_sizes \<Longrightarrow> slot_hash h sz = unat h mod sz"
  by (erule slot_sizesE) (simp add: slot_hash_mod)

lemma slot_sizes_pos: "sz \<in> slot_sizes \<Longrightarrow> 4 \<le> sz"
proof (erule slot_sizesE)
  fix k :: nat assume "2 \<le> k" "sz = 2 ^ k"
  then show "4 \<le> sz" using power_increasing [of 2 k "2::nat"] by simp
qed

lemma slot_sizes_dvd: "sz \<in> slot_sizes \<Longrightarrow> sz dvd 2 ^ 24"
  by (erule slot_sizesE) (simp only: le_imp_power_dvd)

lemma slot_sizes_double: "sz \<in> slot_sizes \<Longrightarrow> sz * 2 - 1 \<le> unat HANDLE_MASK \<Longrightarrow> sz * 2 \<in> slot_sizes"
proof (erule slot_sizesE)
  fix k :: nat assume k: "2 \<le> k" "k \<le> 24" "sz = 2 ^ k" and m: "sz * 2 - 1 \<le> unat HANDLE_MASK"
  have "k < 24"
  proof (rule ccontr)
    assume "\<not> k < 24"
    with k m show False by (simp add: HANDLE_MASK_def)
  qed
  with k show "sz * 2 \<in> slot_sizes"
    unfolding slot_sizes_def by (intro image_eqI [of _ _ "Suc k"]) auto
qed

lemma slot_hash_less: "sz \<in> slot_sizes \<Longrightarrow> slot_hash h sz < sz"
  using slot_sizes_pos [of sz] by (simp add: slot_sizes_hash)

text \<open>The handle's harbor byte does not reach the hash.\<close>

lemma slot_hash_harbor:
  assumes sz: "sz \<in> slot_sizes" and hb: "hb AND HANDLE_MASK = 0"
  shows "slot_hash (h OR hb) sz = slot_hash h sz"
proof -
  obtain k where k: "k \<le> 24" "sz = 2 ^ k" using slot_sizesE [OF sz] by metis
  have "hb AND mask 24 = 0" using hb by (simp add: HANDLE_MASK_def mask_eq_exp_minus_1)
  then have "take_bit k (take_bit 24 hb) = 0" by (simp add: take_bit_eq_mask)
  then have "take_bit k hb = 0" using k by (simp add: min_def)
  then show ?thesis unfolding k(2) slot_hash_take_bit by simp
qed

subsection \<open>The scan\<close>

text \<open>The handle tried after \<open>h\<close>; 0 is reserved.\<close>

definition wrap_handle :: "u32 \<Rightarrow> u32" where
  "wrap_handle h = (if h > HANDLE_MASK then 1 else h)"

lemma unat_HANDLE_MASK: "unat HANDLE_MASK = 2 ^ 24 - 1"
  by (simp add: HANDLE_MASK_def)

lemma wrap_handle_range:
  "0 < h \<Longrightarrow> 0 < unat (wrap_handle h) \<and> unat (wrap_handle h) < 2 ^ 24"
  using unat_HANDLE_MASK
  by (auto simp: wrap_handle_def word_less_nat_alt unat_gt_0 not_less)

lemma unat_Suc_small: "unat (h :: u32) < 2 ^ 24 \<Longrightarrow> unat (h + 1) = Suc (unat h)"
  by (simp add: unat_word_ariths)

lemma unat_wrap_Suc:
  "0 < h \<Longrightarrow> unat (wrap_handle h + 1) = Suc (unat (wrap_handle h))"
  using wrap_handle_range [of h] by (intro unat_Suc_small) simp

lemma register_scan_Suc:
  "register_scan sl sz (Suc n) h =
     (if sl ! slot_hash (wrap_handle h) sz = None
      then Some (wrap_handle h, slot_hash (wrap_handle h) sz)
      else register_scan sl sz n (wrap_handle h + 1))"
  by (simp add: wrap_handle_def Let_def)

lemma register_scan_Some:
  "register_scan sl sz n h = Some (h1, hash) \<Longrightarrow> 0 < h \<Longrightarrow>
   0 < unat h1 \<and> unat h1 < 2 ^ 24 \<and> hash = slot_hash h1 sz \<and> sl ! hash = None"
proof (induction n arbitrary: h)
  case (Suc n)
  have "0 < wrap_handle h + 1"
    using unat_wrap_Suc [OF Suc.prems(2)] by (simp add: word_less_nat_alt)
  with Suc wrap_handle_range [OF Suc.prems(2)] show ?case
    by (auto simp: register_scan_Suc split: if_splits simp del: register_scan.simps(2))
qed simp

text \<open>Without a wrap of the handle counter the scan tries \<open>n\<close> consecutive residues.\<close>

lemma register_scan_None_straight:
  "register_scan sl sz n h = None \<Longrightarrow> sz \<in> slot_sizes \<Longrightarrow> 0 < h \<Longrightarrow> unat h + n \<le> 2 ^ 24 \<Longrightarrow>
   i < n \<Longrightarrow> sl ! ((unat h + i) mod sz) \<noteq> None"
proof (induction n arbitrary: h i)
  case (Suc n)
  have w: "wrap_handle h = h"
    using Suc.prems(4) unat_HANDLE_MASK by (auto simp: wrap_handle_def word_less_nat_alt)
  have s: "unat (h + 1) = Suc (unat h)" "0 < h + 1"
    using unat_wrap_Suc [OF Suc.prems(3)] by (simp_all add: w word_less_nat_alt)
  from Suc.prems(1) have a: "sl ! slot_hash h sz \<noteq> None" "register_scan sl sz n (h + 1) = None"
    by (auto simp: register_scan_Suc w split: if_splits simp del: register_scan.simps(2))
  show ?case
  proof (cases i)
    case 0
    with a(1) show ?thesis by (simp add: slot_sizes_hash [OF Suc.prems(2)])
  next
    case (Suc j)
    with Suc.IH [OF a(2) Suc.prems(2) s(2), of j] Suc.prems(4,5) s(1) show ?thesis by simp
  qed
qed simp

text \<open>Up to the wrap and from 1 on after it.\<close>

lemma register_scan_split:
  "register_scan sl sz (m + n) h = None \<Longrightarrow> 0 < h \<Longrightarrow> unat h + m = 2 ^ 24 \<Longrightarrow>
   register_scan sl sz m h = None \<and> register_scan sl sz n (of_nat (2 ^ 24)) = None"
proof (induction m arbitrary: h)
  case 0
  then have "unat h = unat (of_nat (2 ^ 24) :: u32)" by simp
  with 0 show ?case by (simp only: word_unat_eq_iff [symmetric]) simp
next
  case (Suc m)
  have w: "wrap_handle h = h"
    using Suc.prems(3) unat_HANDLE_MASK by (auto simp: wrap_handle_def word_less_nat_alt)
  have s: "unat (h + 1) = Suc (unat h)" "0 < h + 1"
    using unat_wrap_Suc [OF Suc.prems(2)] by (simp_all add: w word_less_nat_alt)
  have a: "sl ! slot_hash h sz \<noteq> None" "register_scan sl sz (m + n) (h + 1) = None"
    using Suc.prems(1)
    by (auto simp: register_scan_Suc w split: if_splits simp del: register_scan.simps(2))
  from Suc.IH [OF a(2) s(2)] Suc.prems(3) s(1) a(1) show ?case
    by (simp add: register_scan_Suc w del: register_scan.simps(2))
qed

lemma register_scan_prefix:
  "m \<le> n \<Longrightarrow> register_scan sl sz n h = None \<Longrightarrow> register_scan sl sz m h = None"
proof (induction m arbitrary: n h)
  case (Suc m)
  then obtain n' where n': "n = Suc n'" "m \<le> n'" by (cases n) auto
  show ?case
    using Suc.prems(2) Suc.IH [OF n'(2)]
    by (auto simp: n'(1) register_scan_Suc split: if_splits simp del: register_scan.simps(2))
qed simp

lemma register_scan_at_top: "register_scan sl sz n (of_nat (2 ^ 24)) = register_scan sl sz n 1"
proof (cases n)
  case (Suc m)
  have "wrap_handle (of_nat (2 ^ 24)) = 1" "wrap_handle 1 = 1"
    by (simp_all add: wrap_handle_def HANDLE_MASK_def)
  then show ?thesis by (simp add: Suc register_scan_Suc del: register_scan.simps(2))
qed simp

lemma straight_residues:
  assumes sz: "0 < (sz::nat)" and j: "j < sz"
  shows "\<exists>i < sz. (a + i) mod sz = j"
proof (intro exI conjI)
  let ?i = "(j + (sz - a mod sz)) mod sz"
  show "?i < sz" using sz by simp
  have "(a + ?i) mod sz = (a mod sz + (j + (sz - a mod sz))) mod sz"
    by (simp add: mod_add_left_eq mod_add_right_eq)
  also have "a mod sz + (j + (sz - a mod sz)) = j + sz"
    using mod_less_divisor [OF sz, of a] by linarith
  finally show "(a + ?i) mod sz = j" using j by simp
qed

text \<open>
  A full scan that finds nothing has tried every slot but slot 0, and slot 0 as well when the
  handle counter did not pass \<open>HANDLE_MASK\<close> on the way: the reserved handle 0 is skipped
  without a replacement, so slot 0 is then tried only through a multiple of the table size.
\<close>

lemma register_scan_None:
  assumes none: "register_scan sl sz sz h = None" and sz: "sz \<in> slot_sizes" and h: "0 < h"
    and le: "unat h \<le> 2 ^ 24" and j: "0 < j \<or> unat h + sz \<le> 2 ^ 24" "j < sz"
  shows "sl ! j \<noteq> None"
proof (cases "unat h + sz \<le> 2 ^ 24")
  case True
  have "0 < sz" using slot_sizes_pos [OF sz] by simp
  then obtain i where i: "i < sz" "(unat h + i) mod sz = j"
    using straight_residues [of sz j "unat h"] j(2) by blast
  with register_scan_None_straight [OF none sz h True i(1)] show ?thesis by simp
next
  case False
  define m where "m = 2 ^ 24 - unat h"
  define n where "n = sz - m"
  have mn: "sz = m + n" "unat h + m = 2 ^ 24" using False le by (auto simp: m_def n_def)
  note split = register_scan_split [OF none [unfolded mn(1)], folded mn(1), OF h mn(2)]
  have one: "register_scan sl sz n 1 = None" using split unfolding register_scan_at_top by (rule conjunct2)
  show ?thesis
  proof (cases "j \<le> n")
    case True
    have j0: "0 < j" using False j(1) by simp
    have "register_scan sl sz j 1 = None"
      using register_scan_prefix [of j n, OF True] one by simp
    moreover have "unat (1 :: u32) + j \<le> 2 ^ 24"
      using j(2) dvd_imp_le [OF slot_sizes_dvd [OF sz]] by simp
    ultimately have "sl ! ((unat (1 :: u32) + (j - 1)) mod sz) \<noteq> None"
      using j0 by (intro register_scan_None_straight [of _ _ j, OF _ sz]) simp_all
    moreover have "(unat (1 :: u32) + (j - 1)) mod sz = j" using j0 j(2) by simp
    ultimately show ?thesis by simp
  next
    case gt: False
    then have i: "j - n < m" using j(2) mn(1) by linarith
    have "unat h + (j - n) + sz = 2 ^ 24 + j" using mn gt by linarith
    then have "(unat h + (j - n) + sz) mod sz = (2 ^ 24 + j) mod sz" by simp
    also have "\<dots> = (2 ^ 24 mod sz + j) mod sz" by (simp only: mod_add_left_eq)
    also have "2 ^ 24 mod sz = 0" using slot_sizes_dvd [OF sz] by (simp only: dvd_eq_mod_eq_0)
    also have "(0 + j) mod sz = j" using j(2) by simp
    finally have "(unat h + (j - n)) mod sz = j" by simp
    with register_scan_None_straight [OF conjunct1 [OF split] sz h _ i] mn(2) show ?thesis by simp
  qed
qed

subsection \<open>Moving the table\<close>

lemma rehash_ok:
  assumes "distinct (map (\<lambda>p. slot_hash (hof p) sz) ps)"
    and "\<And>p. p \<in> set ps \<Longrightarrow> slot_hash (hof p) sz < length new \<and> new ! slot_hash (hof p) sz = None"
  shows "\<exists>new'. rehash hof sz (map Some ps) new = Some new' \<and> length new' = length new \<and>
    (\<forall>p\<in>set ps. new' ! slot_hash (hof p) sz = Some p) \<and>
    (\<forall>j. j \<notin> (\<lambda>p. slot_hash (hof p) sz) ` set ps \<longrightarrow> new' ! j = new ! j)"
  using assms
proof (induction ps arbitrary: new)
  case (Cons p ps)
  let ?h = "\<lambda>p. slot_hash (hof p) sz"
  let ?new = "new[?h p := Some p]"
  have here: "?h p < length new" "new ! ?h p = None" using Cons.prems(2) by auto
  have rest: "?h q < length ?new \<and> ?new ! ?h q = None" if "q \<in> set ps" for q
    using Cons.prems that by (auto simp: nth_list_update)
  obtain new' where new': "rehash hof sz (map Some ps) ?new = Some new'" "length new' = length ?new"
    "\<forall>q\<in>set ps. new' ! ?h q = Some q"
    "\<forall>j. j \<notin> ?h ` set ps \<longrightarrow> new' ! j = ?new ! j"
    using Cons.IH [of ?new] Cons.prems(1) rest by auto
  have "new' ! ?h p = Some p" using new'(4) Cons.prems(1) here by auto
  with new' here show ?case by (auto simp: nth_list_update)
qed simp

subsection \<open>The invariant of the slot table\<close>

definition slots_ok :: "(cptr \<Rightarrow> u32) \<Rightarrow> handle_storage \<Rightarrow> bool" where
  "slots_ok hof s \<longleftrightarrow> h_slot_size s \<in> slot_sizes \<and> length (h_slot s) = h_slot_size s \<and>
     h_harbor s AND HANDLE_MASK = 0 \<and> 0 < h_index s \<and> unat (h_index s) \<le> 2 ^ 24 \<and>
     (\<forall>i<h_slot_size s. \<forall>c. h_slot s ! i = Some c \<longrightarrow> slot_hash (hof c) (h_slot_size s) = i)"

lemma slots_ok_cong:
  "slots_ok hof s \<Longrightarrow> (\<And>c. Some c \<in> set (h_slot s) \<Longrightarrow> hof' c = hof c) \<Longrightarrow> slots_ok hof' s"
  unfolding slots_ok_def by (metis nth_mem)

lemma HANDLE_MASK_mask: "HANDLE_MASK = mask 24"
  by (simp add: HANDLE_MASK_def mask_eq_exp_minus_1)

lemma slots_ok_init: "slots_ok hof (skynet_handle_init hb)"
proof -
  have "push_bit 24 (hb AND 0xff) AND HANDLE_MASK = 0"
    unfolding HANDLE_MASK_mask by (simp only: take_bit_eq_mask [symmetric] take_bit_push_bit) simp
  moreover have "(4::nat) \<in> slot_sizes"
    unfolding slot_sizes_def by (rule image_eqI [of _ _ 2]) auto
  ultimately show ?thesis
    by (auto simp: slots_ok_def skynet_handle_init_def DEFAULT_SLOT_SIZE_def HANDLE_REMOTE_SHIFT_def)
qed

text \<open>The set of live contexts is what \<open>handle_find\<close> answers.\<close>

lemma handle_find_Some:
  assumes "slots_ok hof s"
  shows "handle_find hof s h = Some c \<longleftrightarrow> hof c = h \<and> Some c \<in> set (h_slot s)"
proof -
  let ?i = "slot_hash h (h_slot_size s)"
  have len: "?i < length (h_slot s)"
    using assms slot_hash_less by (simp add: slots_ok_def)
  show ?thesis
  proof
    assume "handle_find hof s h = Some c"
    then have "h_slot s ! ?i = Some c \<and> hof c = h"
      by (auto simp: handle_find_def split: option.splits if_splits)
    with nth_mem [OF len] show "hof c = h \<and> Some c \<in> set (h_slot s)" by simp
  next
    assume c: "hof c = h \<and> Some c \<in> set (h_slot s)"
    then obtain i where "i < h_slot_size s" "h_slot s ! i = Some c"
      using assms by (auto simp: slots_ok_def in_set_conv_nth)
    moreover from this have "slot_hash (hof c) (h_slot_size s) = i"
      using assms unfolding slots_ok_def by blast
    ultimately show "handle_find hof s h = Some c"
      using c by (auto simp: handle_find_def)
  qed
qed

text \<open>Two live contexts have different handles.\<close>

lemma live_handles_distinct:
  assumes ok: "slots_ok hof s" and c: "Some c \<in> set (h_slot s)" "Some d \<in> set (h_slot s)"
    and eq: "hof c = hof d"
  shows "c = d"
proof -
  have c': "handle_find hof s (hof c) = Some c" and d': "handle_find hof s (hof d) = Some d"
    using c by (simp_all only: handle_find_Some [OF ok] simp_thms)
  from c' [unfolded eq] d' have "Some c = Some d" by (rule trans [OF sym])
  then show ?thesis by (simp only: option.inject)
qed

subsection \<open>Register\<close>

text \<open>
  When a registration goes through: some slot other than slot 0 is free, or slot 0 is free and
  the scan does not pass the end of the handle range, or the table is full and can be doubled.
\<close>

definition register_room :: "handle_storage \<Rightarrow> bool" where
  "register_room s \<longleftrightarrow>
     (\<exists>j<h_slot_size s. 0 < j \<and> h_slot s ! j = None) \<or>
     (h_slot s ! 0 = None \<and> unat (h_index s) + h_slot_size s \<le> 2 ^ 24) \<or>
     ((\<forall>j<h_slot_size s. h_slot s ! j \<noteq> None) \<and> h_slot_size s * 2 - 1 \<le> unat HANDLE_MASK)"

definition registered :: "(cptr \<Rightarrow> u32) \<Rightarrow> handle_storage \<Rightarrow> cptr \<Rightarrow> u32 \<Rightarrow> handle_storage \<Rightarrow> bool" where
  "registered hof s ctx h s' \<longleftrightarrow> slots_ok (hof(ctx := h)) s' \<and> h \<noteq> 0 \<and>
     unat (h AND HANDLE_MASK) \<noteq> 0 \<and> h AND NOT HANDLE_MASK = h_harbor s \<and>
     set (h_slot s') - {None} = insert (Some ctx) (set (h_slot s) - {None}) \<and>
     handle_find hof s h = None \<and>
     h_name s' = h_name s \<and> h_name_count s' = h_name_count s \<and> h_name_cap s' = h_name_cap s \<and>
     h_harbor s' = h_harbor s"

lemma low_bits_small: "unat (h :: u32) < 2 ^ 24 \<Longrightarrow> h AND HANDLE_MASK = h"
proof -
  assume "unat h < 2 ^ 24"
  then have "take_bit 24 (unat h) = unat h" by (simp add: take_bit_nat_eq_self)
  then have "unat (take_bit 24 h) = unat h" by (simp only: unsigned_take_bit_eq)
  then have "take_bit 24 h = h" by (simp only: word_unat_eq_iff)
  then show ?thesis by (simp only: HANDLE_MASK_mask take_bit_eq_mask)
qed

lemma handle_parts:
  assumes "unat h < 2 ^ 24" and hb: "hb AND HANDLE_MASK = 0"
  shows "(h OR hb) AND HANDLE_MASK = h" "(h OR hb) AND NOT HANDLE_MASK = hb"
proof -
  have h: "h AND HANDLE_MASK = h" by (rule low_bits_small) fact
  then show "(h OR hb) AND HANDLE_MASK = h"
    by (simp only: bit.conj_disj_distrib2 hb) simp
  have "h AND NOT HANDLE_MASK = 0" by (subst h [symmetric]) (simp add: and.assoc)
  moreover have "hb AND NOT HANDLE_MASK = hb"
  proof -
    have "hb = (hb AND HANDLE_MASK) OR (hb AND NOT HANDLE_MASK)"
      by (simp flip: bit.conj_disj_distrib)
    then show ?thesis by (simp add: hb)
  qed
  ultimately show "(h OR hb) AND NOT HANDLE_MASK = hb"
    by (simp only: bit.conj_disj_distrib2) simp
qed

lemma set_fill:
  "i < length xs \<Longrightarrow> xs ! i = None \<Longrightarrow> set (xs[i := Some c]) - {None} = insert (Some c) (set xs - {None})"
proof (induction xs arbitrary: i)
  case (Cons x xs)
  then show ?case by (cases i) (auto simp: insert_Diff_if)
qed simp

lemma register_found:
  assumes ok: "slots_ok hof s" and fresh: "Some ctx \<notin> set (h_slot s)"
    and scan: "register_scan (h_slot s) (h_slot_size s) (h_slot_size s) (h_index s) = Some (h, hash)"
  shows "\<exists>h' s'. skynet_handle_register hof s ctx = Some (h', s') \<and> registered hof s ctx h' s'"
proof -
  let ?h = "h OR h_harbor s"
  let ?s = "s\<lparr>h_slot := (h_slot s)[hash := Some ctx], h_index := h + 1\<rparr>"
  have inv: "h_slot_size s \<in> slot_sizes" "length (h_slot s) = h_slot_size s"
    "h_harbor s AND HANDLE_MASK = 0" "0 < h_index s"
    "\<And>i c. i < h_slot_size s \<Longrightarrow> h_slot s ! i = Some c \<Longrightarrow> slot_hash (hof c) (h_slot_size s) = i"
    using ok by (auto simp: slots_ok_def)
  have h: "0 < unat h" "unat h < 2 ^ 24" "hash = slot_hash h (h_slot_size s)" "h_slot s ! hash = None"
    using register_scan_Some [OF scan inv(4)] by auto
  have hash: "hash < length (h_slot s)" using h(3) slot_hash_less [OF inv(1)] inv(2) by simp
  have hh: "slot_hash ?h (h_slot_size s) = hash" using slot_hash_harbor [OF inv(1,3)] h(3) by simp
  note parts = handle_parts [OF h(2) inv(3)]
  have nz: "?h \<noteq> 0" using parts(1) h(1) by auto
  have "slots_ok (hof(ctx := ?h)) ?s"
  proof -
    have "slot_hash ((hof(ctx := ?h)) c) (h_slot_size s) = i"
      if "i < h_slot_size s" "(h_slot s)[hash := Some ctx] ! i = Some c" for i c
    proof (cases "i = hash")
      case True
      with that hash hh show ?thesis by simp
    next
      case False
      with that have c: "h_slot s ! i = Some c" by simp
      then have "c \<noteq> ctx" using fresh that(1) inv(2) nth_mem [of i "h_slot s"] by auto
      with inv(5) [OF that(1) c] show ?thesis by simp
    qed
    moreover have "unat (h + 1) = Suc (unat h)" by (rule unat_Suc_small) (fact h(2))
    ultimately show ?thesis using inv h by (simp add: slots_ok_def word_less_nat_alt)
  qed
  moreover have "handle_find hof s ?h = None" using hh h(4) by (simp add: handle_find_def)
  ultimately have "registered hof s ctx ?h ?s"
    using nz parts h(1) set_fill [OF hash h(4)] by (simp add: registered_def)
  moreover have "skynet_handle_register hof s ctx = Some (?h, ?s)"
    by (subst skynet_handle_register.simps) (simp add: scan)
  ultimately show ?thesis by blast
qed

text \<open>Doubling a full table keeps its contexts and makes room.\<close>

lemma grow_ok:
  assumes ok: "slots_ok hof s" and full: "\<forall>j<h_slot_size s. h_slot s ! j \<noteq> None"
    and lim: "h_slot_size s * 2 - 1 \<le> unat HANDLE_MASK"
  shows "\<exists>new. rehash hof (h_slot_size s * 2) (h_slot s) (replicate (h_slot_size s * 2) None) = Some new
    \<and> slots_ok hof (s\<lparr>h_slot := new, h_slot_size := h_slot_size s * 2\<rparr>)
    \<and> set new - {None} = set (h_slot s) - {None}
    \<and> (\<exists>j<h_slot_size s * 2. 0 < j \<and> new ! j = None)"
proof -
  let ?n = "h_slot_size s" and ?m = "h_slot_size s * 2"
  have inv: "?n \<in> slot_sizes" "length (h_slot s) = ?n"
    "\<And>i c. i < ?n \<Longrightarrow> h_slot s ! i = Some c \<Longrightarrow> slot_hash (hof c) ?n = i"
    using ok by (auto simp: slots_ok_def)
  have m: "?m \<in> slot_sizes" by (rule slot_sizes_double [OF inv(1) lim])
  have n4: "4 \<le> ?n" by (rule slot_sizes_pos [OF inv(1)])
  define ps where "ps = map the (h_slot s)"
  have slot: "h_slot s = map Some ps"
    using full inv(2) by (auto simp: ps_def list_eq_iff_nth_eq)
  have len: "length ps = ?n" by (simp add: ps_def inv(2))
  let ?k = "\<lambda>p. slot_hash (hof p) ?m"
  have k_mod: "?k (ps ! i) mod ?n = i" if "i < ?n" for i
    using inv(3) [of i "ps ! i"] that len
    by (simp add: slot slot_sizes_hash [OF inv(1)] slot_sizes_hash [OF m] mod_mod_cancel)
  have "distinct (map ?k ps)"
    unfolding distinct_conv_nth using k_mod len by (simp, metis)
  moreover have "?k p < length (replicate ?m None) \<and> replicate ?m None ! ?k p = None" for p
    using slot_hash_less [OF m] by simp
  ultimately obtain new where new: "rehash hof ?m (map Some ps) (replicate ?m None) = Some new"
    "length new = ?m" "\<forall>p\<in>set ps. new ! ?k p = Some p"
    "\<forall>j. j \<notin> ?k ` set ps \<longrightarrow> new ! j = replicate ?m None ! j"
    using rehash_ok [of hof ?m ps "replicate ?m None"] by auto
  have cell: "c \<in> set ps \<and> ?k c = j" if "j < ?m" "new ! j = Some c" for j c
    using new(3,4) that by (cases "j \<in> ?k ` set ps") auto
  have "slots_ok hof (s\<lparr>h_slot := new, h_slot_size := ?m\<rparr>)"
    using ok m new(2) cell by (auto simp: slots_ok_def)
  moreover have "set new - {None} = set (h_slot s) - {None}"
  proof -
    have "Some c \<in> set new \<longleftrightarrow> c \<in> set ps" for c
    proof
      assume "Some c \<in> set new"
      then obtain j where "j < length new" "new ! j = Some c" unfolding in_set_conv_nth by blast
      with cell [of j c] new(2) show "c \<in> set ps" by simp
    next
      assume "c \<in> set ps"
      with new(2,3) have "new ! ?k c = Some c" "?k c < length new"
        using slot_hash_less [OF m] by simp_all
      with nth_mem [of "?k c" new] show "Some c \<in> set new" by simp
    qed
    then have "x \<in> set new - {None} \<longleftrightarrow> x \<in> Some ` set ps" for x by (cases x) auto
    then have "set new - {None} = Some ` set ps" by (rule set_eqI)
    then show ?thesis by (auto simp: slot)
  qed
  moreover have "\<exists>j<?m. 0 < j \<and> new ! j = None"
  proof -
    define j where "j = (if ?k (ps ! 1) = 1 then ?n + 1 else 1)"
    have "Suc ?n mod ?n = Suc 0" using mod_add_self1 [of ?n "Suc 0"] n4 by simp
    with n4 have j: "j < ?m" "0 < j" "j mod ?n = 1" by (auto simp: j_def)
    have "new ! j = None"
    proof (rule ccontr)
      assume "new ! j \<noteq> None"
      then obtain c where "c \<in> set ps" "?k c = j" using cell [OF j(1)] by auto
      then obtain i where i: "i < ?n" "?k (ps ! i) = j" by (auto simp: in_set_conv_nth len)
      with k_mod [OF i(1)] j(3) have "i = 1" by simp
      with i show False by (auto simp: j_def split: if_splits)
    qed
    with j show ?thesis by blast
  qed
  ultimately show ?thesis using new(1) by (auto simp: slot)
qed

lemma scan_finds_room:
  assumes ok: "slots_ok hof s"
    and free: "(\<exists>j<h_slot_size s. 0 < j \<and> h_slot s ! j = None) \<or>
      (h_slot s ! 0 = None \<and> unat (h_index s) + h_slot_size s \<le> 2 ^ 24)"
  shows "\<exists>h hash. register_scan (h_slot s) (h_slot_size s) (h_slot_size s) (h_index s) = Some (h, hash)"
proof (rule ccontr)
  assume "\<not> ?thesis"
  then have none: "register_scan (h_slot s) (h_slot_size s) (h_slot_size s) (h_index s) = None"
    by (auto simp: not_Some_eq [symmetric])
  have inv: "h_slot_size s \<in> slot_sizes" "0 < h_index s" "unat (h_index s) \<le> 2 ^ 24"
    using ok by (auto simp: slots_ok_def)
  note occupied = register_scan_None [OF none inv(1-3)]
  from free show False
  proof
    assume "\<exists>j<h_slot_size s. 0 < j \<and> h_slot s ! j = None"
    then show False using occupied by blast
  next
    assume "h_slot s ! 0 = None \<and> unat (h_index s) + h_slot_size s \<le> 2 ^ 24"
    then show False using occupied [of 0] slot_sizes_pos [OF inv(1)] by simp
  qed
qed

lemma skynet_handle_register_ok:
  assumes ok: "slots_ok hof s" and fresh: "Some ctx \<notin> set (h_slot s)" and room: "register_room s"
  shows "\<exists>h s'. skynet_handle_register hof s ctx = Some (h, s') \<and> registered hof s ctx h s'"
proof (cases "register_scan (h_slot s) (h_slot_size s) (h_slot_size s) (h_index s)")
  case (Some r)
  then show ?thesis using register_found [OF ok fresh] by (cases r) auto
next
  case None
  with scan_finds_room [OF ok] room have full: "\<forall>j<h_slot_size s. h_slot s ! j \<noteq> None"
    and lim: "h_slot_size s * 2 - 1 \<le> unat HANDLE_MASK" by (auto simp: register_room_def)
  obtain new where new:
    "rehash hof (h_slot_size s * 2) (h_slot s) (replicate (h_slot_size s * 2) None) = Some new"
    "slots_ok hof (s\<lparr>h_slot := new, h_slot_size := h_slot_size s * 2\<rparr>)"
    "set new - {None} = set (h_slot s) - {None}" "\<exists>j<h_slot_size s * 2. 0 < j \<and> new ! j = None"
    using grow_ok [OF ok full lim] by blast
  let ?s1 = "s\<lparr>h_slot := new, h_slot_size := h_slot_size s * 2\<rparr>"
  have step: "skynet_handle_register hof s ctx = skynet_handle_register hof ?s1 ctx"
    using lim by (subst skynet_handle_register.simps) (simp add: None new(1))
  have fresh1: "Some ctx \<notin> set (h_slot ?s1)" using new(3) fresh by auto
  obtain h hash where "register_scan new (h_slot_size s * 2) (h_slot_size s * 2) (h_index s) = Some (h, hash)"
    using scan_finds_room [OF new(2)] new(4) by auto
  then obtain h' s' where reg: "skynet_handle_register hof ?s1 ctx = Some (h', s')"
    "registered hof ?s1 ctx h' s'"
    using register_found [OF new(2) fresh1, of h hash] by auto
  have "handle_find hof s h' = None"
  proof (rule ccontr)
    assume "handle_find hof s h' \<noteq> None"
    then obtain c where "hof c = h'" "Some c \<in> set (h_slot s)"
      using handle_find_Some [OF ok, of h'] by auto
    with new(3) have "handle_find hof ?s1 h' = Some c"
      by (subst handle_find_Some [OF new(2)]) auto
    with reg(2) show False by (simp add: registered_def)
  qed
  with reg new(3) step show ?thesis by (auto simp: registered_def)
qed

subsection \<open>The order of the names\<close>

definition name_key :: "string \<Rightarrow> nat list" where
  "name_key s = map of_char s"

lemma name_key_inj: "name_key a = name_key b \<longleftrightarrow> a = b"
  by (simp add: name_key_def inj_map_eq_map inj_of_char)

lemma strcmp_less: "strcmp a b < 0 \<longleftrightarrow> name_key a < name_key b"
  by (induction a b rule: strcmp.induct) (auto simp: name_key_def)

lemma strcmp_eq: "strcmp a b = 0 \<longleftrightarrow> a = b"
  by (induction a b rule: strcmp.induct) (auto simp: linorder_neq_iff dest: less_not_sym)

lemma strcmp_greater: "0 < strcmp a b \<longleftrightarrow> name_key b < name_key a"
proof -
  have "0 < strcmp a b \<longleftrightarrow> \<not> strcmp a b < 0 \<and> strcmp a b \<noteq> 0" by linarith
  then show ?thesis by (auto simp: strcmp_less strcmp_eq name_key_inj not_less le_less)
qed

definition key_at :: "handle_name list \<Rightarrow> nat \<Rightarrow> nat list" where
  "key_at xs i = name_key (nm_name (xs ! i))"

text \<open>Where a search must end: at the name, or at the one place that keeps the order.\<close>

fun search_spec :: "handle_name list \<Rightarrow> string \<Rightarrow> search \<Rightarrow> bool" where
  "search_spec xs nm (Found i) = (i < length xs \<and> nm_name (xs ! i) = nm)"
| "search_spec xs nm (Missing k) =
     (0 \<le> k \<and> k \<le> int (length xs) \<and> (\<forall>i<nat k. key_at xs i < name_key nm) \<and>
      (\<forall>i<length xs. nat k \<le> i \<longrightarrow> name_key nm < key_at xs i))"

lemma name_search_ok:
  assumes cells: "\<forall>i<length xs. rd ns i = Some (Some (xs ! i))"
    and ord: "\<forall>i j. i < j \<longrightarrow> j < length xs \<longrightarrow> key_at xs i < key_at xs j"
  shows "0 \<le> b \<Longrightarrow> b \<le> e + 1 \<Longrightarrow> e < int (length xs) \<Longrightarrow>
    \<forall>i<nat b. key_at xs i < name_key nm \<Longrightarrow>
    \<forall>i<length xs. nat (e + 1) \<le> i \<longrightarrow> name_key nm < key_at xs i \<Longrightarrow>
    \<exists>r. name_search ns nm b e = Some r \<and> search_spec xs nm r"
  using cells
proof (induction ns nm b e rule: name_search.induct)
  case (1 ns nm b e)
  show ?case
  proof (cases "b \<le> e")
    case False
    with 1 show ?thesis by (auto simp: name_search.simps [of ns nm b e])
  next
    case True
    define mid where "mid = (b + e) div 2"
    have mid: "b \<le> mid" "mid \<le> e" using True by (auto simp: mid_def)
    with "1.prems" have m: "nat mid < length xs" "0 \<le> mid" by auto
    define n where "n = xs ! nat mid"
    have cell: "rd ns (nat mid) = Some (Some n)" using "1.prems"(6) m(1) by (simp add: n_def)
    have unf: "name_search ns nm b e =
        (if strcmp (nm_name n) nm = 0 then Some (Found (nat mid))
         else if strcmp (nm_name n) nm < 0 then name_search ns nm (mid + 1) e
         else name_search ns nm b (mid - 1))"
      using True cell by (subst name_search.simps) (simp add: mid_def [symmetric] Let_def)
    note IH = "1.IH" [OF True mid_def cell refl refl]
    consider (eq) "strcmp (nm_name n) nm = 0" | (lt) "strcmp (nm_name n) nm < 0"
      | (gt) "0 < strcmp (nm_name n) nm" by linarith
    then show ?thesis
    proof cases
      case eq
      with m show ?thesis by (auto simp: unf n_def strcmp_eq)
    next
      case lt
      have "key_at xs i < name_key nm" if "i < nat (mid + 1)" for i
      proof (cases "i = nat mid")
        case True
        with lt show ?thesis by (simp add: key_at_def n_def strcmp_less)
      next
        case False
        with that m have "key_at xs i < key_at xs (nat mid)" using ord by simp
        moreover have "key_at xs (nat mid) < name_key nm" using lt by (simp add: key_at_def n_def strcmp_less)
        ultimately show ?thesis by (rule less_trans)
      qed
      with IH(1) lt "1.prems" mid m show ?thesis by (simp add: unf)
    next
      case gt
      have "name_key nm < key_at xs i" if "i < length xs" "nat (mid - 1 + 1) \<le> i" for i
      proof (cases "i = nat mid")
        case True
        with gt show ?thesis by (simp add: key_at_def n_def strcmp_greater)
      next
        case False
        with that m have "key_at xs (nat mid) < key_at xs i" using ord by simp
        moreover have "name_key nm < key_at xs (nat mid)" using gt by (simp add: key_at_def n_def strcmp_greater)
        ultimately show ?thesis by (rule less_trans [rotated])
      qed
      with IH(2) gt "1.prems" mid m show ?thesis by (simp add: unf)
    qed
  qed
qed

subsection \<open>The invariant of the name table\<close>

definition names :: "handle_storage \<Rightarrow> handle_name list" where
  "names s = map the (take (h_name_count s) (h_name s))"

definition names_ok :: "handle_storage \<Rightarrow> bool" where
  "names_ok s \<longleftrightarrow> length (h_name s) = h_name_cap s \<and> h_name_count s \<le> h_name_cap s \<and>
     0 < h_name_cap s \<and> None \<notin> set (take (h_name_count s) (h_name s)) \<and>
     sorted_wrt (\<lambda>a b. name_key (nm_name a) < name_key (nm_name b)) (names s)"

lemma names_ok_init: "names_ok (skynet_handle_init hb)"
  by (simp add: names_ok_def names_def skynet_handle_init_def)

lemma length_names: "names_ok s \<Longrightarrow> length (names s) = h_name_count s"
  by (simp add: names_ok_def names_def)

lemma take_names: "names_ok s \<Longrightarrow> take (h_name_count s) (h_name s) = map Some (names s)"
  by (simp add: names_ok_def names_def map_Some_the)

lemma names_cell: "names_ok s \<Longrightarrow> i < h_name_count s \<Longrightarrow> rd (h_name s) i = Some (Some (names s ! i))"
proof -
  assume ok: "names_ok s" and i: "i < h_name_count s"
  have "take (h_name_count s) (h_name s) ! i = Some (names s ! i)"
    using i length_names [OF ok] by (simp add: take_names [OF ok])
  with ok i show ?thesis by (simp add: names_ok_def)
qed

lemma names_key_mono: "names_ok s \<Longrightarrow> i < j \<Longrightarrow> j < length (names s) \<Longrightarrow> key_at (names s) i < key_at (names s) j"
  by (auto simp: names_ok_def key_at_def sorted_wrt_iff_nth_less)

lemma name_search_names:
  assumes ok: "names_ok s"
  shows "\<exists>r. name_search (h_name s) nm 0 (int (h_name_count s) - 1) = Some r \<and> search_spec (names s) nm r"
  using name_search_ok [of "names s" "h_name s" 0 "int (h_name_count s) - 1" nm]
    names_cell [OF ok] names_key_mono [OF ok] length_names [OF ok] by simp

text \<open>The table as a finite map; 0 is the answer for an unknown name.\<close>

definition name_map :: "handle_storage \<Rightarrow> string \<Rightarrow> u32 option" where
  "name_map s = map_of (map (\<lambda>n. (nm_name n, nm_handle n)) (names s))"

lemma distinct_names: "names_ok s \<Longrightarrow> distinct (map nm_name (names s))"
proof -
  assume "names_ok s"
  then have "sorted_wrt (\<lambda>a b. nm_name a \<noteq> nm_name b) (names s)"
    unfolding names_ok_def by (auto elim: sorted_wrt_mono_rel [rotated])
  then show ?thesis by (simp add: distinct_conv_nth sorted_wrt_iff_nth_less) (metis linorder_neqE_nat)
qed

lemma name_map_Some: "names_ok s \<Longrightarrow> i < length (names s) \<Longrightarrow> nm_name (names s ! i) = nm \<Longrightarrow>
    name_map s nm = Some (nm_handle (names s ! i))"
  using distinct_names [of s]
  by (auto simp: name_map_def comp_def intro!: map_of_is_SomeI)

lemma search_spec_Missing: "search_spec (names s) nm (Missing k) \<Longrightarrow> name_map s nm = None"
proof -
  assume spec: "search_spec (names s) nm (Missing k)"
  have "nm_name n \<noteq> nm" if "n \<in> set (names s)" for n
  proof -
    from that obtain i where i: "i < length (names s)" "names s ! i = n" by (auto simp: in_set_conv_nth)
    with spec have "key_at (names s) i \<noteq> name_key nm" by (cases "i < nat k") auto
    with i show ?thesis by (auto simp: key_at_def)
  qed
  then have "nm \<notin> nm_name ` set (names s)" by blast
  then show ?thesis by (simp add: name_map_def map_of_eq_None_iff image_image)
qed

lemma search_spec_map:
  assumes "names_ok s" "search_spec (names s) nm r"
  shows "name_map s nm = (case r of Found i \<Rightarrow> Some (nm_handle (names s ! i)) | Missing _ \<Rightarrow> None)"
  using assms by (cases r) (auto intro: name_map_Some search_spec_Missing simp del: search_spec.simps(2))

lemma skynet_handle_findname_ok:
  assumes ok: "names_ok s"
  shows "skynet_handle_findname s nm = Some (case name_map s nm of None \<Rightarrow> 0 | Some h \<Rightarrow> h)"
proof -
  obtain r where r: "name_search (h_name s) nm 0 (int (h_name_count s) - 1) = Some r"
    "search_spec (names s) nm r" using name_search_names [OF ok] by blast
  show ?thesis
  proof (cases r)
    case (Found i)
    with r(2) have "rd (h_name s) i = Some (Some (names s ! i))"
      using names_cell [OF ok, of i] length_names [OF ok] by simp
    with Found show ?thesis
      by (simp add: skynet_handle_findname_def r(1) search_spec_map [OF ok r(2)])
  next
    case (Missing k)
    then show ?thesis by (simp add: skynet_handle_findname_def r(1) search_spec_map [OF ok r(2)])
  qed
qed

subsection \<open>Inserting a name\<close>

lemma shift_up_ok:
  "i < length ns \<Longrightarrow> b \<le> i \<Longrightarrow> \<exists>ns'. shift_up ns b i = Some ns' \<and> length ns' = length ns \<and>
     (\<forall>j<length ns. ns' ! j = (if b < j \<and> j \<le> i then ns ! (j - 1) else ns ! j))"
proof (induction ns b i rule: shift_up.induct)
  case (1 ns b i)
  show ?case
  proof (cases "i > b")
    case True
    let ?ns = "ns[i := ns ! (i - 1)]"
    have rw: "rd ns (i - 1) = Some (ns ! (i - 1))" "wr ns i (ns ! (i - 1)) = Some ?ns"
      using "1.prems" by simp_all
    have "shift_up ns b i = shift_up ?ns b (i - 1)"
      using True rw by (subst shift_up.simps) simp
    moreover obtain ns' where "shift_up ?ns b (i - 1) = Some ns'" "length ns' = length ?ns"
      "\<forall>j<length ?ns. ns' ! j = (if b < j \<and> j \<le> i - 1 then ?ns ! (j - 1) else ?ns ! j)"
    proof -
      have "i - 1 < length ?ns" "b \<le> i - 1" using "1.prems" True by auto
      from "1.IH" [OF True rw this] show ?thesis using that by blast
    qed
    ultimately show ?thesis
      using "1.prems" True by (intro exI [of _ ns']) (auto simp: nth_list_update)
  next
    case False
    have "shift_up ns b i = Some ns" using False by (subst shift_up.simps) simp
    with False "1.prems" show ?thesis by (intro exI [of _ ns]) auto
  qed
qed

definition inserted :: "handle_storage \<Rightarrow> handle_name \<Rightarrow> nat \<Rightarrow> handle_storage \<Rightarrow> bool" where
  "inserted s n b s' \<longleftrightarrow> h_name_count s' = Suc (h_name_count s) \<and>
     length (h_name s') = h_name_cap s' \<and> Suc (h_name_count s) \<le> h_name_cap s' \<and>
     take (Suc (h_name_count s)) (h_name s') = map Some (take b (names s) @ n # drop b (names s)) \<and>
     h_slot s' = h_slot s \<and> h_slot_size s' = h_slot_size s \<and> h_index s' = h_index s \<and>
     h_harbor s' = h_harbor s"

definition name_room :: "handle_storage \<Rightarrow> bool" where
  "name_room s \<longleftrightarrow> h_name_count s < h_name_cap s \<or> h_name_cap s * 2 \<le> MAX_SLOT_SIZE"

lemma insert_name_before_shift:
  assumes ok: "names_ok s" and b: "b \<le> h_name_count s" and room: "h_name_count s < h_name_cap s"
  shows "\<exists>s'. insert_name_before s nm h b = Some s' \<and> inserted s \<lparr>nm_name = nm, nm_handle = h\<rparr> b s'"
proof -
  let ?n = "h_name_count s" and ?new = "\<lparr>nm_name = nm, nm_handle = h\<rparr>"
  have len: "length (h_name s) = h_name_cap s" using ok by (simp add: names_ok_def)
  obtain ns where ns: "shift_up (h_name s) b ?n = Some ns" "length ns = length (h_name s)"
    "\<forall>j<length (h_name s). ns ! j = (if b < j \<and> j \<le> ?n then h_name s ! (j - 1) else h_name s ! j)"
    using shift_up_ok [of ?n "h_name s" b] b room len by auto
  have cell: "h_name s ! j = Some (names s ! j)" if "j < ?n" for j
    using names_cell [OF ok that] by (simp add: mem_simps)
  have "take (Suc ?n) (ns[b := Some ?new]) = map Some (take b (names s) @ ?new # drop b (names s))"
    (is "?l = ?r")
  proof (rule nth_equalityI)
    show "length ?l = length ?r" using ns(2) len room b length_names [OF ok] by simp
    fix j assume "j < length ?l"
    then have j: "j \<le> ?n" "j < length (h_name s)" using ns(2) by auto
    show "?l ! j = ?r ! j"
      using j b ns(2,3) cell length_names [OF ok] by (auto simp: nth_append nth_list_update nth_Cons')
  qed
  moreover have "insert_name_before s nm h b =
      Some (s\<lparr>h_name := ns[b := Some ?new], h_name_count := Suc ?n\<rparr>)"
    using room b ns(1,2) len by (simp add: insert_name_before_def)
  ultimately show ?thesis using ns(2) len room by (auto simp: inserted_def)
qed

lemma insert_name_before_grow:
  assumes ok: "names_ok s" and b: "b \<le> h_name_count s" and full: "h_name_count s \<ge> h_name_cap s"
    and lim: "h_name_cap s * 2 \<le> MAX_SLOT_SIZE"
  shows "\<exists>s'. insert_name_before s nm h b = Some s' \<and> inserted s \<lparr>nm_name = nm, nm_handle = h\<rparr> b s'"
proof -
  let ?n = "h_name_count s" and ?c = "h_name_cap s" and ?new = "\<lparr>nm_name = nm, nm_handle = h\<rparr>"
  have n: "?n = ?c" "0 < ?c" "length (names s) = ?n"
    using ok full length_names [OF ok] by (auto simp: names_ok_def)
  have cells: "map (rd (h_name s)) [i..<j] = map (\<lambda>k. Some (Some (names s ! k))) [i..<j]" if "j \<le> ?n" for i j
    using that names_cell [OF ok] by simp
  let ?low = "map (\<lambda>k. Some (names s ! k)) [0..<b]" and ?high = "map (\<lambda>k. Some (names s ! k)) [b..<?n]"
  let ?rest = "replicate (?c * 2 - (?n + 1)) None"
  let ?s' = "s\<lparr>h_name_cap := ?c * 2, h_name := ?low @ Some ?new # ?high @ ?rest, h_name_count := Suc ?n\<rparr>"
  have "insert_name_before s nm h b = Some ?s'"
    using full lim b by (simp add: insert_name_before_def cells Let_def list_update_append)
  moreover have "inserted s ?new b ?s'"
  proof -
    have "?low = map Some (take b (names s))" "?high = map Some (drop b (names s))"
      using b n by (auto simp: list_eq_iff_nth_eq)
    then show ?thesis using b n by (simp add: inserted_def Suc_diff_le)
  qed
  ultimately show ?thesis by blast
qed

lemma inserted_names:
  assumes ok: "names_ok s" and ins: "inserted s n b s'" and b: "b \<le> h_name_count s"
    and lo: "\<forall>i<b. key_at (names s) i < name_key (nm_name n)"
    and hi: "\<forall>i<length (names s). b \<le> i \<longrightarrow> name_key (nm_name n) < key_at (names s) i"
  shows "names s' = take b (names s) @ n # drop b (names s)" "names_ok s'"
proof -
  let ?P = "\<lambda>a b. name_key (nm_name a) < name_key (nm_name b)"
  show names: "names s' = take b (names s) @ n # drop b (names s)"
    using ins by (simp add: inserted_def names_def)
  have srt: "sorted_wrt ?P (take b (names s) @ drop b (names s))"
    using ok by (simp add: names_ok_def)
  have "\<forall>x\<in>set (take b (names s)). ?P x n"
    using lo by (auto simp: in_set_conv_nth key_at_def)
  moreover have "\<forall>x\<in>set (drop b (names s)). ?P n x"
    using hi b length_names [OF ok] by (auto simp: in_set_conv_nth key_at_def)
  ultimately have "sorted_wrt ?P (names s')"
    using srt unfolding names sorted_wrt_append by auto
  with ins show "names_ok s'" by (auto simp: inserted_def names_ok_def)
qed

lemma map_of_insert:
  "x \<notin> fst ` set xs \<Longrightarrow> map_of (xs @ (x, y) # ys) = (map_of (xs @ ys))(x \<mapsto> y)"
  by (induction xs) (auto simp: fun_upd_twist)

lemma insert_name_ok:
  assumes ok: "names_ok s" and room: "name_room s"
  shows "case name_map s nm of
      Some _ \<Rightarrow> insert_name s nm h = Some (None, s)
    | None \<Rightarrow> \<exists>s'. insert_name s nm h = Some (Some nm, s') \<and> names_ok s' \<and>
        name_map s' = (name_map s)(nm \<mapsto> h) \<and> h_slot s' = h_slot s \<and>
        h_slot_size s' = h_slot_size s \<and> h_index s' = h_index s \<and> h_harbor s' = h_harbor s"
proof -
  obtain r where r: "name_search (h_name s) nm 0 (int (h_name_count s) - 1) = Some r"
    "search_spec (names s) nm r" using name_search_names [OF ok] by blast
  note map = search_spec_map [OF ok r(2)]
  show ?thesis
  proof (cases r)
    case (Found i)
    then show ?thesis by (simp add: map insert_name_def r(1))
  next
    case (Missing k)
    let ?b = "nat k" and ?n = "\<lparr>nm_name = nm, nm_handle = h\<rparr>"
    have b: "?b \<le> h_name_count s" using r(2) Missing length_names [OF ok] by auto
    obtain s' where s': "insert_name_before s nm h ?b = Some s'" "inserted s ?n ?b s'"
      using insert_name_before_shift [OF ok b, of nm h] insert_name_before_grow [OF ok b, of nm h] room
      by (cases "h_name_count s < h_name_cap s") (auto simp: name_room_def not_less)
    have names: "names s' = take ?b (names s) @ ?n # drop ?b (names s)" "names_ok s'"
      using inserted_names [OF ok s'(2) b] r(2) Missing by auto
    have "nm \<notin> fst ` set (map (\<lambda>n. (nm_name n, nm_handle n)) (take ?b (names s)))"
      using map Missing by (auto simp: name_map_def map_of_eq_None_iff dest: in_set_takeD)
    note new = map_of_insert [OF this, of h "map (\<lambda>n. (nm_name n, nm_handle n)) (drop ?b (names s))"]
    have "map (\<lambda>n. (nm_name n, nm_handle n)) (take ?b (names s)) @
        map (\<lambda>n. (nm_name n, nm_handle n)) (drop ?b (names s)) =
        map (\<lambda>n. (nm_name n, nm_handle n)) (names s)"
      by (simp flip: map_append)
    with new have "name_map s' = (name_map s)(nm \<mapsto> h)"
      by (simp only: name_map_def names(1) map_append list.map handle_name.simps)
    with s' names(2) Missing show ?thesis
      by (auto simp: map insert_name_def r(1) inserted_def)
  qed
qed

subsection \<open>Retiring a handle\<close>

lemma compact_names_ok:
  assumes "j \<le> i" "i \<le> n" "n \<le> length ns"
    and "\<forall>k<n. i \<le> k \<longrightarrow> ns ! k = Some (xs ! k)" "length xs = n"
    and "take j ns = map Some ys"
  shows "\<exists>ns' j'. compact_names ns h n i j = Some (ns', j') \<and> length ns' = length ns \<and> j' \<le> n \<and>
    take j' ns' = map Some (ys @ filter (\<lambda>e. nm_handle e \<noteq> h) (drop i xs))"
  using assms
proof (induction ns h n i j arbitrary: ys rule: compact_names.induct)
  case (1 ns h n i j)
  show ?case
  proof (cases "i < n")
    case False
    with "1.prems" show ?thesis by (subst compact_names.simps) auto
  next
    case True
    have cell: "rd ns i = Some (Some (xs ! i))" using True "1.prems" by simp
    have drop: "drop i xs = xs ! i # drop (Suc i) xs" using True "1.prems"(5) by (simp add: Cons_nth_drop_Suc)
    show ?thesis
    proof (cases "nm_handle (xs ! i) = h")
      case dropped: True
      have "compact_names ns h n i j = compact_names ns h n (i + 1) j"
        using True cell dropped by (subst compact_names.simps) simp
      with "1.IH"(1) [OF True cell refl dropped] "1.prems" True dropped show ?thesis
        by (simp add: drop)
    next
      case kept: False
      define ns1 where "ns1 = ns[j := Some (xs ! i)]"
      have wr: "(if i \<noteq> j then wr ns j (Some (xs ! i)) else Some ns) = Some ns1"
        using True "1.prems" list_update_id [of ns i] by (cases "i = j") (auto simp: ns1_def)
      have step: "compact_names ns h n i j = compact_names ns1 h n (i + 1) (j + 1)"
        using True cell kept wr by (subst compact_names.simps) simp
      have "length ys = j" using arg_cong [OF "1.prems"(6), of length] "1.prems"(1-3) by simp
      then have take: "take (j + 1) ns1 = map Some (ys @ [xs ! i])"
        using "1.prems" True by (simp add: ns1_def take_Suc_conv_app_nth)
      have rest: "\<forall>k<n. i + 1 \<le> k \<longrightarrow> ns1 ! k = Some (xs ! k)"
        using "1.prems" by (auto simp: ns1_def nth_list_update)
      have len: "n \<le> length ns1" "j + 1 \<le> i + 1" "i + 1 \<le> n" using "1.prems" True by (auto simp: ns1_def)
      from "1.IH"(2) [OF True cell refl kept wr len(2,3,1) rest "1.prems"(5) take] kept step
      show ?thesis by (auto simp: drop ns1_def)
    qed
  qed
qed

text \<open>Every name of the retired handle goes, the other names stay in order.\<close>

lemma handle_retire_ok:
  assumes ok: "slots_ok hof s" and nok: "names_ok s"
  shows "\<exists>s'. handle_retire hof s h = Some (handle_find hof s h, s') \<and> slots_ok hof s' \<and> names_ok s' \<and>
    set (h_slot s') - {None} = set (h_slot s) - {None, handle_find hof s h} \<and>
    names s' = (if handle_find hof s h = None then names s
                else filter (\<lambda>e. nm_handle e \<noteq> h) (names s)) \<and>
    h_name_cap s' = h_name_cap s \<and> h_harbor s' = h_harbor s \<and> h_index s' = h_index s"
proof (cases "handle_find hof s h")
  case None
  then have "handle_retire hof s h = Some (None, s)"
    by (auto simp: handle_find_def handle_retire_def Let_def split: option.splits if_splits)
  with None ok nok show ?thesis by auto
next
  case (Some c)
  let ?i = "slot_hash h (h_slot_size s)"
  have c: "h_slot s ! ?i = Some c" "hof c = h"
    using Some by (auto simp: handle_find_def split: option.splits if_splits)
  have i: "?i < length (h_slot s)" using ok slot_hash_less by (simp add: slots_ok_def)
  have n: "length (names s) = h_name_count s" by (rule length_names [OF nok])
  have cells: "\<forall>k<h_name_count s. 0 \<le> k \<longrightarrow> h_name s ! k = Some (names s ! k)"
    using names_cell [OF nok] by (auto simp: mem_simps)
  have le: "h_name_count s \<le> length (h_name s)" using nok by (simp add: names_ok_def)
  obtain ns j where cn: "compact_names (h_name s) h (h_name_count s) 0 0 = Some (ns, j)"
    "length ns = length (h_name s)" "j \<le> h_name_count s"
    "take j ns = map Some (filter (\<lambda>e. nm_handle e \<noteq> h) (names s))"
    using compact_names_ok [OF _ _ le cells n, of 0 "[]" h] by auto
  let ?s' = "s\<lparr>h_slot := (h_slot s)[?i := None], h_name := ns, h_name_count := j\<rparr>"
  have "handle_retire hof s h = Some (Some c, ?s')"
    using c cn(1) by (simp add: handle_retire_def Let_def)
  moreover have names: "names ?s' = filter (\<lambda>e. nm_handle e \<noteq> h) (names s)"
    using cn(4) by (simp add: names_def)
  moreover have "names_ok ?s'"
    using nok cn names by (auto simp: names_ok_def sorted_wrt_filter)
  moreover have "slots_ok hof ?s'"
    using ok i unfolding slots_ok_def by (simp add: nth_list_update)
  moreover have "set ((h_slot s)[?i := None]) - {None} = set (h_slot s) - {None, Some c}"
  proof -
    have "h_slot s ! k \<noteq> Some c" if "k < length (h_slot s)" "k \<noteq> ?i" for k
      using ok that c(2) unfolding slots_ok_def by auto
    then show ?thesis by (intro set_clear i c(1)) auto
  qed
  ultimately show ?thesis using Some by simp
qed

subsection \<open>The table as an allocating table\<close>

text \<open>
  A registration is complete when the caller has stored the handle in the context
  (\<open>ctx->handle = skynet_handle_register(ctx)\<close> in \<open>skynet_context_new\<close>).
\<close>

definition handle_add :: "(cptr \<Rightarrow> u32) \<times> handle_storage \<Rightarrow> cptr \<Rightarrow>
    ((u32 \<times> cptr) \<times> (cptr \<Rightarrow> u32) \<times> handle_storage) option" where
  "handle_add st ctx = (case st of (hof, s) \<Rightarrow>
     map_option (\<lambda>(h, s'). ((h, ctx), hof(ctx := h), s')) (skynet_handle_register hof s ctx))"

definition handle_del :: "(cptr \<Rightarrow> u32) \<times> handle_storage \<Rightarrow> u32 \<Rightarrow>
    (cptr option \<times> (cptr \<Rightarrow> u32) \<times> handle_storage) option" where
  "handle_del st h = (case st of (hof, s) \<Rightarrow>
     map_option (\<lambda>(r, s'). (r, hof, s')) (handle_retire hof s h))"

definition table_ok :: "(cptr \<Rightarrow> u32) \<times> handle_storage \<Rightarrow> bool" where
  "table_ok st \<longleftrightarrow> slots_ok (fst st) (snd st) \<and> names_ok (snd st)"

definition table_room :: "(cptr \<Rightarrow> u32) \<times> handle_storage \<Rightarrow> cptr \<Rightarrow> bool" where
  "table_room st ctx \<longleftrightarrow> register_room (snd st) \<and> Some ctx \<notin> set (h_slot (snd st))"

lemma table_add_ok:
  assumes ok: "table_ok st" and room: "table_room st ctx"
  shows "\<exists>k v s'. handle_add st ctx = Some ((k, v), s') \<and> table_ok s' \<and>
    handle_find (fst st) (snd st) k = None \<and> v \<notin> ran (handle_find (fst st) (snd st)) \<and>
    handle_find (fst s') (snd s') = (handle_find (fst st) (snd st))(k \<mapsto> v)"
proof -
  obtain hof s where st: "st = (hof, s)" by (cases st)
  have s: "slots_ok hof s" "names_ok s" "Some ctx \<notin> set (h_slot s)" "register_room s"
    using ok room by (auto simp: st table_ok_def table_room_def)
  obtain h s' where reg: "skynet_handle_register hof s ctx = Some (h, s')" "registered hof s ctx h s'"
    using skynet_handle_register_ok [OF s(1,3,4)] by blast
  have ok': "slots_ok (hof(ctx := h)) s'" "handle_find hof s h = None" "names_ok s'"
    and live: "Some c \<in> set (h_slot s') \<longleftrightarrow> c = ctx \<or> Some c \<in> set (h_slot s)" for c
    using reg(2) s(2) by (auto simp: registered_def names_ok_def names_def)
  have free: "Some c \<notin> set (h_slot s)" if "hof c = h" for c
    using ok'(2) handle_find_Some [OF s(1), of h c] that by auto
  have "handle_find (hof(ctx := h)) s' = (handle_find hof s)(h \<mapsto> ctx)"
  proof (rule ext, rule option_eqI)
    fix k c
    show "handle_find (hof(ctx := h)) s' k = Some c \<longleftrightarrow> ((handle_find hof s)(h \<mapsto> ctx)) k = Some c"
      using s(3) free by (auto simp: handle_find_Some [OF s(1)] handle_find_Some [OF ok'(1)] live)
  qed
  moreover have "ctx \<notin> ran (handle_find hof s)"
    using s(3) by (auto simp: ran_def handle_find_Some [OF s(1)])
  ultimately show ?thesis using reg(1) ok' by (simp add: st handle_add_def table_ok_def)
qed

lemma table_del_ok:
  assumes ok: "table_ok st"
  shows "\<exists>s'. handle_del st k = Some (handle_find (fst st) (snd st) k, s') \<and> table_ok s' \<and>
    handle_find (fst s') (snd s') = (handle_find (fst st) (snd st))(k := None)"
proof -
  obtain hof s where st: "st = (hof, s)" by (cases st)
  have s: "slots_ok hof s" "names_ok s" using ok by (auto simp: st table_ok_def)
  obtain s' where r: "handle_retire hof s k = Some (handle_find hof s k, s')" "slots_ok hof s'" "names_ok s'"
    "set (h_slot s') - {None} = set (h_slot s) - {None, handle_find hof s k}"
    using handle_retire_ok [OF s, of k] by blast
  have live: "Some c \<in> set (h_slot s') \<longleftrightarrow> Some c \<in> set (h_slot s) \<and> handle_find hof s k \<noteq> Some c" for c
  proof -
    have "Some c \<in> set (h_slot s') - {None} \<longleftrightarrow> Some c \<in> set (h_slot s) - {None, handle_find hof s k}"
      using r(4) by simp
    then show ?thesis by auto
  qed
  have "handle_find hof s' = (handle_find hof s)(k := None)"
  proof (rule ext, rule option_eqI)
    fix h c
    show "handle_find hof s' h = Some c \<longleftrightarrow> ((handle_find hof s)(k := None)) h = Some c"
      by (auto simp: handle_find_Some [OF s(1)] handle_find_Some [OF r(2)] live)
  qed
  with r show ?thesis by (simp add: st handle_del_def table_ok_def)
qed

interpretation handles: id_table "\<lambda>st. handle_find (fst st) (snd st)" handle_add handle_del table_ok table_room
proof
  fix st k v k'
  assume "table_ok st" "handle_find (fst st) (snd st) k = Some v" "handle_find (fst st) (snd st) k' = Some v"
  then show "k = k'" by (auto simp: table_ok_def handle_find_Some)
qed (fact table_add_ok table_del_ok)+


subsection \<open>Properties\<close>

text \<open>
  C4: registration. When the table has room, a new context gets a handle whose low 24 bits
  are not zero, whose high byte is the harbor, and that no live context has; afterwards a lookup
  finds the context under that handle and every other lookup is as before, also when the
  table had to be doubled.
\<close>

theorem skynet_handle_register_unique:
  assumes ok: "slots_ok hof s" "names_ok s" and fresh: "Some ctx \<notin> set (h_slot s)" and room: "register_room s"
  shows "\<exists>h s'. skynet_handle_register hof s ctx = Some (h, s') \<and> slots_ok (hof(ctx := h)) s' \<and>
    h AND HANDLE_MASK \<noteq> 0 \<and> h AND NOT HANDLE_MASK = h_harbor s \<and> handle_find hof s h = None \<and>
    handle_find (hof(ctx := h)) s' = (handle_find hof s)(h \<mapsto> ctx)"
proof -
  obtain h s' where r: "skynet_handle_register hof s ctx = Some (h, s')" "registered hof s ctx h s'"
    using skynet_handle_register_ok [OF ok(1) fresh room] by blast
  have "table_ok (hof, s)" "table_room (hof, s) ctx"
    using assms by (simp_all add: table_ok_def table_room_def)
  from handles.add_ok [OF this] obtain k v t where "handle_add (hof, s) ctx = Some ((k, v), t)"
    "handle_find (fst t) (snd t) = (handle_find hof s)(k \<mapsto> v)"
    unfolding fst_conv snd_conv by blast
  then have "handle_find (hof(ctx := h)) s' = (handle_find hof s)(h \<mapsto> ctx)"
    by (simp add: handle_add_def r(1)) (elim conjE, hypsubst, simp only: fst_conv snd_conv)
  moreover have "unat (h AND HANDLE_MASK) \<noteq> 0" using r(2) unfolding registered_def by blast
  then have "h AND HANDLE_MASK \<noteq> 0" by (rule contrapos_nn) (simp only: unsigned_0)
  moreover have "slots_ok (hof(ctx := h)) s'" "h AND NOT HANDLE_MASK = h_harbor s" "handle_find hof s h = None"
    using r(2) unfolding registered_def by blast+
  ultimately show ?thesis using r(1) by blast
qed

theorem skynet_handle_register_unique_witness:
  "\<exists>h s'. skynet_handle_register (\<lambda>_. 0) (skynet_handle_init 1) 9 = Some (h, s') \<and> h AND HANDLE_MASK \<noteq> 0 \<and>
     handle_find ((\<lambda>_. 0)(9 := h)) s' h = Some 9"
proof -
  have "register_room (skynet_handle_init 1)"
    unfolding register_room_def by (intro disjI1 exI [of _ 1]) (simp add: skynet_handle_init_def DEFAULT_SLOT_SIZE_def)
  moreover have "Some (9 :: cptr) \<notin> set (h_slot (skynet_handle_init 1))"
    by (simp add: skynet_handle_init_def)
  ultimately obtain h s' where r: "skynet_handle_register (\<lambda>_. 0) (skynet_handle_init 1) 9 = Some (h, s')"
    "h AND HANDLE_MASK \<noteq> 0"
    "handle_find ((\<lambda>_. 0)(9 := h)) s' = (handle_find (\<lambda>_. 0) (skynet_handle_init 1))(h \<mapsto> 9)"
    using skynet_handle_register_unique [OF slots_ok_init names_ok_init, of "9" 1 "\<lambda>_. 0"] by blast
  from r(3) have "handle_find ((\<lambda>_. 0)(9 := h)) s' h = Some 9" by (simp only: fun_upd_same)
  with r(1,2) show ?thesis by blast
qed

definition wrap_storage :: handle_storage where
  "wrap_storage = \<lparr>h_harbor = 0, h_index = 0xffffff, h_slot_size = 4,
     h_slot = [None, Some 1, Some 2, Some 3], h_name_cap = 2, h_name_count = 0, h_name = [None, None]\<rparr>"

lemma wrap_hash: "slot_hash 0xffffff 4 = 3" "slot_hash 1 4 = 1" "slot_hash 2 4 = 2" "slot_hash 3 4 = 3"
  by (simp_all add: slot_hash_def)

lemma wrap_storage_ok: "slots_ok of_nat wrap_storage" "names_ok wrap_storage"
proof -
  have sz: "(4::nat) \<in> slot_sizes"
    unfolding slot_sizes_def by (rule image_eqI [of _ _ 2]) simp_all
  have i4: "i < 4 \<longleftrightarrow> i = 0 \<or> i = 1 \<or> i = 2 \<or> i = (3 :: nat)" for i by arith
  show "slots_ok of_nat wrap_storage"
    unfolding slots_ok_def using sz by (auto simp: wrap_storage_def i4 wrap_hash)
  show "names_ok wrap_storage" by (simp add: names_ok_def wrap_storage_def names_def)
qed

text \<open>
  Registration fails once the 24 bit handle counter passes its end while only slot 0 is
  free: the scan restarts at handle 1, misses slot 0, takes the table for full and, doubling
  it, dereferences the null slot. The handle storage of the theorem satisfies the invariant.
\<close>

theorem skynet_handle_register_wrap_crash:
  "slots_ok of_nat wrap_storage \<and> names_ok wrap_storage \<and> h_slot wrap_storage ! 0 = None \<and>
   skynet_handle_register of_nat wrap_storage 4 = None"
proof -
  have "register_scan [None, Some 1, Some 2, Some 3] 4 (Suc (Suc (Suc (Suc 0)))) 0xffffff = None"
    by (simp add: HANDLE_MASK_def wrap_hash)
  moreover have "Suc (Suc (Suc (Suc 0))) = (4 :: nat)" by simp
  ultimately have "register_scan (h_slot wrap_storage) (h_slot_size wrap_storage) (h_slot_size wrap_storage)
      (h_index wrap_storage) = None" by (simp only: wrap_storage_def handle_storage.simps)
  then have "skynet_handle_register of_nat wrap_storage 4 = None"
    by (subst skynet_handle_register.simps) (simp add: wrap_storage_def HANDLE_MASK_def)
  with wrap_storage_ok show ?thesis by (simp add: wrap_storage_def)
qed

text \<open>
  C7: the sorted array of names is a finite map. A lookup answers the handle of the name and 0
  for an unknown one; naming an unused name binds it and nothing else, growing the array when
  it is full; naming a used one is refused and changes nothing.
\<close>

theorem handle_names_map:
  assumes ok: "names_ok s" and room: "name_room s"
  shows "skynet_handle_findname s nm = Some (case name_map s nm of None \<Rightarrow> 0 | Some h \<Rightarrow> h) \<and>
    (if nm \<in> dom (name_map s) then skynet_handle_namehandle s h nm = Some (None, s)
     else \<exists>s'. skynet_handle_namehandle s h nm = Some (Some nm, s') \<and> names_ok s' \<and>
       name_map s' = (name_map s)(nm \<mapsto> h) \<and> skynet_handle_findname s' nm = Some h)"
proof (cases "name_map s nm")
  case None
  with insert_name_ok [OF ok room, of nm h] obtain s' where
    "insert_name s nm h = Some (Some nm, s')" "names_ok s'" "name_map s' = (name_map s)(nm \<mapsto> h)" by auto
  with None skynet_handle_findname_ok [of s' nm] skynet_handle_findname_ok [OF ok, of nm] show ?thesis
    by (auto simp: skynet_handle_namehandle_def)
next
  case (Some k)
  with insert_name_ok [OF ok room, of nm h] skynet_handle_findname_ok [OF ok, of nm] show ?thesis
    by (auto simp: skynet_handle_namehandle_def)
qed

theorem handle_names_map_witness:
  "\<exists>s'. skynet_handle_namehandle (skynet_handle_init 1) 5 ''gate'' = Some (Some ''gate'', s') \<and>
     skynet_handle_findname s' ''gate'' = Some 5"
proof -
  have "name_room (skynet_handle_init 1)" "name_map (skynet_handle_init 1) = Map.empty"
    by (simp_all add: name_room_def skynet_handle_init_def name_map_def names_def)
  with handle_names_map [OF names_ok_init, of 1 "''gate''" 5] show ?thesis by auto
qed

text \<open>
  Retiring a handle frees exactly its slot and drops exactly its names, the others keep
  their order; retiring an unknown handle changes nothing that a lookup can see.
\<close>

theorem handle_retire_exact:
  assumes ok: "slots_ok hof s" "names_ok s"
  shows "\<exists>s'. handle_retire hof s h = Some (handle_find hof s h, s') \<and> slots_ok hof s' \<and> names_ok s' \<and>
    handle_find hof s' = (handle_find hof s)(h := None) \<and>
    names s' = (if handle_find hof s h = None then names s else filter (\<lambda>e. nm_handle e \<noteq> h) (names s))"
proof -
  obtain s' where r: "handle_retire hof s h = Some (handle_find hof s h, s')" "slots_ok hof s'" "names_ok s'"
    "names s' = (if handle_find hof s h = None then names s else filter (\<lambda>e. nm_handle e \<noteq> h) (names s))"
    using handle_retire_ok [OF ok, of h] by blast
  obtain t where "handle_del (hof, s) h = Some (handle_find hof s h, t)"
    "handle_find (fst t) (snd t) = (handle_find hof s)(h := None)"
    using handles.del_ok [of "(hof, s)" h] ok by (auto simp: table_ok_def)
  with r show ?thesis by (auto simp: handle_del_def)
qed

theorem handle_retire_exact_witness:
  "\<exists>s'. handle_retire of_nat wrap_storage 2 = Some (Some 2, s') \<and> handle_find of_nat s' 2 = None \<and>
     handle_find of_nat s' 3 = Some 3"
proof -
  have "handle_find of_nat wrap_storage 2 = Some 2" "handle_find of_nat wrap_storage 3 = Some 3"
    using wrap_hash by (simp_all add: handle_find_def wrap_storage_def)
  moreover obtain s' where "handle_retire of_nat wrap_storage 2 = Some (handle_find of_nat wrap_storage 2, s')"
    "handle_find of_nat s' = (handle_find of_nat wrap_storage)(2 := None)"
    using handle_retire_exact [OF wrap_storage_ok, of 2] by blast
  ultimately show ?thesis by simp
qed

end
