(* ===== verification/Timer.thy ===== *)
theory Timer
  imports Message_Queue
begin

text \<open>
  The timing wheel: \<^verbatim>\<open>skynet-src/skynet_timer.c\<close>. A \<open>link_list\<close> (a list head with a tail
  pointer, to which \<open>link\<close> appends and which \<open>link_clear\<close> empties) is a list of nodes; the
  arrays \<open>near[256]\<close> and \<open>t[4][64]\<close> are functions of their indices, which the code always
  masks into range.
\<close>

subsection \<open>Data\<close>

definition TIME_NEAR_SHIFT :: nat where "TIME_NEAR_SHIFT = 8"
definition TIME_LEVEL_SHIFT :: nat where "TIME_LEVEL_SHIFT = 6"
definition TIME_NEAR :: u32 where "TIME_NEAR = 256"
definition TIME_NEAR_MASK :: u32 where "TIME_NEAR_MASK = 255"
definition TIME_LEVEL_MASK :: u32 where "TIME_LEVEL_MASK = 63"

lemmas timer_consts = TIME_NEAR_SHIFT_def TIME_LEVEL_SHIFT_def TIME_NEAR_def TIME_NEAR_MASK_def
  TIME_LEVEL_MASK_def

text \<open>A \<open>timer_node\<close> with the \<open>timer_event\<close> stored behind it.\<close>

record timer_node =
  tn_handle :: u32
  tn_session :: int
  tn_expire :: u32

record timer =
  near :: "nat \<Rightarrow> timer_node list"
  tv :: "nat \<Rightarrow> nat \<Rightarrow> timer_node list"
  tm_time :: u32
  tm_starttime :: u32
  tm_current :: u64
  tm_current_point :: u64

definition timer_create_timer :: timer where
  "timer_create_timer = \<lparr>near = (\<lambda>_. []), tv = (\<lambda>_ _. []), tm_time = 0, tm_starttime = 0,
     tm_current = 0, tm_current_point = 0\<rparr>"

subsection \<open>Operations\<close>

definition link_near :: "timer \<Rightarrow> nat \<Rightarrow> timer_node \<Rightarrow> timer" where
  "link_near T i n = T\<lparr>near := (near T)(i := near T i @ [n])\<rparr>"

definition link_level :: "timer \<Rightarrow> nat \<Rightarrow> nat \<Rightarrow> timer_node \<Rightarrow> timer" where
  "link_level T i j n = T\<lparr>tv := (tv T)(i := (tv T i)(j := tv T i j @ [n]))\<rparr>"

text \<open>The \<open>for (i=0;i<3;i++)\<close> loop of \<open>add_node\<close>.\<close>

function add_level :: "u32 \<Rightarrow> u32 \<Rightarrow> nat \<Rightarrow> u32 \<Rightarrow> nat" where
  "add_level time current_time i msk =
     (if i < 3 then
        (if (time OR (msk - 1)) = (current_time OR (msk - 1)) then i
         else add_level time current_time (i + 1) (push_bit TIME_LEVEL_SHIFT msk))
      else i)"
  by pat_completeness auto
termination by (relation "measure (\<lambda>(t, c, i, m). 3 - i)") auto

declare add_level.simps [simp del]

definition add_node :: "timer \<Rightarrow> timer_node \<Rightarrow> timer" where
  "add_node T node =
     (let time = tn_expire node; current_time = tm_time T in
      if (time OR TIME_NEAR_MASK) = (current_time OR TIME_NEAR_MASK)
      then link_near T (unat (time AND TIME_NEAR_MASK)) node
      else
        (let i = add_level time current_time 0 (push_bit TIME_LEVEL_SHIFT TIME_NEAR) in
         link_level T i
           (unat (drop_bit (TIME_NEAR_SHIFT + i * TIME_LEVEL_SHIFT) time AND TIME_LEVEL_MASK)) node))"

definition timer_add :: "timer \<Rightarrow> u32 \<Rightarrow> int \<Rightarrow> u32 \<Rightarrow> timer" where
  "timer_add T handle session time =
     add_node T \<lparr>tn_handle = handle, tn_session = session, tn_expire = time + tm_time T\<rparr>"

definition move_list :: "timer \<Rightarrow> nat \<Rightarrow> nat \<Rightarrow> timer" where
  "move_list T level idx =
     foldl add_node (T\<lparr>tv := (tv T)(level := (tv T level)(idx := []))\<rparr>) (tv T level idx)"

text \<open>
  The loop \<open>while ((ct & (mask-1))==0)\<close> of \<open>timer_shift\<close>; \<open>t[i]\<close> with \<open>i \<ge> 4\<close> is outside the
  array.
\<close>

partial_function (option) shift_loop :: "timer \<Rightarrow> u32 \<Rightarrow> u32 \<Rightarrow> u32 \<Rightarrow> nat \<Rightarrow> timer option" where
  "shift_loop T ct msk time i =
     (if ct AND (msk - 1) = 0 then
        (let idx = unat (time AND TIME_LEVEL_MASK) in
         if idx \<noteq> 0 then do { c_assert (i < 4); Some (move_list T i idx) }
         else shift_loop T ct (push_bit TIME_LEVEL_SHIFT msk) (drop_bit TIME_LEVEL_SHIFT time) (i + 1))
      else Some T)"

definition timer_shift :: "timer \<Rightarrow> timer option" where
  "timer_shift T =
     (let ct = tm_time T + 1; T1 = T\<lparr>tm_time := ct\<rparr> in
      if ct = 0 then Some (move_list T1 3 0)
      else shift_loop T1 ct TIME_NEAR (drop_bit TIME_NEAR_SHIFT ct) 0)"

text \<open>
  \<open>dispatch_list\<close> pushes one message per node, in list order: the messages to push, each with
  the handle it goes to.
\<close>

definition timer_message :: "int \<Rightarrow> skynet_message" where
  "timer_message ses = \<lparr>msg_source = 0, msg_session = ses, msg_data = PNull, msg_sz = typed_sz PTYPE_RESPONSE\<rparr>"

definition dispatch_list :: "timer_node list \<Rightarrow> (u32 \<times> skynet_message) list" where
  "dispatch_list ns = map (\<lambda>n. (tn_handle n, timer_message (tn_session n))) ns"

text \<open>
  \<open>timer_execute\<close>: the nodes it takes out and dispatches, in order. No timer is added between
  the unlock and the lock, so the loop stops at its second test.
\<close>

function timer_execute :: "timer \<Rightarrow> timer \<times> timer_node list" where
  "timer_execute T =
     (let idx = unat (tm_time T AND TIME_NEAR_MASK) in
      if near T idx \<noteq> [] then
        (let current = near T idx; (T', rest) = timer_execute (T\<lparr>near := (near T)(idx := [])\<rparr>)
         in (T', current @ rest))
      else (T, []))"
  by pat_completeness auto
termination
  by (relation "measure (\<lambda>T. length (near T (unat (tm_time T AND TIME_NEAR_MASK))))") auto

declare timer_execute.simps [simp del]

definition timer_update :: "timer \<Rightarrow> (timer \<times> timer_node list) option" where
  "timer_update T = do {
     let (T1, ds1) = timer_execute T;
     T2 \<leftarrow> timer_shift T1;
     let (T3, ds2) = timer_execute T2;
     Some (T3, ds1 @ ds2)
   }"

primrec timer_updates :: "nat \<Rightarrow> timer \<Rightarrow> (timer \<times> timer_node list list) option" where
  "timer_updates 0 T = Some (T, [])"
| "timer_updates (Suc n) T = do {
     (T1, ds) \<leftarrow> timer_update T;
     (T2, dss) \<leftarrow> timer_updates n T1;
     Some (T2, ds # dss)
   }"

text \<open>\<open>cp\<close> is what \<open>gettime\<close> read from the monotonic clock.\<close>

definition skynet_updatetime :: "timer \<Rightarrow> u64 \<Rightarrow> (timer \<times> timer_node list) option" where
  "skynet_updatetime T cp =
     (if cp < tm_current_point T then Some (T\<lparr>tm_current_point := cp\<rparr>, [])
      else if cp \<noteq> tm_current_point T then do {
        let diff = (ucast (cp - tm_current_point T) :: u32);
        (T', dss) \<leftarrow> timer_updates (unat diff)
          (T\<lparr>tm_current_point := cp, tm_current := tm_current T + ucast diff\<rparr>);
        Some (T', concat dss)
      } else Some (T, []))"

definition skynet_starttime :: "timer \<Rightarrow> u32" where "skynet_starttime T = tm_starttime T"
definition skynet_now :: "timer \<Rightarrow> u64" where "skynet_now T = tm_current T"

text \<open>\<open>systime\<close> read \<open>sec\<close> and \<open>cs\<close>, \<open>gettime\<close> read \<open>cp\<close>.\<close>

definition skynet_timer_init :: "u32 \<Rightarrow> u32 \<Rightarrow> u64 \<Rightarrow> timer" where
  "skynet_timer_init sec cs cp = timer_create_timer
     \<lparr>tm_starttime := sec, tm_current := ucast cs, tm_current_point := cp\<rparr>"

subsection \<open>Where a node is\<close>

datatype place = Near nat | Level nat nat

fun at_place :: "timer \<Rightarrow> place \<Rightarrow> timer_node list" where
  "at_place T (Near i) = near T i"
| "at_place T (Level i j) = tv T i j"

text \<open>The bits of two times agree from bit \<open>k\<close> up.\<close>

definition same_high :: "nat \<Rightarrow> u32 \<Rightarrow> u32 \<Rightarrow> bool" where
  "same_high k a b \<longleftrightarrow> unat a div 2 ^ k = unat b div 2 ^ k"

definition loc :: "u32 \<Rightarrow> u32 \<Rightarrow> place" where
  "loc c e =
     (if same_high 8 e c then Near (unat e mod 256)
      else if same_high 14 e c then Level 0 (unat e div 2 ^ 8 mod 64)
      else if same_high 20 e c then Level 1 (unat e div 2 ^ 14 mod 64)
      else if same_high 26 e c then Level 2 (unat e div 2 ^ 20 mod 64)
      else Level 3 (unat e div 2 ^ 26 mod 64))"

lemma unat_drop: "unat (drop_bit k (a :: u32)) = unat a div 2 ^ k"
  unfolding unat_drop_bit_eq by (rule drop_bit_eq_div)

lemma or_mask_eq_iff: "(a OR mask k) = (b OR mask k) \<longleftrightarrow> same_high k a (b :: u32)"
proof -
  have "(a OR mask k) = (b OR mask k) \<longleftrightarrow> drop_bit k a = drop_bit k b"
  proof
    assume eq: "a OR mask k = b OR mask k"
    show "drop_bit k a = drop_bit k b"
    proof (rule bit_word_eqI)
      fix n
      have "bit (a OR mask k) (k + n) = bit (b OR mask k) (k + n)" using eq by simp
      then show "bit (drop_bit k a) n = bit (drop_bit k b) n"
        by (auto simp: bit_simps)
    qed
  next
    assume eq: "drop_bit k a = drop_bit k b"
    show "a OR mask k = b OR mask k"
    proof (rule bit_word_eqI)
      fix n assume n: "n < LENGTH(32)"
      show "bit (a OR mask k) n = bit (b OR mask k) n"
      proof (cases "n < k")
        case False
        have "bit (drop_bit k a) (n - k) = bit (drop_bit k b) (n - k)" using eq by simp
        with False show ?thesis by (auto simp: bit_simps)
      qed (use n in \<open>auto simp: bit_simps\<close>)
    qed
  qed
  then show ?thesis
    by (simp only: same_high_def word_unat_eq_iff [of "drop_bit k a"] unat_drop)
qed

lemma unat_and_mask: "unat ((a :: u32) AND mask k) = unat a mod 2 ^ k"
  unfolding take_bit_eq_mask [symmetric] unsigned_take_bit_eq by (rule take_bit_eq_mod)

lemma mask_masks: "TIME_NEAR_MASK = mask 8" "TIME_LEVEL_MASK = mask 6"
  "(0x3fff :: u32) = mask 14" "(0xfffff :: u32) = mask 20" "(0x3ffffff :: u32) = mask 26"
  by (simp_all add: timer_consts mask_eq_exp_minus_1)

lemma add_level_eq:
  "add_level e c 0 (push_bit TIME_LEVEL_SHIFT TIME_NEAR) =
     (if same_high 14 e c then 0 else if same_high 20 e c then 1 else if same_high 26 e c then 2 else 3)"
proof -
  have m: "push_bit TIME_LEVEL_SHIFT TIME_NEAR = 0x4000" "push_bit TIME_LEVEL_SHIFT (0x4000 :: u32) = 0x100000"
    "push_bit TIME_LEVEL_SHIFT (0x100000 :: u32) = 0x4000000"
    "(0x4000 - 1 :: u32) = mask 14" "(0x100000 - 1 :: u32) = mask 20" "(0x4000000 - 1 :: u32) = mask 26"
    by (simp_all add: timer_consts push_bit_eq_mult mask_eq_exp_minus_1)
  have l3: "add_level e c 3 x = 3" for x by (subst add_level.simps) simp
  have l2: "add_level e c 2 0x4000000 = (if same_high 26 e c then 2 else 3)"
    by (subst add_level.simps) (simp only: m or_mask_eq_iff, simp add: l3)
  have l1: "add_level e c 1 0x100000 = (if same_high 20 e c then 1 else add_level e c 2 0x4000000)"
    by (subst add_level.simps) (simp only: m or_mask_eq_iff, simp add: numeral_2_eq_2)
  have "add_level e c 0 0x4000 = (if same_high 14 e c then 0 else add_level e c 1 0x100000)"
    by (subst add_level.simps) (simp only: m or_mask_eq_iff, simp)
  then show ?thesis by (simp only: m l1 l2)
qed

fun link_at :: "timer \<Rightarrow> place \<Rightarrow> timer_node \<Rightarrow> timer" where
  "link_at T (Near i) n = link_near T i n"
| "link_at T (Level i j) n = link_level T i j n"

lemma add_node_eq: "add_node T n = link_at T (loc (tm_time T) (tn_expire n)) n"
proof -
  have idx: "unat (drop_bit k (e :: u32) AND TIME_LEVEL_MASK) = unat e div 2 ^ k mod 64" for k e
    by (simp add: mask_masks unat_and_mask unat_drop del: unat_drop_bit_eq)
  show ?thesis
    unfolding add_node_def Let_def add_level_eq idx
    by (simp add: mask_masks or_mask_eq_iff loc_def unat_and_mask timer_consts del: unsigned_and_eq)
qed

subsection \<open>What one tick moves\<close>

text \<open>The list that \<open>timer_shift\<close> redistributes when the time becomes \<open>c\<close>.\<close>

definition due :: "u32 \<Rightarrow> place option" where
  "due c =
     (if c = 0 then Some (Level 3 0)
      else if \<not> 2 ^ 8 dvd unat c then None
      else if \<not> 2 ^ 14 dvd unat c then Some (Level 0 (unat c div 2 ^ 8 mod 64))
      else if \<not> 2 ^ 20 dvd unat c then Some (Level 1 (unat c div 2 ^ 14 mod 64))
      else if \<not> 2 ^ 26 dvd unat c then Some (Level 2 (unat c div 2 ^ 20 mod 64))
      else Some (Level 3 (unat c div 2 ^ 26 mod 64)))"

lemma div_Suc_dvd: "k dvd Suc c \<Longrightarrow> Suc c div k = Suc (c div k)" and
  div_Suc_ndvd: "\<not> k dvd Suc c \<Longrightarrow> Suc c div k = c div k"
  by (simp_all add: div_Suc dvd_eq_mod_eq_0)

lemma high_up: "j \<le> k \<Longrightarrow> x div 2 ^ j = y div 2 ^ j \<Longrightarrow> x div 2 ^ k = y div (2 ^ k :: nat)"
proof -
  assume jk: "j \<le> k" and eq: "x div 2 ^ j = y div 2 ^ j"
  have "(2::nat) ^ k = 2 ^ j * 2 ^ (k - j)" using jk by (simp flip: power_add)
  then show ?thesis using eq by (simp add: div_mult2_eq)
qed

lemma dvd_down: "j \<le> k \<Longrightarrow> 2 ^ k dvd x \<Longrightarrow> 2 ^ j dvd (x :: nat)"
  by (meson dvd_trans le_imp_power_dvd)

text \<open>At a boundary of size \<open>2 ^ k\<close> a later time differs from the old one above bit \<open>k\<close>.\<close>

lemma boundary_differs:
  assumes "2 ^ k dvd Suc c" "c < e" shows "e div 2 ^ k \<noteq> c div (2 ^ k :: nat)"
proof -
  have "Suc c div 2 ^ k \<le> e div 2 ^ k" using assms(2) by (intro div_le_mono) simp
  with div_Suc_dvd [OF assms(1)] show ?thesis by simp
qed

lemma u32_Suc: "c + 1 \<noteq> 0 \<Longrightarrow> unat (c + 1 :: u32) = Suc (unat c)"
  using unatSuc [of c] by (simp add: add.commute)

lemma same_high_up: "same_high j e c \<Longrightarrow> j \<le> k \<Longrightarrow> same_high k e c"
  unfolding same_high_def by (rule high_up)

lemma same_high_keep:
  "unat (c + 1) = Suc (unat c) \<Longrightarrow> \<not> 2 ^ k dvd Suc (unat c) \<Longrightarrow> same_high k e (c + 1) = same_high k e c"
  unfolding same_high_def by (simp only: div_Suc_ndvd not_False_eq_True)

lemma same_high_lost: "2 ^ k dvd Suc (unat c) \<Longrightarrow> unat c < unat e \<Longrightarrow> \<not> same_high k e c"
  unfolding same_high_def by (rule boundary_differs)

lemma loc_step_straight:
  assumes lt: "unat c < unat e"
  shows "loc (c + 1) e = loc c e \<or> due (c + 1) = Some (loc c e)"
proof -
  let ?C = "unat c"
  have nz: "c + 1 \<noteq> 0"
  proof
    assume "c + 1 = 0"
    then have "c = - 1" by (simp add: eq_neg_iff_add_eq_0)
    then have "e \<le> c" by simp
    with lt show False by (simp add: word_le_nat_alt)
  qed
  note suc = u32_Suc [OF nz]
  note d = dvd_down [of _ _ "Suc ?C"]
  note keep = same_high_keep [OF suc, of _ e] and lost = same_high_lost [OF _ lt]
  have up: "same_high 8 e (c + 1) \<longrightarrow> same_high 14 e (c + 1)" "same_high 14 e (c + 1) \<longrightarrow> same_high 20 e (c + 1)"
    "same_high 20 e (c + 1) \<longrightarrow> same_high 26 e (c + 1)"
    by (rule impI, erule same_high_up, simp)+
  consider "\<not> 2 ^ 8 dvd Suc ?C" | "2 ^ 8 dvd Suc ?C" "\<not> 2 ^ 14 dvd Suc ?C"
    | "2 ^ 14 dvd Suc ?C" "\<not> 2 ^ 20 dvd Suc ?C" | "2 ^ 20 dvd Suc ?C" "\<not> 2 ^ 26 dvd Suc ?C"
    | "2 ^ 26 dvd Suc ?C" by blast
  then show ?thesis
  proof cases
    case 1
    then have "\<not> 2 ^ 14 dvd Suc ?C" "\<not> 2 ^ 20 dvd Suc ?C" "\<not> 2 ^ 26 dvd Suc ?C"
      using d [of 8 14] d [of 8 20] d [of 8 26] by auto
    with 1 have "loc (c + 1) e = loc c e" by (simp only: loc_def keep simp_thms)
    then show ?thesis ..
  next
    case 2
    then have n: "\<not> 2 ^ 20 dvd Suc ?C" "\<not> 2 ^ 26 dvd Suc ?C" using d [of 14 20] d [of 14 26] by auto
    note k = keep [OF 2(2)] keep [OF n(1)] keep [OF n(2)] and l = lost [OF 2(1)]
    have "due (c + 1) = Some (Level 0 (unat (c + 1) div 2 ^ 8 mod 64))"
      using 2 nz by (simp only: due_def suc simp_thms if_True if_False)
    then show ?thesis using l up k
      by (cases "same_high 8 e (c + 1)") (simp_all only: loc_def simp_thms if_True if_False same_high_def)
  next
    case 3
    then have n: "\<not> 2 ^ 26 dvd Suc ?C" and b: "2 ^ 8 dvd Suc ?C" using d [of 20 26] d [of 8 14] by auto
    note k = keep [OF 3(2)] keep [OF n] and l = lost [OF b] lost [OF 3(1)]
    have "due (c + 1) = Some (Level 1 (unat (c + 1) div 2 ^ 14 mod 64))"
      using 3 b nz by (simp only: due_def suc simp_thms if_True if_False)
    then show ?thesis using l up k
      by (cases "same_high 14 e (c + 1)"; cases "same_high 8 e (c + 1)")
        (simp_all only: loc_def simp_thms if_True if_False same_high_def)
  next
    case 4
    then have b: "2 ^ 8 dvd Suc ?C" "2 ^ 14 dvd Suc ?C" using d [of 8 20] d [of 14 20] by auto
    note k = keep [OF 4(2)] and l = lost [OF b(1)] lost [OF b(2)] lost [OF 4(1)]
    have "due (c + 1) = Some (Level 2 (unat (c + 1) div 2 ^ 20 mod 64))"
      using 4 b nz by (simp only: due_def suc simp_thms if_True if_False)
    then show ?thesis using l up k
      by (cases "same_high 20 e (c + 1)"; cases "same_high 14 e (c + 1)"; cases "same_high 8 e (c + 1)")
        (simp_all only: loc_def simp_thms if_True if_False same_high_def)
  next
    case 5
    then have b: "2 ^ 8 dvd Suc ?C" "2 ^ 14 dvd Suc ?C" "2 ^ 20 dvd Suc ?C"
      using d [of 8 26] d [of 14 26] d [of 20 26] by auto
    note l = lost [OF b(1)] lost [OF b(2)] lost [OF b(3)] lost [OF 5]
    have "due (c + 1) = Some (Level 3 (unat (c + 1) div 2 ^ 26 mod 64))"
      using 5 b nz by (simp only: due_def suc simp_thms if_True if_False)
    then show ?thesis using l up
      by (cases "same_high 26 e (c + 1)"; cases "same_high 20 e (c + 1)"; cases "same_high 14 e (c + 1)";
          cases "same_high 8 e (c + 1)")
        (simp_all only: loc_def simp_thms if_True if_False same_high_def)
  qed
qed

lemma far_differs: "e + 2 ^ k \<le> c \<Longrightarrow> e div 2 ^ k \<noteq> c div (2 ^ k :: nat)"
proof -
  assume "e + 2 ^ k \<le> c"
  then have "(e + 2 ^ k) div 2 ^ k \<le> c div 2 ^ k" by (rule div_le_mono)
  moreover have "(e + 2 ^ k) div 2 ^ k = Suc (e div 2 ^ k)" by (subst div_add_self2) simp_all
  ultimately show ?thesis by simp
qed

lemma loc_far:
  assumes "unat e + 2 ^ 26 \<le> unat c"
  shows "loc c e = Level 3 (unat e div 2 ^ 26 mod 64)"
proof -
  have "unat e + 2 ^ k \<le> unat c" if "k \<le> 26" for k
    using assms power_increasing [OF that, of "2::nat"] by linarith
  then have "\<not> same_high k e c" if "k \<le> 26" for k
    using far_differs that by (simp only: same_high_def not_False_eq_True)
  then show ?thesis by (simp add: loc_def)
qed

lemma unat_diff_wrapped: "unat e < unat (c :: u32) \<Longrightarrow> unat (e - c) + unat c = 2 ^ 32 + unat e"
proof -
  assume lt: "unat e < unat c"
  show ?thesis using lt u32_bound [of c] by (simp add: unat_sub_if')
qed

lemma unat_diff_straight: "unat (c :: u32) \<le> unat e \<Longrightarrow> unat (e - c) = unat e - unat c"
  by (simp add: unat_sub word_le_nat_alt)

lemma loc_step_wrapped:
  assumes lt: "unat e < unat c" and near: "unat (e - c) < 2 ^ 31"
  shows "loc (c + 1) e = loc c e \<or> due (c + 1) = Some (loc c e)"
proof -
  have far: "unat e + 2 ^ 31 < unat c" using unat_diff_wrapped [OF lt] near u32_bound [of c] by simp
  then have l: "loc c e = Level 3 (unat e div 2 ^ 26 mod 64)" by (intro loc_far) simp
  show ?thesis
  proof (cases "c + 1 = 0")
    case False
    then have "unat (c + 1) = Suc (unat c)" by (rule u32_Suc)
    then have "loc (c + 1) e = Level 3 (unat e div 2 ^ 26 mod 64)" using far by (intro loc_far) simp
    with l show ?thesis by simp
  next
    case True
    show ?thesis
    proof (cases "unat e < 2 ^ 26")
      case small: True
      with l True show ?thesis by (simp add: due_def)
    next
      case False
      have "\<not> same_high k e 0" if "k \<le> 26" for k
      proof -
        have "2 ^ k \<le> unat e" using False power_increasing [OF that, of "2::nat"] by linarith
        then have "1 \<le> unat e div 2 ^ k" by (simp add: Suc_le_eq div_greater_zero_iff)
        then show ?thesis by (simp add: same_high_def)
      qed
      then have "loc 0 e = Level 3 (unat e div 2 ^ 26 mod 64)" by (simp add: loc_def)
      with l True show ?thesis by simp
    qed
  qed
qed

lemma loc_step:
  assumes "0 < unat (e - c)" "unat (e - c) < 2 ^ 31"
  shows "loc (c + 1) e = loc c e \<or> due (c + 1) = Some (loc c e)"
proof -
  have "unat e \<noteq> unat c" using assms(1) by (auto simp flip: word_unat_eq_iff)
  then consider "unat c < unat e" | "unat e < unat c" by linarith
  then show ?thesis using loc_step_straight loc_step_wrapped assms(2) by cases blast+
qed

text \<open>\<open>timer_shift\<close> moves exactly the due list.\<close>

definition move_place :: "timer \<Rightarrow> place option \<Rightarrow> timer" where
  "move_place T p = (case p of Some (Level i j) \<Rightarrow> move_list T i j | _ \<Rightarrow> T)"

lemma shift_loop_eq:
  assumes nz: "c \<noteq> 0"
  shows "shift_loop T c TIME_NEAR (drop_bit TIME_NEAR_SHIFT c) 0 = Some (move_place T (due c))"
proof -
  have test: "c AND mask k = 0 \<longleftrightarrow> 2 ^ k dvd unat c" for k
    by (simp add: word_unat_eq_iff [of "c AND mask k"] unat_and_mask dvd_eq_mod_eq_0)
  have idx: "unat (drop_bit k c AND TIME_LEVEL_MASK) = unat c div 2 ^ k mod 64" for k
    using unat_and_mask [of "drop_bit k c" 6] unat_drop [of k c] by (simp add: mask_masks)
  have dvd: "unat c div 2 ^ k mod 64 = 0 \<longleftrightarrow> 2 ^ (k + 6) dvd unat c" if "2 ^ k dvd unat c" for k
  proof -
    from that obtain m where "unat c = 2 ^ k * m" by blast
    then show ?thesis by (simp add: power_add dvd_eq_mod_eq_0 [symmetric])
  qed
  have top: "\<not> 2 ^ 32 dvd unat c"
  proof
    assume "2 ^ 32 dvd unat c"
    moreover have "0 < unat c" using nz by (simp add: unat_gt_0)
    ultimately have "2 ^ 32 \<le> unat c" by (rule dvd_imp_le)
    with u32_bound [of c] show False by simp
  qed
  have m: "(0x100 - 1 :: u32) = mask 8" "(0x4000 - 1 :: u32) = mask 14" "(0x100000 - 1 :: u32) = mask 20"
    "(0x4000000 - 1 :: u32) = mask 26"
    "push_bit TIME_LEVEL_SHIFT (0x100 :: u32) = 0x4000" "push_bit TIME_LEVEL_SHIFT (0x4000 :: u32) = 0x100000"
    "push_bit TIME_LEVEL_SHIFT (0x100000 :: u32) = 0x4000000"
    "drop_bit TIME_LEVEL_SHIFT (drop_bit 8 c) = drop_bit 14 c" "drop_bit TIME_LEVEL_SHIFT (drop_bit 14 c) = drop_bit 20 c"
    "drop_bit TIME_LEVEL_SHIFT (drop_bit 20 c) = drop_bit 26 c"
    by (simp_all add: timer_consts push_bit_eq_mult mask_eq_exp_minus_1)
  have step: "shift_loop T c x (drop_bit k c) i =
      (if 2 ^ k dvd unat c then
         (if \<not> 2 ^ (k + 6) dvd unat c then do { c_assert (i < 4); Some (move_list T i (unat c div 2 ^ k mod 64)) }
          else shift_loop T c (push_bit TIME_LEVEL_SHIFT x) (drop_bit TIME_LEVEL_SHIFT (drop_bit k c)) (i + 1))
       else Some T)" if "x - 1 = mask k" for x k i
    using dvd [of k]
    by (subst shift_loop.simps, simp only: that test idx Let_def, cases "2 ^ k dvd unat c")
      (simp_all only: simp_thms if_True if_False)
  have sum: "8 + 6 = (14::nat)" "14 + 6 = (20::nat)" "20 + 6 = (26::nat)" "26 + 6 = (32::nat)" by simp_all
  note run = step [of "0x100" 8, OF m(1)] step [of "0x4000" 14, OF m(2)] step [of "0x100000" 20, OF m(3)]
    step [of "0x4000000" 26, OF m(4)]
  note eval = timer_consts(1,3) run m(5-) sum due_def move_place_def
  have mono: "2 ^ 14 dvd unat c \<Longrightarrow> 2 ^ 8 dvd unat c" "2 ^ 20 dvd unat c \<Longrightarrow> 2 ^ 14 dvd unat c"
    "2 ^ 26 dvd unat c \<Longrightarrow> 2 ^ 20 dvd unat c"
    using dvd_down [of 8 14] dvd_down [of 14 20] dvd_down [of 20 26] by simp_all
  consider "\<not> 2 ^ 8 dvd unat c" | "2 ^ 8 dvd unat c" "\<not> 2 ^ 14 dvd unat c"
    | "2 ^ 14 dvd unat c" "\<not> 2 ^ 20 dvd unat c" | "2 ^ 20 dvd unat c" "\<not> 2 ^ 26 dvd unat c"
    | "2 ^ 26 dvd unat c" by blast
  then show ?thesis
  proof cases
    case 1
    then show ?thesis by (simp only: eval if_True if_False nz not_False_eq_True) simp
  next
    case 2
    then show ?thesis by (simp only: eval if_True if_False nz not_False_eq_True) simp
  next
    case 3
    with mono(1) show ?thesis by (simp only: eval if_True if_False nz not_False_eq_True not_True_eq_False) simp
  next
    case 4
    with mono(1,2) show ?thesis
      by (simp only: eval if_True if_False nz not_False_eq_True not_True_eq_False) (simp add: numeral_2_eq_2)
  next
    case 5
    with mono top show ?thesis
      by (simp only: eval if_True if_False nz not_False_eq_True not_True_eq_False) (simp add: numeral_3_eq_3)
  qed
qed

subsection \<open>The pending timers\<close>

definition places :: "place set" where
  "places = Near ` {..<256} \<union> (\<lambda>(i, j). Level i j) ` ({..<4} \<times> {..<64})"

definition pending :: "timer \<Rightarrow> timer_node multiset" where
  "pending T = (\<Sum>p\<in>places. mset (at_place T p))"

text \<open>Every node is where \<open>add_node\<close> would put it now.\<close>

definition placed :: "timer \<Rightarrow> bool" where
  "placed T \<longleftrightarrow> (\<forall>p. \<forall>n\<in>set (at_place T p). p = loc (tm_time T) (tn_expire n))"

definition ticks_left :: "timer \<Rightarrow> timer_node \<Rightarrow> nat" where
  "ticks_left T n = unat (tn_expire n - tm_time T)"

lemma finite_places [simp]: "finite places"
  by (simp add: places_def)

lemma loc_in_places [simp]: "loc c e \<in> places"
  by (auto simp: loc_def places_def)

lemma at_link: "at_place (link_at T p n) q = at_place T q @ (if q = p then [n] else [])"
  by (cases p; cases q) (auto simp: link_near_def link_level_def)

lemma time_link [simp]: "tm_time (link_at T p n) = tm_time T"
  by (cases p) (auto simp: link_near_def link_level_def)

lemma pending_link: "p \<in> places \<Longrightarrow> pending (link_at T p n) = add_mset n (pending T)"
proof -
  assume p: "p \<in> places"
  have "mset (at_place (link_at T p n) q) = mset (at_place T q) + (if q = p then {#n#} else {#})" for q
    by (simp add: at_link)
  then show ?thesis using p by (simp add: pending_def sum.distrib sum.delta)
qed

lemma in_pending: "placed T \<Longrightarrow> n \<in># pending T \<longleftrightarrow> n \<in> set (at_place T (loc (tm_time T) (tn_expire n)))"
proof -
  assume pl: "placed T"
  have "n \<in># pending T \<longleftrightarrow> (\<exists>p\<in>places. n \<in> set (at_place T p))"
    by (simp add: pending_def set_mset_sum)
  then show ?thesis using pl unfolding placed_def by (metis loc_in_places)
qed

lemma pending_add_node: "pending (add_node T n) = add_mset n (pending T)"
  by (simp add: add_node_eq pending_link)

lemma placed_add_node: "placed T \<Longrightarrow> placed (add_node T n)"
  by (auto simp: placed_def add_node_eq at_link split: if_splits)

lemma add_nodes:
  "tm_time (foldl add_node T ns) = tm_time T"
  "pending (foldl add_node T ns) = pending T + mset ns"
  "placed T \<Longrightarrow> placed (foldl add_node T ns)"
  by (induction ns arbitrary: T) (simp_all add: add_node_eq pending_link placed_add_node [unfolded add_node_eq])

fun clear_place :: "timer \<Rightarrow> place \<Rightarrow> timer" where
  "clear_place T (Near i) = T\<lparr>near := (near T)(i := [])\<rparr>"
| "clear_place T (Level i j) = T\<lparr>tv := (tv T)(i := (tv T i)(j := []))\<rparr>"

lemma at_clear: "at_place (clear_place T p) q = (if q = p then [] else at_place T q)"
  by (cases p; cases q) auto

lemma time_clear [simp]: "tm_time (clear_place T p) = tm_time T"
  by (cases p) auto

lemma pending_clear: "p \<in> places \<Longrightarrow> pending T = pending (clear_place T p) + mset (at_place T p)"
proof -
  assume p: "p \<in> places"
  have "pending T = (\<Sum>q\<in>places. mset (at_place (clear_place T p) q) +
      (if q = p then mset (at_place T p) else {#}))"
    unfolding pending_def by (rule sum.cong) (auto simp: at_clear)
  then show ?thesis using p by (simp add: pending_def sum.distrib sum.delta)
qed

lemma move_list_eq: "move_list T i j = foldl add_node (clear_place T (Level i j)) (at_place T (Level i j))"
  by (simp add: move_list_def)

lemma due_in_places: "due c = Some p \<Longrightarrow> p \<in> places \<and> (\<exists>i j. p = Level i j)"
  by (auto simp: due_def places_def split: if_splits)

lemma time_at: "at_place (T\<lparr>tm_time := c\<rparr>) p = at_place T p"
  by (cases p) auto

lemma pending_time: "pending (T\<lparr>tm_time := c\<rparr>) = pending T"
  by (simp add: pending_def time_at)

lemma timer_shift_eq:
  "timer_shift T = Some (move_place (T\<lparr>tm_time := tm_time T + 1\<rparr>) (due (tm_time T + 1)))"
proof (cases "tm_time T + 1 = 0")
  case True
  then show ?thesis by (simp add: timer_shift_def due_def move_place_def)
next
  case False
  then show ?thesis by (simp add: timer_shift_def Let_def shift_loop_eq)
qed

lemma timer_shift_ok:
  assumes pl: "placed T" and soon: "\<And>n. n \<in># pending T \<Longrightarrow> 0 < ticks_left T n \<and> ticks_left T n < 2 ^ 31"
  shows "\<exists>T'. timer_shift T = Some T' \<and> tm_time T' = tm_time T + 1 \<and> pending T' = pending T \<and> placed T'"
proof -
  let ?c = "tm_time T + 1" and ?T = "T\<lparr>tm_time := tm_time T + 1\<rparr>"
  have stay: "p = loc ?c (tn_expire n) \<or> due ?c = Some p" if "n \<in> set (at_place T p)" for p n
  proof -
    have p: "p = loc (tm_time T) (tn_expire n)" using pl that by (simp add: placed_def)
    with that have "n \<in># pending T" by (simp add: in_pending [OF pl])
    with soon loc_step [of "tn_expire n" "tm_time T"] p show ?thesis by (auto simp: ticks_left_def)
  qed
  show ?thesis
  proof (cases "due ?c")
    case None
    with stay have "placed ?T" by (auto simp: placed_def time_at)
    with None show ?thesis by (simp add: timer_shift_eq move_place_def pending_time)
  next
    case (Some p)
    with due_in_places obtain i j where p: "p = Level i j" "p \<in> places" by blast
    have "placed (clear_place ?T p)"
      using stay Some by (auto simp: placed_def at_clear time_at split: if_splits)
    moreover have "pending ?T = pending (clear_place ?T p) + mset (at_place ?T p)"
      by (rule pending_clear) (fact p(2))
    ultimately show ?thesis using Some p
      by (simp add: timer_shift_eq move_place_def move_list_eq add_nodes pending_time del: at_place.simps clear_place.simps)
  qed
qed

lemma loc_now: "loc c e = Near (unat c mod 256) \<longleftrightarrow> e = c"
proof
  assume l: "loc c e = Near (unat c mod 256)"
  then have "unat e div 256 = unat c div 256" "unat e mod 256 = unat c mod 256"
    by (auto simp: loc_def same_high_def split: if_splits)
  then have "unat e = unat c" by (metis div_mult_mod_eq)
  then show "e = c" by (simp add: word_unat_eq_iff)
qed (simp add: loc_def same_high_def)

abbreviation now_place :: "timer \<Rightarrow> place" where
  "now_place T \<equiv> Near (unat (tm_time T) mod 256)"

lemma timer_execute_eq: "timer_execute T = (clear_place T (now_place T), at_place T (now_place T))"
proof -
  have idx: "unat (tm_time T AND TIME_NEAR_MASK) = unat (tm_time T) mod 256" for T :: timer
    by (simp add: mask_masks unat_and_mask)
  let ?i = "unat (tm_time T) mod 256"
  have stop: "timer_execute S = (S, [])" if "near S (unat (tm_time S) mod 256) = []" for S
    using that by (subst timer_execute.simps) (simp add: idx)
  show ?thesis
  proof (cases "near T ?i = []")
    case True
    then have "T\<lparr>near := (near T)(?i := [])\<rparr> = T" by (cases T) (auto simp: fun_eq_iff)
    with True show ?thesis by (simp add: stop)
  next
    case False
    then show ?thesis by (subst timer_execute.simps) (simp add: idx stop Let_def)
  qed
qed

lemma filter_mset_sum: "finite A \<Longrightarrow> filter_mset P (\<Sum>x\<in>A. f x) = (\<Sum>x\<in>A. filter_mset P (f x))"
  by (induction rule: finite_induct) auto

lemma filter_pending:
  assumes pl: "placed T"
  shows "mset (at_place T (now_place T)) = filter_mset (\<lambda>n. tn_expire n = tm_time T) (pending T)"
    (is "?l = filter_mset ?P _")
proof -
  have "filter_mset ?P (pending T) = (\<Sum>p\<in>places. filter_mset ?P (mset (at_place T p)))"
    unfolding pending_def by (rule filter_mset_sum [OF finite_places])
  also have "\<dots> = (\<Sum>p\<in>places. if p = now_place T then ?l else {#})"
  proof (rule sum.cong [OF refl])
    fix p
    have expire: "tn_expire n = tm_time T \<longleftrightarrow> p = now_place T" if "n \<in> set (at_place T p)" for n
      using pl that loc_now [of "tm_time T" "tn_expire n"] by (auto simp: placed_def)
    show "filter_mset ?P (mset (at_place T p)) = (if p = now_place T then ?l else {#})"
    proof (cases "p = now_place T")
      case True
      have "filter_mset ?P (mset (at_place T p)) = mset (at_place T p)"
        using expire True by (simp only: filter_mset_eq_conv) auto
      then show ?thesis using True by simp
    next
      case False
      have "filter_mset ?P (mset (at_place T p)) = {#}"
        using expire False by (intro multiset_eqI) (auto simp: count_eq_zero_iff not_in_iff)
      then show ?thesis using False by simp
    qed
  qed
  also have "\<dots> = ?l"
    using loc_in_places [of "tm_time T" "tm_time T"] by (simp add: sum.delta iffD2 [OF loc_now])
  finally show ?thesis ..
qed

lemma timer_execute_ok:
  assumes pl: "placed T" and ex: "timer_execute T = (T', ds)"
  shows "placed T'" "tm_time T' = tm_time T"
    "mset ds = filter_mset (\<lambda>n. tn_expire n = tm_time T) (pending T)"
    "pending T' = filter_mset (\<lambda>n. tn_expire n \<noteq> tm_time T) (pending T)"
proof -
  have eqs: "T' = clear_place T (now_place T)" "ds = at_place T (now_place T)"
    using ex by (simp_all add: timer_execute_eq)
  show "placed T'" "tm_time T' = tm_time T"
    using pl by (auto simp: eqs placed_def at_clear simp del: at_place.simps clear_place.simps)
  show m: "mset ds = filter_mset (\<lambda>n. tn_expire n = tm_time T) (pending T)"
    using filter_pending [OF pl] by (simp only: eqs)
  have "now_place T \<in> places"
    using loc_in_places [of "tm_time T" "tm_time T"] by (simp only: iffD2 [OF loc_now])
  from pending_clear [OF this, of T] m
  have "pending T = pending T' + filter_mset (\<lambda>n. tn_expire n = tm_time T) (pending T)"
    by (simp only: eqs)
  then show "pending T' = filter_mset (\<lambda>n. tn_expire n \<noteq> tm_time T) (pending T)"
    using multiset_partition [of "pending T" "\<lambda>n. tn_expire n = tm_time T"] by (metis add.commute add_left_cancel)
qed

subsection \<open>One tick, exactly\<close>

text \<open>
  The wheel between two ticks: every node in its place, no node further away than the longest
  timeout (a positive \<open>int\<close>).
\<close>

definition wheel :: "timer \<Rightarrow> bool" where
  "wheel T \<longleftrightarrow> placed T \<and> (\<forall>n\<in>#pending T. ticks_left T n < 2 ^ 31)"

lemma wheel_create: "wheel timer_create_timer" "pending timer_create_timer = {#}"
proof -
  have "at_place timer_create_timer p = []" for p by (cases p) (auto simp: timer_create_timer_def)
  then show "wheel timer_create_timer" "pending timer_create_timer = {#}"
    by (auto simp: wheel_def placed_def pending_def)
qed

lemma ticks_left_0: "ticks_left T n = 0 \<longleftrightarrow> tn_expire n = tm_time T"
  by (simp add: ticks_left_def unat_eq_0)

lemma ticks_left_Suc:
  assumes "tm_time T' = tm_time T + 1" "0 < ticks_left T n"
  shows "ticks_left T' n = ticks_left T n - 1"
proof -
  have "tn_expire n - tm_time T \<noteq> 0" using assms(2) by (auto simp: ticks_left_def)
  then have "unat (tn_expire n - tm_time T - 1) = unat (tn_expire n - tm_time T) - 1"
    by (rule unat_minus_one)
  then show ?thesis using assms(1) by (simp add: ticks_left_def algebra_simps)
qed

lemma timer_update_ok:
  assumes w: "wheel T"
  shows "\<exists>T' ds. timer_update T = Some (T', ds) \<and> wheel T' \<and> tm_time T' = tm_time T + 1 \<and>
    mset ds = filter_mset (\<lambda>n. ticks_left T n \<le> 1) (pending T) \<and>
    pending T' = filter_mset (\<lambda>n. 1 < ticks_left T n) (pending T)"
proof -
  have pl: "placed T" and lim: "\<And>n. n \<in># pending T \<Longrightarrow> ticks_left T n < 2 ^ 31"
    using w by (auto simp: wheel_def)
  obtain T1 ds1 where e1: "timer_execute T = (T1, ds1)" by (cases "timer_execute T")
  note x1 = timer_execute_ok [OF pl e1]
  have left1: "ticks_left T1 = ticks_left T" by (simp add: fun_eq_iff ticks_left_def x1(2))
  have "0 < ticks_left T1 n \<and> ticks_left T1 n < 2 ^ 31" if "n \<in># pending T1" for n
    using that lim ticks_left_0 [of T n] by (auto simp: x1(4) left1)
  then obtain T2 where s: "timer_shift T1 = Some T2" "tm_time T2 = tm_time T1 + 1"
    "pending T2 = pending T1" "placed T2" using timer_shift_ok [OF x1(1)] by blast
  obtain T3 ds2 where e2: "timer_execute T2 = (T3, ds2)" by (cases "timer_execute T2")
  note x2 = timer_execute_ok [OF s(4) e2]
  have left2: "ticks_left T2 n = ticks_left T n - 1" if "n \<in># pending T1" for n
    using that ticks_left_Suc [OF s(2), of n] ticks_left_0 [of T n] by (auto simp: x1(4) left1)
  have expire2: "tn_expire n = tm_time T2 \<longleftrightarrow> ticks_left T n = 1" if "n \<in># pending T1" for n
    using ticks_left_0 [of T2 n] left2 [OF that] ticks_left_0 [of T n] that by (auto simp: x1(4))
  have ds2: "mset ds2 = filter_mset (\<lambda>n. ticks_left T n = 1) (pending T)"
  proof -
    have "mset ds2 = filter_mset (\<lambda>n. ticks_left T n = 1) (pending T1)"
      unfolding x2(3) s(3) using expire2 by (intro filter_mset_cong) auto
    also have "\<dots> = filter_mset (\<lambda>n. ticks_left T n = 1) (pending T)"
      unfolding x1(4) filter_filter_mset
      by (rule filter_mset_cong) (auto simp flip: ticks_left_0)
    finally show ?thesis .
  qed
  have p3: "pending T3 = filter_mset (\<lambda>n. 1 < ticks_left T n) (pending T)"
  proof -
    have "pending T3 = filter_mset (\<lambda>n. 1 < ticks_left T n) (pending T1)"
      unfolding x2(4) s(3) using expire2 by (intro filter_mset_cong) (auto simp: x1(4) simp flip: ticks_left_0)
    also have "\<dots> = filter_mset (\<lambda>n. 1 < ticks_left T n) (pending T)"
      unfolding x1(4) filter_filter_mset
      by (rule filter_mset_cong) (auto simp flip: ticks_left_0)
    finally show ?thesis .
  qed
  have time: "tm_time T3 = tm_time T + 1" by (simp add: x2(2) s(2) x1(2))
  have "ticks_left T3 n < 2 ^ 31" if "n \<in># pending T3" for n
    using that lim [of n] ticks_left_Suc [OF time, of n] by (auto simp: p3)
  then have "wheel T3" using x2(1) by (simp add: wheel_def)
  moreover have "mset (ds1 @ ds2) = filter_mset (\<lambda>n. ticks_left T n \<le> 1) (pending T)"
    unfolding mset_append x1(3) ds2 ticks_left_0 [symmetric]
    by (rule multiset_eqI) (auto simp: le_Suc_eq)
  moreover have "timer_update T = Some (T3, ds1 @ ds2)"
    by (simp add: timer_update_def e1 s(1) e2)
  ultimately show ?thesis using time p3 by blast
qed

text \<open>The \<open>k\<close>-th tick of a run dispatches the timers with \<open>k\<close> ticks left.\<close>

lemma timer_updates_ok:
  "wheel T \<Longrightarrow> \<forall>n\<in>#pending T. 0 < ticks_left T n \<Longrightarrow>
   \<exists>T' dss. timer_updates k T = Some (T', dss) \<and> length dss = k \<and> wheel T' \<and>
     tm_time T' = tm_time T + of_nat k \<and>
     (\<forall>i<k. mset (dss ! i) = filter_mset (\<lambda>n. ticks_left T n = Suc i) (pending T)) \<and>
     pending T' = filter_mset (\<lambda>n. k < ticks_left T n) (pending T)"
proof (induction k arbitrary: T)
  case 0
  then show ?case by (auto intro!: filter_mset_True [symmetric] cong: filter_mset_cong)
next
  case (Suc k)
  obtain T1 ds where u: "timer_update T = Some (T1, ds)" "wheel T1" "tm_time T1 = tm_time T + 1"
    "mset ds = filter_mset (\<lambda>n. ticks_left T n \<le> 1) (pending T)"
    "pending T1 = filter_mset (\<lambda>n. 1 < ticks_left T n) (pending T)"
    using timer_update_ok [OF Suc.prems(1)] by blast
  have left1: "ticks_left T1 n = ticks_left T n - 1" if "n \<in># pending T" for n
    using ticks_left_Suc [OF u(3)] Suc.prems(2) that by auto
  have "\<forall>n\<in>#pending T1. 0 < ticks_left T1 n" using left1 by (auto simp: u(5))
  then obtain T2 dss where r: "timer_updates k T1 = Some (T2, dss)" "length dss = k" "wheel T2"
    "tm_time T2 = tm_time T1 + of_nat k"
    "\<forall>i<k. mset (dss ! i) = filter_mset (\<lambda>n. ticks_left T1 n = Suc i) (pending T1)"
    "pending T2 = filter_mset (\<lambda>n. k < ticks_left T1 n) (pending T1)"
    using Suc.IH [OF u(2)] by blast
  have shift: "filter_mset (\<lambda>n. P (ticks_left T1 n)) (pending T1) =
      filter_mset (\<lambda>n. 1 < ticks_left T n \<and> P (ticks_left T n - 1)) (pending T)" for P
    unfolding u(5) filter_filter_mset by (rule filter_mset_cong) (auto simp: left1)
  have first: "mset ds = filter_mset (\<lambda>n. ticks_left T n = 1) (pending T)"
    unfolding u(4) using Suc.prems(2) by (intro filter_mset_cong) (auto simp: le_Suc_eq)
  have "mset ((ds # dss) ! i) = filter_mset (\<lambda>n. ticks_left T n = Suc i) (pending T)" if "i < Suc k" for i
  proof (cases i)
    case 0
    then show ?thesis by (simp add: first)
  next
    case (Suc j)
    with that r(5) have "mset ((ds # dss) ! i) = filter_mset (\<lambda>n. ticks_left T1 n = Suc j) (pending T1)" by simp
    also have "\<dots> = filter_mset (\<lambda>n. ticks_left T n = Suc i) (pending T)"
      unfolding shift [of "\<lambda>t. t = Suc j"] Suc by (rule filter_mset_cong) auto
    finally show ?thesis .
  qed
  moreover have "pending T2 = filter_mset (\<lambda>n. Suc k < ticks_left T n) (pending T)"
    unfolding r(6) shift [of "\<lambda>t. k < t"] by (rule filter_mset_cong) auto
  ultimately show ?case using u(1,3) r(1-4) by (auto simp: algebra_simps)
qed


subsection \<open>Properties\<close>

text \<open>
  C1: a timeout of \<open>t\<close> ticks, any positive \<open>int\<close>, set on a wheel at any time (the 32 bit
  clock may wrap), is dispatched at the \<open>t\<close>-th following tick, once, and at no other tick of a
  run of any length; every tick of the run succeeds. It goes out together with exactly the
  other timers that expire at that tick.
\<close>

theorem timer_fires_exactly:
  assumes w: "wheel T" and other: "\<forall>n\<in>#pending T. 0 < ticks_left T n" and t: "0 < t" "t < 2 ^ 31"
  shows "\<exists>T' dss. timer_updates k (timer_add T h ses t) = Some (T', dss) \<and> wheel T' \<and> length dss = k \<and>
    (\<forall>i<k. mset (dss ! i) = filter_mset (\<lambda>n. ticks_left T n = Suc i) (pending T) +
       (if unat t = Suc i then {#\<lparr>tn_handle = h, tn_session = ses, tn_expire = t + tm_time T\<rparr>#} else {#}))"
proof -
  let ?n = "\<lparr>tn_handle = h, tn_session = ses, tn_expire = t + tm_time T\<rparr>"
  let ?T = "timer_add T h ses t"
  have add: "?T = foldl add_node T [?n]" by (simp add: timer_add_def)
  have time: "tm_time ?T = tm_time T" and pend: "pending ?T = pending T + {#?n#}" and pl: "placed ?T"
    using add_nodes [of T "[?n]"] w by (simp_all only: add wheel_def) simp_all
  have left: "ticks_left ?T = ticks_left T" by (simp add: fun_eq_iff ticks_left_def time)
  have new: "ticks_left T ?n = unat t" by (simp add: ticks_left_def)
  have lt: "unat t < 2 ^ 31" "0 < unat t" using t by (simp_all add: word_less_nat_alt)
  have "wheel ?T" using w pl lt by (simp add: wheel_def pend left new)
  moreover have "\<forall>n\<in>#pending ?T. 0 < ticks_left ?T n" using other lt by (simp add: pend left new)
  ultimately obtain T' dss where run: "timer_updates k ?T = Some (T', dss)" "wheel T'" "length dss = k"
    "\<forall>i<k. mset (dss ! i) = filter_mset (\<lambda>n. ticks_left ?T n = Suc i) (pending ?T)"
    using timer_updates_ok [of ?T k] by blast
  have "filter_mset (\<lambda>n. ticks_left ?T n = Suc i) (pending ?T) =
      filter_mset (\<lambda>n. ticks_left T n = Suc i) (pending T) + (if unat t = Suc i then {#?n#} else {#})" for i
    by (simp add: left pend new)
  with run show ?thesis by simp
qed

theorem timer_fires_exactly_witness:
  "\<exists>T' dss. timer_updates 300 (timer_add timer_create_timer 7 1 260) = Some (T', dss) \<and>
     mset (dss ! 259) = {#\<lparr>tn_handle = 7, tn_session = 1, tn_expire = 260\<rparr>#} \<and> dss ! 258 = []"
proof -
  have "\<forall>n\<in>#pending timer_create_timer. 0 < ticks_left timer_create_timer n" by (simp add: wheel_create)
  from timer_fires_exactly [OF wheel_create(1) this, of 260 300 7 1]
  obtain T' dss where u: "timer_updates 300 (timer_add timer_create_timer 7 1 260) = Some (T', dss)"
    "\<forall>i<300. mset (dss ! i) = (if 260 = Suc i then
        {#\<lparr>tn_handle = 7, tn_session = 1, tn_expire = 260 + tm_time timer_create_timer\<rparr>#} else {#})"
    by (auto simp: wheel_create)
  from u(2) have "mset (dss ! 259) = {#\<lparr>tn_handle = 7, tn_session = 1, tn_expire = 260\<rparr>#}" "mset (dss ! 258) = {#}"
    by (simp_all add: timer_create_timer_def)
  with u(1) show ?thesis by simp
qed

text \<open>The clock fields are only written by \<open>skynet_updatetime\<close>.\<close>

definition clock_of :: "timer \<Rightarrow> u32 \<times> u64 \<times> u64" where
  "clock_of T = (tm_starttime T, tm_current T, tm_current_point T)"

lemma clock_link: "clock_of (link_at T p n) = clock_of T"
  by (cases p) (simp_all add: clock_of_def link_near_def link_level_def)

lemma clock_add_nodes: "clock_of (foldl add_node T ns) = clock_of T"
  by (induction ns arbitrary: T) (simp_all add: add_node_eq clock_link)

lemma clock_clear: "clock_of (clear_place T p) = clock_of T"
  by (cases p) (simp_all add: clock_of_def)

lemma clock_update: "timer_update T = Some (T', ds) \<Longrightarrow> clock_of T' = clock_of T"
proof -
  assume u: "timer_update T = Some (T', ds)"
  have move: "clock_of (move_place T p) = clock_of T" for T p
    by (auto simp: move_place_def move_list_eq clock_add_nodes clock_clear simp del: clear_place.simps
        split: option.splits place.splits)
  have time: "clock_of (T\<lparr>tm_time := c\<rparr>) = clock_of T" for T c by (simp add: clock_of_def)
  from u show ?thesis
    by (auto simp: timer_update_def timer_execute_eq timer_shift_eq clock_clear move time simp del: clear_place.simps)
qed

lemma clock_updates: "timer_updates k T = Some (T', dss) \<Longrightarrow> clock_of T' = clock_of T"
proof (induction k arbitrary: T T' dss)
  case (Suc k)
  then obtain T1 ds dss1 where "timer_update T = Some (T1, ds)" "timer_updates k T1 = Some (T', dss1)"
    by (auto simp: bind_eq_Some_conv)
  with Suc.IH clock_update show ?case by metis
qed auto

lemma wheel_frame:
  "pending (T\<lparr>tm_current_point := c\<rparr>) = pending T" "wheel (T\<lparr>tm_current_point := c\<rparr>) = wheel T"
  "pending (T\<lparr>tm_current_point := c, tm_current := e\<rparr>) = pending T"
  "wheel (T\<lparr>tm_current_point := c, tm_current := e\<rparr>) = wheel T"
  "ticks_left (T\<lparr>tm_current_point := c, tm_current := e\<rparr>) = ticks_left T"
proof -
  have at: "at_place (T\<lparr>tm_current_point := c\<rparr>) = at_place T"
    "at_place (T\<lparr>tm_current_point := c, tm_current := e\<rparr>) = at_place T"
    by (rule ext, case_tac x, simp_all)+
  show "pending (T\<lparr>tm_current_point := c\<rparr>) = pending T" "wheel (T\<lparr>tm_current_point := c\<rparr>) = wheel T"
    "pending (T\<lparr>tm_current_point := c, tm_current := e\<rparr>) = pending T"
    "wheel (T\<lparr>tm_current_point := c, tm_current := e\<rparr>) = wheel T"
    "ticks_left (T\<lparr>tm_current_point := c, tm_current := e\<rparr>) = ticks_left T"
    by (simp_all add: wheel_def pending_def placed_def ticks_left_def at fun_eq_iff)
qed

text \<open>The ticks of a run, taken together.\<close>

lemma mset_concat_ticks:
  "length dss = k \<Longrightarrow> \<forall>i<k. mset (dss ! i) = filter_mset (\<lambda>n. f n = Suc i) M \<Longrightarrow> \<forall>n\<in>#M. 0 < f n \<Longrightarrow>
   mset (concat dss) = filter_mset (\<lambda>n. f n \<le> k) M"
proof (induction k arbitrary: dss)
  case 0
  then show ?case by auto
next
  case (Suc k)
  then obtain ds d where dss: "dss = ds @ [d]" "length ds = k" by (metis length_Suc_conv_rev)
  have "\<forall>i<k. mset (ds ! i) = filter_mset (\<lambda>n. f n = Suc i) M"
  proof (intro allI impI)
    fix i assume "i < k"
    with Suc.prems(2) dss show "mset (ds ! i) = filter_mset (\<lambda>n. f n = Suc i) M"
      by (auto simp: nth_append dest: spec [of _ i])
  qed
  moreover have "mset d = filter_mset (\<lambda>n. f n = Suc k) M"
    using Suc.prems(2) dss by (auto dest: spec [of _ k])
  ultimately have "mset (concat dss) = filter_mset (\<lambda>n. f n \<le> k) M + filter_mset (\<lambda>n. f n = Suc k) M"
    using Suc.IH [OF dss(2)] Suc.prems(3) by (simp add: dss)
  also have "\<dots> = filter_mset (\<lambda>n. f n \<le> Suc k) M" by (rule multiset_eqI) (auto simp: le_Suc_eq)
  finally show ?case .
qed

text \<open>
  C5: an update of the clock by \<open>d\<close> centiseconds runs \<open>d\<close> ticks without failing and
  dispatches exactly the timers that expire within them; the other timers stay pending. A clock
  that does not move, or moves back, dispatches nothing.
\<close>

theorem skynet_updatetime_dispatches:
  assumes w: "wheel T" and left: "\<forall>n\<in>#pending T. 0 < ticks_left T n"
    and small: "tm_current_point T \<le> cp \<Longrightarrow> cp - tm_current_point T < 2 ^ 32"
  shows "\<exists>T' ds. skynet_updatetime T cp = Some (T', ds) \<and> tm_current_point T' = cp \<and>
    (let d = (if cp < tm_current_point T then 0 else unat (cp - tm_current_point T)) in
      mset ds = filter_mset (\<lambda>n. ticks_left T n \<le> d) (pending T) \<and>
      pending T' = filter_mset (\<lambda>n. d < ticks_left T n) (pending T) \<and> wheel T' \<and>
      skynet_now T' = skynet_now T + of_nat d \<and> tm_time T' = tm_time T + of_nat d)"
proof -
  let ?d = "unat (cp - tm_current_point T)"
  let ?T = "T\<lparr>tm_current_point := cp, tm_current := tm_current T + of_nat ?d\<rparr>"
  have all: "filter_mset (\<lambda>n. 0 < ticks_left T n) (pending T) = pending T"
    using left by (simp add: filter_mset_eq_conv)
  consider "cp < tm_current_point T" | "cp = tm_current_point T" | "tm_current_point T < cp"
    by (rule linorder_cases)
  then show ?thesis
  proof cases
    case 1
    with w left show ?thesis by (auto simp: skynet_updatetime_def skynet_now_def wheel_frame all)
  next
    case 2
    with w left show ?thesis by (auto simp: skynet_updatetime_def skynet_now_def all)
  next
    case 3
    then have "cp - tm_current_point T < 2 ^ 32" using small less_imp_le by blast
    then have low: "?d < 2 ^ 32" by (simp add: word_less_nat_alt)
    then have cast: "unat (ucast (cp - tm_current_point T) :: u32) = ?d"
      by (simp add: unsigned_ucast_eq take_bit_nat_eq_self)
    then have diff: "(ucast (ucast (cp - tm_current_point T) :: u32) :: u64) = of_nat ?d"
      by (metis of_nat_unat)
    obtain T' dss where run: "timer_updates ?d ?T = Some (T', dss)" "length dss = ?d" "wheel T'"
      "tm_time T' = tm_time ?T + of_nat ?d"
      "\<forall>i<?d. mset (dss ! i) = filter_mset (\<lambda>n. ticks_left T n = Suc i) (pending T)"
      "pending T' = filter_mset (\<lambda>n. ?d < ticks_left T n) (pending T)"
      using timer_updates_ok [of ?T ?d] w left by (simp only: wheel_frame) blast
    have "clock_of T' = clock_of ?T" by (rule clock_updates) (fact run(1))
    then have cl: "tm_current T' = tm_current T + of_nat ?d" "tm_current_point T' = cp"
      by (simp_all add: clock_of_def)
    have "skynet_updatetime T cp = Some (T', concat dss)"
      using 3 run(1) less_not_sym [OF 3] by (auto simp: skynet_updatetime_def cast diff)
    moreover have "mset (concat dss) = filter_mset (\<lambda>n. ticks_left T n \<le> ?d) (pending T)"
      by (rule mset_concat_ticks) (fact run left)+
    ultimately show ?thesis using 3 less_not_sym [OF 3] run(3,4,6) cl by (simp add: skynet_now_def)
  qed
qed


theorem skynet_updatetime_dispatches_witness:
  "\<exists>T' ds. skynet_updatetime (timer_add (skynet_timer_init 1 2 1000) 7 1 5) 1010 = Some (T', ds) \<and>
     mset ds = {#\<lparr>tn_handle = 7, tn_session = 1, tn_expire = 5\<rparr>#} \<and> skynet_now T' = 12"
proof -
  let ?n = "\<lparr>tn_handle = 7, tn_session = 1, tn_expire = 5\<rparr>"
  let ?T = "timer_add (skynet_timer_init 1 2 1000) 7 1 5"
  have at: "at_place (skynet_timer_init 1 2 1000) p = []" for p
    by (cases p) (auto simp: skynet_timer_init_def timer_create_timer_def)
  have init: "placed (skynet_timer_init 1 2 1000)" "pending (skynet_timer_init 1 2 1000) = {#}"
    "tm_time (skynet_timer_init 1 2 1000) = 0"
    by (simp_all add: placed_def pending_def at) (simp add: skynet_timer_init_def timer_create_timer_def)
  have add: "?T = foldl add_node (skynet_timer_init 1 2 1000) [?n]" by (simp add: timer_add_def init(3))
  have T: "tm_time ?T = 0" "pending ?T = {#?n#}" "placed ?T"
    using add_nodes [of "skynet_timer_init 1 2 1000" "[?n]"] init by (simp_all only: add) simp_all
  have left: "ticks_left ?T ?n = 5" by (simp add: ticks_left_def T)
  have cl: "clock_of ?T = clock_of (skynet_timer_init 1 2 1000)" by (simp only: add clock_add_nodes)
  then have now: "tm_current_point ?T = 1000" "tm_current ?T = 2"
    by (simp_all add: clock_of_def skynet_timer_init_def)
  have "wheel ?T" "\<forall>n\<in>#pending ?T. 0 < ticks_left ?T n" using T left by (simp_all add: wheel_def)
  from skynet_updatetime_dispatches [OF this, of 1010] show ?thesis
    by (simp add: now T left skynet_now_def) metis
qed

end
