(* ===== verification/C_Strings.thy ===== *)
theory C_Strings
  imports Skynet_Prelude
begin

text \<open>
  The part of the C library that the sources use on strings: \<open>strtoul\<close>, \<open>strtol\<close>,
  \<open>sprintf\<close> of \<open>%x\<close>, \<open>%08x\<close> and \<open>%d\<close>, \<open>sscanf\<close> of \<open>%s\<close>, \<open>strsep\<close>. A C string is the
  list of its characters before the terminating NUL; \<open>c_tail\<close> reads one character, NUL at
  the end.
\<close>

definition code :: "char \<Rightarrow> nat" where "code c = of_char c"

definition c_hd :: "string \<Rightarrow> char" where
  "c_hd s = (case s of [] \<Rightarrow> CHR 0x00 | c # _ \<Rightarrow> c)"

definition bytes_of :: "string \<Rightarrow> u8 list" where
  "bytes_of s = map (\<lambda>c. of_nat (code c)) s"

definition string_of :: "u8 list \<Rightarrow> string" where
  "string_of bs = map (\<lambda>b. char_of (unat b)) bs"

definition is_space :: "char \<Rightarrow> bool" where
  "is_space c \<longleftrightarrow> code c = 32 \<or> (9 \<le> code c \<and> code c \<le> 13)"

subsection \<open>Digits\<close>

definition digit_val :: "char \<Rightarrow> nat option" where
  "digit_val c =
     (let n = code c in
      if 48 \<le> n \<and> n \<le> 57 then Some (n - 48)
      else if 65 \<le> n \<and> n \<le> 90 then Some (n - 55)
      else if 97 \<le> n \<and> n \<le> 122 then Some (n - 87)
      else None)"

definition base_digit :: "nat \<Rightarrow> char \<Rightarrow> nat option" where
  "base_digit b c = (case digit_val c of Some d \<Rightarrow> if d < b then Some d else None | None \<Rightarrow> None)"

text \<open>The longest prefix of digits, read with accumulator \<open>acc\<close>.\<close>

fun read_digits :: "nat \<Rightarrow> nat \<Rightarrow> string \<Rightarrow> nat" where
  "read_digits b acc [] = acc"
| "read_digits b acc (c # cs) =
     (case base_digit b c of Some d \<Rightarrow> read_digits b (acc * b + d) cs | None \<Rightarrow> acc)"

definition lower_hex :: string where "lower_hex = ''0123456789abcdef''"
definition upper_hex :: string where "upper_hex = ''0123456789ABCDEF''"

fun print_base :: "nat \<Rightarrow> nat \<Rightarrow> string" where
  "print_base b n =
     (if b < 2 \<or> n < b then [lower_hex ! n] else print_base b (n div b) @ [lower_hex ! (n mod b)])"

declare print_base.simps [simp del]

lemma base_digit_lower: "d < b \<Longrightarrow> b \<le> 16 \<Longrightarrow> base_digit b (lower_hex ! d) = Some d"
proof -
  assume d: "d < b" "b \<le> 16"
  have "\<forall>d\<in>set [0..<16]. digit_val (lower_hex ! d) = Some d" by code_simp
  with d show ?thesis by (simp add: base_digit_def)
qed

lemma base_digit_upper: "d < 16 \<Longrightarrow> base_digit 16 (upper_hex ! d) = Some d"
proof -
  assume d: "d < 16"
  have "\<forall>d\<in>set [0..<16]. base_digit 16 (upper_hex ! d) = Some d" by code_simp
  with d show ?thesis by simp
qed

lemma read_digits_append:
  "\<forall>c\<in>set s. base_digit b c \<noteq> None \<Longrightarrow> read_digits b acc (s @ t) = read_digits b (read_digits b acc s) t"
  by (induction s arbitrary: acc) auto

lemma print_base_digits: "2 \<le> b \<Longrightarrow> b \<le> 16 \<Longrightarrow> c \<in> set (print_base b n) \<Longrightarrow> base_digit b c \<noteq> None"
proof (induction b n rule: print_base.induct)
  case (1 b n)
  then show ?case
    by (subst (asm) print_base.simps) (auto simp: base_digit_lower split: if_splits)
qed

lemma read_print_base:
  "2 \<le> b \<Longrightarrow> b \<le> 16 \<Longrightarrow> read_digits b 0 (print_base b n) = n"
proof (induction b n rule: print_base.induct)
  case (1 b n)
  show ?case
  proof (cases "n < b")
    case True
    with 1 show ?thesis by (subst print_base.simps) (simp add: base_digit_lower)
  next
    case False
    with 1 have "read_digits b 0 (print_base b (n div b)) = n div b" by simp
    moreover have "\<forall>c\<in>set (print_base b (n div b)). base_digit b c \<noteq> None"
      using print_base_digits 1 by blast
    ultimately show ?thesis using False 1
      by (subst print_base.simps) (simp add: read_digits_append base_digit_lower)
  qed
qed

subsection \<open>\<open>strtoul\<close>, \<open>strtol\<close>\<close>

definition strip_sign :: "string \<Rightarrow> bool \<times> string" where
  "strip_sign s = (case dropWhile is_space s of
       [] \<Rightarrow> (False, [])
     | c # cs \<Rightarrow> if c = CHR ''-'' then (True, cs) else if c = CHR ''+'' then (False, cs) else (False, c # cs))"

text \<open>The optional \<open>0x\<close> is only a prefix when a digit follows it.\<close>

definition strip_0x :: "string \<Rightarrow> string option" where
  "strip_0x s = (case s of
       z # x # d # cs \<Rightarrow> if z = CHR ''0'' \<and> (x = CHR ''x'' \<or> x = CHR ''X'') \<and> base_digit 16 d \<noteq> None
         then Some (d # cs) else None
     | _ \<Rightarrow> None)"

definition strtoul16 :: "string \<Rightarrow> u64" where
  "strtoul16 s =
     (let (neg, t) = strip_sign s;
          v = read_digits 16 0 (case strip_0x t of Some u \<Rightarrow> u | None \<Rightarrow> t)
      in if v \<ge> 2 ^ 64 then -1 else if neg then - of_nat v else of_nat v)"

definition sat64 :: "bool \<Rightarrow> nat \<Rightarrow> int" where
  "sat64 neg v = (if neg then max (- (2 ^ 63)) (- int v) else min (2 ^ 63 - 1) (int v))"

definition strtol10 :: "string \<Rightarrow> int" where
  "strtol10 s = (let (neg, t) = strip_sign s in sat64 neg (read_digits 10 0 t))"

text \<open>Base 0: \<open>0x\<close> for hexadecimal, a leading \<open>0\<close> for octal.\<close>

definition strtol0 :: "string \<Rightarrow> int" where
  "strtol0 s = (let (neg, t) = strip_sign s in
     sat64 neg (case strip_0x t of Some u \<Rightarrow> read_digits 16 0 u
       | None \<Rightarrow> if c_hd t = CHR ''0'' then read_digits 8 0 t else read_digits 10 0 t))"

text \<open>\<open>int x = strtol(...)\<close>\<close>

definition to_s32 :: "int \<Rightarrow> int" where
  "to_s32 x = (x + 2 ^ 31) mod 2 ^ 32 - 2 ^ 31"

lemma to_s32_id: "- (2 ^ 31) \<le> x \<Longrightarrow> x < 2 ^ 31 \<Longrightarrow> to_s32 x = x"
  by (simp add: to_s32_def)

lemma to_s32_range: "- (2 ^ 31) \<le> to_s32 x" "to_s32 x < 2 ^ 31"
  using pos_mod_bound [of "2 ^ 32" "x + 2 ^ 31"] pos_mod_sign [of "2 ^ 32" "x + 2 ^ 31"]
  by (simp_all add: to_s32_def)

subsection \<open>\<open>sprintf\<close>\<close>

definition fmt_x :: "u32 \<Rightarrow> string" where "fmt_x h = print_base 16 (unat h)"

definition fmt_08x :: "u32 \<Rightarrow> string" where
  "fmt_08x h = map (\<lambda>i. lower_hex ! (unat h div 16 ^ (7 - i) mod 16)) [0..<8]"

definition fmt_u :: "nat \<Rightarrow> string" where "fmt_u n = print_base 10 n"

definition fmt_d :: "int \<Rightarrow> string" where
  "fmt_d i = (if i < 0 then CHR ''-'' # print_base 10 (nat (- i)) else print_base 10 (nat i))"

text \<open>A digit string is read as it stands: no space, no sign, no \<open>0x\<close>.\<close>

lemma digit_plain:
  "base_digit b c \<noteq> None \<Longrightarrow> \<not> is_space c \<and> c \<noteq> CHR ''-'' \<and> c \<noteq> CHR ''+''"
  by (auto simp: base_digit_def digit_val_def is_space_def code_def Let_def split: option.splits if_splits)

lemma digit_not_x: "base_digit 16 c \<noteq> None \<Longrightarrow> c \<noteq> CHR ''x'' \<and> c \<noteq> CHR ''X''"
  by (auto simp: base_digit_def digit_val_def code_def Let_def split: option.splits if_splits)

lemma strip_sign_digits: "\<forall>c\<in>set s. base_digit b c \<noteq> None \<Longrightarrow> strip_sign s = (False, s)"
  using digit_plain by (cases s) (fastforce simp: strip_sign_def)+

lemma strip_0x_digits: "\<forall>c\<in>set s. base_digit 16 c \<noteq> None \<Longrightarrow> strip_0x s = None"
  using digit_not_x by (auto simp: strip_0x_def split: list.splits)

lemma strtoul16_digits:
  "\<forall>c\<in>set s. base_digit 16 c \<noteq> None \<Longrightarrow> read_digits 16 0 s < 2 ^ 64 \<Longrightarrow>
   strtoul16 s = of_nat (read_digits 16 0 s)"
  by (simp add: strtoul16_def strip_sign_digits [of _ 16] strip_0x_digits)

lemma strtoul_fmt_x: "(ucast (strtoul16 (fmt_x h)) :: u32) = h"
proof -
  have "\<forall>c\<in>set (fmt_x h). base_digit 16 c \<noteq> None"
    unfolding fmt_x_def by (intro ballI print_base_digits) simp_all
  moreover have r: "read_digits 16 0 (fmt_x h) = unat h" by (simp add: fmt_x_def read_print_base)
  ultimately have "strtoul16 (fmt_x h) = of_nat (unat h)"
    using u32_bound [of h] by (subst strtoul16_digits) simp_all
  moreover have "(ucast (of_nat (unat h) :: u64) :: u32) = h"
    unfolding of_nat_unat by (rule ucast_up_ucast_id) (simp add: is_up)
  ultimately show ?thesis by simp
qed

lemma strtol_fmt_d: "- (2 ^ 63) \<le> i \<Longrightarrow> i < 2 ^ 63 \<Longrightarrow> strtol10 (fmt_d i) = i"
proof -
  assume i: "- (2 ^ 63) \<le> i" "i < 2 ^ 63"
  have d: "\<forall>c\<in>set (print_base 10 n). base_digit 10 c \<noteq> None" for n
    by (intro ballI print_base_digits) simp_all
  have "strip_sign (fmt_d i) = (i < 0, print_base 10 (nat \<bar>i\<bar>))"
    using strip_sign_digits [OF d] by (simp add: fmt_d_def) (simp add: strip_sign_def is_space_def code_def)
  with i show ?thesis by (simp add: strtol10_def read_print_base sat64_def)
qed

subsection \<open>\<open>sscanf\<close> and \<open>strsep\<close>\<close>

text \<open>\<open>%s\<close>: skip white space, then the characters up to the next white space.\<close>

definition scan_word :: "string \<Rightarrow> (string \<times> string) option" where
  "scan_word s = (let t = dropWhile is_space s in
     if t = [] then None else Some (takeWhile (\<lambda>c. \<not> is_space c) t, dropWhile (\<lambda>c. \<not> is_space c) t))"

text \<open>\<open>strsep\<close>: the token, and the rest behind the delimiter if there is one.\<close>

definition strsep :: "string \<Rightarrow> char set \<Rightarrow> string \<times> string option" where
  "strsep s del = (takeWhile (\<lambda>c. c \<notin> del) s,
     case dropWhile (\<lambda>c. c \<notin> del) s of [] \<Rightarrow> None | _ # r \<Rightarrow> Some r)"

end
