(* ===== verification/Server.thy ===== *)
theory Server
  imports Handle_Storage Timer C_Strings
begin

text \<open>
  The services of a node: \<^verbatim>\<open>skynet-src/skynet_server.c\<close>, with what its functions call in
  \<^verbatim>\<open>skynet_handle.c\<close> (grab, retire, retireall), \<^verbatim>\<open>skynet_mq.c\<close> (release),
  \<^verbatim>\<open>skynet_harbor.c\<close>, \<^verbatim>\<open>skynet_error.c\<close>, \<^verbatim>\<open>skynet_monitor.c\<close>, \<^verbatim>\<open>skynet_env.c\<close> and
  \<open>skynet_timeout\<close> of \<^verbatim>\<open>skynet_timer.c\<close>. All the globals of those files (\<open>G_NODE\<close>, \<open>H\<close>,
  \<open>Q\<close>, \<open>TI\<close>, \<open>HARBOR\<close>, \<open>REMOTE\<close>, the environment's Lua table, the static \<open>logger\<close>) are
  one record \<open>node\<close>, and a call of an API function is one transition of it.

  The code of the services (module functions and message callbacks) is not part of these
  files: it is the record \<open>hooks\<close> of parameters, whose functions may change the node by
  calling the API in turn. The addresses that the allocator returns are arguments.
\<close>

subsection \<open>State\<close>

record skynet_context =
  c_mod :: string
  c_inst :: nat
  c_cb :: "nat option"
  c_queue :: qptr
  c_logfile :: bool
  c_cpu_cost :: u64
  c_cpu_start :: u64
  c_result :: string
  c_handle :: u32
  c_session :: u32
  c_ref :: int
  c_message_count :: u32
  c_init :: bool
  c_endless :: bool
  c_profile :: bool

record node =
  n_total :: int
  n_monitor_exit :: u32
  n_profile :: bool
  n_current :: u32
  n_ctx :: "cptr \<Rightarrow> skynet_context option"
  n_handles :: handle_storage
  n_mq :: "skynet_message global_queue"
  n_timer :: timer
  n_HARBOR :: u32
  n_REMOTE :: "cptr option"
  n_logger :: u32
  n_env :: "string \<Rightarrow> string option"

text \<open>
  The functions outside: the module table's answers and entry points (\<open>create\<close>, \<open>init\<close>,
  \<open>release\<close>, \<open>signal\<close>), the message callbacks, whether a log file opens, the thread clock,
  and the text of \<open>printf("%lf")\<close>.
\<close>

record hooks =
  k_query :: "string \<Rightarrow> bool"
  k_create :: "string \<Rightarrow> nat option"
  k_init :: "string \<Rightarrow> nat \<Rightarrow> cptr \<Rightarrow> string option \<Rightarrow> node \<Rightarrow> (int \<times> node) option"
  k_release :: "string \<Rightarrow> nat \<Rightarrow> node \<Rightarrow> node option"
  k_signal :: "string \<Rightarrow> nat \<Rightarrow> int \<Rightarrow> node \<Rightarrow> node option"
  k_cb :: "nat \<Rightarrow> cptr \<Rightarrow> int \<Rightarrow> int \<Rightarrow> u32 \<Rightarrow> payload \<Rightarrow> u64 \<Rightarrow> node \<Rightarrow> (bool \<times> node) option"
  k_fopen :: "string \<Rightarrow> bool"
  k_thread_time :: "node \<Rightarrow> u64"
  k_seconds :: "u64 \<Rightarrow> string"

subsection \<open>Contexts and references\<close>

definition n_hof :: "node \<Rightarrow> cptr \<Rightarrow> u32" where
  "n_hof N c = (case n_ctx N c of Some x \<Rightarrow> c_handle x | None \<Rightarrow> 0)"

definition upd_ctx :: "node \<Rightarrow> cptr \<Rightarrow> (skynet_context \<Rightarrow> skynet_context) \<Rightarrow> node option" where
  "upd_ctx N c f = do { x \<leftarrow> n_ctx N c; Some (N\<lparr>n_ctx := (n_ctx N)(c \<mapsto> f x)\<rparr>) }"

definition skynet_context_handle :: "node \<Rightarrow> cptr \<Rightarrow> u32 option" where
  "skynet_context_handle N c = map_option c_handle (n_ctx N c)"

definition skynet_context_total :: "node \<Rightarrow> int" where
  "skynet_context_total N = n_total N"

definition skynet_context_grab :: "node \<Rightarrow> cptr \<Rightarrow> node option" where
  "skynet_context_grab N c = upd_ctx N c (\<lambda>x. x\<lparr>c_ref := c_ref x + 1\<rparr>)"

definition skynet_context_reserve :: "node \<Rightarrow> cptr \<Rightarrow> node option" where
  "skynet_context_reserve N c = do {
     N1 \<leftarrow> skynet_context_grab N c;
     Some (N1\<lparr>n_total := n_total N1 - 1\<rparr>)
   }"

text \<open>A slot of the handle table that points to freed memory makes the lookup fail.\<close>

definition skynet_handle_grab :: "node \<Rightarrow> u32 \<Rightarrow> (cptr option \<times> node) option" where
  "skynet_handle_grab N handle =
     (case h_slot (n_handles N) ! slot_hash handle (h_slot_size (n_handles N)) of
        None \<Rightarrow> Some (None, N)
      | Some c \<Rightarrow> do {
          h \<leftarrow> skynet_context_handle N c;
          (if h = handle then do { N1 \<leftarrow> skynet_context_grab N c; Some (Some c, N1) }
           else Some (None, N))
        })"

definition delete_context :: "hooks \<Rightarrow> node \<Rightarrow> cptr \<Rightarrow> node option" where
  "delete_context K N c = do {
     x \<leftarrow> n_ctx N c;
     N1 \<leftarrow> k_release K (c_mod x) (c_inst x) N;
     mq \<leftarrow> skynet_mq_mark_release (n_mq N1) (c_queue x);
     Some (N1\<lparr>n_mq := mq, n_ctx := (n_ctx N1)(c := None), n_total := n_total N1 - 1\<rparr>)
   }"

definition skynet_context_release :: "hooks \<Rightarrow> node \<Rightarrow> cptr \<Rightarrow> (cptr option \<times> node) option" where
  "skynet_context_release K N c = do {
     N1 \<leftarrow> upd_ctx N c (\<lambda>x. x\<lparr>c_ref := c_ref x - 1\<rparr>);
     x \<leftarrow> n_ctx N1 c;
     (if c_ref x = 0 then do { N2 \<leftarrow> delete_context K N1 c; Some (None, N2) }
      else Some (Some c, N1))
   }"

definition skynet_context_push :: "hooks \<Rightarrow> node \<Rightarrow> u32 \<Rightarrow> skynet_message \<Rightarrow> (int \<times> node) option" where
  "skynet_context_push K N handle msg = do {
     (r, N1) \<leftarrow> skynet_handle_grab N handle;
     (case r of
        None \<Rightarrow> Some (-1, N1)
      | Some c \<Rightarrow> do {
          x \<leftarrow> n_ctx N1 c;
          mq \<leftarrow> skynet_mq_push (n_mq N1) (c_queue x) msg;
          (_, N2) \<leftarrow> skynet_context_release K (N1\<lparr>n_mq := mq\<rparr>) c;
          Some (0, N2)
        })
   }"

definition skynet_context_endless :: "hooks \<Rightarrow> node \<Rightarrow> u32 \<Rightarrow> node option" where
  "skynet_context_endless K N handle = do {
     (r, N1) \<leftarrow> skynet_handle_grab N handle;
     (case r of
        None \<Rightarrow> Some N1
      | Some c \<Rightarrow> do {
          N2 \<leftarrow> upd_ctx N1 c (\<lambda>x. x\<lparr>c_endless := True\<rparr>);
          (_, N3) \<leftarrow> skynet_context_release K N2 c;
          Some N3
        })
   }"

text \<open>
  \<open>session_id\<close> is an \<open>int\<close>: past the largest one the increment wraps (as compiled), and the
  counter restarts at 1.
\<close>

definition skynet_context_newsession :: "node \<Rightarrow> cptr \<Rightarrow> (int \<times> node) option" where
  "skynet_context_newsession N c = do {
     x \<leftarrow> n_ctx N c;
     let session = c_session x + 1;
     (if sint session \<le> 0 then do { N1 \<leftarrow> upd_ctx N c (\<lambda>x. x\<lparr>c_session := 1\<rparr>); Some (1, N1) }
      else do { N1 \<leftarrow> upd_ctx N c (\<lambda>x. x\<lparr>c_session := session\<rparr>); Some (sint session, N1) })
   }"

definition skynet_callback :: "node \<Rightarrow> cptr \<Rightarrow> nat option \<Rightarrow> node option" where
  "skynet_callback N c cb = upd_ctx N c (\<lambda>x. x\<lparr>c_cb := cb\<rparr>)"

text \<open>A message straight into the queue of a context the caller holds.\<close>

definition skynet_context_send :: "node \<Rightarrow> cptr \<Rightarrow> payload \<Rightarrow> u64 \<Rightarrow> u32 \<Rightarrow> int \<Rightarrow> int \<Rightarrow> node option" where
  "skynet_context_send N c msg sz source ty session = do {
     x \<leftarrow> n_ctx N c;
     mq \<leftarrow> skynet_mq_push (n_mq N) (c_queue x)
       \<lparr>msg_source = source, msg_session = session, msg_data = msg, msg_sz = sz OR typed_sz ty\<rparr>;
     Some (N\<lparr>n_mq := mq\<rparr>)
   }"

subsection \<open>Errors, names, harbor\<close>

text \<open>\<open>skynet_error\<close> with its text already formatted.\<close>

definition skynet_error :: "hooks \<Rightarrow> node \<Rightarrow> cptr option \<Rightarrow> string \<Rightarrow> node option" where
  "skynet_error K N context text = do {
     found \<leftarrow> (if n_logger N = 0 then skynet_handle_findname (n_handles N) ''logger'' else Some (n_logger N));
     let N1 = N\<lparr>n_logger := found\<rparr>;
     (if found = 0 then Some N1
      else do {
        source \<leftarrow> (case context of None \<Rightarrow> Some 0 | Some c \<Rightarrow> skynet_context_handle N1 c);
        (_, N2) \<leftarrow> skynet_context_push K N1 found
          \<lparr>msg_source = source, msg_session = 0, msg_data = PBytes (bytes_of text @ [0]),
           msg_sz = of_nat (length text) OR typed_sz PTYPE_TEXT\<rparr>;
        Some N2
      })
   }"

definition skynet_harbor_message_isremote :: "node \<Rightarrow> u32 \<Rightarrow> bool option" where
  "skynet_harbor_message_isremote N handle = do {
     c_assert (n_HARBOR N \<noteq> -1);
     let h = handle AND NOT HANDLE_MASK;
     Some (h \<noteq> n_HARBOR N \<and> h \<noteq> 0)
   }"

definition skynet_isremote :: "node \<Rightarrow> u32 \<Rightarrow> (bool \<times> u32) option" where
  "skynet_isremote N handle = do {
     ret \<leftarrow> skynet_harbor_message_isremote N handle;
     Some (ret, drop_bit HANDLE_REMOTE_SHIFT handle)
   }"

definition GLOBALNAME_LENGTH :: nat where "GLOBALNAME_LENGTH = 16"
definition REMOTE_MESSAGE_SIZE :: u64 where "REMOTE_MESSAGE_SIZE = 48"

text \<open>\<open>copy_name\<close>: 16 characters, padded with NUL, not terminated when the name is as long.\<close>

definition copy_name :: "string \<Rightarrow> string" where
  "copy_name addr = take GLOBALNAME_LENGTH addr @ replicate (GLOBALNAME_LENGTH - length addr) (CHR 0x00)"

definition skynet_harbor_send :: "node \<Rightarrow> payload \<Rightarrow> int \<Rightarrow> u32 \<Rightarrow> int \<Rightarrow> node option" where
  "skynet_harbor_send N rmsg ty source session = do {
     c_assert (ty \<noteq> PTYPE_SYSTEM \<and> ty \<noteq> PTYPE_HARBOR);
     remote \<leftarrow> n_REMOTE N;
     skynet_context_send N remote rmsg REMOTE_MESSAGE_SIZE source PTYPE_SYSTEM session
   }"

definition skynet_harbor_init :: "node \<Rightarrow> u32 \<Rightarrow> node" where
  "skynet_harbor_init N harbor = N\<lparr>n_HARBOR := push_bit HANDLE_REMOTE_SHIFT harbor\<rparr>"

definition skynet_harbor_start :: "node \<Rightarrow> cptr \<Rightarrow> node option" where
  "skynet_harbor_start N c = do {
     N1 \<leftarrow> skynet_context_reserve N c;
     Some (N1\<lparr>n_REMOTE := Some c\<rparr>)
   }"

definition skynet_harbor_exit :: "hooks \<Rightarrow> node \<Rightarrow> node option" where
  "skynet_harbor_exit K N =
     (case n_REMOTE N of
        None \<Rightarrow> Some N
      | Some c \<Rightarrow> do {
          (_, N1) \<leftarrow> skynet_context_release K (N\<lparr>n_REMOTE := None\<rparr>) c;
          Some N1
        })"

subsection \<open>Sending\<close>

definition PTYPE_TAG_DONTCOPY :: u32 where "PTYPE_TAG_DONTCOPY = 0x10000"
definition PTYPE_TAG_ALLOCSESSION :: u32 where "PTYPE_TAG_ALLOCSESSION = 0x20000"

definition sz_type :: "u64 \<Rightarrow> int" where "sz_type sz = uint (drop_bit MESSAGE_TYPE_SHIFT sz)"
definition sz_size :: "u64 \<Rightarrow> u64" where "sz_size sz = sz AND MESSAGE_TYPE_MASK"

text \<open>\<open>malloc(sz+1)\<close>, \<open>memcpy\<close>, and a NUL behind; a struct is copied whole.\<close>

definition copy_payload :: "payload \<Rightarrow> u64 \<Rightarrow> payload option" where
  "copy_payload data sz =
     (case data of
        PBytes bs \<Rightarrow> (if unat sz \<le> length bs then Some (PBytes (take (unat sz) bs @ [0])) else None)
      | _ \<Rightarrow> Some data)"

text \<open>\<open>_filter_args\<close>; without a context no session can be allocated.\<close>

definition filter_args :: "node \<Rightarrow> cptr option \<Rightarrow> u32 \<Rightarrow> int \<Rightarrow> payload \<Rightarrow> u64 \<Rightarrow>
    (int \<times> payload \<times> u64 \<times> node) option" where
  "filter_args N context ty session data sz = do {
     (session, N1) \<leftarrow> (if ty AND PTYPE_TAG_ALLOCSESSION \<noteq> 0 then do {
          c_assert (session = 0);
          c \<leftarrow> context;
          skynet_context_newsession N c
        } else Some (session, N));
     data \<leftarrow> (if ty AND PTYPE_TAG_DONTCOPY = 0 \<and> data \<noteq> PNull then copy_payload data sz else Some data);
     Some (session, data, sz OR typed_sz (uint (ty AND 0xff)), N1)
   }"

definition skynet_send :: "hooks \<Rightarrow> node \<Rightarrow> cptr option \<Rightarrow> u32 \<Rightarrow> u32 \<Rightarrow> u32 \<Rightarrow> int \<Rightarrow> payload \<Rightarrow> u64 \<Rightarrow>
    (int \<times> node) option" where
  "skynet_send K N context source destination ty session data sz =
     (if sz AND MESSAGE_TYPE_MASK \<noteq> sz then do {
        N1 \<leftarrow> skynet_error K N context (''The message to '' @ fmt_x destination @ '' is too large'');
        Some (-2, N1)
      } else do {
        (session, data, sz, N1) \<leftarrow> filter_args N context ty session data sz;
        source \<leftarrow> (if source = 0 then do { c \<leftarrow> context; skynet_context_handle N1 c } else Some source);
        (if destination = 0 then
           (if data \<noteq> PNull then do {
              N2 \<leftarrow> skynet_error K N1 context ''Destination address can't be 0'';
              Some (-1, N2)
            } else Some (session, N1))
         else do {
           remote \<leftarrow> skynet_harbor_message_isremote N1 destination;
           (if remote then do {
              N2 \<leftarrow> skynet_harbor_send N1 (PRemote [] destination data (sz_size sz) (sz_type sz))
                (sz_type sz) source session;
              Some (session, N2)
            } else do {
              (r, N2) \<leftarrow> skynet_context_push K N1 destination
                \<lparr>msg_source = source, msg_session = session, msg_data = data, msg_sz = sz\<rparr>;
              Some (if r \<noteq> 0 then -1 else session, N2)
            })
         })
      })"


text \<open>
  \<open>skynet_sendname\<close>: a hexadecimal handle, a local name, or a global name for the harbor. An
  unknown local name frees the message only when it was handed over (\<open>DONTCOPY\<close>).
\<close>

definition skynet_sendname :: "hooks \<Rightarrow> node \<Rightarrow> cptr \<Rightarrow> u32 \<Rightarrow> string \<Rightarrow> u32 \<Rightarrow> int \<Rightarrow> payload \<Rightarrow> u64 \<Rightarrow>
    (int \<times> node) option" where
  "skynet_sendname K N context source addr ty session data sz = do {
     source \<leftarrow> (if source = 0 then skynet_context_handle N context else Some source);
     (if c_hd addr = CHR '':'' then
        skynet_send K N (Some context) source (ucast (strtoul16 (tl addr))) ty session data sz
      else if c_hd addr = CHR ''.'' then do {
        des \<leftarrow> skynet_handle_findname (n_handles N) (tl addr);
        (if des = 0 then Some (-1, N)
         else skynet_send K N (Some context) source des ty session data sz)
      }
      else if sz AND MESSAGE_TYPE_MASK \<noteq> sz then do {
        N1 \<leftarrow> skynet_error K N (Some context) (''The message to '' @ addr @ '' is too large'');
        Some (-2, N1)
      } else do {
        (session, data, sz, N1) \<leftarrow> filter_args N (Some context) ty session data sz;
        N2 \<leftarrow> skynet_harbor_send N1 (PRemote (copy_name addr) 0 data (sz_size sz) (sz_type sz))
          (sz_type sz) source session;
        Some (session, N2)
      })
   }"

definition skynet_queryname :: "hooks \<Rightarrow> node \<Rightarrow> cptr \<Rightarrow> string \<Rightarrow> (u32 \<times> node) option" where
  "skynet_queryname K N context name =
     (if c_hd name = CHR '':'' then Some (ucast (strtoul16 (tl name)), N)
      else if c_hd name = CHR ''.'' then do {
        h \<leftarrow> skynet_handle_findname (n_handles N) (tl name);
        Some (h, N)
      } else do {
        N1 \<leftarrow> skynet_error K N (Some context) (''Don't support query global name '' @ name);
        Some (0, N1)
      })"

text \<open>\<open>skynet_timeout\<close> of \<^verbatim>\<open>skynet_timer.c\<close>.\<close>

definition skynet_timeout :: "hooks \<Rightarrow> node \<Rightarrow> u32 \<Rightarrow> int \<Rightarrow> int \<Rightarrow> (int \<times> node) option" where
  "skynet_timeout K N handle time session =
     (if time \<le> 0 then do {
        (r, N1) \<leftarrow> skynet_context_push K N handle (timer_message session);
        Some (if r \<noteq> 0 then -1 else session, N1)
      } else Some (session, N\<lparr>n_timer := timer_add (n_timer N) handle session (of_int time)\<rparr>))"

text \<open>The messages of the timers that a tick dispatched, pushed in order.\<close>

primrec push_timers :: "hooks \<Rightarrow> node \<Rightarrow> (u32 \<times> skynet_message) list \<Rightarrow> node option" where
  "push_timers K N [] = Some N"
| "push_timers K N (d # ds) = do {
     (_, N1) \<leftarrow> skynet_context_push K N (fst d) (snd d);
     push_timers K N1 ds
   }"

subsection \<open>Retiring a handle, dropping a queue\<close>

definition skynet_handle_retire :: "hooks \<Rightarrow> node \<Rightarrow> u32 \<Rightarrow> (bool \<times> node) option" where
  "skynet_handle_retire K N handle = do {
     (r, hs) \<leftarrow> handle_retire (n_hof N) (n_handles N) handle;
     let N1 = N\<lparr>n_handles := hs\<rparr>;
     (case r of
        None \<Rightarrow> Some (False, N1)
      | Some c \<Rightarrow> do { (_, N2) \<leftarrow> skynet_context_release K N1 c; Some (True, N2) })
   }"

text \<open>One pass of \<open>skynet_handle_retireall\<close> over the slots, counting the retired handles.\<close>

partial_function (option) retire_pass :: "hooks \<Rightarrow> node \<Rightarrow> nat \<Rightarrow> nat \<Rightarrow> (nat \<times> node) option" where
  "retire_pass K N i n =
     (if i < h_slot_size (n_handles N) then do {
        let handle = (case h_slot (n_handles N) ! i of Some c \<Rightarrow> n_hof N c | None \<Rightarrow> 0);
        (r, N1) \<leftarrow> (if handle \<noteq> 0 then skynet_handle_retire K N handle else Some (False, N));
        retire_pass K N1 (i + 1) (if r then n + 1 else n)
      } else Some (n, N))"

partial_function (option) skynet_handle_retireall :: "hooks \<Rightarrow> node \<Rightarrow> node option" where
  "skynet_handle_retireall K N = do {
     (n, N1) \<leftarrow> retire_pass K N 0 0;
     (if n = 0 then Some N1 else skynet_handle_retireall K N1)
   }"

definition drop_message :: "hooks \<Rightarrow> node \<Rightarrow> u32 \<Rightarrow> skynet_message \<Rightarrow> node option" where
  "drop_message K N source msg = do {
     c_assert (source \<noteq> 0);
     (_, N1) \<leftarrow> skynet_send K N None source (msg_source msg) (of_int PTYPE_ERROR) 0 PNull 0;
     Some N1
   }"

partial_function (option) drop_queue :: "hooks \<Rightarrow> node \<Rightarrow> u32 \<Rightarrow> qptr \<Rightarrow> node option" where
  "drop_queue K N source q = do {
     (r, mq) \<leftarrow> mq_pop_at (n_mq N) q;
     (case r of
        Some msg \<Rightarrow> do {
          N1 \<leftarrow> drop_message K (N\<lparr>n_mq := mq\<rparr>) source msg;
          drop_queue K N1 source q
        }
      | None \<Rightarrow> do {
          mq1 \<leftarrow> mq_release_mem mq q;
          Some (N\<lparr>n_mq := mq1\<rparr>)
        })
   }"

definition skynet_mq_release :: "hooks \<Rightarrow> node \<Rightarrow> u32 \<Rightarrow> qptr \<Rightarrow> node option" where
  "skynet_mq_release K N source q = do {
     x \<leftarrow> queues (n_mq N) q;
     (if q_release x \<noteq> 0 then drop_queue K N source q
      else do {
        mq \<leftarrow> skynet_globalmq_push (n_mq N) q;
        Some (N\<lparr>n_mq := mq\<rparr>)
      })
   }"

subsection \<open>Launching a service\<close>

definition context_init :: "node \<Rightarrow> string \<Rightarrow> nat \<Rightarrow> qptr \<Rightarrow> skynet_context" where
  "context_init N name inst q =
     \<lparr>c_mod = name, c_inst = inst, c_cb = None, c_queue = q, c_logfile = False, c_cpu_cost = 0,
      c_cpu_start = 0, c_result = [], c_handle = 0, c_session = 0, c_ref = 2, c_message_count = 0,
      c_init = False, c_endless = False, c_profile = n_profile N\<rparr>"

text \<open>\<open>c\<close> and \<open>q\<close> are the addresses of the fresh context and of its fresh queue.\<close>

definition skynet_context_new :: "hooks \<Rightarrow> node \<Rightarrow> cptr \<Rightarrow> qptr \<Rightarrow> string \<Rightarrow> string option \<Rightarrow>
    (cptr option \<times> node) option" where
  "skynet_context_new K N c q name param =
     (if \<not> k_query K name then Some (None, N)
      else case k_create K name of
        None \<Rightarrow> Some (None, N)
      | Some inst \<Rightarrow> do {
          let N1 = N\<lparr>n_ctx := (n_ctx N)(c \<mapsto> context_init N name inst q)\<rparr>;
          (handle, hs) \<leftarrow> skynet_handle_register (n_hof N1) (n_handles N1) c;
          N2 \<leftarrow> upd_ctx (N1\<lparr>n_handles := hs\<rparr>) c (\<lambda>x. x\<lparr>c_handle := handle\<rparr>);
          let N3 = N2\<lparr>n_mq := skynet_mq_create (n_mq N2) q handle, n_total := n_total N2 + 1\<rparr>;
          (r, N4) \<leftarrow> k_init K name inst c param N3;
          (if r = 0 then do {
             (ret, N5) \<leftarrow> skynet_context_release K N4 c;
             N6 \<leftarrow> (if ret \<noteq> None then upd_ctx N5 c (\<lambda>x. x\<lparr>c_init := True\<rparr>) else Some N5);
             mq \<leftarrow> skynet_globalmq_push (n_mq N6) q;
             let N7 = N6\<lparr>n_mq := mq\<rparr>;
             N8 \<leftarrow> (if ret \<noteq> None
                 then skynet_error K N7 (Some c) (''LAUNCH '' @ name @ '' '' @ (case param of Some s \<Rightarrow> s | None \<Rightarrow> []))
                 else Some N7);
             Some (ret, N8)
           } else do {
             N5 \<leftarrow> skynet_error K N4 (Some c) (''FAILED launch '' @ name);
             h \<leftarrow> skynet_context_handle N5 c;
             (_, N6) \<leftarrow> skynet_context_release K N5 c;
             (_, N7) \<leftarrow> skynet_handle_retire K N6 h;
             N8 \<leftarrow> skynet_mq_release K N7 h q;
             Some (None, N8)
           })
        })"

subsection \<open>Dispatching\<close>

text \<open>\<^verbatim>\<open>skynet_monitor.c\<close>: which message a worker is in, and a version that tells whether it moved.\<close>

record skynet_monitor =
  sm_version :: u32
  sm_check_version :: u32
  sm_source :: u32
  sm_destination :: u32

definition skynet_monitor_new :: skynet_monitor where
  "skynet_monitor_new = \<lparr>sm_version = 0, sm_check_version = 0, sm_source = 0, sm_destination = 0\<rparr>"

definition skynet_monitor_trigger :: "skynet_monitor \<Rightarrow> u32 \<Rightarrow> u32 \<Rightarrow> skynet_monitor" where
  "skynet_monitor_trigger sm source destination =
     sm\<lparr>sm_source := source, sm_destination := destination, sm_version := sm_version sm + 1\<rparr>"

definition skynet_monitor_check :: "hooks \<Rightarrow> node \<Rightarrow> skynet_monitor \<Rightarrow> (skynet_monitor \<times> node) option" where
  "skynet_monitor_check K N sm =
     (if sm_version sm = sm_check_version sm then
        (if sm_destination sm \<noteq> 0 then do {
           N1 \<leftarrow> skynet_context_endless K N (sm_destination sm);
           N2 \<leftarrow> skynet_error K N1 None (''A message from [ :'' @ fmt_08x (sm_source sm) @ '' ] to [ :'' @
             fmt_08x (sm_destination sm) @ '' ] maybe in an endless loop (version = '' @
             fmt_d (sint (sm_version sm)) @ '')'');
           Some (sm, N2)
         } else Some (sm, N))
      else Some (sm\<lparr>sm_check_version := sm_version sm\<rparr>, N))"

definition dispatch_message :: "hooks \<Rightarrow> node \<Rightarrow> cptr \<Rightarrow> skynet_message \<Rightarrow> node option" where
  "dispatch_message K N c msg = do {
     x \<leftarrow> n_ctx N c;
     c_assert (c_init x);
     cb \<leftarrow> c_cb x;
     let N1 = N\<lparr>n_current := c_handle x\<rparr>;
     N2 \<leftarrow> upd_ctx N1 c (\<lambda>x. x\<lparr>c_message_count := c_message_count x + 1\<rparr>);
     (if c_profile x then do {
        let start = k_thread_time K N2;
        N3 \<leftarrow> upd_ctx N2 c (\<lambda>x. x\<lparr>c_cpu_start := start\<rparr>);
        (_, N4) \<leftarrow> k_cb K cb c (sz_type (msg_sz msg)) (msg_session msg) (msg_source msg) (msg_data msg) (sz_size (msg_sz msg)) N3;
        x4 \<leftarrow> n_ctx N4 c;
        let cost = k_thread_time K N4 - c_cpu_start x4;
        upd_ctx N4 c (\<lambda>x. x\<lparr>c_cpu_cost := c_cpu_cost x + cost\<rparr>)
      } else do {
        (_, N4) \<leftarrow> k_cb K cb c (sz_type (msg_sz msg)) (msg_session msg) (msg_source msg) (msg_data msg) (sz_size (msg_sz msg)) N2;
        Some N4
      })
   }"

text \<open>
  The loop of \<open>skynet_context_message_dispatch\<close>. \<open>i\<close> is 0 for the first message, \<open>n\<close> the
  bound; the result says whether the queue ran empty.
\<close>

partial_function (option) dispatch_loop :: "hooks \<Rightarrow> node \<Rightarrow> skynet_monitor \<Rightarrow> cptr \<Rightarrow> qptr \<Rightarrow> u32 \<Rightarrow> int \<Rightarrow>
    int \<Rightarrow> int \<Rightarrow> (bool \<times> skynet_monitor \<times> node) option" where
  "dispatch_loop K N sm c q handle weight i n =
     (if i < n then do {
        (r, mq) \<leftarrow> mq_pop_at (n_mq N) q;
        let N1 = N\<lparr>n_mq := mq\<rparr>;
        (case r of
           None \<Rightarrow> Some (True, sm, N1)
         | Some msg \<Rightarrow> do {
             qd \<leftarrow> queues mq q;
             let n2 = (if i = 0 \<and> weight \<ge> 0 then skynet_mq_length qd div 2 ^ nat weight else n);
             let (overload, qd2) = skynet_mq_overload qd;
             let N2 = N1\<lparr>n_mq := mq\<lparr>queues := (queues mq)(q \<mapsto> qd2)\<rparr>\<rparr>;
             N3 \<leftarrow> (if overload \<noteq> 0
                 then skynet_error K N2 (Some c) (''May overload, message queue length = '' @ fmt_d (int overload))
                 else Some N2);
             let sm1 = skynet_monitor_trigger sm (msg_source msg) handle;
             x \<leftarrow> n_ctx N3 c;
             N4 \<leftarrow> (if c_cb x = None then Some N3 else dispatch_message K N3 c msg);
             dispatch_loop K N4 (skynet_monitor_trigger sm1 0 0) c q handle weight (i + 1) n2
           })
      } else Some (False, sm, N))"

definition globalmq_pop_node :: "node \<Rightarrow> (qptr option \<times> node) option" where
  "globalmq_pop_node N = do { (r, mq) \<leftarrow> skynet_globalmq_pop (n_mq N); Some (r, N\<lparr>n_mq := mq\<rparr>) }"

text \<open>The part that runs once a queue is in hand: the queue to work on next.\<close>

definition dispatch_queue :: "hooks \<Rightarrow> node \<Rightarrow> skynet_monitor \<Rightarrow> qptr \<Rightarrow> int \<Rightarrow>
    (qptr option \<times> skynet_monitor \<times> node) option" where
  "dispatch_queue K N sm q weight = do {
     handle \<leftarrow> skynet_mq_handle (n_mq N) q;
     (r, N1) \<leftarrow> skynet_handle_grab N handle;
     (case r of
        None \<Rightarrow> do {
          N2 \<leftarrow> skynet_mq_release K N1 handle q;
          (nq, N3) \<leftarrow> globalmq_pop_node N2;
          Some (nq, sm, N3)
        }
      | Some c \<Rightarrow> do {
          (ran_empty, sm2, N2) \<leftarrow> dispatch_loop K N1 sm c q handle weight 0 1;
          (if ran_empty then do {
             (_, N3) \<leftarrow> skynet_context_release K N2 c;
             (nq, N4) \<leftarrow> globalmq_pop_node N3;
             Some (nq, sm2, N4)
           } else do {
             x \<leftarrow> n_ctx N2 c;
             c_assert (q = c_queue x);
             (nq, N3) \<leftarrow> globalmq_pop_node N2;
             (q2, N4) \<leftarrow> (case nq of
                 Some r \<Rightarrow> do { mq \<leftarrow> skynet_globalmq_push (n_mq N3) q; Some (r, N3\<lparr>n_mq := mq\<rparr>) }
               | None \<Rightarrow> Some (q, N3));
             (_, N5) \<leftarrow> skynet_context_release K N4 c;
             Some (Some q2, sm2, N5)
           })
        })
   }"

definition skynet_context_message_dispatch :: "hooks \<Rightarrow> node \<Rightarrow> skynet_monitor \<Rightarrow> qptr option \<Rightarrow> int \<Rightarrow>
    (qptr option \<times> skynet_monitor \<times> node) option" where
  "skynet_context_message_dispatch K N sm q weight =
     (case q of
        Some p \<Rightarrow> dispatch_queue K N sm p weight
      | None \<Rightarrow> do {
          (r, N1) \<leftarrow> globalmq_pop_node N;
          (case r of
             None \<Rightarrow> Some (None, sm, N1)
           | Some p \<Rightarrow> dispatch_queue K N1 sm p weight)
        })"

partial_function (option) skynet_context_dispatchall :: "hooks \<Rightarrow> node \<Rightarrow> cptr \<Rightarrow> node option" where
  "skynet_context_dispatchall K N c = do {
     x \<leftarrow> n_ctx N c;
     (r, mq) \<leftarrow> mq_pop_at (n_mq N) (c_queue x);
     (case r of
        None \<Rightarrow> Some (N\<lparr>n_mq := mq\<rparr>)
      | Some msg \<Rightarrow> do {
          N1 \<leftarrow> dispatch_message K (N\<lparr>n_mq := mq\<rparr>) c msg;
          skynet_context_dispatchall K N1 c
        })
   }"

text \<open>The table of \<open>start\<close> in \<^verbatim>\<open>skynet_start.c\<close>: the weight of worker \<open>i\<close>, and \<open>wakeup\<close>.\<close>

definition worker_weights :: "int list" where
  "worker_weights = [-1, -1, -1, -1, 0, 0, 0, 0, 1, 1, 1, 1, 1, 1, 1, 1,
     2, 2, 2, 2, 2, 2, 2, 2, 3, 3, 3, 3, 3, 3, 3, 3]"

definition worker_weight :: "nat \<Rightarrow> int" where
  "worker_weight i = (if i < length worker_weights then worker_weights ! i else 0)"

definition wakeup :: "int \<Rightarrow> int \<Rightarrow> int \<Rightarrow> bool" where
  "wakeup sleeping n busy \<longleftrightarrow> sleeping \<ge> n - busy"

end
