(* ===== verification/Commands.thy ===== *)
theory Commands
  imports Server
begin

text \<open>
  The text commands of \<open>skynet_command\<close> (the \<open>cmd_\<close> functions and the table \<open>cmd_funcs\<close> of
  \<^verbatim>\<open>skynet-src/skynet_server.c\<close>) with \<^verbatim>\<open>skynet_env.c\<close>. A result is \<open>None\<close> inside
  for the null pointer; the parameter is an option where the code tests it for null, and a
  null parameter is dereferenced by the other commands.
\<close>

type_synonym reply = "(string option \<times> node) option"

definition set_result :: "node \<Rightarrow> cptr \<Rightarrow> string \<Rightarrow> reply" where
  "set_result N c s = do { N1 \<leftarrow> upd_ctx N c (\<lambda>x. x\<lparr>c_result := s\<rparr>); Some (Some s, N1) }"

subsection \<open>The environment\<close>

definition skynet_getenv :: "node \<Rightarrow> string \<Rightarrow> string option" where
  "skynet_getenv N key = n_env N key"

definition skynet_setenv :: "node \<Rightarrow> string \<Rightarrow> string \<Rightarrow> node option" where
  "skynet_setenv N key val = do {
     c_assert (n_env N key = None);
     Some (N\<lparr>n_env := (n_env N)(key \<mapsto> val)\<rparr>)
   }"

subsection \<open>Handles\<close>

text \<open>\<open>id_to_hex\<close>: a colon and eight upper case digits.\<close>

definition id_to_hex :: "u32 \<Rightarrow> string" where
  "id_to_hex h = CHR '':'' #
     map (\<lambda>i. upper_hex ! unat (drop_bit ((7 - i) * 4) h AND 0xf)) [0..<8]"

definition tohandle :: "hooks \<Rightarrow> node \<Rightarrow> cptr \<Rightarrow> string \<Rightarrow> (u32 \<times> node) option" where
  "tohandle K N c param =
     (if c_hd param = CHR '':'' then Some (ucast (strtoul16 (tl param)), N)
      else if c_hd param = CHR ''.'' then do {
        h \<leftarrow> skynet_handle_findname (n_handles N) (tl param);
        Some (h, N)
      } else do {
        N1 \<leftarrow> skynet_error K N (Some c) (''Can't convert '' @ param @ '' to handle'');
        Some (0, N1)
      })"

definition handle_exit :: "hooks \<Rightarrow> node \<Rightarrow> cptr \<Rightarrow> u32 \<Rightarrow> node option" where
  "handle_exit K N c handle = do {
     (h, N1) \<leftarrow> (if handle = 0 then do {
          h \<leftarrow> skynet_context_handle N c;
          N1 \<leftarrow> skynet_error K N (Some c) ''KILL self'';
          Some (h, N1)
        } else do {
          N1 \<leftarrow> skynet_error K N (Some c) (''KILL :'' @ fmt_x handle);
          Some (handle, N1)
        });
     N2 \<leftarrow> (if n_monitor_exit N1 \<noteq> 0 then do {
          (_, N2) \<leftarrow> skynet_send K N1 (Some c) h (n_monitor_exit N1) (of_int PTYPE_CLIENT) 0 PNull 0;
          Some N2
        } else Some N1);
     (_, N3) \<leftarrow> skynet_handle_retire K N2 h;
     Some N3
   }"

subsection \<open>The commands\<close>

definition cmd_timeout :: "hooks \<Rightarrow> node \<Rightarrow> cptr \<Rightarrow> string \<Rightarrow> reply" where
  "cmd_timeout K N c param = do {
     let ti = to_s32 (strtol10 param);
     (session, N1) \<leftarrow> skynet_context_newsession N c;
     handle \<leftarrow> skynet_context_handle N1 c;
     (_, N2) \<leftarrow> skynet_timeout K N1 handle ti session;
     set_result N2 c (fmt_d session)
   }"

definition cmd_reg :: "hooks \<Rightarrow> node \<Rightarrow> cptr \<Rightarrow> string option \<Rightarrow> reply" where
  "cmd_reg K N c param =
     (case param of
        Some (p # ps) \<Rightarrow>
          if p = CHR ''.'' then do {
            h \<leftarrow> skynet_context_handle N c;
            (r, hs) \<leftarrow> skynet_handle_namehandle (n_handles N) h ps;
            Some (r, N\<lparr>n_handles := hs\<rparr>)
          } else do {
            N1 \<leftarrow> skynet_error K N (Some c) (''Can't register global name '' @ (p # ps) @ '' in C'');
            Some (None, N1)
          }
      | _ \<Rightarrow> do { h \<leftarrow> skynet_context_handle N c; set_result N c (CHR '':'' # fmt_x h) })"

definition cmd_query :: "node \<Rightarrow> cptr \<Rightarrow> string \<Rightarrow> reply" where
  "cmd_query N c param =
     (if c_hd param = CHR ''.'' then do {
        h \<leftarrow> skynet_handle_findname (n_handles N) (tl param);
        (if h \<noteq> 0 then set_result N c (CHR '':'' # fmt_x h) else Some (None, N))
      } else Some (None, N))"

text \<open>\<open>handle[0]\<close> is not written when \<open>sscanf\<close> finds fewer than two words.\<close>

definition cmd_name :: "hooks \<Rightarrow> node \<Rightarrow> cptr \<Rightarrow> string \<Rightarrow> reply" where
  "cmd_name K N c param = do {
     (name, r1) \<leftarrow> scan_word param;
     (handle, _) \<leftarrow> scan_word r1;
     (if c_hd handle \<noteq> CHR '':'' then Some (None, N)
      else
        (let handle_id = (ucast (strtoul16 (tl handle)) :: u32) in
         if handle_id = 0 then Some (None, N)
         else if c_hd name = CHR ''.'' then do {
           (r, hs) \<leftarrow> skynet_handle_namehandle (n_handles N) handle_id (tl name);
           Some (r, N\<lparr>n_handles := hs\<rparr>)
         } else do {
           N1 \<leftarrow> skynet_error K N (Some c) (''Can't set global name '' @ name @ '' in C'');
           Some (None, N1)
         }))
   }"

definition cmd_exit :: "hooks \<Rightarrow> node \<Rightarrow> cptr \<Rightarrow> reply" where
  "cmd_exit K N c = do { N1 \<leftarrow> handle_exit K N c 0; Some (None, N1) }"

definition cmd_kill :: "hooks \<Rightarrow> node \<Rightarrow> cptr \<Rightarrow> string \<Rightarrow> reply" where
  "cmd_kill K N c param = do {
     (h, N1) \<leftarrow> tohandle K N c param;
     N2 \<leftarrow> (if h \<noteq> 0 then handle_exit K N1 c h else Some N1);
     Some (None, N2)
   }"

definition launch_delims :: "char set" where
  "launch_delims = {CHR '' '', CHR 0x09, CHR 0x0D, CHR 0x0A}"

text \<open>\<open>args\<close> is null when the command has no white space; \<open>strsep\<close> then returns null.\<close>

definition cmd_launch :: "hooks \<Rightarrow> node \<Rightarrow> cptr \<Rightarrow> cptr \<Rightarrow> qptr \<Rightarrow> string \<Rightarrow> reply" where
  "cmd_launch K N c newc newq param = do {
     let (md, rest) = strsep param launch_delims;
     let args = map_option (\<lambda>r. fst (strsep r {CHR 0x0D, CHR 0x0A})) rest;
     (inst, N1) \<leftarrow> skynet_context_new K N newc newq md args;
     (case inst of
        None \<Rightarrow> Some (None, N1)
      | Some i \<Rightarrow> do { h \<leftarrow> skynet_context_handle N1 i; set_result N1 c (id_to_hex h) })
   }"

definition cmd_getenv :: "node \<Rightarrow> string \<Rightarrow> reply" where
  "cmd_getenv N param = Some (skynet_getenv N param, N)"

definition cmd_setenv :: "node \<Rightarrow> string \<Rightarrow> reply" where
  "cmd_setenv N param =
     (let key = takeWhile (\<lambda>ch. ch \<noteq> CHR '' '') param;
          rest = dropWhile (\<lambda>ch. ch \<noteq> CHR '' '') param
      in if rest = [] then Some (None, N)
         else do { N1 \<leftarrow> skynet_setenv N key (tl rest); Some (None, N1) })"

definition cmd_starttime :: "node \<Rightarrow> cptr \<Rightarrow> reply" where
  "cmd_starttime N c = set_result N c (fmt_u (unat (skynet_starttime (n_timer N))))"

definition cmd_abort :: "hooks \<Rightarrow> node \<Rightarrow> reply" where
  "cmd_abort K N = do { N1 \<leftarrow> skynet_handle_retireall K N; Some (None, N1) }"

definition cmd_monitor :: "hooks \<Rightarrow> node \<Rightarrow> cptr \<Rightarrow> string option \<Rightarrow> reply" where
  "cmd_monitor K N c param =
     (case param of
        Some (p # ps) \<Rightarrow> do {
          (h, N1) \<leftarrow> tohandle K N c (p # ps);
          Some (None, N1\<lparr>n_monitor_exit := h\<rparr>)
        }
      | _ \<Rightarrow> if n_monitor_exit N \<noteq> 0 then set_result N c (CHR '':'' # fmt_x (n_monitor_exit N))
             else Some (None, N))"

definition cmd_stat :: "hooks \<Rightarrow> node \<Rightarrow> cptr \<Rightarrow> string \<Rightarrow> reply" where
  "cmd_stat K N c param = do {
     x \<leftarrow> n_ctx N c;
     (if param = ''mqlen'' then do {
        q \<leftarrow> queues (n_mq N) (c_queue x);
        set_result N c (fmt_d (skynet_mq_length q))
      }
      else if param = ''endless'' then
        (if c_endless x then do {
           N1 \<leftarrow> upd_ctx N c (\<lambda>x. x\<lparr>c_endless := False\<rparr>);
           set_result N1 c ''1''
         } else set_result N c ''0'')
      else if param = ''cpu'' then set_result N c (k_seconds K (c_cpu_cost x))
      else if param = ''time'' then
        (if c_profile x then set_result N c (k_seconds K (k_thread_time K N - c_cpu_start x))
         else set_result N c ''0'')
      else if param = ''message'' then set_result N c (fmt_d (sint (c_message_count x)))
      else set_result N c [])
   }"

text \<open>
  \<open>skynet_log_open\<close> and \<open>skynet_log_close\<close> of \<^verbatim>\<open>skynet_log.c\<close>, up to what they write into
  the file. No other thread opens or closes the log in between.
\<close>

definition skynet_log_open :: "hooks \<Rightarrow> node \<Rightarrow> cptr \<Rightarrow> u32 \<Rightarrow> (bool \<times> node) option" where
  "skynet_log_open K N c handle =
     (case skynet_getenv N ''logpath'' of
        None \<Rightarrow> Some (False, N)
      | Some path \<Rightarrow>
          (let tmp = path @ ''/'' @ fmt_08x handle @ ''.log'' in
           if k_fopen K tmp then do {
             N1 \<leftarrow> skynet_error K N (Some c) (''Open log file '' @ tmp);
             Some (True, N1)
           } else do {
             N1 \<leftarrow> skynet_error K N (Some c) (''Open log file '' @ tmp @ '' fail'');
             Some (False, N1)
           }))"

definition cmd_logon :: "hooks \<Rightarrow> node \<Rightarrow> cptr \<Rightarrow> string \<Rightarrow> reply" where
  "cmd_logon K N c param = do {
     (handle, N1) \<leftarrow> tohandle K N c param;
     (if handle = 0 then Some (None, N1) else do {
        (r, N2) \<leftarrow> skynet_handle_grab N1 handle;
        (case r of
           None \<Rightarrow> Some (None, N2)
         | Some d \<Rightarrow> do {
             x \<leftarrow> n_ctx N2 d;
             N3 \<leftarrow> (if \<not> c_logfile x then do {
                  (f, N3) \<leftarrow> skynet_log_open K N2 c handle;
                  (if f then upd_ctx N3 d (\<lambda>x. x\<lparr>c_logfile := True\<rparr>) else Some N3)
                } else Some N2);
             (_, N4) \<leftarrow> skynet_context_release K N3 d;
             Some (None, N4)
           })
      })
   }"

definition cmd_logoff :: "hooks \<Rightarrow> node \<Rightarrow> cptr \<Rightarrow> string \<Rightarrow> reply" where
  "cmd_logoff K N c param = do {
     (handle, N1) \<leftarrow> tohandle K N c param;
     (if handle = 0 then Some (None, N1) else do {
        (r, N2) \<leftarrow> skynet_handle_grab N1 handle;
        (case r of
           None \<Rightarrow> Some (None, N2)
         | Some d \<Rightarrow> do {
             x \<leftarrow> n_ctx N2 d;
             N3 \<leftarrow> (if c_logfile x then do {
                  N3 \<leftarrow> upd_ctx N2 d (\<lambda>x. x\<lparr>c_logfile := False\<rparr>);
                  skynet_error K N3 (Some c) (''Close log file :'' @ fmt_08x handle)
                } else Some N2);
             (_, N4) \<leftarrow> skynet_context_release K N3 d;
             Some (None, N4)
           })
      })
   }"

definition cmd_signal :: "hooks \<Rightarrow> node \<Rightarrow> cptr \<Rightarrow> string \<Rightarrow> reply" where
  "cmd_signal K N c param = do {
     (handle, N1) \<leftarrow> tohandle K N c param;
     (if handle = 0 then Some (None, N1) else do {
        (r, N2) \<leftarrow> skynet_handle_grab N1 handle;
        (case r of
           None \<Rightarrow> Some (None, N2)
         | Some d \<Rightarrow> do {
             x \<leftarrow> n_ctx N2 d;
             let rest = dropWhile (\<lambda>ch. ch \<noteq> CHR '' '') param;
             let sig = (if rest = [] then 0 else to_s32 (strtol0 rest));
             N3 \<leftarrow> k_signal K (c_mod x) (c_inst x) sig N2;
             (_, N4) \<leftarrow> skynet_context_release K N3 d;
             Some (None, N4)
           })
      })
   }"

text \<open>\<open>a\<close> holds the addresses that a launch may take for its context and queue.\<close>

definition skynet_command :: "hooks \<Rightarrow> cptr \<times> qptr \<Rightarrow> node \<Rightarrow> cptr \<Rightarrow> string \<Rightarrow> string option \<Rightarrow> reply" where
  "skynet_command K a N c cmd param =
     (if cmd = ''TIMEOUT'' then do { p \<leftarrow> param; cmd_timeout K N c p }
      else if cmd = ''REG'' then cmd_reg K N c param
      else if cmd = ''QUERY'' then do { p \<leftarrow> param; cmd_query N c p }
      else if cmd = ''NAME'' then do { p \<leftarrow> param; cmd_name K N c p }
      else if cmd = ''EXIT'' then cmd_exit K N c
      else if cmd = ''KILL'' then do { p \<leftarrow> param; cmd_kill K N c p }
      else if cmd = ''LAUNCH'' then do { p \<leftarrow> param; cmd_launch K N c (fst a) (snd a) p }
      else if cmd = ''GETENV'' then do { p \<leftarrow> param; cmd_getenv N p }
      else if cmd = ''SETENV'' then do { p \<leftarrow> param; cmd_setenv N p }
      else if cmd = ''STARTTIME'' then cmd_starttime N c
      else if cmd = ''ABORT'' then cmd_abort K N
      else if cmd = ''MONITOR'' then cmd_monitor K N c param
      else if cmd = ''STAT'' then do { p \<leftarrow> param; cmd_stat K N c p }
      else if cmd = ''LOGON'' then do { p \<leftarrow> param; cmd_logon K N c p }
      else if cmd = ''LOGOFF'' then do { p \<leftarrow> param; cmd_logoff K N c p }
      else if cmd = ''SIGNAL'' then do { p \<leftarrow> param; cmd_signal K N c p }
      else Some (None, N))"

end
