(* ===== verification/Server_Properties.thy ===== *)
theory Server_Properties
  imports Commands
begin

text \<open>
  What the services of a node can rely on: the invariant of a node, that sends, timeouts and
  errors keep it, where each of them puts which message, the sessions, the text form of
  handles, and the commands that show it. The witnesses run on a node with two services.
\<close>

subsection \<open>The invariant of a node\<close>

text \<open>
  \<open>ps\<close> is the global list. A live context has a live, unreleased queue of its own that carries its
  handle; a registered context is live and has a reference; a queue marked idle is not in
  the list unless its service is gone.
\<close>

definition ctx_ok :: "node \<Rightarrow> skynet_context \<Rightarrow> bool" where
  "ctx_ok N x \<longleftrightarrow> (\<exists>q. queues (n_mq N) (c_queue x) = Some q \<and> mq_inv q \<and> q_release q = 0)"

definition node_ok :: "node \<Rightarrow> qptr list \<Rightarrow> bool" where
  "node_ok N ps \<longleftrightarrow>
     slots_ok (n_hof N) (n_handles N) \<and> names_ok (n_handles N) \<and> gq_rep (n_mq N) ps \<and>
     (\<forall>c. Some c \<in> set (h_slot (n_handles N)) \<longrightarrow> (\<exists>x. n_ctx N c = Some x \<and> 1 \<le> c_ref x)) \<and>
     (\<forall>c x. n_ctx N c = Some x \<longrightarrow> ctx_ok N x) \<and>
     (\<forall>p q. queues (n_mq N) p = Some q \<and> q_in_global q = 0 \<and> q_release q = 0 \<longrightarrow> p \<notin> set ps)"

lemma upd_ctx_Some: "n_ctx N c = Some x \<Longrightarrow> upd_ctx N c f = Some (N\<lparr>n_ctx := (n_ctx N)(c \<mapsto> f x)\<rparr>)"
  by (simp add: upd_ctx_def)

abbreviation service :: "node \<Rightarrow> u32 \<Rightarrow> cptr option" where
  "service N h \<equiv> handle_find (n_hof N) (n_handles N) h"

lemma skynet_handle_grab_eq:
  assumes ok: "node_ok N ps"
  shows "skynet_handle_grab N h = (case service N h of None \<Rightarrow> Some (None, N)
    | Some c \<Rightarrow> map_option (\<lambda>N1. (Some c, N1)) (skynet_context_grab N c))"
proof -
  let ?i = "slot_hash h (h_slot_size (n_handles N))"
  have sl: "slots_ok (n_hof N) (n_handles N)" using ok by (simp add: node_ok_def)
  then have i: "?i < length (h_slot (n_handles N))"
    by (auto simp: slots_ok_def slot_hash_less)
  show ?thesis
  proof (cases "h_slot (n_handles N) ! ?i")
    case None
    then show ?thesis by (simp add: skynet_handle_grab_def handle_find_def)
  next
    case (Some c)
    with i have "Some c \<in> set (h_slot (n_handles N))" by (metis nth_mem)
    with ok obtain x where x: "n_ctx N c = Some x" by (auto simp: node_ok_def)
    with Some show ?thesis
      by (auto simp: skynet_handle_grab_def handle_find_def skynet_context_handle_def n_hof_def
          split: option.splits) (cases "skynet_context_grab N c"; simp)
  qed
qed

lemma service_live:
  assumes ok: "node_ok N ps" and s: "service N h = Some c"
  obtains x q where "n_ctx N c = Some x" "1 \<le> c_ref x" "c_handle x = h"
    "queues (n_mq N) (c_queue x) = Some q" "mq_inv q" "q_release q = 0"
proof -
  have "slots_ok (n_hof N) (n_handles N)" using ok by (simp add: node_ok_def)
  from handle_find_Some [OF this, of h c] s
  have c: "n_hof N c = h" "Some c \<in> set (h_slot (n_handles N))" by simp_all
  from c(2) ok obtain x where x: "n_ctx N c = Some x" "1 \<le> c_ref x" "ctx_ok N x"
    unfolding node_ok_def by blast
  with c(1) that show thesis by (auto simp: ctx_ok_def n_hof_def)
qed

lemma n_hof_mq [simp]: "n_hof (N\<lparr>n_mq := m\<rparr>) = n_hof N"
  by (auto simp: n_hof_def fun_eq_iff)

text \<open>A push by handle: the lookup, the enqueue, and a reference taken and given back.\<close>

lemma skynet_context_push_eq:
  assumes ok: "node_ok N ps"
  shows "skynet_context_push K N h msg =
    (case service N h of None \<Rightarrow> Some (-1, N)
     | Some c \<Rightarrow> map_option (\<lambda>mq. (0, N\<lparr>n_mq := mq\<rparr>))
         (skynet_mq_push (n_mq N) (c_queue (the (n_ctx N c))) msg))"
proof (cases "service N h")
  case None
  then show ?thesis by (simp add: skynet_context_push_def skynet_handle_grab_eq [OF ok])
next
  case (Some c)
  obtain x where x: "n_ctx N c = Some x" "1 \<le> c_ref x" using service_live [OF ok Some] by blast
  have undo: "(n_ctx N)(c \<mapsto> x) = n_ctx N" using x(1) by (rule fun_upd_idem)
  let ?N1 = "N\<lparr>n_ctx := (n_ctx N)(c \<mapsto> x\<lparr>c_ref := c_ref x + 1\<rparr>)\<rparr>"
  have grab: "skynet_handle_grab N h = Some (Some c, ?N1)"
    using Some x by (simp add: skynet_handle_grab_eq [OF ok] skynet_context_grab_def upd_ctx_Some)
  have rel: "skynet_context_release K (?N1\<lparr>n_mq := mq\<rparr>) c = Some (Some c, N\<lparr>n_mq := mq\<rparr>)" for mq
    using x by (simp add: skynet_context_release_def upd_ctx_def undo)
  show ?thesis
    using Some x(1) rel
    by (cases "skynet_mq_push (n_mq N) (c_queue x) msg") (simp_all add: skynet_context_push_def grab)
qed

definition queue_of :: "node \<Rightarrow> cptr \<Rightarrow> qptr" where
  "queue_of N c = (case n_ctx N c of Some x \<Rightarrow> c_queue x | None \<Rightarrow> 0)"

text \<open>What a service has in its queue.\<close>

definition mailbox :: "node \<Rightarrow> cptr \<Rightarrow> skynet_message list" where
  "mailbox N c = (case queues (n_mq N) (queue_of N c) of Some q \<Rightarrow> mq_contents q | None \<Rightarrow> [])"

lemma body_SomeD: "body_of g p = Some b \<Longrightarrow> \<exists>q. queues g p = Some q \<and> b = q\<lparr>q_next := None\<rparr>"
  by (auto simp: body_of_def)

lemma body_SomeI: "queues g p = Some q \<Longrightarrow> body_of g p = Some (q\<lparr>q_next := None\<rparr>)"
  by (simp add: body_of_def)

lemma body_eqD:
  "a\<lparr>q_next := None\<rparr> = b\<lparr>q_next := None\<rparr> \<Longrightarrow> q_in_global a = q_in_global b \<and> q_release a = q_release b \<and>
     q_handle a = q_handle b \<and> mq_inv a = mq_inv b \<and> mq_contents a = mq_contents b"
  by (cases a; cases b) (metis message_queue.select_convs message_queue.update_convs(10) mq_inv_frame(4,9))

lemma ctx_okI: "body_of (n_mq N) (c_queue x) = Some b \<Longrightarrow> mq_inv b \<Longrightarrow> q_release b = 0 \<Longrightarrow> ctx_ok N x"
  by (drule body_SomeD) (auto simp: ctx_ok_def)

text \<open>The invariant only looks at the bodies of the queues and at the list.\<close>

lemma node_ok_push:
  assumes ok: "node_ok N ps" and q: "queues (n_mq N) p = Some q" and inv: "mq_inv q" and rel: "q_release q = 0"
  shows "\<exists>mq q' ps'. skynet_mq_push (n_mq N) p msg = Some mq \<and> node_ok (N\<lparr>n_mq := mq\<rparr>) ps' \<and>
    body_of mq = (body_of (n_mq N))(p \<mapsto> q') \<and> mq_contents q' = mq_contents q @ [msg]"
proof -
  have rep: "gq_rep (n_mq N) ps" and idle: "q_in_global q = 0 \<Longrightarrow> p \<notin> set ps"
    using ok q rel unfolding node_ok_def by blast+
  obtain mq q0 where push: "skynet_mq_push (n_mq N) p msg = Some mq" "mq_store q msg = Some q0"
    "gq_rep mq (if q_in_global q = 0 then ps @ [p] else ps)"
    "body_of mq = (body_of (n_mq N))(p \<mapsto>
      q0\<lparr>q_in_global := (if q_in_global q = 0 then MQ_IN_GLOBAL else q_in_global q), q_next := None\<rparr>)"
    using skynet_mq_push_eq [OF rep q inv idle] by blast
  let ?ps = "if q_in_global q = 0 then ps @ [p] else ps"
  let ?q' = "q0\<lparr>q_in_global := (if q_in_global q = 0 then MQ_IN_GLOBAL else q_in_global q), q_next := None\<rparr>"
  have st: "mq_inv q0" "mq_contents q0 = mq_contents q @ [msg]" "q_release q0 = 0"
    using mq_store_ok [OF inv, of msg] mq_store_frame [OF push(2)] push(2) rel by auto
  have same: "\<exists>b. body_of (n_mq N) r = Some b \<and> b\<lparr>q_next := None\<rparr> = a\<lparr>q_next := None\<rparr>"
    if "queues mq r = Some a" "r \<noteq> p" for r a
    using body_SomeI [OF that(1)] that(2) by (auto simp: push(4) body_of_def)
  have live: "ctx_ok (N\<lparr>n_mq := mq\<rparr>) x" if cx: "ctx_ok N x" for x
  proof -
    obtain a where a: "queues (n_mq N) (c_queue x) = Some a" "mq_inv a" "q_release a = 0"
      using cx by (auto simp: ctx_ok_def)
    show ?thesis
    proof (cases "c_queue x = p")
      case True
      then have "body_of mq (c_queue x) = Some ?q'" by (simp add: push(4))
      then show ?thesis using st by (intro ctx_okI [of _ _ ?q']) simp_all
    next
      case False
      then have "body_of mq (c_queue x) = Some (a\<lparr>q_next := None\<rparr>)" by (simp add: push(4) body_SomeI [OF a(1)])
      then show ?thesis using a by (intro ctx_okI [of _ _ "a\<lparr>q_next := None\<rparr>"]) simp_all
    qed
  qed
  have "r \<notin> set ?ps" if a: "queues mq r = Some a" "q_in_global a = 0" "q_release a = 0" for r a
  proof (cases "r = p")
    case True
    with a push(4) have "a\<lparr>q_next := None\<rparr> = ?q'" using body_SomeI [OF a(1)] by simp
    then have "a\<lparr>q_next := None\<rparr> = ?q'\<lparr>q_next := None\<rparr>" by simp
    then have "q_in_global a = q_in_global ?q'" by (blast dest: body_eqD)
    with a(2) show ?thesis by (simp add: MQ_IN_GLOBAL_def split: if_splits)
  next
    case False
    from body_SomeI [OF a(1)] False obtain b where b: "queues (n_mq N) r = Some b" "b\<lparr>q_next := None\<rparr> = a\<lparr>q_next := None\<rparr>"
      by (auto simp: push(4) body_of_def)
    from b(2) have "q_in_global b = q_in_global a" "q_release b = q_release a" by (blast dest: body_eqD)+
    with b(1) a ok False show ?thesis by (auto simp: node_ok_def)
  qed
  with ok push(3) live have "node_ok (N\<lparr>n_mq := mq\<rparr>) ?ps" by (auto simp: node_ok_def)
  with push(1,4) st show ?thesis by fastforce
qed


lemma mailbox_body:
  "mailbox N c = (case body_of (n_mq N) (queue_of N c) of Some b \<Rightarrow> mq_contents b | None \<Rightarrow> [])"
  by (auto simp: mailbox_def body_of_def split: option.splits)

lemma queue_of_mq [simp]: "queue_of (N\<lparr>n_mq := m\<rparr>) = queue_of N"
  by (auto simp: queue_of_def fun_eq_iff)

text \<open>\<open>msg\<close> is behind what \<open>c\<close> had; every other queue, every context and every table is as before.\<close>

definition delivered :: "node \<Rightarrow> cptr \<Rightarrow> skynet_message \<Rightarrow> node \<Rightarrow> bool" where
  "delivered N c msg N' \<longleftrightarrow> (\<exists>mq. N' = N\<lparr>n_mq := mq\<rparr>) \<and> mailbox N' c = mailbox N c @ [msg] \<and>
     (\<forall>d. queue_of N d \<noteq> queue_of N c \<longrightarrow> mailbox N' d = mailbox N d)"

lemma push_to_service:
  assumes ok: "node_ok N ps"
  shows "case service N h of
      None \<Rightarrow> skynet_context_push K N h msg = Some (-1, N)
    | Some c \<Rightarrow> \<exists>N' ps'. skynet_context_push K N h msg = Some (0, N') \<and> node_ok N' ps' \<and> delivered N c msg N'"
proof (cases "service N h")
  case None
  then show ?thesis by (simp add: skynet_context_push_eq [OF ok])
next
  case (Some c)
  obtain x q where x: "n_ctx N c = Some x" "queues (n_mq N) (c_queue x) = Some q" "mq_inv q" "q_release q = 0"
    using service_live [OF ok Some] by blast
  obtain mq q' ps' where push: "skynet_mq_push (n_mq N) (c_queue x) msg = Some mq"
    "node_ok (N\<lparr>n_mq := mq\<rparr>) ps'" "body_of mq = (body_of (n_mq N))(c_queue x \<mapsto> q')"
    "mq_contents q' = mq_contents q @ [msg]"
    using node_ok_push [OF ok x(2-4)] by blast
  have "delivered N c msg (N\<lparr>n_mq := mq\<rparr>)"
    using x(1,2) push(3,4) by (auto simp: delivered_def mailbox_body queue_of_def body_SomeI)
  with push(1,2) x(1) Some show ?thesis by (auto simp: skynet_context_push_eq [OF ok])
qed

subsection \<open>Sizes and sessions\<close>

lemma MESSAGE_TYPE_MASK_mask: "MESSAGE_TYPE_MASK = mask 56"
  unfolding MESSAGE_TYPE_MASK_def by (rule bit_word_eqI) (auto simp: bit_simps)

lemma typed_size:
  assumes sz: "sz AND MESSAGE_TYPE_MASK = sz" and t: "0 \<le> t" "t < 256"
  shows "sz_type (sz OR typed_sz t) = t" "sz_size (sz OR typed_sz t) = sz"
proof -
  have low: "take_bit 56 sz = sz" using sz by (simp add: MESSAGE_TYPE_MASK_mask take_bit_eq_mask)
  then have "drop_bit 56 sz = 0" by (metis drop_bit_take_bit diff_self_eq_0 take_bit_0)
  then have d: "drop_bit 56 (sz OR typed_sz t) = drop_bit 56 (typed_sz t)" by simp
  have "drop_bit 56 (typed_sz t) = (of_int t :: u64)"
  proof -
    have "take_bit 8 t = t" using t by (simp add: take_bit_int_eq_self)
    then have "take_bit 8 (of_int t :: u64) = of_int t" by (metis take_bit_of_int)
    moreover have "drop_bit 56 (push_bit 56 w) = take_bit 8 w" for w :: u64
      by (rule bit_word_eqI) (auto simp: bit_simps)
    ultimately show ?thesis unfolding typed_sz_def MESSAGE_TYPE_SHIFT_def by simp
  qed
  with d t show "sz_type (sz OR typed_sz t) = t"
    by (simp add: sz_type_def MESSAGE_TYPE_SHIFT_def uint_word_of_int_eq take_bit_int_eq_self)
  have "take_bit 56 (typed_sz t) = 0"
    unfolding typed_sz_def MESSAGE_TYPE_SHIFT_def by (simp add: take_bit_push_bit)
  with low show "sz_size (sz OR typed_sz t) = sz"
    by (simp add: sz_size_def MESSAGE_TYPE_MASK_mask flip: take_bit_eq_mask)
qed

lemma node_ok_session:
  assumes "n_ctx N c = Some x"
  shows "node_ok (N\<lparr>n_ctx := (n_ctx N)(c \<mapsto> x\<lparr>c_session := s\<rparr>)\<rparr>) ps = node_ok N ps"
    and "n_hof (N\<lparr>n_ctx := (n_ctx N)(c \<mapsto> x\<lparr>c_session := s\<rparr>)\<rparr>) = n_hof N"
    and "queue_of (N\<lparr>n_ctx := (n_ctx N)(c \<mapsto> x\<lparr>c_session := s\<rparr>)\<rparr>) = queue_of N"
proof -
  show hof: "n_hof (N\<lparr>n_ctx := (n_ctx N)(c \<mapsto> x\<lparr>c_session := s\<rparr>)\<rparr>) = n_hof N"
    and "queue_of (N\<lparr>n_ctx := (n_ctx N)(c \<mapsto> x\<lparr>c_session := s\<rparr>)\<rparr>) = queue_of N"
    using assms by (auto simp: n_hof_def queue_of_def fun_eq_iff)
  show "node_ok (N\<lparr>n_ctx := (n_ctx N)(c \<mapsto> x\<lparr>c_session := s\<rparr>)\<rparr>) ps = node_ok N ps"
    using assms unfolding node_ok_def hof by (auto simp: ctx_ok_def)
qed

lemma newsession_eq:
  assumes "n_ctx N c = Some x"
  shows "\<exists>s. skynet_context_newsession N c =
      Some (sint s, N\<lparr>n_ctx := (n_ctx N)(c \<mapsto> x\<lparr>c_session := s\<rparr>)\<rparr>) \<and> 0 < sint s \<and>
      (s = c_session x + 1 \<or> s = 1)"
proof (cases "sint (c_session x + 1) \<le> 0")
  case True
  with assms show ?thesis by (intro exI [of _ 1]) (simp add: skynet_context_newsession_def upd_ctx_def)
next
  case False
  with assms show ?thesis
    by (intro exI [of _ "c_session x + 1"]) (simp add: skynet_context_newsession_def upd_ctx_def Let_def)
qed


subsection \<open>Sending, by cases\<close>

text \<open>Fields that neither the invariant nor the mailboxes look at.\<close>

lemma n_hof_frame [simp]:
  "n_hof (N\<lparr>n_logger := l\<rparr>) = n_hof N" "n_hof (N\<lparr>n_timer := t\<rparr>) = n_hof N"
  by (auto simp: n_hof_def fun_eq_iff)

lemma node_frame [simp]:
  "node_ok (N\<lparr>n_logger := l\<rparr>) ps = node_ok N ps" "node_ok (N\<lparr>n_timer := t\<rparr>) ps = node_ok N ps"
  "mailbox (N\<lparr>n_logger := l\<rparr>) = mailbox N" "mailbox (N\<lparr>n_timer := t\<rparr>) = mailbox N"
  "queue_of (N\<lparr>n_logger := l\<rparr>) = queue_of N" "queue_of (N\<lparr>n_timer := t\<rparr>) = queue_of N"
  by (auto simp: node_ok_def ctx_ok_def mailbox_def queue_of_def fun_eq_iff)

text \<open>What a send from \<open>context\<close> makes of its arguments.\<close>

lemma filter_args_ok:
  assumes ok: "node_ok N ps" and x: "n_ctx N c = Some x" and sz: "sz AND MESSAGE_TYPE_MASK = sz"
    and copy: "ty AND PTYPE_TAG_DONTCOPY = 0 \<and> data \<noteq> PNull \<Longrightarrow> copy_payload data sz = Some data2"
    and ses: "ty AND PTYPE_TAG_ALLOCSESSION \<noteq> 0 \<Longrightarrow> session = 0"
  shows "\<exists>N1 s. filter_args N (Some c) ty session data sz =
      Some (s, if ty AND PTYPE_TAG_DONTCOPY = 0 \<and> data \<noteq> PNull then data2 else data,
        sz OR typed_sz (uint (ty AND 0xff)), N1) \<and>
    (if ty AND PTYPE_TAG_ALLOCSESSION \<noteq> 0 then 0 < s else s = session) \<and>
    node_ok N1 ps \<and> n_mq N1 = n_mq N \<and> n_handles N1 = n_handles N \<and> n_hof N1 = n_hof N \<and>
    queue_of N1 = queue_of N \<and> n_HARBOR N1 = n_HARBOR N \<and> n_REMOTE N1 = n_REMOTE N \<and>
    skynet_context_handle N1 c = skynet_context_handle N c"
proof -
  have d: "(if ty AND PTYPE_TAG_DONTCOPY = 0 \<and> data \<noteq> PNull then copy_payload data sz else Some data) =
      Some (if ty AND PTYPE_TAG_DONTCOPY = 0 \<and> data \<noteq> PNull then data2 else data)"
    using copy by simp
  show ?thesis
  proof (cases "ty AND PTYPE_TAG_ALLOCSESSION = 0")
    case True
    then show ?thesis using ok by (intro exI [of _ N] exI [of _ session]) (simp add: filter_args_def d)
  next
    case False
    obtain s where s: "skynet_context_newsession N c =
        Some (sint s, N\<lparr>n_ctx := (n_ctx N)(c \<mapsto> x\<lparr>c_session := s\<rparr>)\<rparr>)" "0 < sint s"
      using newsession_eq [of N c x] x by blast
    with False ses d ok x node_ok_session [OF x] show ?thesis
      by (intro exI [of _ "N\<lparr>n_ctx := (n_ctx N)(c \<mapsto> x\<lparr>c_session := s\<rparr>)\<rparr>"] exI [of _ "sint s"])
        (simp add: filter_args_def skynet_context_handle_def)
  qed
qed

lemma type_byte: "0 \<le> uint (ty AND 0xff :: u32)" "uint (ty AND 0xff :: u32) < 256"
proof -
  have "ty AND 0xff = take_bit 8 ty" by (simp add: take_bit_eq_mask mask_eq_exp_minus_1)
  then have "uint (ty AND 0xff) = take_bit 8 (uint ty)" by (simp only: unsigned_take_bit_eq)
  moreover have "take_bit 8 (uint ty) < 2 ^ 8" by (rule take_bit_int_less_exp)
  ultimately show "uint (ty AND 0xff :: u32) < 256" by simp
qed simp

lemma mailbox_cong: "n_mq N1 = n_mq N2 \<Longrightarrow> queue_of N1 = queue_of N2 \<Longrightarrow> mailbox N1 = mailbox N2"
  by (simp add: mailbox_def fun_eq_iff)

definition deliver_all :: "node \<Rightarrow> cptr \<Rightarrow> skynet_message \<Rightarrow> node \<Rightarrow> bool" where
  "deliver_all N d m N' \<longleftrightarrow> mailbox N' d = mailbox N d @ [m] \<and>
     (\<forall>e. queue_of N e \<noteq> queue_of N d \<longrightarrow> mailbox N' e = mailbox N e)"

text \<open>
  C2: a local send by a running service. If the destination has no service the answer is -1
  and no mailbox changes. Otherwise exactly the destination's mailbox grows, by one message at
  its end, whose source, session, payload, type and size are the ones given (the caller's
  handle for source 0, a fresh positive session when one is asked for, a copy of the payload
  unless it was handed over); the answer is the session and the invariant holds again.
\<close>

theorem skynet_send_local:
  assumes ok: "node_ok N ps" and x: "n_ctx N c = Some x" and sz: "sz AND MESSAGE_TYPE_MASK = sz"
    and copy: "ty AND PTYPE_TAG_DONTCOPY = 0 \<and> data \<noteq> PNull \<Longrightarrow> copy_payload data sz = Some data2"
    and ses: "ty AND PTYPE_TAG_ALLOCSESSION \<noteq> 0 \<Longrightarrow> session = 0"
    and dest: "dest \<noteq> 0" "skynet_harbor_message_isremote N dest = Some False"
  shows "case service N dest of
      None \<Rightarrow> \<exists>N' ps'. skynet_send K N (Some c) source dest ty session data sz = Some (-1, N') \<and>
        node_ok N' ps' \<and> mailbox N' = mailbox N
    | Some d \<Rightarrow> \<exists>m N' ps'. skynet_send K N (Some c) source dest ty session data sz = Some (msg_session m, N') \<and>
        node_ok N' ps' \<and> deliver_all N d m N' \<and>
        msg_source m = (if source = 0 then c_handle x else source) \<and>
        (if ty AND PTYPE_TAG_ALLOCSESSION \<noteq> 0 then 0 < msg_session m else msg_session m = session) \<and>
        msg_data m = (if ty AND PTYPE_TAG_DONTCOPY = 0 \<and> data \<noteq> PNull then data2 else data) \<and>
        sz_type (msg_sz m) = uint (ty AND 0xff) \<and> sz_size (msg_sz m) = sz"
proof -
  define D where "D = (if ty AND PTYPE_TAG_DONTCOPY = 0 \<and> data \<noteq> PNull then data2 else data)"
  let ?sz = "sz OR typed_sz (uint (ty AND 0xff))"
  obtain N1 s where f: "filter_args N (Some c) ty session data sz = Some (s, D, ?sz, N1)"
    "if ty AND PTYPE_TAG_ALLOCSESSION \<noteq> 0 then 0 < s else s = session"
    "node_ok N1 ps" "n_mq N1 = n_mq N" "n_handles N1 = n_handles N" "n_hof N1 = n_hof N"
    "queue_of N1 = queue_of N" "n_HARBOR N1 = n_HARBOR N"
    "skynet_context_handle N1 c = skynet_context_handle N c"
    using filter_args_ok [OF ok x sz copy ses] unfolding D_def by blast
  have mb: "mailbox N1 = mailbox N" by (rule mailbox_cong) (fact f)+
  have rem: "skynet_harbor_message_isremote N1 dest = Some False"
    using dest(2) f(8) by (simp add: skynet_harbor_message_isremote_def)
  let ?m = "\<lparr>msg_source = (if source = 0 then c_handle x else source), msg_session = s, msg_data = D, msg_sz = ?sz\<rparr>"
  have src: "skynet_context_handle N1 c = Some (c_handle x)"
    using x unfolding f(9) by (simp add: skynet_context_handle_def)
  have send: "skynet_send K N (Some c) source dest ty session data sz =
      map_option (\<lambda>(r, N2). (if r \<noteq> 0 then -1 else s, N2)) (skynet_context_push K N1 dest ?m)"
    using sz dest(1) by (cases "source = 0"; cases "skynet_context_push K N1 dest ?m")
      (simp_all add: skynet_send_def f(1) rem src split_beta)
  note push = push_to_service [OF f(3), where h = dest and K = K and msg = ?m]
  show ?thesis
  proof (cases "service N dest")
    case None
    with push have "skynet_context_push K N1 dest ?m = Some (-1, N1)" by (simp add: f(5,6))
    with send None f(3) mb show ?thesis by auto
  next
    case (Some d)
    with push obtain N2 ps' where p: "skynet_context_push K N1 dest ?m = Some (0, N2)" "node_ok N2 ps'"
      "delivered N1 d ?m N2" by (auto simp: f(5,6))
    have "deliver_all N d ?m N2" using p(3) by (auto simp: delivered_def deliver_all_def mb f(7))
    moreover have "sz_type ?sz = uint (ty AND 0xff)" "sz_size ?sz = sz"
      using typed_size [OF sz type_byte] by simp_all
    ultimately show ?thesis unfolding Some option.case
      by (intro exI [of _ ?m] exI [of _ N2] exI [of _ ps']) (use send p(1,2) f(2) in \<open>simp add: D_def\<close>)
  qed
qed


subsection \<open>A node with two services\<close>

text \<open>The logger (handle \<open>01000001\<close>) and a gate (\<open>01000002\<close>), both idle, on harbor 1.\<close>

definition demo_ctx :: "nat \<Rightarrow> u32 \<Rightarrow> skynet_context" where
  "demo_ctx p h = \<lparr>c_mod = ''gate'', c_inst = p, c_cb = Some p, c_queue = p, c_logfile = False, c_cpu_cost = 0,
      c_cpu_start = 0, c_result = [], c_handle = h, c_session = 0x7fffffff, c_ref = 1, c_message_count = 0,
      c_init = True, c_endless = False, c_profile = False\<rparr>"

definition demo_node :: node where
  "demo_node = \<lparr>n_total = 2, n_monitor_exit = 0, n_profile = False, n_current = 0,
     n_ctx = [1 \<mapsto> demo_ctx 1 0x01000001, 2 \<mapsto> demo_ctx 2 0x01000002],
     n_handles = \<lparr>h_harbor = 0x01000000, h_index = 3, h_slot_size = 4,
        h_slot = [None, Some 1, Some 2, None], h_name_cap = 2, h_name_count = 1,
        h_name = [Some \<lparr>nm_name = ''logger'', nm_handle = 0x01000001\<rparr>, None]\<rparr>,
     n_mq = \<lparr>queues = [1 \<mapsto> mq_new 0x01000001\<lparr>q_in_global := 0\<rparr>, 2 \<mapsto> mq_new 0x01000002\<lparr>q_in_global := 0\<rparr>],
        ghead = None, gtail = None\<rparr>,
     n_timer = timer_create_timer, n_HARBOR = 0x01000000, n_REMOTE = Some 1, n_logger = 0, n_env = Map.empty\<rparr>"

definition demo_hooks :: hooks where
  "demo_hooks = \<lparr>k_query = (\<lambda>_. True), k_create = (\<lambda>_. Some 0), k_init = (\<lambda>_ _ _ _ N. Some (0, N)),
     k_release = (\<lambda>_ _ N. Some N), k_signal = (\<lambda>_ _ _ N. Some N), k_cb = (\<lambda>_ _ _ _ _ _ _ N. Some (False, N)),
     k_fopen = (\<lambda>_. True), k_thread_time = (\<lambda>_. 0), k_seconds = (\<lambda>_. [])\<rparr>"

lemma demo_node_simps [simp]:
  "n_ctx demo_node = [1 \<mapsto> demo_ctx 1 0x01000001, 2 \<mapsto> demo_ctx 2 0x01000002]"
  "h_slot (n_handles demo_node) = [None, Some 1, Some 2, None]" "h_slot_size (n_handles demo_node) = 4"
  "n_HARBOR demo_node = 0x01000000" "n_REMOTE demo_node = Some 1"
  "queues (n_mq demo_node) = [1 \<mapsto> mq_new 0x01000001\<lparr>q_in_global := 0\<rparr>, 2 \<mapsto> mq_new 0x01000002\<lparr>q_in_global := 0\<rparr>]"
  by (simp_all add: demo_node_def)

lemma demo_ctx_simps [simp]: "c_queue (demo_ctx p h) = p" "c_handle (demo_ctx p h) = h" "c_ref (demo_ctx p h) = 1"
  "c_session (demo_ctx p h) = 0x7fffffff" "c_cb (demo_ctx p h) = Some p"
  by (simp_all add: demo_ctx_def)

lemma demo_hof: "n_hof demo_node 1 = 0x01000001" "n_hof demo_node 2 = 0x01000002"
  by (simp_all add: n_hof_def)

lemma demo_slots: "slots_ok (n_hof demo_node) (n_handles demo_node)"
proof -
  have sz: "(4::nat) \<in> slot_sizes" unfolding slot_sizes_def by (rule image_eqI [of _ _ 2]) simp_all
  have i4: "i < 4 \<longleftrightarrow> i = 0 \<or> i = 1 \<or> i = 2 \<or> i = (3 :: nat)" for i by arith
  have h: "slot_hash 0x01000001 4 = 1" "slot_hash 0x01000002 4 = 2" by (simp_all add: slot_hash_def)
  have f: "h_harbor (n_handles demo_node) = 0x01000000" "h_index (n_handles demo_node) = 3" by (simp_all add: demo_node_def)
  show ?thesis
    unfolding slots_ok_def demo_node_simps f using sz
    by (auto simp: i4 h demo_hof [simplified] HANDLE_MASK_def)
qed

lemma demo_ok: "node_ok demo_node []"
proof -
  have "names_ok (n_handles demo_node)" by (simp add: demo_node_def names_ok_def names_def)
  moreover have "gq_rep (n_mq demo_node) []"
    by (auto simp: demo_node_def gq_rep_def next_of_def) (simp_all add: mq_new_def)
  moreover have "ctx_ok demo_node (demo_ctx 1 0x01000001)" "ctx_ok demo_node (demo_ctx 2 0x01000002)"
    by (simp_all add: ctx_ok_def mq_inv_new) (simp_all add: mq_new_def)
  ultimately show ?thesis using demo_slots by (auto simp: node_ok_def)
qed

lemma demo_service: "service demo_node 0x01000002 = Some 2" "service demo_node 0x01000003 = None"
proof -
  have h: "slot_hash 0x01000002 4 = 2" "slot_hash 0x01000003 4 = 3" by (simp_all add: slot_hash_def)
  show "service demo_node 0x01000002 = Some 2" "service demo_node 0x01000003 = None"
    by (simp_all add: handle_find_def h demo_hof)
qed

lemma demo_local: "skynet_harbor_message_isremote demo_node 0x01000002 = Some False"
  by (simp add: skynet_harbor_message_isremote_def HANDLE_MASK_def)

theorem skynet_send_local_witness:
  "\<exists>m N'. skynet_send demo_hooks demo_node (Some 1) 0 0x01000002 0x20003 0 (PBytes [1,2,3]) 2 = Some (msg_session m, N') \<and>
     mailbox N' 2 = [m] \<and> msg_source m = 0x01000001 \<and> 0 < msg_session m \<and> msg_data m = PBytes [1,2,0] \<and>
     sz_type (msg_sz m) = 3 \<and> sz_size (msg_sz m) = 2"
proof -
  have "(2 :: u64) AND MESSAGE_TYPE_MASK = 2" by (simp add: MESSAGE_TYPE_MASK_mask mask_eq_exp_minus_1)
  moreover have "copy_payload (PBytes [1,2,3]) 2 = Some (PBytes [1,2,0])" by (simp add: copy_payload_def)
  moreover have "mailbox demo_node 2 = []" by (simp add: mailbox_def queue_of_def mq_contents_new)
  ultimately show ?thesis
    using skynet_send_local [OF demo_ok, of 1 "demo_ctx 1 0x01000001" 2 "0x20003" "PBytes [1,2,3]" "PBytes [1,2,0]" 0
        "0x01000002" demo_hooks 0] demo_local demo_service(1)
    by (auto simp: PTYPE_TAG_ALLOCSESSION_def PTYPE_TAG_DONTCOPY_def deliver_all_def)
qed




definition next_session :: "int \<Rightarrow> int" where
  "next_session s = (if 0 \<le> s \<and> s < 2 ^ 31 - 1 then s + 1 else 1)"

lemma next_session_iter:
  "0 < s \<Longrightarrow> s < 2 ^ 31 \<Longrightarrow> (next_session ^^ k) s = (s - 1 + int k) mod (2 ^ 31 - 1) + 1"
proof (induction k)
  case 0
  then show ?case by (simp add: mod_pos_pos_trivial)
next
  case (Suc k)
  let ?m = "2 ^ 31 - 1 :: int"
  define r where "r = (s - 1 + int k) mod ?m"
  have r: "0 \<le> r" "r < ?m" by (simp_all add: r_def)
  have "(s - 1 + int (Suc k)) mod ?m = ((s - 1 + int k) + 1) mod ?m" by (simp add: algebra_simps)
  also have "\<dots> = (r + 1) mod ?m" unfolding r_def by (simp only: mod_add_left_eq)
  also have "\<dots> = (if r + 1 = ?m then 0 else r + 1)" using r by (simp add: mod_pos_pos_trivial)
  finally have "(s - 1 + int (Suc k)) mod ?m + 1 = next_session (r + 1)"
    using r by (simp add: next_session_def)
  with Suc show ?case by (simp add: r_def)
qed

lemma next_session_fresh:
  assumes "0 < s" "s < 2 ^ 31" "0 < k" "k < 2 ^ 31 - 1" shows "(next_session ^^ k) s \<noteq> s"
proof
  let ?m = "2 ^ 31 - 1 :: int"
  assume "(next_session ^^ k) s = s"
  then have "(s - 1 + int k) mod ?m = (s - 1) mod ?m"
    using next_session_iter [OF assms(1,2), of k] assms(1,2) by (simp add: mod_pos_pos_trivial)
  then have "?m dvd int k" by (simp add: mod_eq_dvd_iff)
  with assms(3,4) show False by (auto dest!: zdvd_imp_le)
qed

text \<open>
  A new session is always a positive \<open>int\<close>: the successor of the last one, and 1 when that
  leaves the range, so that a session comes back only after all \<open>2 ^ 31 - 1\<close> of them were used.
\<close>

theorem newsession_positive:
  assumes "n_ctx N c = Some x" "0 \<le> sint (c_session x)"
  shows "\<exists>s N'. skynet_context_newsession N c = Some (s, N') \<and> s = next_session (sint (c_session x)) \<and>
    0 < s \<and> s < 2 ^ 31 \<and> (\<forall>k. 0 < k \<longrightarrow> k < 2 ^ 31 - 1 \<longrightarrow> (next_session ^^ k) s \<noteq> s) \<and>
    (\<exists>x'. n_ctx N' c = Some x' \<and> sint (c_session x') = s \<and> c_queue x' = c_queue x \<and> c_handle x' = c_handle x)"
proof -
  let ?s = "c_session x"
  have hi: "sint ?s < 2 ^ 31" using sint_lt [of ?s] by simp
  have val: "sint (?s + 1) = signed_take_bit 31 (sint ?s + 1)" by (simp add: sint_word_ariths)
  show ?thesis
  proof (cases "sint ?s = 2 ^ 31 - 1")
    case True
    then have "sint (?s + 1) = - (2 ^ 31)" by (simp add: val signed_take_bit_int_eq_self_iff)
    with assms True show ?thesis
      using next_session_fresh [of 1] by (auto simp: skynet_context_newsession_def upd_ctx_def next_session_def)
  next
    case False
    with hi assms(2) have lt: "sint ?s + 1 < 2 ^ 31" by simp
    then have "sint (?s + 1) = sint ?s + 1"
      using assms(2) by (simp add: val signed_take_bit_int_eq_self_iff)
    with assms False lt hi show ?thesis
      using next_session_fresh [of "sint ?s + 1"]
      by (auto simp: skynet_context_newsession_def upd_ctx_def next_session_def Let_def)
  qed
qed

theorem newsession_positive_witness:
  "\<exists>N'. skynet_context_newsession demo_node 1 = Some (1, N') \<and> (\<exists>x'. n_ctx N' 1 = Some x' \<and> sint (c_session x') = 1)"
proof -
  have "sint (0x7fffffff :: u32) = 0x7fffffff" by simp
  with newsession_positive [of demo_node 1 "demo_ctx 1 0x01000001"] show ?thesis
    by (auto simp: next_session_def)
qed

lemma nibble: "unat (drop_bit k (h :: u32) AND 0xf) = unat h div 2 ^ k mod 16"
proof -
  have m: "(0xf :: u32) = mask 4" by (simp add: mask_eq_exp_minus_1)
  show ?thesis unfolding m unat_and_mask unat_drop by simp
qed

lemma id_to_hex_read: "read_digits 16 0 (tl (id_to_hex h)) = unat h"
proof -
  have up: "[0..<8] = [0, 1, 2, 3, 4, 5, 6, 7 :: nat]" by (simp add: upt_rec)
  let ?d = "\<lambda>k. unat (drop_bit k h AND 0xf)"
  have small: "?d k < 16" for k by (simp only: nibble)
  with small [of 0] have small: "?d k < 16" "unat (h AND 0xf) < 16" for k by (simp_all only: drop_bit_0 id_apply)
  from small have "read_digits 16 0 (tl (id_to_hex h)) =
    ((((((?d 28 * 16 + ?d 24) * 16 + ?d 20) * 16 + ?d 16) * 16 + ?d 12) * 16 + ?d 8) * 16 + ?d 4) * 16 + ?d 0"
    unfolding id_to_hex_def up by (simp add: base_digit_upper del: unsigned_and_eq)
  also have "\<dots> = ((((((unat h div 2 ^ 28 mod 16 * 16 + unat h div 2 ^ 24 mod 16) * 16 + unat h div 2 ^ 20 mod 16) * 16
       + unat h div 2 ^ 16 mod 16) * 16 + unat h div 2 ^ 12 mod 16) * 16 + unat h div 2 ^ 8 mod 16) * 16
       + unat h div 2 ^ 4 mod 16) * 16 + unat h mod 16"
    by (simp only: nibble power_0 div_by_1)
  also have "\<dots> = unat h"
  proof -
    let ?q = "\<lambda>k. unat h div 2 ^ k"
    have "?q (4 + k) = ?q k div 16" for k
      unfolding power_add mult.commute [of "2 ^ 4"] div_mult2_eq by simp
    then have join: "?q (4 + k) * 16 + ?q k mod 16 = ?q k" for k by simp
    have "?q 28 < 16" using u32_bound [of h] by (simp add: less_mult_imp_div_less)
    then have "?q 28 mod 16 = ?q 28" by simp
    with join [of 24] join [of 20] join [of 16] join [of 12] join [of 8] join [of 4] join [of 0]
    show ?thesis by simp
  qed
  finally show ?thesis .
qed

text \<open>
  The text forms of a handle are read back. \<open>id_to_hex\<close> (the answer to LAUNCH) and
  \<open>:%x\<close> (the answers to REG, QUERY and MONITOR) are addresses that \<open>tohandle\<close> and
  \<open>skynet_queryname\<close> resolve to the same handle, without touching the node.
\<close>

theorem handle_text_round_trip:
  "tohandle K N c (id_to_hex h) = Some (h, N) \<and> tohandle K N c (CHR '':'' # fmt_x h) = Some (h, N) \<and>
   skynet_queryname K N c (id_to_hex h) = Some (h, N)"
proof -
  have c: "c_hd (id_to_hex h) = CHR '':''" "c_hd (CHR '':'' # s) = CHR '':''" for s
    by (simp_all add: id_to_hex_def c_hd_def)
  have "\<forall>ch\<in>set (tl (id_to_hex h)). base_digit 16 ch \<noteq> None"
  proof -
    have "unat (drop_bit k h AND 0xf) < 16" for k by (simp only: nibble)
    then show ?thesis unfolding id_to_hex_def list.sel set_map by (auto simp only: base_digit_upper option.distinct)
  qed
  then have "strtoul16 (tl (id_to_hex h)) = of_nat (unat h)"
    using u32_bound [of h] by (subst strtoul16_digits) (simp_all add: id_to_hex_read)
  then have "(ucast (strtoul16 (tl (id_to_hex h))) :: u32) = h"
    by (simp only: of_nat_unat) (rule ucast_up_ucast_id, simp add: is_up)
  then show ?thesis by (simp add: tohandle_def skynet_queryname_def c strtoul_fmt_x)
qed


text \<open>
  A positive timeout is one entry in the wheel, at the current tick plus \<open>time\<close>, and sends
  nothing; a timeout of zero or less is answered at once by a response message with the
  session, or by -1 when the service is gone.
\<close>

theorem skynet_timeout_cases:
  assumes ok: "node_ok N ps"
  shows "(0 < time \<longrightarrow> skynet_timeout K N h time ses =
       Some (ses, N\<lparr>n_timer := timer_add (n_timer N) h ses (of_int time)\<rparr>)) \<and>
    (time \<le> 0 \<longrightarrow> (case service N h of
        None \<Rightarrow> skynet_timeout K N h time ses = Some (-1, N)
      | Some c \<Rightarrow> \<exists>N' ps'. skynet_timeout K N h time ses = Some (ses, N') \<and> node_ok N' ps' \<and>
          delivered N c (timer_message ses) N'))"
proof -
  note push = push_to_service [OF ok, where h = h and K = K and msg = "timer_message ses"]
  show ?thesis
  proof (cases "service N h")
    case None
    with push show ?thesis by (simp add: skynet_timeout_def)
  next
    case (Some c)
    with push obtain N' ps' where "skynet_context_push K N h (timer_message ses) = Some (0, N')" "node_ok N' ps'"
      "delivered N c (timer_message ses) N'" by auto
    with Some show ?thesis by (auto simp: skynet_timeout_def)
  qed
qed

theorem skynet_timeout_cases_witness:
  "skynet_timeout demo_hooks demo_node 0x01000003 0 9 = Some (-1, demo_node) \<and>
   (\<exists>N'. skynet_timeout demo_hooks demo_node 0x01000002 0 9 = Some (9, N') \<and> mailbox N' 2 = [timer_message 9])"
proof -
  have "mailbox demo_node 2 = []" by (simp add: mailbox_def queue_of_def mq_contents_new)
  with skynet_timeout_cases [OF demo_ok, of 0 demo_hooks "0x01000003" 9]
    skynet_timeout_cases [OF demo_ok, of 0 demo_hooks "0x01000002" 9]
  show ?thesis by (auto simp: demo_service delivered_def)
qed

text \<open>
  SIGNAL by local name with a signal number never reaches the service. The number is left
  on the parameter, so the name that \<open>tohandle\<close> looks up contains a space and the digits; as
  names with spaces are not registered, the command does nothing. By handle it works, because
  \<open>strtoul\<close> stops at the space.
\<close>

theorem cmd_signal_by_name_lost:
  assumes ok: "names_ok (n_handles N)"
    and names: "\<forall>nm\<in>dom (name_map (n_handles N)). CHR '' '' \<notin> set nm"
  shows "cmd_signal K N c (CHR ''.'' # nm @ CHR '' '' # sig) = Some (None, N)"
proof -
  have "name_map (n_handles N) (nm @ CHR '' '' # sig) = None"
    using names by (auto simp: dom_def)
  with skynet_handle_findname_ok [OF ok, of "nm @ CHR '' '' # sig"]
  have "skynet_handle_findname (n_handles N) (nm @ CHR '' '' # sig) = Some 0" by simp
  then show ?thesis by (simp add: cmd_signal_def tohandle_def c_hd_def)
qed

theorem cmd_signal_by_name_lost_witness:
  "cmd_signal demo_hooks demo_node 2 ''.logger 1'' = Some (None, demo_node) \<and>
   skynet_handle_findname (n_handles demo_node) ''logger'' = Some 0x01000001"
proof -
  have m: "name_map (n_handles demo_node) = [''logger'' \<mapsto> 0x01000001]"
    by (simp add: demo_node_def name_map_def names_def)
  have nok: "names_ok (n_handles demo_node)" using demo_ok by (simp add: node_ok_def)
  from cmd_signal_by_name_lost [OF nok, of demo_hooks 2 "''logger''" "''1''"] m
    skynet_handle_findname_ok [OF nok, of "''logger''"] show ?thesis by (simp add: m)
qed

text \<open>
  SETENV then GETENV gives the value back for a key without a space, and a second SETENV of
  the same key is a failed assertion.
\<close>

theorem setenv_getenv:
  assumes "n_env N key = None" "CHR '' '' \<notin> set key"
  shows "\<exists>N'. cmd_setenv N (key @ CHR '' '' # val) = Some (None, N') \<and> cmd_getenv N' key = Some (Some val, N') \<and>
    (\<forall>k. k \<noteq> key \<longrightarrow> skynet_getenv N' k = skynet_getenv N k) \<and>
    cmd_setenv N' (key @ CHR '' '' # v2) = None"
proof -
  have t: "takeWhile (\<lambda>ch. ch \<noteq> CHR '' '') (key @ CHR '' '' # v) = key"
    "dropWhile (\<lambda>ch. ch \<noteq> CHR '' '') (key @ CHR '' '' # v) = CHR '' '' # v" for v
    using assms(2) by (auto simp: takeWhile_append dropWhile_append)
  show ?thesis using assms(1) by (simp add: cmd_setenv_def t skynet_setenv_def cmd_getenv_def skynet_getenv_def)
qed

theorem setenv_getenv_witness:
  "\<exists>N'. cmd_setenv demo_node ''thread 8'' = Some (None, N') \<and> cmd_getenv N' ''thread'' = Some (Some ''8'', N')"
  using setenv_getenv [of demo_node "''thread''" "''8''"] by (auto simp: demo_node_def)

end
