(* ===== verification/Dispatch.thy ===== *)
theory Dispatch
  imports Message_Queue
begin

text \<open>
  The scheduler as the threads see it: workers, launchers and senders whose critical sections
  interleave in any order. A state has the heap of queues with the global list, the set of
  registered services, the reference count of each and how many of the references are in the
  hands of threads, and the queues each thread has taken and not yet given back; a service is
  named by its queue. The events and their places in the sources:

  \<^item> \<open>Launch\<close>: \<open>skynet_context_new\<close> up to the call of the module's init (registration,
    \<open>skynet_mq_create\<close>); the launcher holds the queue and one reference.
  \<^item> \<open>Take\<close>: a \<open>skynet_globalmq_pop\<close> of \<open>skynet_context_message_dispatch\<close>.
  \<^item> \<open>GiveBack\<close>: a \<open>skynet_globalmq_push\<close> of a queue in hand, by the dispatcher, at the end of
    \<open>skynet_context_new\<close> or in \<open>skynet_mq_release\<close> when the queue is not released.
  \<^item> \<open>Process\<close> and \<open>Empty\<close>: \<open>skynet_mq_pop\<close> of the dispatch loop, with and without a message;
    the worker has a reference (\<open>skynet_handle_grab\<close>).
  \<^item> \<open>Push\<close>: \<open>skynet_mq_push\<close> by a thread with a reference (\<open>skynet_context_push\<close>).
  \<^item> \<open>Grab\<close>: \<open>skynet_handle_grab\<close> of a registered handle.
  \<^item> \<open>Retire\<close>: the locked part of \<open>skynet_handle_retire\<close>, which hands the table's reference over.
  \<^item> \<open>Release\<close>: \<open>skynet_context_release\<close>, with \<open>skynet_mq_mark_release\<close> at the last one.
  \<^item> \<open>Drop\<close>: \<open>skynet_mq_release\<close> of a released queue, up to the error replies.
\<close>

subsection \<open>States and steps\<close>

record 'm system =
  d_gq :: "'m global_queue"
  d_reg :: "qptr set"
  d_ref :: "qptr \<Rightarrow> nat"
  d_users :: "qptr \<Rightarrow> nat"
  d_hold :: "nat \<Rightarrow> qptr list"

definition start_system :: "'m system" where
  "start_system = \<lparr>d_gq = skynet_mq_init, d_reg = {}, d_ref = (\<lambda>_. 0), d_users = (\<lambda>_. 0), d_hold = (\<lambda>_. [])\<rparr>"

datatype 'm event =
    Launch nat qptr u32
  | Take nat
  | GiveBack nat
  | Process nat
  | Empty nat
  | Push qptr 'm
  | Grab qptr
  | Retire qptr
  | Release qptr
  | Drop nat

text \<open>
  The critical section of an event. The outer \<open>None\<close> says that the event cannot happen in
  this state, the inner one that it happens and its section fails.
\<close>

definition done_with :: "'m system \<Rightarrow> 'm global_queue option \<Rightarrow> 'm system option" where
  "done_with s g = map_option (\<lambda>g'. s\<lparr>d_gq := g'\<rparr>) g"

fun fire :: "'m event \<Rightarrow> 'm system \<Rightarrow> 'm system option option" where
  "fire (Launch t p h) s =
     (if queues (d_gq s) p = None
      then Some (Some (s\<lparr>d_gq := skynet_mq_create (d_gq s) p h, d_reg := insert p (d_reg s),
        d_ref := (d_ref s)(p := 2), d_users := (d_users s)(p := 1), d_hold := (d_hold s)(t := p # d_hold s t)\<rparr>))
      else None)"
| "fire (Take t) s =
     Some (case skynet_globalmq_pop (d_gq s) of
        None \<Rightarrow> None
      | Some (None, g) \<Rightarrow> Some (s\<lparr>d_gq := g\<rparr>)
      | Some (Some p, g) \<Rightarrow> Some (s\<lparr>d_gq := g, d_hold := (d_hold s)(t := d_hold s t @ [p])\<rparr>))"
| "fire (GiveBack t) s =
     (case d_hold s t of
        [] \<Rightarrow> None
      | p # ps \<Rightarrow> Some (done_with (s\<lparr>d_hold := (d_hold s)(t := ps)\<rparr>) (skynet_globalmq_push (d_gq s) p)))"
| "fire (Process t) s =
     (case d_hold s t of
        [] \<Rightarrow> None
      | p # ps \<Rightarrow>
          if 0 < d_users s p then
            (case mq_pop_at (d_gq s) p of
               None \<Rightarrow> Some None
             | Some (None, g) \<Rightarrow> None
             | Some (Some m, g) \<Rightarrow> Some (Some (s\<lparr>d_gq := g\<rparr>)))
          else None)"
| "fire (Empty t) s =
     (case d_hold s t of
        [] \<Rightarrow> None
      | p # ps \<Rightarrow>
          if 0 < d_users s p then
            (case mq_pop_at (d_gq s) p of
               None \<Rightarrow> Some None
             | Some (None, g) \<Rightarrow> Some (Some (s\<lparr>d_hold := (d_hold s)(t := ps), d_gq := g\<rparr>))
             | Some (Some m, g) \<Rightarrow> None)
          else None)"
| "fire (Push p m) s =
     (if 0 < d_users s p then Some (done_with s (skynet_mq_push (d_gq s) p m)) else None)"
| "fire (Grab p) s =
     (if p \<in> d_reg s
      then Some (Some (s\<lparr>d_ref := (d_ref s)(p := d_ref s p + 1), d_users := (d_users s)(p := d_users s p + 1)\<rparr>))
      else None)"
| "fire (Retire p) s =
     (if p \<in> d_reg s
      then Some (Some (s\<lparr>d_reg := d_reg s - {p}, d_users := (d_users s)(p := d_users s p + 1)\<rparr>))
      else None)"
| "fire (Release p) s =
     (if 0 < d_users s p then
        (let s1 = s\<lparr>d_ref := (d_ref s)(p := d_ref s p - 1), d_users := (d_users s)(p := d_users s p - 1)\<rparr> in
         if d_ref s1 p = 0 then Some (done_with s1 (skynet_mq_mark_release (d_gq s) p)) else Some (Some s1))
      else None)"
| "fire (Drop t) s =
     (case d_hold s t of
        [] \<Rightarrow> None
      | p # ps \<Rightarrow>
          (case queues (d_gq s) p of
             None \<Rightarrow> Some None
           | Some q \<Rightarrow>
               if q_release q \<noteq> 0
               then Some (done_with (s\<lparr>d_hold := (d_hold s)(t := ps)\<rparr>) (mq_release_mem (d_gq s) p))
               else None))"

inductive step :: "'m system \<Rightarrow> 'm event \<Rightarrow> 'm system \<Rightarrow> bool" where
  step: "fire e s = Some (Some s') \<Longrightarrow> step s e s'"

inductive reachable :: "'m system \<Rightarrow> bool" where
  init: "reachable start_system"
| next_step: "reachable s \<Longrightarrow> step s e s' \<Longrightarrow> reachable s'"

inductive_cases stepE: "step s e s'"
inductive_simps step_iff: "step s e s'"

subsection \<open>The invariant\<close>

definition held :: "'m system \<Rightarrow> qptr \<Rightarrow> bool" where
  "held s p \<longleftrightarrow> (\<exists>t. p \<in> set (d_hold s t))"

text \<open>What a queue's flags say of where it is, given whether it is scheduled and its users.\<close>

definition queue_ok :: "bool \<Rightarrow> nat \<Rightarrow> bool \<Rightarrow> nat \<Rightarrow> 'm message_queue \<Rightarrow> bool" where
  "queue_ok sched ref reg users q \<longleftrightarrow> mq_inv q \<and>
     (q_in_global q = 0 \<and> q_release q = 0 \<longrightarrow> \<not> sched \<and> mq_contents q = []) \<and>
     (q_in_global q \<noteq> 0 \<longrightarrow> sched \<and> q_in_global q = MQ_IN_GLOBAL) \<and>
     (q_release q \<noteq> 0 \<longrightarrow> sched) \<and> (q_release q = 0 \<longleftrightarrow> 0 < ref) \<and>
     ref = (if reg then 1 else 0) + users"

definition cell_ok :: "bool \<Rightarrow> nat \<Rightarrow> bool \<Rightarrow> nat \<Rightarrow> 'm message_queue option \<Rightarrow> bool" where
  "cell_ok sched ref reg users b =
     (case b of Some q \<Rightarrow> queue_ok sched ref reg users q | None \<Rightarrow> users = 0 \<and> \<not> reg)"

definition sys_ok :: "'m system \<Rightarrow> qptr list \<Rightarrow> bool" where
  "sys_ok s ps \<longleftrightarrow> gq_rep (d_gq s) ps \<and>
     (\<forall>t. distinct (d_hold s t) \<and> (\<forall>p\<in>set (d_hold s t). p \<notin> set ps \<and> body_of (d_gq s) p \<noteq> None)) \<and>
     (\<forall>t u. t \<noteq> u \<longrightarrow> set (d_hold s t) \<inter> set (d_hold s u) = {}) \<and>
     (\<forall>p. cell_ok (p \<in> set ps \<or> held s p) (d_ref s p) (p \<in> d_reg s) (d_users s p) (body_of (d_gq s) p))"


lemma body_queues: "body_of g p = None \<longleftrightarrow> queues g p = None"
  by (simp add: body_of_def)

lemma queue_ok_next [simp]: "queue_ok sc rf rg us (q\<lparr>q_next := x\<rparr>) = queue_ok sc rf rg us q"
  by (simp add: queue_ok_def)

text \<open>The rule the preservation proofs share: one queue changes hands, the others do not.\<close>

lemma sys_okI:
  assumes ok: "sys_ok s ps" and rep: "gq_rep (d_gq s') ps'"
    and hold: "\<And>t. distinct (d_hold s' t)" "\<And>t p. p \<in> set (d_hold s' t) \<Longrightarrow> p \<notin> set ps' \<and> body_of (d_gq s') p \<noteq> None"
      "\<And>t u. t \<noteq> u \<Longrightarrow> set (d_hold s' t) \<inter> set (d_hold s' u) = {}"
    and other: "\<And>r. r \<noteq> p \<Longrightarrow> body_of (d_gq s') r = body_of (d_gq s) r \<and> d_ref s' r = d_ref s r \<and>
      (r \<in> d_reg s' \<longleftrightarrow> r \<in> d_reg s) \<and> d_users s' r = d_users s r \<and>
      (r \<in> set ps' \<or> held s' r \<longleftrightarrow> r \<in> set ps \<or> held s r)"
    and this: "cell_ok (p \<in> set ps' \<or> held s' p) (d_ref s' p) (p \<in> d_reg s') (d_users s' p) (body_of (d_gq s') p)"
  shows "sys_ok s' ps'"
proof -
  have "cell_ok (r \<in> set ps' \<or> held s' r) (d_ref s' r) (r \<in> d_reg s') (d_users s' r) (body_of (d_gq s') r)" for r
  proof (cases "r = p")
    case False
    note o = other [OF False]
    have "cell_ok (r \<in> set ps \<or> held s r) (d_ref s r) (r \<in> d_reg s) (d_users s r) (body_of (d_gq s) r)"
      using ok unfolding sys_ok_def by blast
    with o show ?thesis by (elim conjE) (simp only:)
  qed (use assms(7) in simp)
  with rep hold show ?thesis by (auto simp: sys_ok_def)
qed

lemma held_upd: "held (s\<lparr>d_hold := (d_hold s)(t := xs)\<rparr>) p \<longleftrightarrow> p \<in> set xs \<or> (\<exists>u. u \<noteq> t \<and> p \<in> set (d_hold s u))"
  by (auto simp: held_def)

lemma held_cong: "d_hold s' = d_hold s \<Longrightarrow> held s' = held s"
  by (simp add: held_def fun_eq_iff)

lemma sys_okD:
  assumes "sys_ok s ps"
  shows "gq_rep (d_gq s) ps" "distinct (d_hold s t)" "p \<in> set (d_hold s t) \<Longrightarrow> p \<notin> set ps"
    "p \<in> set (d_hold s t) \<Longrightarrow> \<exists>q. queues (d_gq s) p = Some q"
    "t \<noteq> u \<Longrightarrow> set (d_hold s t) \<inter> set (d_hold s u) = {}"
    "queues (d_gq s) p = Some q \<Longrightarrow> queue_ok (p \<in> set ps \<or> held s p) (d_ref s p) (p \<in> d_reg s) (d_users s p) q"
    "0 < d_users s p \<or> p \<in> d_reg s \<Longrightarrow> \<exists>q. queues (d_gq s) p = Some q"
proof -
  have b: "cell_ok (p \<in> set ps \<or> held s p) (d_ref s p) (p \<in> d_reg s) (d_users s p) (body_of (d_gq s) p)"
    using assms unfolding sys_ok_def by blast
  show "gq_rep (d_gq s) ps" "distinct (d_hold s t)" "p \<in> set (d_hold s t) \<Longrightarrow> p \<notin> set ps"
    "t \<noteq> u \<Longrightarrow> set (d_hold s t) \<inter> set (d_hold s u) = {}"
    using assms unfolding sys_ok_def by blast+
  show "p \<in> set (d_hold s t) \<Longrightarrow> \<exists>q. queues (d_gq s) p = Some q"
    using assms unfolding sys_ok_def body_queues by (metis not_None_eq)
  show "queues (d_gq s) p = Some q \<Longrightarrow> queue_ok (p \<in> set ps \<or> held s p) (d_ref s p) (p \<in> d_reg s) (d_users s p) q"
    using b by (simp add: body_of_def cell_ok_def)
  show "0 < d_users s p \<or> p \<in> d_reg s \<Longrightarrow> \<exists>q. queues (d_gq s) p = Some q"
    using b by (cases "queues (d_gq s) p") (auto simp: body_of_def cell_ok_def)
qed

lemma listed_in_heap: "sys_ok s ps \<Longrightarrow> p \<in> set ps \<Longrightarrow> \<exists>q. queues (d_gq s) p = Some q"
  using sys_okD(1) [of s ps] chain_in_heap [of "d_gq s" ps p] by (auto simp: gq_rep_def)

lemma sys_ok_start: "sys_ok start_system []"
  using gq_rep_init by (auto simp: sys_ok_def start_system_def body_of_def skynet_mq_init_def cell_ok_def)

subsection \<open>Every event keeps the invariant\<close>

definition safe :: "'m event \<Rightarrow> 'm system \<Rightarrow> bool" where
  "safe e s \<longleftrightarrow> (\<forall>r. fire e s = Some r \<longrightarrow> (\<exists>s' ps'. r = Some s' \<and> sys_ok s' ps'))"

lemma gq_rep_create:
  assumes rep: "gq_rep g ps" and new: "queues g p = None"
  shows "gq_rep (skynet_mq_create g p h) ps"
proof -
  have p: "p \<notin> set ps" using rep new chain_in_heap [of g ps p] by (auto simp: gq_rep_def)
  have n: "next_of (skynet_mq_create g p h) = (next_of g)(p := Some None)"
    by (auto simp: next_of_def skynet_mq_create_def mq_new_def)
  have "chain (skynet_mq_create g p h) ps = chain g ps"
    by (rule chain_cong) (use p in \<open>auto simp: n\<close>)
  moreover have "ghead (skynet_mq_create g p h) = ghead g" "gtail (skynet_mq_create g p h) = gtail g"
    by (simp_all add: skynet_mq_create_def)
  ultimately show ?thesis using rep p by (auto simp: gq_rep_def n)
qed

lemma launch_safe:
  assumes ok: "sys_ok s ps"
  shows "safe (Launch t p h) s"
proof (cases "queues (d_gq s) p = None")
  case False
  then show ?thesis by (auto simp: safe_def)
next
  case True
  note D = sys_okD [OF ok]
  let ?s = "s\<lparr>d_gq := skynet_mq_create (d_gq s) p h, d_reg := insert p (d_reg s),
        d_ref := (d_ref s)(p := 2), d_users := (d_users s)(p := 1), d_hold := (d_hold s)(t := p # d_hold s t)\<rparr>"
  have p: "p \<notin> set ps" "p \<notin> set (d_hold s u)" for u
    using True listed_in_heap [OF ok, of p] D(4) [of p u] by auto
  have body: "body_of (d_gq ?s) = (body_of (d_gq s))(p \<mapsto> mq_new h)"
    by (auto simp: skynet_mq_create_def body_of_def mq_new_def)
  have held': "held ?s r \<longleftrightarrow> r = p \<or> held s r" for r by (auto simp: held_def)
  have "sys_ok ?s ps"
  proof (rule sys_okI [OF ok, where p = p])
    show "gq_rep (d_gq ?s) ps" using gq_rep_create [OF D(1) True] by simp
    fix u v r
    show "distinct (d_hold ?s u)" using D(2) p by simp
    show "r \<in> set (d_hold ?s u) \<Longrightarrow> r \<notin> set ps \<and> body_of (d_gq ?s) r \<noteq> None"
      using D(3,4) p unfolding body by (auto simp: body_of_def split: if_splits)
    show "u \<noteq> v \<Longrightarrow> set (d_hold ?s u) \<inter> set (d_hold ?s v) = {}"
      using D(5) [of u v] p by auto
    show "r \<noteq> p \<Longrightarrow> body_of (d_gq ?s) r = body_of (d_gq s) r \<and> d_ref ?s r = d_ref s r \<and>
      (r \<in> d_reg ?s \<longleftrightarrow> r \<in> d_reg s) \<and> d_users ?s r = d_users s r \<and>
      (r \<in> set ps \<or> held ?s r \<longleftrightarrow> r \<in> set ps \<or> held s r)"
      unfolding body held' by simp
    have "queue_ok True 2 True 1 (mq_new h)"
      using mq_inv_new by (simp add: queue_ok_def mq_contents_new) (simp add: mq_new_def MQ_IN_GLOBAL_def)
    then show "cell_ok (p \<in> set ps \<or> held ?s p) (d_ref ?s p) (p \<in> d_reg ?s) (d_users ?s p) (body_of (d_gq ?s) p)"
      unfolding body held' by (simp add: cell_ok_def)
  qed
  with True show ?thesis by (auto simp: safe_def)
qed


lemma take_safe:
  assumes ok: "sys_ok s ps"
  shows "safe (Take t) s"
proof (cases ps)
  case Nil
  with ok sys_okD(1) [OF ok] show ?thesis
    by (auto simp: safe_def skynet_globalmq_pop_Nil)
next
  case (Cons p rest)
  note D = sys_okD [OF ok]
  obtain g where g: "skynet_globalmq_pop (d_gq s) = Some (Some p, g)" "gq_rep g rest" "body_of g = body_of (d_gq s)"
    using skynet_globalmq_pop_Cons [of "d_gq s" p rest] D(1) Cons by blast
  let ?s = "s\<lparr>d_gq := g, d_hold := (d_hold s)(t := d_hold s t @ [p])\<rparr>"
  have ds: "p \<notin> set rest" "distinct rest" using D(1) Cons by (auto simp: gq_rep_def)
  have new: "p \<notin> set (d_hold s u)" for u using D(3) [of p u] Cons by auto
  have held': "held ?s r \<longleftrightarrow> r = p \<or> held s r" for r by (auto simp: held_def)
  obtain q where q: "queues (d_gq s) p = Some q" using listed_in_heap [OF ok, of p] Cons by auto
  have "sys_ok ?s rest"
  proof (rule sys_okI [OF ok, where p = p])
    show "gq_rep (d_gq ?s) rest" using g(2) by simp
    fix u v r
    show "distinct (d_hold ?s u)" using D(2) new by simp
    show "r \<in> set (d_hold ?s u) \<Longrightarrow> r \<notin> set rest \<and> body_of (d_gq ?s) r \<noteq> None"
      using D(3,4) new ds Cons q by (auto simp: g(3) body_queues split: if_splits)
    show "u \<noteq> v \<Longrightarrow> set (d_hold ?s u) \<inter> set (d_hold ?s v) = {}"
      using D(5) [of u v] new by auto
    show "r \<noteq> p \<Longrightarrow> body_of (d_gq ?s) r = body_of (d_gq s) r \<and> d_ref ?s r = d_ref s r \<and>
      (r \<in> d_reg ?s \<longleftrightarrow> r \<in> d_reg s) \<and> d_users ?s r = d_users s r \<and>
      (r \<in> set rest \<or> held ?s r \<longleftrightarrow> r \<in> set ps \<or> held s r)"
      unfolding held' using Cons by (simp add: g(3))
    show "cell_ok (p \<in> set rest \<or> held ?s p) (d_ref ?s p) (p \<in> d_reg ?s) (d_users ?s p) (body_of (d_gq ?s) p)"
      using D(6) [OF q] Cons unfolding held' by (simp add: cell_ok_def g(3) body_of_def q)
  qed
  with g(1) show ?thesis by (auto simp: safe_def)
qed

lemma held_first:
  assumes ok: "sys_ok s ps" and h: "d_hold s t = p # hs"
  shows "p \<notin> set ps" "p \<notin> set hs" "u \<noteq> t \<Longrightarrow> p \<notin> set (d_hold s u)"
    "\<exists>q. queues (d_gq s) p = Some q \<and> queue_ok True (d_ref s p) (p \<in> d_reg s) (d_users s p) q"
    "distinct hs" "held s p"
proof -
  note D = sys_okD [OF ok]
  show "p \<notin> set ps" using D(3) [of p t] h by simp
  show "p \<notin> set hs" "distinct hs" using D(2) [of t] h by simp_all
  show "u \<noteq> t \<Longrightarrow> p \<notin> set (d_hold s u)" using D(5) [of u t] h by auto
  show held: "held s p" using h by (auto simp: held_def intro: exI [of _ t])
  obtain q where "queues (d_gq s) p = Some q" using D(4) [of p t] h by auto
  with D(6) held show "\<exists>q. queues (d_gq s) p = Some q \<and> queue_ok True (d_ref s p) (p \<in> d_reg s) (d_users s p) q"
    by fastforce
qed

lemma held_drop:
  assumes h: "d_hold s t = p # hs" and r: "r \<noteq> p" and s': "d_hold s' = (d_hold s)(t := hs)"
  shows "held s' r \<longleftrightarrow> held s r"
proof -
  have "r \<in> set (d_hold s' u) \<longleftrightarrow> r \<in> set (d_hold s u)" for u using h r s' by simp
  then show ?thesis by (simp add: held_def)
qed

lemma give_back_safe:
  assumes ok: "sys_ok s ps"
  shows "safe (GiveBack t) s"
proof (cases "d_hold s t")
  case Nil
  then show ?thesis by (simp add: safe_def)
next
  case (Cons p hs)
  note D = sys_okD [OF ok] and F = held_first [OF ok Cons]
  obtain q where q: "queues (d_gq s) p = Some q" "queue_ok True (d_ref s p) (p \<in> d_reg s) (d_users s p) q"
    using F(4) by blast
  obtain g where g: "skynet_globalmq_push (d_gq s) p = Some g" "gq_rep g (ps @ [p])" "body_of g = body_of (d_gq s)"
    using skynet_globalmq_push_ok [OF D(1) q(1) F(1)] by blast
  let ?s = "s\<lparr>d_hold := (d_hold s)(t := hs), d_gq := g\<rparr>"
  have "sys_ok ?s (ps @ [p])"
  proof (rule sys_okI [OF ok, where p = p])
    show "gq_rep (d_gq ?s) (ps @ [p])" using g(2) by simp
    fix u v r
    show "distinct (d_hold ?s u)" using D(2) F(5) by simp
    show "r \<in> set (d_hold ?s u) \<Longrightarrow> r \<notin> set (ps @ [p]) \<and> body_of (d_gq ?s) r \<noteq> None"
      using D(3,4) [of r t] D(3,4) [of r u] F(2) F(3) [of u] Cons by (auto simp: g(3) body_queues split: if_splits)
    show "u \<noteq> v \<Longrightarrow> set (d_hold ?s u) \<inter> set (d_hold ?s v) = {}"
      using D(5) [of u v] Cons by auto
    show "r \<noteq> p \<Longrightarrow> body_of (d_gq ?s) r = body_of (d_gq s) r \<and> d_ref ?s r = d_ref s r \<and>
      (r \<in> d_reg ?s \<longleftrightarrow> r \<in> d_reg s) \<and> d_users ?s r = d_users s r \<and>
      (r \<in> set (ps @ [p]) \<or> held ?s r \<longleftrightarrow> r \<in> set ps \<or> held s r)"
      using held_drop [OF Cons, of r ?s] by (simp add: g(3))
    show "cell_ok (p \<in> set (ps @ [p]) \<or> held ?s p) (d_ref ?s p) (p \<in> d_reg ?s) (d_users ?s p) (body_of (d_gq ?s) p)"
      using q by (simp add: cell_ok_def g(3) body_of_def)
  qed
  with g(1) Cons show ?thesis by (auto simp: safe_def done_with_def)
qed


text \<open>Popping from the queue in hand.\<close>

lemma pop_at_body:
  assumes q: "queues g p = Some q" and rep: "gq_rep g ps" and inv: "mq_inv q"
  shows "\<exists>r g' q'. mq_pop_at g p = Some (r, g') \<and> skynet_mq_pop q = Some (r, q') \<and> gq_rep g' ps \<and>
    body_of g' = (body_of g)(p \<mapsto> q'\<lparr>q_next := None\<rparr>)"
proof -
  obtain r q' where pop: "skynet_mq_pop q = Some (r, q')" "q_next q' = q_next q"
  proof (cases "mq_contents q")
    case Nil
    from skynet_mq_pop_empty [OF inv Nil] that show ?thesis by simp
  next
    case (Cons m ms)
    from skynet_mq_pop_cons [OF inv Cons] that show ?thesis by blast
  qed
  have "gq_rep (g\<lparr>queues := (queues g)(p \<mapsto> q')\<rparr>) ps"
    by (rule gq_rep_update [OF rep q]) (fact pop(2))
  with q pop(1) show ?thesis by (simp add: mq_pop_at_def)
qed

text \<open>Changing only the queue in hand, with the same ownership.\<close>

lemma sys_ok_body:
  assumes ok: "sys_ok s ps" and q: "queues (d_gq s) p = Some q" and rep: "gq_rep g ps"
    and body: "body_of g = (body_of (d_gq s))(p \<mapsto> q')"
    and qok: "queue_ok (p \<in> set ps \<or> held s p) (d_ref s p) (p \<in> d_reg s) (d_users s p) q'"
  shows "sys_ok (s\<lparr>d_gq := g\<rparr>) ps"
proof (rule sys_okI [OF ok, where p = p])
  note D = sys_okD [OF ok]
  show "gq_rep (d_gq (s\<lparr>d_gq := g\<rparr>)) ps" using rep by simp
  fix u v r
  show "distinct (d_hold (s\<lparr>d_gq := g\<rparr>) u)" using D(2) by simp
  show "r \<in> set (d_hold (s\<lparr>d_gq := g\<rparr>) u) \<Longrightarrow> r \<notin> set ps \<and> body_of (d_gq (s\<lparr>d_gq := g\<rparr>)) r \<noteq> None"
    using D(3,4) by (auto simp: body body_of_def)
  show "u \<noteq> v \<Longrightarrow> set (d_hold (s\<lparr>d_gq := g\<rparr>) u) \<inter> set (d_hold (s\<lparr>d_gq := g\<rparr>) v) = {}"
    using D(5) by simp
  have h: "held (s\<lparr>d_gq := g\<rparr>) = held s" by (rule held_cong) simp
  show "r \<noteq> p \<Longrightarrow> body_of (d_gq (s\<lparr>d_gq := g\<rparr>)) r = body_of (d_gq s) r \<and> d_ref (s\<lparr>d_gq := g\<rparr>) r = d_ref s r \<and>
      (r \<in> d_reg (s\<lparr>d_gq := g\<rparr>) \<longleftrightarrow> r \<in> d_reg s) \<and> d_users (s\<lparr>d_gq := g\<rparr>) r = d_users s r \<and>
      (r \<in> set ps \<or> held (s\<lparr>d_gq := g\<rparr>) r \<longleftrightarrow> r \<in> set ps \<or> held s r)"
    by (simp add: body h)
  show "cell_ok (p \<in> set ps \<or> held (s\<lparr>d_gq := g\<rparr>) p) (d_ref (s\<lparr>d_gq := g\<rparr>) p) (p \<in> d_reg (s\<lparr>d_gq := g\<rparr>))
      (d_users (s\<lparr>d_gq := g\<rparr>) p) (body_of (d_gq (s\<lparr>d_gq := g\<rparr>)) p)"
    using qok by (simp add: body h cell_ok_def)
qed

lemma process_safe:
  assumes ok: "sys_ok s ps"
  shows "safe (Process t) s"
proof (cases "d_hold s t")
  case Nil
  then show ?thesis by (simp add: safe_def)
next
  case (Cons p hs)
  note D = sys_okD [OF ok] and F = held_first [OF ok Cons]
  obtain q where q: "queues (d_gq s) p = Some q" "queue_ok True (d_ref s p) (p \<in> d_reg s) (d_users s p) q"
    using F(4) by blast
  have inv: "mq_inv q" using q(2) by (simp add: queue_ok_def)
  obtain r g q' where pop: "mq_pop_at (d_gq s) p = Some (r, g)" "skynet_mq_pop q = Some (r, q')" "gq_rep g ps"
    "body_of g = (body_of (d_gq s))(p \<mapsto> q'\<lparr>q_next := None\<rparr>)"
    using pop_at_body [OF q(1) D(1) inv] by blast
  show ?thesis
  proof (cases r)
    case None
    with pop(1) Cons show ?thesis by (simp add: safe_def)
  next
    case (Some m)
    then obtain ms where c: "mq_contents q = m # ms"
      using pop(2) skynet_mq_pop_empty [OF inv] skynet_mq_pop_cons [OF inv] by (cases "mq_contents q") auto
    have "mq_inv q' \<and> q_in_global q' = q_in_global q \<and> q_release q' = q_release q"
      using skynet_mq_pop_cons [OF inv c] pop(2) by auto
    moreover have "q_in_global q \<noteq> 0 \<or> q_release q \<noteq> 0" using q(2) by (auto simp: queue_ok_def)
    ultimately have "queue_ok True (d_ref s p) (p \<in> d_reg s) (d_users s p) q'"
      using q(2) by (auto simp: queue_ok_def)
    then have "sys_ok (s\<lparr>d_gq := g\<rparr>) ps"
      using F(6) by (intro sys_ok_body [OF ok q(1) pop(3,4)]) simp
    with pop(1) Some Cons show ?thesis by (auto simp: safe_def)
  qed
qed


text \<open>Letting go of the queue in hand, whatever becomes of it.\<close>

lemma sys_ok_let_go:
  assumes ok: "sys_ok s ps" and h: "d_hold s t = p # hs" and rep: "gq_rep g ps"
    and body: "body_of g = (body_of (d_gq s))(p := b)"
    and cell: "cell_ok False (d_ref s p) (p \<in> d_reg s) (d_users s p) b"
  shows "sys_ok (s\<lparr>d_hold := (d_hold s)(t := hs), d_gq := g\<rparr>) ps" (is "sys_ok ?s ps")
proof (rule sys_okI [OF ok, where p = p])
  note D = sys_okD [OF ok] and F = held_first [OF ok h]
  show "gq_rep (d_gq ?s) ps" using rep by simp
  fix u v r
  show "distinct (d_hold ?s u)" using D(2) F(5) by simp
  show "r \<in> set (d_hold ?s u) \<Longrightarrow> r \<notin> set ps \<and> body_of (d_gq ?s) r \<noteq> None"
    using D(3,4) [of r t] D(3,4) [of r u] F(2) F(3) [of u] h by (auto simp: body body_of_def split: if_splits)
  show "u \<noteq> v \<Longrightarrow> set (d_hold ?s u) \<inter> set (d_hold ?s v) = {}" using D(5) [of u v] h by auto
  show "r \<noteq> p \<Longrightarrow> body_of (d_gq ?s) r = body_of (d_gq s) r \<and> d_ref ?s r = d_ref s r \<and>
      (r \<in> d_reg ?s \<longleftrightarrow> r \<in> d_reg s) \<and> d_users ?s r = d_users s r \<and>
      (r \<in> set ps \<or> held ?s r \<longleftrightarrow> r \<in> set ps \<or> held s r)"
    using held_drop [OF h, of r ?s] by (simp add: body)
  have "\<not> held ?s p" using F(2) F(3) by (auto simp: held_def)
  with cell F(1) show "cell_ok (p \<in> set ps \<or> held ?s p) (d_ref ?s p) (p \<in> d_reg ?s) (d_users ?s p) (body_of (d_gq ?s) p)"
    by (simp add: body)
qed

lemma empty_safe:
  assumes ok: "sys_ok s ps"
  shows "safe (Empty t) s"
proof (cases "d_hold s t")
  case Nil
  then show ?thesis by (simp add: safe_def)
next
  case (Cons p hs)
  note D = sys_okD [OF ok] and F = held_first [OF ok Cons]
  obtain q where q: "queues (d_gq s) p = Some q" "queue_ok True (d_ref s p) (p \<in> d_reg s) (d_users s p) q"
    using F(4) by blast
  have inv: "mq_inv q" using q(2) by (simp add: queue_ok_def)
  obtain r g q' where pop: "mq_pop_at (d_gq s) p = Some (r, g)" "skynet_mq_pop q = Some (r, q')" "gq_rep g ps"
    "body_of g = (body_of (d_gq s))(p \<mapsto> q'\<lparr>q_next := None\<rparr>)"
    using pop_at_body [OF q(1) D(1) inv] by blast
  show ?thesis
  proof (cases "r = None \<and> 0 < d_users s p")
    case False
    with pop(1) Cons show ?thesis by (cases r) (auto simp: safe_def)
  next
    case True
    then have c: "mq_contents q = []"
      using pop(2) skynet_mq_pop_cons [OF inv] by (cases "mq_contents q") fastforce+
    have q': "q' = q\<lparr>q_threshold := MQ_OVERLOAD, q_in_global := 0\<rparr>"
      using skynet_mq_pop_empty [OF inv c] pop(2) True by simp
    have "q_release q = 0" using True q(2) by (auto simp: queue_ok_def)
    then have "queue_ok False (d_ref s p) (p \<in> d_reg s) (d_users s p) q'"
      using q(2) c inv True by (simp add: queue_ok_def q' mq_inv_threshold MQ_OVERLOAD_def)
    then have "sys_ok (s\<lparr>d_hold := (d_hold s)(t := hs), d_gq := g\<rparr>) ps"
      by (intro sys_ok_let_go [OF ok Cons pop(3,4)]) (simp add: cell_ok_def)
    with pop(1) True Cons show ?thesis by (auto simp: safe_def)
  qed
qed

lemma push_safe:
  assumes ok: "sys_ok s ps"
  shows "safe (Push p m) s"
proof (cases "0 < d_users s p")
  case False
  then show ?thesis by (simp add: safe_def)
next
  case True
  note D = sys_okD [OF ok]
  obtain q where q: "queues (d_gq s) p = Some q" using D(7) [of p] True by blast
  note Q = D(6) [OF q]
  have inv: "mq_inv q" and rel: "q_release q = 0" using Q True by (auto simp: queue_ok_def)
  have free: "q_in_global q = 0 \<Longrightarrow> p \<notin> set ps" using Q rel by (auto simp: queue_ok_def)
  obtain g q' where push: "skynet_mq_push (d_gq s) p m = Some g" "mq_store q m = Some q'"
    "gq_rep g (if q_in_global q = 0 then ps @ [p] else ps)"
    "body_of g = (body_of (d_gq s))(p \<mapsto>
      q'\<lparr>q_in_global := (if q_in_global q = 0 then MQ_IN_GLOBAL else q_in_global q), q_next := None\<rparr>)"
    using skynet_mq_push_eq [OF D(1) q inv free] by blast
  have st: "mq_inv q'" "q_release q' = 0" using mq_store_ok [OF inv, of m] mq_store_frame [OF push(2)] push(2) rel by auto
  show ?thesis
  proof (cases "q_in_global q = 0")
    case False
    have "queue_ok (p \<in> set ps \<or> held s p) (d_ref s p) (p \<in> d_reg s) (d_users s p)
        (q'\<lparr>q_in_global := q_in_global q, q_next := None\<rparr>)"
      using Q st rel False True by (auto simp: queue_ok_def)
    then have "sys_ok (s\<lparr>d_gq := g\<rparr>) ps"
      by (rule sys_ok_body [OF ok q, rotated 2]) (use push(3,4) False in simp_all)
    with push(1) True show ?thesis by (auto simp: safe_def done_with_def)
  next
    case idle: True
    let ?s = "s\<lparr>d_gq := g\<rparr>"
    have not_held: "\<not> held s p" "p \<notin> set ps" using Q rel idle by (auto simp: queue_ok_def)
    have h: "held ?s = held s" by (rule held_cong) simp
    have "sys_ok ?s (ps @ [p])"
    proof (rule sys_okI [OF ok, where p = p])
      show "gq_rep (d_gq ?s) (ps @ [p])" using push(3) idle by simp
      fix u v r
      show "distinct (d_hold ?s u)" using D(2) by simp
      show "r \<in> set (d_hold ?s u) \<Longrightarrow> r \<notin> set (ps @ [p]) \<and> body_of (d_gq ?s) r \<noteq> None"
        using D(3,4) [of r u] not_held by (auto simp: push(4) body_of_def held_def)
      show "u \<noteq> v \<Longrightarrow> set (d_hold ?s u) \<inter> set (d_hold ?s v) = {}" using D(5) by simp
      show "r \<noteq> p \<Longrightarrow> body_of (d_gq ?s) r = body_of (d_gq s) r \<and> d_ref ?s r = d_ref s r \<and>
        (r \<in> d_reg ?s \<longleftrightarrow> r \<in> d_reg s) \<and> d_users ?s r = d_users s r \<and>
        (r \<in> set (ps @ [p]) \<or> held ?s r \<longleftrightarrow> r \<in> set ps \<or> held s r)"
        by (simp add: push(4) h)
      show "cell_ok (p \<in> set (ps @ [p]) \<or> held ?s p) (d_ref ?s p) (p \<in> d_reg ?s) (d_users ?s p) (body_of (d_gq ?s) p)"
        using Q st rel idle True by (simp add: push(4) cell_ok_def queue_ok_def MQ_IN_GLOBAL_def)
    qed
    with push(1) True show ?thesis by (auto simp: safe_def done_with_def)
  qed
qed

text \<open>Events that only move references.\<close>

lemma sys_ok_refs:
  assumes ok: "sys_ok s ps" and s': "d_gq s' = d_gq s" "d_hold s' = d_hold s"
    and other: "\<And>r. r \<noteq> p \<Longrightarrow> d_ref s' r = d_ref s r \<and> (r \<in> d_reg s' \<longleftrightarrow> r \<in> d_reg s) \<and> d_users s' r = d_users s r"
    and cell: "cell_ok (p \<in> set ps \<or> held s p) (d_ref s' p) (p \<in> d_reg s') (d_users s' p) (body_of (d_gq s) p)"
  shows "sys_ok s' ps"
proof (rule sys_okI [OF ok, where p = p])
  note D = sys_okD [OF ok]
  have h: "held s' = held s" by (rule held_cong) (fact s'(2))
  show "gq_rep (d_gq s') ps" using D(1) s' by simp
  fix u v r
  show "distinct (d_hold s' u)" using D(2) s' by simp
  show "r \<in> set (d_hold s' u) \<Longrightarrow> r \<notin> set ps \<and> body_of (d_gq s') r \<noteq> None"
    using D(3,4) s' by (auto simp: body_of_def)
  show "u \<noteq> v \<Longrightarrow> set (d_hold s' u) \<inter> set (d_hold s' v) = {}" using D(5) s' by simp
  show "r \<noteq> p \<Longrightarrow> body_of (d_gq s') r = body_of (d_gq s) r \<and> d_ref s' r = d_ref s r \<and>
      (r \<in> d_reg s' \<longleftrightarrow> r \<in> d_reg s) \<and> d_users s' r = d_users s r \<and>
      (r \<in> set ps \<or> held s' r \<longleftrightarrow> r \<in> set ps \<or> held s r)"
    using other s' h by simp
  show "cell_ok (p \<in> set ps \<or> held s' p) (d_ref s' p) (p \<in> d_reg s') (d_users s' p) (body_of (d_gq s') p)"
    using cell s' h by simp
qed

lemma cell_at: "sys_ok s ps \<Longrightarrow> cell_ok (p \<in> set ps \<or> held s p) (d_ref s p) (p \<in> d_reg s) (d_users s p) (body_of (d_gq s) p)"
  by (simp add: sys_ok_def)

lemma grab_safe: assumes ok: "sys_ok s ps" shows "safe (Grab p) s"
proof -
  have "sys_ok (s\<lparr>d_ref := (d_ref s)(p := d_ref s p + 1), d_users := (d_users s)(p := d_users s p + 1)\<rparr>) ps"
    if "p \<in> d_reg s"
    using that cell_at [OF ok, of p]
    by (intro sys_ok_refs [OF ok, where p = p]) (auto simp: cell_ok_def queue_ok_def split: option.splits)
  then show ?thesis by (auto simp: safe_def)
qed

lemma retire_safe: assumes ok: "sys_ok s ps" shows "safe (Retire p) s"
proof -
  have "sys_ok (s\<lparr>d_reg := d_reg s - {p}, d_users := (d_users s)(p := d_users s p + 1)\<rparr>) ps" if "p \<in> d_reg s"
    using that cell_at [OF ok, of p]
    by (intro sys_ok_refs [OF ok, where p = p]) (auto simp: cell_ok_def queue_ok_def split: option.splits)
  then show ?thesis by (auto simp: safe_def)
qed


lemma next_free:
  assumes rep: "gq_rep g ps" and p: "p \<notin> set ps"
  shows "gq_rep (g\<lparr>queues := (queues g)(p := None)\<rparr>) ps"
proof -
  have n: "next_of (g\<lparr>queues := (queues g)(p := None)\<rparr>) = (next_of g)(p := None)"
    by (auto simp: next_of_def)
  have "chain (g\<lparr>queues := (queues g)(p := None)\<rparr>) ps = chain g ps"
    by (rule chain_cong) (use p in \<open>auto simp: n\<close>)
  with rep show ?thesis by (auto simp: gq_rep_def n)
qed

lemma drop_safe:
  assumes ok: "sys_ok s ps"
  shows "safe (Drop t) s"
proof (cases "d_hold s t")
  case Nil
  then show ?thesis by (simp add: safe_def)
next
  case (Cons p hs)
  note D = sys_okD [OF ok] and F = held_first [OF ok Cons]
  obtain q where q: "queues (d_gq s) p = Some q" "queue_ok True (d_ref s p) (p \<in> d_reg s) (d_users s p) q"
    using F(4) by blast
  show ?thesis
  proof (cases "q_release q = 0")
    case True
    with q Cons show ?thesis by (simp add: safe_def)
  next
    case False
    let ?g = "d_gq s\<lparr>queues := (queues (d_gq s))(p := None)\<rparr>"
    have free: "mq_release_mem (d_gq s) p = Some ?g"
      using q(1) gq_rep_next_free [OF D(1) q(1) F(1)] by (simp add: mq_release_mem_def)
    have "d_users s p = 0 \<and> p \<notin> d_reg s" using q(2) False by (auto simp: queue_ok_def split: if_splits)
    then have "sys_ok (s\<lparr>d_hold := (d_hold s)(t := hs), d_gq := ?g\<rparr>) ps"
      by (intro sys_ok_let_go [OF ok Cons next_free [OF D(1) F(1)], where b = None]) (auto simp: body_of_def cell_ok_def)
    with q False Cons free show ?thesis by (auto simp: safe_def done_with_def)
  qed
qed

lemma release_safe:
  assumes ok: "sys_ok s ps"
  shows "safe (Release p) s"
proof (cases "0 < d_users s p")
  case False
  then show ?thesis by (simp add: safe_def)
next
  case True
  note D = sys_okD [OF ok]
  obtain q where q: "queues (d_gq s) p = Some q" using D(7) [of p] True by blast
  note Q = D(6) [OF q]
  let ?s = "s\<lparr>d_ref := (d_ref s)(p := d_ref s p - 1), d_users := (d_users s)(p := d_users s p - 1)\<rparr>"
  have inv: "mq_inv q" and rel: "q_release q = 0"
    and sum: "d_ref s p = (if p \<in> d_reg s then 1 else 0) + d_users s p"
    using Q True by (auto simp: queue_ok_def)
  show ?thesis
  proof (cases "d_ref s p - 1 = 0")
    case False
    have "sys_ok ?s ps"
      using False True Q q by (intro sys_ok_refs [OF ok, where p = p])
        (auto simp: cell_ok_def queue_ok_def body_of_def)
    with True False show ?thesis by (auto simp: safe_def)
  next
    case zero: True
    have last: "d_users s p = 1" "p \<notin> d_reg s" "d_ref s p = 1" using zero True sum by (auto split: if_splits)
    let ?q = "q\<lparr>q_release := 1\<rparr>"
    let ?g1 = "d_gq s\<lparr>queues := (queues (d_gq s))(p \<mapsto> ?q)\<rparr>"
    let ?ps = "if q_in_global q = 0 then ps @ [p] else ps"
    have rep1: "gq_rep ?g1 ps" by (rule gq_rep_update [OF D(1) q]) simp
    have nin: "q_in_global q = 0 \<Longrightarrow> p \<notin> set ps \<and> \<not> held s p" using Q rel by (auto simp: queue_ok_def)
    have one: "q_in_global q \<noteq> 0 \<Longrightarrow> q_in_global q = MQ_IN_GLOBAL" using Q by (simp add: queue_ok_def)
    obtain g where g: "skynet_mq_mark_release (d_gq s) p = Some g" "gq_rep g ?ps"
      "body_of g = (body_of (d_gq s))(p \<mapsto> ?q\<lparr>q_next := None\<rparr>)"
    proof (cases "q_in_global q = 0")
      case True
      obtain g where "skynet_globalmq_push ?g1 p = Some g" "gq_rep g (ps @ [p])" "body_of g = body_of ?g1"
        using skynet_globalmq_push_ok [OF rep1, of p ?q] nin [OF True] by auto
      with that q rel True show ?thesis by (simp add: skynet_mq_mark_release_def MQ_IN_GLOBAL_def)
    next
      case False
      with that rep1 q rel one show ?thesis by (simp add: skynet_mq_mark_release_def)
    qed
    let ?s' = "?s\<lparr>d_gq := g\<rparr>"
    have h: "held ?s' = held s" by (rule held_cong) simp
    have "sys_ok ?s' ?ps"
    proof (rule sys_okI [OF ok, where p = p])
      show "gq_rep (d_gq ?s') ?ps" using g(2) by simp
      fix u v r
      show "distinct (d_hold ?s' u)" using D(2) by simp
      show "r \<in> set (d_hold ?s' u) \<Longrightarrow> r \<notin> set ?ps \<and> body_of (d_gq ?s') r \<noteq> None"
        using D(3,4) [of r u] nin by (auto simp: g(3) body_of_def held_def)
      show "u \<noteq> v \<Longrightarrow> set (d_hold ?s' u) \<inter> set (d_hold ?s' v) = {}" using D(5) by simp
      show "r \<noteq> p \<Longrightarrow> body_of (d_gq ?s') r = body_of (d_gq s) r \<and> d_ref ?s' r = d_ref s r \<and>
        (r \<in> d_reg ?s' \<longleftrightarrow> r \<in> d_reg s) \<and> d_users ?s' r = d_users s r \<and>
        (r \<in> set ?ps \<or> held ?s' r \<longleftrightarrow> r \<in> set ps \<or> held s r)"
        unfolding h by (simp add: g(3))
      have "queue_ok True 0 False 0 ?q"
        using Q inv by (auto simp: queue_ok_def)
      moreover have "p \<in> set ?ps \<or> held s p" using Q by (auto simp: queue_ok_def)
      ultimately show "cell_ok (p \<in> set ?ps \<or> held ?s' p) (d_ref ?s' p) (p \<in> d_reg ?s') (d_users ?s' p) (body_of (d_gq ?s') p)"
        unfolding h using last by (simp add: cell_ok_def g(3))
    qed
    with g(1) True zero show ?thesis by (auto simp: safe_def done_with_def)
  qed
qed

lemma event_safe: "sys_ok s ps \<Longrightarrow> safe e s"
  by (cases e) (simp_all only: launch_safe take_safe give_back_safe process_safe empty_safe push_safe
      grab_safe retire_safe release_safe drop_safe)

lemma reachable_ok: "reachable s \<Longrightarrow> \<exists>ps. sys_ok s ps"
proof (induction rule: reachable.induct)
  case init
  show ?case using sys_ok_start by blast
next
  case (next_step s e s')
  then obtain ps where "sys_ok s ps" by blast
  with event_safe [of s ps e] next_step.hyps(2) show ?case by (auto simp: safe_def step_iff)
qed


subsection \<open>A run\<close>

text \<open>
  A launch, a message from the launching thread, the schedule of the new queue, and a worker
  that takes it.
\<close>

fun fires :: "'m event list \<Rightarrow> 'm system \<Rightarrow> 'm system option" where
  "fires [] s = Some s"
| "fires (e # es) s = (case fire e s of Some (Some s') \<Rightarrow> fires es s' | _ \<Rightarrow> None)"

lemma fires_reachable: "reachable s \<Longrightarrow> fires es s = Some s' \<Longrightarrow> reachable s'"
proof (induction es arbitrary: s)
  case (Cons e es)
  then obtain s1 where "fire e s = Some (Some s1)" "fires es s1 = Some s'"
    by (auto split: option.splits)
  with Cons show ?case by (meson reachable.next_step step.intros)
qed auto

definition demo_run :: "nat event list" where
  "demo_run = [Launch 0 5 9, Push 5 42, GiveBack 0, Take 1]"

definition demo_queue :: "nat message_queue" where
  "demo_queue = (mq_new 9)\<lparr>q_tail := 1, q_cells := Some 42 # replicate 63 None\<rparr>"

definition demo_end :: "nat system" where
  "demo_end = \<lparr>d_gq = \<lparr>queues = [5 \<mapsto> demo_queue], ghead = None, gtail = None\<rparr>, d_reg = {5},
     d_ref = (\<lambda>_. 0)(5 := 2), d_users = (\<lambda>_. 0)(5 := 1), d_hold = (\<lambda>_. [])(1 := [5])\<rparr>"

lemma demo_reachable: "reachable demo_end"
proof -
  have r: "replicate 64 None = None # replicate 63 None" by (simp flip: replicate_Suc)
  have "fires demo_run start_system = Some demo_end"
    by (simp add: demo_run_def start_system_def skynet_mq_init_def skynet_mq_create_def demo_end_def demo_queue_def
        done_with_def skynet_mq_push_def mq_store_def wr_def mq_new_def DEFAULT_QUEUE_SIZE_def r fun_upd_idem
        ring_next_def MQ_IN_GLOBAL_def skynet_globalmq_push_def skynet_globalmq_pop_def set_next_def)
  then show ?thesis by (rule fires_reachable [OF reachable.init])
qed

lemma demo_end_simps: "queues (d_gq demo_end) 5 = Some demo_queue" "d_hold demo_end (Suc 0) = [5]" "d_users demo_end 5 = 1"
  "mq_contents demo_queue = [42]"
  by (simp_all add: demo_end_def demo_queue_def mq_contents_def mq_count_def mq_cell_def mq_new_def DEFAULT_QUEUE_SIZE_def)

subsection \<open>Properties\<close>

text \<open>
  C17: in every reachable state each queue is in one place. No queue is both in the global list
  and in a thread's hands, none is in the hands of two threads, and none is twice in the list;
  so no service processes two messages at once.
\<close>

theorem one_owner:
  assumes "reachable s"
  shows "\<exists>ps. gq_rep (d_gq s) ps \<and> distinct ps \<and> (\<forall>t. distinct (d_hold s t) \<and> set (d_hold s t) \<inter> set ps = {}) \<and>
    (\<forall>t u. t \<noteq> u \<longrightarrow> set (d_hold s t) \<inter> set (d_hold s u) = {})"
proof -
  obtain ps where ok: "sys_ok s ps" using reachable_ok [OF assms] by blast
  note D = sys_okD [OF ok]
  have "distinct ps" using D(1) by (simp add: gq_rep_def)
  moreover have "set (d_hold s t) \<inter> set ps = {}" for t using D(3) by blast
  moreover have "\<forall>t u. t \<noteq> u \<longrightarrow> set (d_hold s t) \<inter> set (d_hold s u) = {}" using D(5) by simp
  ultimately show ?thesis
    using D(1,2) by (intro exI [of _ ps] conjI) simp_all
qed

theorem one_owner_witness:
  "d_hold demo_end 1 = [5] \<and> (\<exists>ps. gq_rep (d_gq demo_end) ps \<and> 5 \<notin> set ps \<and> (\<forall>t. t \<noteq> 1 \<longrightarrow> 5 \<notin> set (d_hold demo_end t)))"
proof -
  obtain ps where o: "gq_rep (d_gq demo_end) ps" "\<forall>t. set (d_hold demo_end t) \<inter> set ps = {}"
    "\<forall>t u. t \<noteq> u \<longrightarrow> set (d_hold demo_end t) \<inter> set (d_hold demo_end u) = {}"
    using one_owner [OF demo_reachable] by blast
  have "5 \<notin> set ps" using spec [OF o(2), of 1] by (simp add: demo_end_simps)
  moreover have "t \<noteq> 1 \<longrightarrow> 5 \<notin> set (d_hold demo_end t)" for t
    using spec [OF spec [OF o(3), of 1], of t] by (auto simp: demo_end_simps)
  ultimately show ?thesis using o(1) demo_end_simps(2) by (simp only: One_nat_def) blast
qed

text \<open>
  C18: no message is stranded. In every reachable state a queue that holds a message is in the
  global list or in the hands of a thread, as is every queue whose service is gone and that
  still has to be freed; and it belongs to a service with references or to a released one.
\<close>

theorem no_lost_queue:
  assumes "reachable s" "queues (d_gq s) p = Some q" "mq_contents q \<noteq> [] \<or> q_release q \<noteq> 0"
  shows "(\<exists>ps. gq_rep (d_gq s) ps \<and> p \<in> set ps) \<or> (\<exists>t. p \<in> set (d_hold s t))"
proof -
  obtain ps where ok: "sys_ok s ps" using reachable_ok [OF assms(1)] by blast
  from sys_okD(6) [OF ok assms(2)] assms(3) have "p \<in> set ps \<or> held s p" unfolding queue_ok_def by blast
  then show ?thesis
  proof
    assume "p \<in> set ps"
    with sys_okD(1) [OF ok] have "gq_rep (d_gq s) ps \<and> p \<in> set ps" by simp
    then show ?thesis by (rule disjI1 [OF exI])
  qed (simp add: held_def)
qed

theorem no_lost_queue_witness:
  "mq_contents demo_queue = [42] \<and>
   ((\<exists>ps. gq_rep (d_gq demo_end) ps \<and> 5 \<in> set ps) \<or> (\<exists>t. 5 \<in> set (d_hold demo_end t)))"
  using no_lost_queue [OF demo_reachable demo_end_simps(1)] demo_end_simps(4) by simp





end
