(* ===== verification/Hashid.thy ===== *)
theory Hashid
  imports C_Strings
begin

text \<open>
  The table from socket ids to slots of the gate: \<^verbatim>\<open>service-src/hashid.h\<close>, an array of
  nodes with chained buckets threaded through it. The invariant names the chain of every
  bucket; \<open>slot_of\<close> is the table as a map.
\<close>

subsection \<open>Data and operations\<close>

text \<open>Pointers into the array \<open>id\<close> are indices.\<close>

record hashid_node =
  hn_id :: int
  hn_next :: "nat option"

record hashid =
  hi_hashmod :: nat
  hi_cap :: nat
  hi_count :: int
  hi_id :: "hashid_node list"
  hi_hash :: "nat option list"

function hash_cap :: "nat \<Rightarrow> nat \<Rightarrow> nat" where
  "hash_cap c mx = (if 0 < c \<and> c < mx then hash_cap (c * 2) mx else c)"
  by pat_completeness auto
termination by (relation "measure (\<lambda>(c, mx). mx - c)") auto

declare hash_cap.simps [simp del]

definition hashid_init :: "nat \<Rightarrow> hashid" where
  "hashid_init mx = (let hashcap = hash_cap 16 mx in
     \<lparr>hi_hashmod = hashcap - 1, hi_cap = mx, hi_count = 0,
      hi_id = replicate mx \<lparr>hn_id = -1, hn_next = None\<rparr>, hi_hash = replicate hashcap None\<rparr>)"

definition hashid_clear :: "hashid \<Rightarrow> hashid" where
  "hashid_clear hi = \<lparr>hi_hashmod = 1, hi_cap = 0, hi_count = 0, hi_id = [], hi_hash = []\<rparr>"

text \<open>\<open>id & hashmod\<close>, with the \<open>int\<close> taken bit by bit.\<close>

definition hash_of :: "hashid \<Rightarrow> int \<Rightarrow> nat" where
  "hash_of hi i = nat (i AND int (hi_hashmod hi))"

partial_function (option) lookup_chain :: "hashid \<Rightarrow> int \<Rightarrow> nat option \<Rightarrow> int option" where
  "lookup_chain hi i c =
     (case c of
        None \<Rightarrow> Some (-1)
      | Some p \<Rightarrow> do {
          n \<leftarrow> rd (hi_id hi) p;
          (if hn_id n = i then Some (int p) else lookup_chain hi i (hn_next n))
        })"

definition hashid_lookup :: "hashid \<Rightarrow> int \<Rightarrow> int option" where
  "hashid_lookup hi i = do {
     c \<leftarrow> rd (hi_hash hi) (hash_of hi i);
     lookup_chain hi i c
   }"

text \<open>The code after \<open>_clear\<close>.\<close>

definition clear_node :: "hashid \<Rightarrow> nat \<Rightarrow> (int \<times> hashid) option" where
  "clear_node hi p = do {
     ids \<leftarrow> wr (hi_id hi) p \<lparr>hn_id = -1, hn_next = None\<rparr>;
     Some (int p, hi\<lparr>hi_id := ids, hi_count := hi_count hi - 1\<rparr>)
   }"

partial_function (option) remove_chain :: "hashid \<Rightarrow> int \<Rightarrow> nat \<Rightarrow> (int \<times> hashid) option" where
  "remove_chain hi i c = do {
     n \<leftarrow> rd (hi_id hi) c;
     (case hn_next n of
        None \<Rightarrow> Some (-1, hi)
      | Some t \<Rightarrow> do {
          m \<leftarrow> rd (hi_id hi) t;
          (if hn_id m = i then do {
             ids \<leftarrow> wr (hi_id hi) c (n\<lparr>hn_next := hn_next m\<rparr>);
             clear_node (hi\<lparr>hi_id := ids\<rparr>) t
           } else remove_chain hi i t)
        })
   }"

definition hashid_remove :: "hashid \<Rightarrow> int \<Rightarrow> (int \<times> hashid) option" where
  "hashid_remove hi i = do {
     c \<leftarrow> rd (hi_hash hi) (hash_of hi i);
     (case c of
        None \<Rightarrow> Some (-1, hi)
      | Some p \<Rightarrow> do {
          n \<leftarrow> rd (hi_id hi) p;
          (if hn_id n = i then do {
             hs \<leftarrow> wr (hi_hash hi) (hash_of hi i) (hn_next n);
             clear_node (hi\<lparr>hi_hash := hs\<rparr>) p
           } else remove_chain hi i p)
        })
   }"

text \<open>
  The scan for a free node from \<open>id % cap\<close> on; \<open>i + id\<close> is an \<open>int\<close>, and \<open>%\<close> has the sign of
  its left operand.
\<close>

function insert_scan :: "hashid \<Rightarrow> int \<Rightarrow> nat \<Rightarrow> nat option" where
  "insert_scan hi i k =
     (if k < hi_cap hi then
        (let s = to_s32 (int k + i) in
         if s < 0 \<and> s mod int (hi_cap hi) \<noteq> 0 then None
         else do {
           n \<leftarrow> rd (hi_id hi) (nat (s mod int (hi_cap hi)));
           (if hn_id n = -1 then Some (nat (s mod int (hi_cap hi))) else insert_scan hi i (k + 1))
         })
      else None)"
  by pat_completeness auto
termination by (relation "measure (\<lambda>(hi, i, k). hi_cap hi - k)") auto

declare insert_scan.simps [simp del]

definition hashid_insert :: "hashid \<Rightarrow> int \<Rightarrow> (int \<times> hashid) option" where
  "hashid_insert hi i = do {
     c \<leftarrow> insert_scan hi i 0;
     n \<leftarrow> rd (hi_id hi) c;
     c_assert (hn_next n = None);
     h \<leftarrow> rd (hi_hash hi) (hash_of hi i);
     ids \<leftarrow> wr (hi_id hi) c \<lparr>hn_id = i, hn_next = h\<rparr>;
     hs \<leftarrow> wr (hi_hash hi) (hash_of hi i) (Some c);
     Some (int c, hi\<lparr>hi_id := ids, hi_hash := hs, hi_count := hi_count hi + 1\<rparr>)
   }"

definition hashid_full :: "hashid \<Rightarrow> bool" where
  "hashid_full hi \<longleftrightarrow> hi_count hi = int (hi_cap hi)"

subsection \<open>The invariant\<close>

fun chain_at :: "hashid_node list \<Rightarrow> nat option \<Rightarrow> nat list \<Rightarrow> bool" where
  "chain_at ids c [] = (c = None)"
| "chain_at ids c (p # ps) = (c = Some p \<and> p < length ids \<and> chain_at ids (hn_next (ids ! p)) ps)"

text \<open>\<open>chs h\<close> is the chain of bucket \<open>h\<close>: exactly the used nodes whose id hashes there.\<close>

definition hash_inv :: "hashid \<Rightarrow> (nat \<Rightarrow> nat list) \<Rightarrow> bool" where
  "hash_inv hi chs \<longleftrightarrow>
     (\<exists>k. hi_hashmod hi = 2 ^ k - 1) \<and> length (hi_hash hi) = Suc (hi_hashmod hi) \<and>
     length (hi_id hi) = hi_cap hi \<and>
     (\<forall>h \<le> hi_hashmod hi. chain_at (hi_id hi) (hi_hash hi ! h) (chs h) \<and> distinct (chs h) \<and>
        (\<forall>p. p \<in> set (chs h) \<longleftrightarrow> p < hi_cap hi \<and> hn_id (hi_id hi ! p) \<noteq> -1 \<and> hash_of hi (hn_id (hi_id hi ! p)) = h)) \<and>
     (\<forall>p<hi_cap hi. 0 \<le> hn_id (hi_id hi ! p) \<or> hi_id hi ! p = \<lparr>hn_id = -1, hn_next = None\<rparr>) \<and>
     (\<forall>p q. p < hi_cap hi \<longrightarrow> q < hi_cap hi \<longrightarrow> hn_id (hi_id hi ! p) = hn_id (hi_id hi ! q) \<longrightarrow>
        hn_id (hi_id hi ! p) \<noteq> -1 \<longrightarrow> p = q) \<and>
     hi_count hi = int (card {p. p < hi_cap hi \<and> hn_id (hi_id hi ! p) \<noteq> -1})"

definition hash_ok :: "hashid \<Rightarrow> bool" where
  "hash_ok hi \<longleftrightarrow> (\<exists>chs. hash_inv hi chs)"

text \<open>The table as a map from socket ids to slots.\<close>

definition slot_of :: "hashid \<Rightarrow> int \<Rightarrow> nat option" where
  "slot_of hi i = (if i < 0 then None
     else List.find (\<lambda>p. hn_id (hi_id hi ! p) = i) [0..<hi_cap hi])"

lemma slot_of_Some:
  assumes "hash_ok hi"
  shows "slot_of hi i = Some p \<longleftrightarrow> 0 \<le> i \<and> p < hi_cap hi \<and> hn_id (hi_id hi ! p) = i"
proof -
  obtain chs where inv: "hash_inv hi chs" using assms by (auto simp: hash_ok_def)
  have inj: "p = q" if "p < hi_cap hi" "q < hi_cap hi" "hn_id (hi_id hi ! p) = hn_id (hi_id hi ! q)"
    "hn_id (hi_id hi ! p) \<noteq> -1" for p q
    using inv that unfolding hash_inv_def by blast
  show ?thesis
  proof (cases "0 \<le> i")
    case True
    show ?thesis
    proof
      assume "slot_of hi i = Some p"
      with True have "List.find (\<lambda>p. hn_id (hi_id hi ! p) = i) [0..<hi_cap hi] = Some p" by (simp add: slot_of_def)
      then show "0 \<le> i \<and> p < hi_cap hi \<and> hn_id (hi_id hi ! p) = i" using True by (auto simp: find_Some_iff)
    next
      assume p: "0 \<le> i \<and> p < hi_cap hi \<and> hn_id (hi_id hi ! p) = i"
      then obtain q where q: "slot_of hi i = Some q"
        by (cases "slot_of hi i") (auto simp: slot_of_def find_None_iff)
      then have "q < hi_cap hi \<and> hn_id (hi_id hi ! q) = i"
        using True by (auto simp: slot_of_def find_Some_iff)
      with p inj [of p q] q show "slot_of hi i = Some p" by auto
    qed
  qed (simp add: slot_of_def)
qed

lemma chain_at_cong:
  "(\<And>p. p \<in> set ps \<Longrightarrow> p < length ids \<Longrightarrow> p < length ids' \<and> hn_next (ids' ! p) = hn_next (ids ! p)) \<Longrightarrow>
   chain_at ids c ps \<Longrightarrow> chain_at ids' c ps"
  by (induction ps arbitrary: c) auto

lemma lookup_chain_ok:
  "chain_at (hi_id hi) c ps \<Longrightarrow>
   lookup_chain hi i c = Some (case List.find (\<lambda>p. hn_id (hi_id hi ! p) = i) ps of Some p \<Rightarrow> int p | None \<Rightarrow> -1)"
  by (induction ps arbitrary: c) (auto simp: lookup_chain.simps)


lemma hash_of_mod: "hi_hashmod hi = 2 ^ k - 1 \<Longrightarrow> hash_of hi i = nat (i mod 2 ^ k)"
proof -
  assume "hi_hashmod hi = 2 ^ k - 1"
  then have "int (hi_hashmod hi) = mask k" by (simp add: mask_eq_exp_minus_1 of_nat_diff)
  then show ?thesis unfolding hash_of_def by (simp add: take_bit_eq_mask [symmetric] take_bit_eq_mod)
qed

lemma hash_inv_hash:
  assumes "hash_inv hi chs" shows "hash_of hi i \<le> hi_hashmod hi" "hash_of hi i < length (hi_hash hi)"
proof -
  obtain k where k: "hi_hashmod hi = 2 ^ k - 1" and l: "length (hi_hash hi) = Suc (hi_hashmod hi)"
    using assms unfolding hash_inv_def by blast
  have "i mod 2 ^ k < 2 ^ k" by simp
  then have "nat (i mod 2 ^ k) < 2 ^ k" by (metis nat_less_iff pos_mod_sign zero_less_numeral zero_less_power of_nat_numeral of_nat_power)
  then have le: "nat (i mod 2 ^ k) \<le> 2 ^ k - 1" by linarith
  then show "hash_of hi i \<le> hi_hashmod hi" unfolding hash_of_mod [OF k] k .
  then show "hash_of hi i < length (hi_hash hi)" using l by simp
qed

lemma hash_invD:
  assumes "hash_inv hi chs"
  shows "length (hi_id hi) = hi_cap hi" "length (hi_hash hi) = Suc (hi_hashmod hi)"
    "h \<le> hi_hashmod hi \<Longrightarrow> chain_at (hi_id hi) (hi_hash hi ! h) (chs h)"
    "h \<le> hi_hashmod hi \<Longrightarrow> distinct (chs h)"
    "h \<le> hi_hashmod hi \<Longrightarrow> p \<in> set (chs h) \<longleftrightarrow>
       p < hi_cap hi \<and> hn_id (hi_id hi ! p) \<noteq> -1 \<and> hash_of hi (hn_id (hi_id hi ! p)) = h"
    "p < hi_cap hi \<Longrightarrow> 0 \<le> hn_id (hi_id hi ! p) \<or> hi_id hi ! p = \<lparr>hn_id = -1, hn_next = None\<rparr>"
    "p < hi_cap hi \<Longrightarrow> q < hi_cap hi \<Longrightarrow> hn_id (hi_id hi ! p) = hn_id (hi_id hi ! q) \<Longrightarrow>
        hn_id (hi_id hi ! p) \<noteq> -1 \<Longrightarrow> p = q"
    "hi_count hi = int (card {p. p < hi_cap hi \<and> hn_id (hi_id hi ! p) \<noteq> -1})"
  using assms unfolding hash_inv_def by blast+

text \<open>Where the chain search ends is where the id is.\<close>

lemma find_in_chain:
  assumes inv: "hash_inv hi chs"
  shows "List.find (\<lambda>p. hn_id (hi_id hi ! p) = i) (chs (hash_of hi i)) = slot_of hi i"
proof (rule option_eqI)
  fix p
  note D = hash_invD [OF inv]
  have ok: "hash_ok hi" using inv by (auto simp: hash_ok_def)
  let ?h = "hash_of hi i"
  have mem: "q \<in> set (chs ?h) \<longleftrightarrow> q < hi_cap hi \<and> hn_id (hi_id hi ! q) \<noteq> -1 \<and> hash_of hi (hn_id (hi_id hi ! q)) = ?h" for q
    by (rule D(5)) (rule hash_inv_hash(1) [OF inv])
  show "List.find (\<lambda>p. hn_id (hi_id hi ! p) = i) (chs ?h) = Some p \<longleftrightarrow> slot_of hi i = Some p"
  proof
    assume f: "List.find (\<lambda>p. hn_id (hi_id hi ! p) = i) (chs ?h) = Some p"
    then have p: "p \<in> set (chs ?h)" "hn_id (hi_id hi ! p) = i" by (auto simp: find_Some_iff)
    with mem have "p < hi_cap hi" "i \<noteq> -1" by auto
    with D(6) [of p] p(2) have "0 \<le> i" by auto
    with \<open>p < hi_cap hi\<close> p(2) show "slot_of hi i = Some p" by (simp add: slot_of_Some [OF ok])
  next
    assume "slot_of hi i = Some p"
    then have p: "0 \<le> i" "p < hi_cap hi" "hn_id (hi_id hi ! p) = i" by (simp_all add: slot_of_Some [OF ok])
    then have "p \<in> set (chs ?h)" using mem by auto
    with p(3) obtain q where q: "List.find (\<lambda>p. hn_id (hi_id hi ! p) = i) (chs ?h) = Some q"
      by (cases "List.find (\<lambda>p. hn_id (hi_id hi ! p) = i) (chs ?h)") (auto simp: find_None_iff)
    then have "q \<in> set (chs ?h)" "hn_id (hi_id hi ! q) = i" by (auto simp: find_Some_iff)
    with mem have "q < hi_cap hi" by blast
    with D(7) [of q p] p \<open>hn_id (hi_id hi ! q) = i\<close> have "q = p" by auto
    with q show "List.find (\<lambda>p. hn_id (hi_id hi ! p) = i) (chs ?h) = Some p" by simp
  qed
qed

lemma hashid_lookup_ok:
  assumes "hash_ok hi"
  shows "hashid_lookup hi i = Some (case slot_of hi i of Some p \<Rightarrow> int p | None \<Rightarrow> -1)"
proof -
  obtain chs where inv: "hash_inv hi chs" using assms by (auto simp: hash_ok_def)
  note h = hash_inv_hash [OF inv, of i]
  have "chain_at (hi_id hi) (hi_hash hi ! hash_of hi i) (chs (hash_of hi i))"
    by (rule hash_invD(3) [OF inv h(1)])
  from lookup_chain_ok [OF this, of i] h(2) show ?thesis
    by (simp add: hashid_lookup_def find_in_chain [OF inv])
qed

subsection \<open>Removal\<close>

abbreviation free_node :: hashid_node where "free_node \<equiv> \<lparr>hn_id = -1, hn_next = None\<rparr>"

lemma chain_at_append:
  "chain_at ids c (xs @ t # ys) \<Longrightarrow> t < length ids \<and> chain_at ids (hn_next (ids ! t)) ys"
  by (induction xs arbitrary: c) auto

lemma remove_chain_ok:
  assumes "chain_at (hi_id hi) (Some c) (c # xs @ t # ys)" "distinct (c # xs @ t # ys)"
    "\<forall>p\<in>set xs. hn_id (hi_id hi ! p) \<noteq> i" "hn_id (hi_id hi ! t) = i"
  shows "\<exists>ids'. remove_chain hi i c = Some (int t, hi\<lparr>hi_id := ids', hi_count := hi_count hi - 1\<rparr>) \<and>
    length ids' = length (hi_id hi) \<and> chain_at ids' (Some c) (c # xs @ ys) \<and> ids' ! t = free_node \<and>
    (\<forall>p<length ids'. p \<noteq> t \<longrightarrow> hn_id (ids' ! p) = hn_id (hi_id hi ! p)) \<and>
    (\<forall>p<length ids'. p \<notin> set (c # xs @ t # ys) \<longrightarrow> ids' ! p = hi_id hi ! p)"
  using assms
proof (induction xs arbitrary: c)
  case Nil
  let ?I = "hi_id hi"
  let ?ids = "(?I[c := (?I ! c)\<lparr>hn_next := hn_next (?I ! t)\<rparr>])[t := free_node]"
  have b: "c < length ?I" "hn_next (?I ! c) = Some t" "t < length ?I" "chain_at ?I (hn_next (?I ! t)) ys" "c \<noteq> t"
    "c \<notin> set ys" "t \<notin> set ys"
    using Nil.prems by auto
  have "remove_chain hi i c = Some (int t, hi\<lparr>hi_id := ?ids, hi_count := hi_count hi - 1\<rparr>)"
    using b Nil.prems(4) by (subst remove_chain.simps) (simp add: clear_node_def)
  moreover have "chain_at ?ids (hn_next (?I ! t)) ys"
    by (rule chain_at_cong [OF _ b(4)]) (use b in \<open>auto simp: nth_list_update\<close>)
  ultimately show ?case using b by (intro exI [of _ ?ids]) (auto simp: nth_list_update)
next
  case (Cons x xs)
  let ?I = "hi_id hi"
  have b: "c < length ?I" "hn_next (?I ! c) = Some x" "x < length ?I" "c \<notin> set (x # xs @ t # ys)"
    using Cons.prems by auto
  have "chain_at ?I (Some x) (x # xs @ t # ys)" "distinct (x # xs @ t # ys)"
    "\<forall>p\<in>set xs. hn_id (?I ! p) \<noteq> i" "hn_id (?I ! x) \<noteq> i" using Cons.prems by auto
  with Cons.IH [of x] Cons.prems(4) obtain ids' where
    r: "remove_chain hi i x = Some (int t, hi\<lparr>hi_id := ids', hi_count := hi_count hi - 1\<rparr>)"
    "length ids' = length ?I" "chain_at ids' (Some x) (x # xs @ ys)" "ids' ! t = free_node"
    "\<forall>p<length ids'. p \<noteq> t \<longrightarrow> hn_id (ids' ! p) = hn_id (?I ! p)"
    "\<forall>p<length ids'. p \<notin> set (x # xs @ t # ys) \<longrightarrow> ids' ! p = ?I ! p" by blast
  have "remove_chain hi i c = remove_chain hi i x"
    using b \<open>hn_id (?I ! x) \<noteq> i\<close> by (subst remove_chain.simps) simp
  moreover have "ids' ! c = ?I ! c" using r(2,6) b by simp
  ultimately show ?case using r b by (intro exI [of _ ids']) auto
qed


lemma find_split:
  assumes "List.find P xs = Some t"
  obtains us vs where "xs = us @ t # vs" "\<forall>p\<in>set us. \<not> P p" "P t"
  using assms
proof (induction xs arbitrary: thesis)
  case (Cons x xs)
  show ?case
  proof (cases "P x")
    case True
    with Cons.prems show ?thesis by (intro Cons.prems(1) [of "[]" xs]) auto
  next
    case False
    with Cons.prems(2) have "List.find P xs = Some t" by simp
    from Cons.IH [OF _ this] obtain us vs where "xs = us @ t # vs" "\<forall>p\<in>set us. \<not> P p" "P t" by blast
    with False show ?thesis by (intro Cons.prems(1) [of "x # us" vs]) auto
  qed
qed simp

text \<open>A chain without the id is walked to its end.\<close>

lemma remove_chain_none:
  "chain_at (hi_id hi) (Some c) (c # ps) \<Longrightarrow> \<forall>p\<in>set ps. hn_id (hi_id hi ! p) \<noteq> i \<Longrightarrow>
   remove_chain hi i c = Some (-1, hi)"
proof (induction ps arbitrary: c)
  case Nil
  then show ?case by (subst remove_chain.simps) simp
next
  case (Cons t ts)
  then show ?case by (subst remove_chain.simps) simp
qed

text \<open>Freeing node \<open>t\<close> of its bucket keeps the invariant.\<close>

lemma hash_inv_freed:
  assumes inv: "hash_inv hi chs" and t: "t < hi_cap hi" "hn_id (hi_id hi ! t) = i" "i \<noteq> -1"
    and chs: "chs (hash_of hi i) = us @ t # vs"
    and ids: "length ids' = length (hi_id hi)" "ids' ! t = free_node"
      "\<forall>p<length ids'. p \<noteq> t \<longrightarrow> hn_id (ids' ! p) = hn_id (hi_id hi ! p)"
      "\<forall>p<length ids'. p \<notin> set (us @ t # vs) \<longrightarrow> ids' ! p = hi_id hi ! p"
    and hs: "length hs' = length (hi_hash hi)" "\<forall>h\<le>hi_hashmod hi. h \<noteq> hash_of hi i \<longrightarrow> hs' ! h = hi_hash hi ! h"
      "chain_at ids' (hs' ! hash_of hi i) (us @ vs)"
  shows "hash_inv (hi\<lparr>hi_id := ids', hi_hash := hs', hi_count := hi_count hi - 1\<rparr>) (chs(hash_of hi i := us @ vs))"
    (is "hash_inv ?hi ?chs")
proof -
  note D = hash_invD [OF inv] and B = hash_inv_hash [OF inv, of i]
  let ?h = "hash_of hi i"
  have len: "length ids' = hi_cap hi" using D(1) ids(1) by simp
  have hash: "hash_of ?hi = hash_of hi" by (simp add: hash_of_def fun_eq_iff)
  have mem: "p \<in> set (us @ t # vs) \<longleftrightarrow> p < hi_cap hi \<and> hn_id (hi_id hi ! p) \<noteq> -1 \<and> hash_of hi (hn_id (hi_id hi ! p)) = ?h" for p
    using D(5) [OF B(1), of p] by (simp add: chs)
  have dist: "distinct (us @ t # vs)" using D(4) [OF B(1)] by (simp add: chs)
  have other: "chain_at ids' (hs' ! h) (chs h)" if h: "h \<le> hi_hashmod hi" "h \<noteq> ?h" for h
  proof -
    have "hn_next (ids' ! p) = hn_next (hi_id hi ! p)" if "p \<in> set (chs h)" for p
    proof -
      have "p < hi_cap hi" "p \<notin> set (us @ t # vs)" using that h mem [of p] D(5) [OF h(1), of p] by auto
      with ids(4) len show ?thesis by simp
    qed
    note nx = this
    have "chain_at (hi_id hi) (hs' ! h) (chs h)" using D(3) [OF h(1)] hs(2) h by simp
    then show ?thesis by (rule chain_at_cong [rotated]) (simp add: ids(1) nx)
  qed
  have chain: "chain_at ids' (hs' ! h) (?chs h) \<and> distinct (?chs h) \<and>
      (\<forall>p. p \<in> set (?chs h) \<longleftrightarrow> p < hi_cap hi \<and> hn_id (ids' ! p) \<noteq> -1 \<and> hash_of hi (hn_id (ids' ! p)) = h)"
    if h: "h \<le> hi_hashmod hi" for h
  proof (cases "h = ?h")
    case True
    have "p \<in> set (us @ vs) \<longleftrightarrow> p < hi_cap hi \<and> hn_id (ids' ! p) \<noteq> -1 \<and> hash_of hi (hn_id (ids' ! p)) = ?h" for p
      using mem [of p] dist ids(2,3) len by (cases "p = t") auto
    with True hs(3) dist show ?thesis by simp
  next
    case False
    have "p \<in> set (chs h) \<longleftrightarrow> p < hi_cap hi \<and> hn_id (ids' ! p) \<noteq> -1 \<and> hash_of hi (hn_id (ids' ! p)) = h" for p
      using D(5) [OF h, of p] t(2) ids(2,3) len False by (cases "p = t") auto
    with False other [OF h False] D(4) [OF h] show ?thesis by simp
  qed
  have used: "{p. p < hi_cap hi \<and> hn_id (hi_id hi ! p) \<noteq> -1} = insert t {p. p < hi_cap hi \<and> hn_id (ids' ! p) \<noteq> -1}"
  proof (rule set_eqI)
    fix p
    show "p \<in> {p. p < hi_cap hi \<and> hn_id (hi_id hi ! p) \<noteq> -1} \<longleftrightarrow>
        p \<in> insert t {p. p < hi_cap hi \<and> hn_id (ids' ! p) \<noteq> -1}"
    proof (cases "p = t")
      case True
      with t show ?thesis by simp
    next
      case False
      have "p < hi_cap hi \<Longrightarrow> hn_id (ids' ! p) = hn_id (hi_id hi ! p)" using ids(3) len False by simp
      with False show ?thesis by auto
    qed
  qed
  have "t \<notin> {p. p < hi_cap hi \<and> hn_id (ids' ! p) \<noteq> -1}" using ids(2) by simp
  with used D(8) have cnt: "hi_count hi - 1 = int (card {p. p < hi_cap hi \<and> hn_id (ids' ! p) \<noteq> -1})" by simp
  have nodes: "0 \<le> hn_id (ids' ! p) \<or> ids' ! p = free_node" if p: "p < hi_cap hi" for p
  proof (cases "p \<in> set (us @ t # vs)")
    case True
    with mem [of p] D(6) [OF p] have "0 \<le> hn_id (hi_id hi ! p)" by auto
    with ids(2,3) p len show ?thesis by (cases "p = t") auto
  next
    case False
    with D(6) [OF p] ids(4) p len show ?thesis by auto
  qed
  have inj: "p = q" if "p < hi_cap hi" "q < hi_cap hi" "hn_id (ids' ! p) = hn_id (ids' ! q)" "hn_id (ids' ! p) \<noteq> -1" for p q
  proof -
    have "p \<noteq> t" "q \<noteq> t" using that ids(2) by auto
    with that D(7) [of p q] ids(3) len show ?thesis by auto
  qed
  have k: "\<exists>k. hi_hashmod hi = 2 ^ k - 1" using inv unfolding hash_inv_def by blast
  show ?thesis
    unfolding hash_inv_def hash using k D(2) hs(1) len chain nodes inj cnt by simp
qed


lemma chain_at_first: "chain_at ids c (p # ps) \<Longrightarrow> c = Some p \<and> p < length ids \<and> chain_at ids (hn_next (ids ! p)) ps"
  by simp

lemma hashid_remove_ok:
  assumes ok: "hash_ok hi"
  shows "case slot_of hi i of
      None \<Rightarrow> hashid_remove hi i = Some (-1, hi)
    | Some p \<Rightarrow> \<exists>hi'. hashid_remove hi i = Some (int p, hi') \<and> hash_ok hi' \<and> slot_of hi' = (slot_of hi)(i := None) \<and>
        hi_cap hi' = hi_cap hi \<and> hi_count hi' = hi_count hi - 1"
proof -
  obtain chs where inv: "hash_inv hi chs" using ok by (auto simp: hash_ok_def)
  note D = hash_invD [OF inv] and B = hash_inv_hash [OF inv, of i] and F = find_in_chain [OF inv, of i]
  let ?h = "hash_of hi i"
  have ch: "chain_at (hi_id hi) (hi_hash hi ! ?h) (chs ?h)" by (rule D(3) [OF B(1)])
  show ?thesis
  proof (cases "slot_of hi i")
    case None
    then have none: "\<forall>p\<in>set (chs ?h). hn_id (hi_id hi ! p) \<noteq> i" using F by (simp add: find_None_iff)
    have "hashid_remove hi i = Some (-1, hi)"
    proof (cases "chs ?h")
      case Nil
      with ch B(2) show ?thesis by (simp add: hashid_remove_def)
    next
      case (Cons c ps)
      then have c: "hi_hash hi ! ?h = Some c" "c < length (hi_id hi)" "chain_at (hi_id hi) (Some c) (c # ps)"
        using ch by auto
      have "remove_chain hi i c = Some (-1, hi)"
        by (rule remove_chain_none [OF c(3)]) (use none Cons in simp)
      with c none Cons B(2) show ?thesis by (simp add: hashid_remove_def)
    qed
    with None show ?thesis by simp
  next
    case (Some t)
    then have t: "0 \<le> i" "t < hi_cap hi" "hn_id (hi_id hi ! t) = i" by (simp_all add: slot_of_Some [OF ok])
    from F Some have "List.find (\<lambda>p. hn_id (hi_id hi ! p) = i) (chs ?h) = Some t" by simp
    then obtain us vs where sp: "chs ?h = us @ t # vs" "\<forall>p\<in>set us. hn_id (hi_id hi ! p) \<noteq> i"
      by (rule find_split)
    have dist: "distinct (us @ t # vs)" using D(4) [OF B(1)] sp(1) by simp
    obtain ids' hs' where r: "hashid_remove hi i = Some (int t, hi\<lparr>hi_id := ids', hi_hash := hs', hi_count := hi_count hi - 1\<rparr>)"
      "length ids' = length (hi_id hi)" "ids' ! t = free_node"
      "\<forall>p<length ids'. p \<noteq> t \<longrightarrow> hn_id (ids' ! p) = hn_id (hi_id hi ! p)"
      "\<forall>p<length ids'. p \<notin> set (us @ t # vs) \<longrightarrow> ids' ! p = hi_id hi ! p"
      "length hs' = length (hi_hash hi)" "\<forall>h\<le>hi_hashmod hi. h \<noteq> ?h \<longrightarrow> hs' ! h = hi_hash hi ! h"
      "chain_at ids' (hs' ! ?h) (us @ vs)"
    proof (cases us)
      case Nil
      have c: "hi_hash hi ! ?h = Some t" "t < length (hi_id hi)" "chain_at (hi_id hi) (hn_next (hi_id hi ! t)) vs"
        using ch by (simp_all add: sp(1) Nil)
      let ?ids = "(hi_id hi)[t := free_node]" and ?hs = "(hi_hash hi)[?h := hn_next (hi_id hi ! t)]"
      have "hashid_remove hi i = Some (int t, hi\<lparr>hi_id := ?ids, hi_hash := ?hs, hi_count := hi_count hi - 1\<rparr>)"
        using c B(2) t(3) by (simp add: hashid_remove_def clear_node_def)
      moreover have "chain_at ?ids (hn_next (hi_id hi ! t)) vs"
        by (rule chain_at_cong [OF _ c(3)]) (use dist c(2) in \<open>auto simp: nth_list_update\<close>)
      ultimately show thesis using that [of ?hs ?ids] B(2) c(2) Nil by simp
    next
      case (Cons c xs)
      have c: "hi_hash hi ! ?h = Some c" "c < length (hi_id hi)" "chain_at (hi_id hi) (Some c) (c # xs @ t # vs)"
        using ch by (simp_all add: sp(1) Cons)
      have d2: "distinct (c # xs @ t # vs)" using dist Cons by simp
      have ne: "\<forall>p\<in>set xs. hn_id (hi_id hi ! p) \<noteq> i" "hn_id (hi_id hi ! c) \<noteq> i" using sp(2) Cons by simp_all
      obtain ids' where k: "remove_chain hi i c = Some (int t, hi\<lparr>hi_id := ids', hi_count := hi_count hi - 1\<rparr>)"
        "length ids' = length (hi_id hi)" "chain_at ids' (Some c) (c # xs @ vs)" "ids' ! t = free_node"
        "\<forall>p<length ids'. p \<noteq> t \<longrightarrow> hn_id (ids' ! p) = hn_id (hi_id hi ! p)"
        "\<forall>p<length ids'. p \<notin> set (c # xs @ t # vs) \<longrightarrow> ids' ! p = hi_id hi ! p"
        using remove_chain_ok [OF c(3) d2 ne(1) t(3)] by blast
      have "hi\<lparr>hi_id := ids', hi_hash := hi_hash hi, hi_count := hi_count hi - 1\<rparr> =
          hi\<lparr>hi_id := ids', hi_count := hi_count hi - 1\<rparr>" by simp
      with c ne(2) B(2) k(1) have "hashid_remove hi i =
          Some (int t, hi\<lparr>hi_id := ids', hi_hash := hi_hash hi, hi_count := hi_count hi - 1\<rparr>)"
        by (simp add: hashid_remove_def)
      with that [of "hi_hash hi" ids'] k c(1) Cons show thesis by simp
    qed
    let ?hi = "hi\<lparr>hi_id := ids', hi_hash := hs', hi_count := hi_count hi - 1\<rparr>"
    have "i \<noteq> -1" using t(1) by simp
    from hash_inv_freed [OF inv t(2,3) this sp(1) r(2-8)] have ok': "hash_ok ?hi" by (auto simp: hash_ok_def)
    have len: "length ids' = hi_cap hi" using r(2) D(1) by simp
    have "slot_of ?hi = (slot_of hi)(i := None)"
    proof (rule ext, rule option_eqI)
      fix j p
      show "slot_of ?hi j = Some p \<longleftrightarrow> ((slot_of hi)(i := None)) j = Some p"
      proof (cases "p = t")
        case True
        with r(3) t show ?thesis by (auto simp: slot_of_Some [OF ok'] slot_of_Some [OF ok])
      next
        case False
        have "p < hi_cap hi \<Longrightarrow> hn_id (ids' ! p) = hn_id (hi_id hi ! p)" using r(4) len False by simp
        moreover have "p < hi_cap hi \<Longrightarrow> hn_id (hi_id hi ! p) \<noteq> i"
          using D(7) [of p t] t False by auto
        ultimately show ?thesis by (auto simp: slot_of_Some [OF ok'] slot_of_Some [OF ok])
      qed
    qed
    with Some r(1) ok' show ?thesis by simp
  qed
qed


subsection \<open>Insertion\<close>

text \<open>The scan visits every residue, so it finds a free node when there is one.\<close>

lemma insert_scan_ok:
  assumes len: "length (hi_id hi) = hi_cap hi" and i: "0 \<le> i" "i + int (hi_cap hi) \<le> 2 ^ 31"
    and free: "\<exists>j. k \<le> j \<and> j < hi_cap hi \<and> hn_id (hi_id hi ! nat ((int j + i) mod int (hi_cap hi))) = -1"
  shows "\<exists>c. insert_scan hi i k = Some c \<and> c < hi_cap hi \<and> hn_id (hi_id hi ! c) = -1"
  using free
proof (induction "hi_cap hi - k" arbitrary: k)
  case 0
  then show ?case by auto
next
  case (Suc d)
  let ?c = "\<lambda>k. nat ((int k + i) mod int (hi_cap hi))"
  have cap: "0 < hi_cap hi" "k < hi_cap hi" using Suc.hyps(2) by auto
  have s: "to_s32 (int k + i) = int k + i" using i cap by (intro to_s32_id) auto
  have c: "?c k < hi_cap hi" using cap(1) by (simp add: nat_less_iff)
  have step: "insert_scan hi i k = (if hn_id (hi_id hi ! ?c k) = -1 then Some (?c k) else insert_scan hi i (k + 1))"
    using cap c len i(1) by (subst insert_scan.simps) (simp add: s)
  show ?case
  proof (cases "hn_id (hi_id hi ! ?c k) = -1")
    case True
    with step c show ?thesis by simp
  next
    case False
    obtain j where j: "k \<le> j" "j < hi_cap hi" "hn_id (hi_id hi ! ?c j) = -1" using Suc.prems by blast
    with False have "k + 1 \<le> j" by (cases "k = j") auto
    with j have "\<exists>j. k + 1 \<le> j \<and> j < hi_cap hi \<and> hn_id (hi_id hi ! ?c j) = -1" by blast
    from Suc.hyps(1) [OF _ this] Suc.hyps(2) False step show ?thesis by auto
  qed
qed

lemma residue_hit:
  assumes "p < cap" "0 \<le> i" shows "\<exists>j<cap. nat ((int j + i) mod int cap) = p"
proof -
  let ?j = "nat ((int p - i) mod int cap)"
  have cap: "0 < int cap" using assms(1) by simp
  have j: "int ?j = (int p - i) mod int cap" using cap by simp
  then have "(int ?j + i) mod int cap = ((int p - i) + i) mod int cap" by (simp only: mod_add_left_eq)
  also have "\<dots> = int p" using assms(1) by simp
  finally have "nat ((int ?j + i) mod int cap) = p" by simp
  moreover have "?j < cap" using cap by (simp add: nat_less_iff)
  ultimately show ?thesis by blast
qed

lemma exists_free:
  assumes inv: "hash_inv hi chs" and room: "hi_count hi < int (hi_cap hi)"
  shows "\<exists>p<hi_cap hi. hn_id (hi_id hi ! p) = -1"
proof (rule ccontr)
  assume "\<not> ?thesis"
  then have "{p. p < hi_cap hi \<and> hn_id (hi_id hi ! p) \<noteq> -1} = {..<hi_cap hi}" by auto
  with hash_invD(8) [OF inv] room show False by simp
qed

definition insert_room :: "hashid \<Rightarrow> int \<Rightarrow> bool" where
  "insert_room hi i \<longleftrightarrow> 0 \<le> i \<and> i + int (hi_cap hi) \<le> 2 ^ 31 \<and> slot_of hi i = None \<and> \<not> hashid_full hi"

lemma count_le: "hash_inv hi chs \<Longrightarrow> hi_count hi \<le> int (hi_cap hi)"
proof -
  assume inv: "hash_inv hi chs"
  have "card {p. p < hi_cap hi \<and> hn_id (hi_id hi ! p) \<noteq> -1} \<le> card {..<hi_cap hi}"
    by (rule card_mono) auto
  with hash_invD(8) [OF inv] show ?thesis by simp
qed

lemma hashid_insert_ok:
  assumes ok: "hash_ok hi" and room: "insert_room hi i"
  shows "\<exists>c hi'. hashid_insert hi i = Some (int c, hi') \<and> hash_ok hi' \<and> c < hi_cap hi \<and> c \<notin> ran (slot_of hi) \<and>
    slot_of hi' = (slot_of hi)(i \<mapsto> c) \<and> hi_cap hi' = hi_cap hi \<and> hi_count hi' = hi_count hi + 1"
proof -
  obtain chs where inv: "hash_inv hi chs" using ok by (auto simp: hash_ok_def)
  note D = hash_invD [OF inv] and B = hash_inv_hash [OF inv, of i]
  have r: "0 \<le> i" "i + int (hi_cap hi) \<le> 2 ^ 31" "slot_of hi i = None" "hi_count hi < int (hi_cap hi)"
    using room count_le [OF inv] by (auto simp: insert_room_def hashid_full_def)
  obtain p where p: "p < hi_cap hi" "hn_id (hi_id hi ! p) = -1" using exists_free [OF inv r(4)] by blast
  have "\<exists>j. 0 \<le> j \<and> j < hi_cap hi \<and> hn_id (hi_id hi ! nat ((int j + i) mod int (hi_cap hi))) = -1"
    using residue_hit [OF p(1) r(1)] p(2) by blast
  from insert_scan_ok [OF D(1) r(1,2) this] obtain c where c: "insert_scan hi i 0 = Some c" "c < hi_cap hi"
    "hn_id (hi_id hi ! c) = -1" by blast
  have free: "hi_id hi ! c = free_node" using D(6) [OF c(2)] c(3) by auto
  let ?h = "hash_of hi i"
  let ?ids = "(hi_id hi)[c := \<lparr>hn_id = i, hn_next = hi_hash hi ! ?h\<rparr>]" and ?hs = "(hi_hash hi)[?h := Some c]"
  let ?hi = "hi\<lparr>hi_id := ?ids, hi_hash := ?hs, hi_count := hi_count hi + 1\<rparr>"
  let ?chs = "chs(?h := c # chs ?h)"
  have ins: "hashid_insert hi i = Some (int c, ?hi)"
    using c free B(2) D(1) by (simp add: hashid_insert_def)
  have hash: "hash_of ?hi = hash_of hi" by (simp add: hash_of_def fun_eq_iff)
  have absent: "hn_id (hi_id hi ! p) \<noteq> i" if "p < hi_cap hi" for p
    using r(1,3) that slot_of_Some [OF ok, of i p] by auto
  have cnotin: "c \<notin> set (chs h)" if "h \<le> hi_hashmod hi" for h
    using D(5) [OF that, of c] c(3) by simp
  have id': "hn_id (?ids ! p) = (if p = c then i else hn_id (hi_id hi ! p))" if "p < hi_cap hi" for p
    using that D(1) by (simp add: nth_list_update)
  have old: "chain_at ?ids (hi_hash hi ! h) (chs h)" if h: "h \<le> hi_hashmod hi" for h
    by (rule chain_at_cong [OF _ D(3) [OF h]]) (use cnotin [OF h] c(2) D(1) in \<open>auto simp: nth_list_update\<close>)
  have chain: "chain_at ?ids (?hs ! h) (?chs h) \<and> distinct (?chs h) \<and>
      (\<forall>p. p \<in> set (?chs h) \<longleftrightarrow> p < hi_cap hi \<and> hn_id (?ids ! p) \<noteq> -1 \<and> hash_of hi (hn_id (?ids ! p)) = h)"
    if h: "h \<le> hi_hashmod hi" for h
  proof -
    have "p \<in> set (?chs h) \<longleftrightarrow> p < hi_cap hi \<and> hn_id (?ids ! p) \<noteq> -1 \<and> hash_of hi (hn_id (?ids ! p)) = h" for p
      using D(5) [OF h, of p] c r(1) id' [of p] by (cases "p = c") auto
    moreover have "chain_at ?ids (?hs ! h) (?chs h)"
      using old [OF h] old [OF B(1)] c(2) D(1) B(2) h D(2) by (auto simp: nth_list_update)
    moreover have "distinct (?chs h)" using D(4) [OF h] cnotin [OF h] by (cases "h = ?h") simp_all
    ultimately show ?thesis by blast
  qed
  have used: "{p. p < hi_cap hi \<and> hn_id (?ids ! p) \<noteq> -1} = insert c {p. p < hi_cap hi \<and> hn_id (hi_id hi ! p) \<noteq> -1}"
    using id' c r(1) by (auto split: if_splits)
  have "c \<notin> {p. p < hi_cap hi \<and> hn_id (hi_id hi ! p) \<noteq> -1}" using c(3) by simp
  with used D(8) have cnt: "hi_count hi + 1 = int (card {p. p < hi_cap hi \<and> hn_id (?ids ! p) \<noteq> -1})" by simp
  have nodes: "0 \<le> hn_id (?ids ! p) \<or> ?ids ! p = free_node" if "p < hi_cap hi" for p
    using D(6) [OF that] id' [OF that] r(1) by (cases "p = c") auto
  have inj: "p = q" if "p < hi_cap hi" "q < hi_cap hi" "hn_id (?ids ! p) = hn_id (?ids ! q)" "hn_id (?ids ! p) \<noteq> -1" for p q
    using that D(7) [of p q] id' absent by (auto split: if_splits)
  have k: "\<exists>k. hi_hashmod hi = 2 ^ k - 1" using inv unfolding hash_inv_def by blast
  have "hash_inv ?hi ?chs"
    unfolding hash_inv_def hash using k D(1,2) chain nodes inj cnt by simp
  then have ok': "hash_ok ?hi" by (auto simp: hash_ok_def)
  have "slot_of ?hi = (slot_of hi)(i \<mapsto> c)"
  proof (rule ext, rule option_eqI)
    fix j p
    show "slot_of ?hi j = Some p \<longleftrightarrow> ((slot_of hi)(i \<mapsto> c)) j = Some p"
      using id' [of p] c r(1) absent [of p]
      by (cases "p = c") (auto simp: slot_of_Some [OF ok'] slot_of_Some [OF ok])
  qed
  moreover have "c \<notin> ran (slot_of hi)" using c(3) by (auto simp: ran_def slot_of_Some [OF ok])
  ultimately show ?thesis using ins ok' c(2) by (intro exI [of _ c] exI [of _ ?hi]) simp
qed


subsection \<open>The empty table\<close>

lemma hash_cap_pow: "\<exists>k. hash_cap (2 ^ j) mx = 2 ^ k"
proof (induction "mx - 2 ^ j" arbitrary: j rule: less_induct)
  case less
  show ?case
  proof (cases "2 ^ j < mx")
    case True
    have p: "0 < (2::nat) ^ j" by simp
    from less [of "Suc j"] True p obtain k where "hash_cap (2 ^ Suc j) mx = 2 ^ k"
      by (metis diff_less_mono2 less_Suc_eq less_trans_Suc power_strict_increasing_iff one_less_numeral_iff semiring_norm(76))
    with True p show ?thesis by (subst hash_cap.simps) (auto simp: mult.commute)
  next
    case False
    then show ?thesis by (subst hash_cap.simps) auto
  qed
qed

lemma hashid_init_ok: "hash_ok (hashid_init mx)" "slot_of (hashid_init mx) = Map.empty"
  "hi_cap (hashid_init mx) = mx" "hi_count (hashid_init mx) = 0"
proof -
  obtain k where k: "hash_cap 16 mx = 2 ^ k" using hash_cap_pow [of 4 mx] by auto
  have lt: "h < 2 ^ k" if "h \<le> 2 ^ k - Suc 0" for h using that zero_less_power [of "2::nat" k] by linarith
  have "hash_inv (hashid_init mx) (\<lambda>_. [])"
    unfolding hash_inv_def using k lt by (auto simp: hashid_init_def Let_def)
  then show ok: "hash_ok (hashid_init mx)" by (auto simp: hash_ok_def)
  show "slot_of (hashid_init mx) = Map.empty"
    by (auto simp: slot_of_def hashid_init_def Let_def find_None_iff fun_eq_iff)
  show "hi_cap (hashid_init mx) = mx" "hi_count (hashid_init mx) = 0" by (simp_all add: hashid_init_def Let_def)
qed

subsection \<open>The table as an allocating table\<close>

definition hash_add :: "hashid \<Rightarrow> int \<Rightarrow> ((int \<times> nat) \<times> hashid) option" where
  "hash_add hi i = map_option (\<lambda>(c, hi'). ((i, nat c), hi')) (hashid_insert hi i)"

definition hash_del :: "hashid \<Rightarrow> int \<Rightarrow> (nat option \<times> hashid) option" where
  "hash_del hi i = map_option (\<lambda>(c, hi'). (if c < 0 then None else Some (nat c), hi')) (hashid_remove hi i)"

lemma hash_add_ok:
  assumes "hash_ok hi" "insert_room hi i"
  shows "\<exists>k v hi'. hash_add hi i = Some ((k, v), hi') \<and> hash_ok hi' \<and> slot_of hi k = None \<and>
    v \<notin> ran (slot_of hi) \<and> slot_of hi' = (slot_of hi)(k \<mapsto> v)"
proof -
  obtain c hi' where "hashid_insert hi i = Some (int c, hi')" "hash_ok hi'" "c \<notin> ran (slot_of hi)"
    "slot_of hi' = (slot_of hi)(i \<mapsto> c)" using hashid_insert_ok [OF assms] by blast
  moreover have "slot_of hi i = None" using assms(2) by (simp add: insert_room_def)
  ultimately show ?thesis by (intro exI [of _ i] exI [of _ c] exI [of _ hi']) (simp add: hash_add_def)
qed

lemma hash_del_ok:
  assumes "hash_ok hi"
  shows "\<exists>hi'. hash_del hi i = Some (slot_of hi i, hi') \<and> hash_ok hi' \<and> slot_of hi' = (slot_of hi)(i := None)"
proof (cases "slot_of hi i")
  case None
  with hashid_remove_ok [OF assms, of i] assms show ?thesis
    by (intro exI [of _ hi]) (simp add: hash_del_def fun_upd_idem)
next
  case (Some p)
  with hashid_remove_ok [OF assms, of i] obtain hi' where
    "hashid_remove hi i = Some (int p, hi')" "hash_ok hi'" "slot_of hi' = (slot_of hi)(i := None)" by auto
  with Some show ?thesis by (intro exI [of _ hi']) (simp add: hash_del_def)
qed

interpretation hashes: id_table slot_of hash_add hash_del hash_ok insert_room
proof
  fix hi i j p
  assume "hash_ok hi" "slot_of hi i = Some p" "slot_of hi j = Some p"
  then show "i = j" by (simp add: slot_of_Some)
qed (fact hash_add_ok hash_del_ok)+

subsection \<open>Properties\<close>

text \<open>
  C23: the connection table of the gate. An accepted socket id that is not in the table gets a
  slot that no other id has, every other id keeps its slot, and removing it gives the slot
  back and leaves the table as a map as it was; the lookup answers the slot of an id, or -1.
\<close>

theorem hashid_allocates:
  assumes ok: "hash_ok hi" and room: "insert_room hi i"
  shows "\<exists>c hi1 hi2. hashid_insert hi i = Some (int c, hi1) \<and> hash_ok hi1 \<and> c < hi_cap hi \<and> c \<notin> ran (slot_of hi) \<and>
    (\<forall>j. hashid_lookup hi1 j = (if j = i then Some (int c) else hashid_lookup hi j)) \<and>
    hashid_remove hi1 i = Some (int c, hi2) \<and> hash_ok hi2 \<and> (\<forall>j. hashid_lookup hi2 j = hashid_lookup hi j) \<and>
    hi_count hi2 = hi_count hi"
proof -
  obtain c hi1 where a: "hashid_insert hi i = Some (int c, hi1)" "hash_ok hi1" "c < hi_cap hi" "c \<notin> ran (slot_of hi)"
    "slot_of hi1 = (slot_of hi)(i \<mapsto> c)" "hi_count hi1 = hi_count hi + 1"
    using hashid_insert_ok [OF ok room] by blast
  have new: "slot_of hi i = None" using room by (simp add: insert_room_def)
  obtain hi2 where r: "hashid_remove hi1 i = Some (int c, hi2)" "hash_ok hi2" "slot_of hi2 = (slot_of hi1)(i := None)"
    "hi_count hi2 = hi_count hi1 - 1" using hashid_remove_ok [OF a(2), of i] a(5) by auto
  have "slot_of hi2 = slot_of hi" using new by (auto simp: r(3) a(5) fun_eq_iff)
  with a r show ?thesis
    by (intro exI [of _ c] exI [of _ hi1] exI [of _ hi2])
      (simp add: hashid_lookup_ok [OF ok] hashid_lookup_ok [OF a(2)] hashid_lookup_ok [OF r(2)])
qed

theorem hashid_allocates_witness:
  "\<exists>c hi1. hashid_insert (hashid_init 4) 17 = Some (int c, hi1) \<and> hashid_lookup hi1 17 = Some (int c) \<and> c < 4"
proof -
  have "insert_room (hashid_init 4) 17" by (simp add: insert_room_def hashid_init_ok hashid_full_def)
  from hashid_allocates [OF hashid_init_ok(1) this] show ?thesis by (auto simp: hashid_init_ok)
qed

definition full_node_table :: hashid where
  "full_node_table = \<lparr>hi_hashmod = 15, hi_cap = 3, hi_count = 1,
     hi_id = [\<lparr>hn_id = -1, hn_next = None\<rparr>, \<lparr>hn_id = 1, hn_next = None\<rparr>, \<lparr>hn_id = -1, hn_next = None\<rparr>],
     hi_hash = (replicate 16 None)[1 := Some 1]\<rparr>"

text \<open>
  The scan of \<open>hashid_insert\<close> adds its counter to the socket id in an \<open>int\<close>. For an id near
  the largest \<open>int\<close> whose first node is taken, the sum overflows and the index is negative: the
  code reads outside the table although a node is free.
\<close>

theorem hashid_insert_overflow:
  "hashid_insert (hashid_init 3) 1 = Some (1, full_node_table) \<and> \<not> hashid_full full_node_table \<and>
   hashid_insert full_node_table (2 ^ 31 - 1) = None"
proof -
  have "hash_cap 16 3 = 16" by (subst hash_cap.simps) simp
  moreover have "replicate 3 free_node = [free_node, free_node, free_node]" by (simp add: numeral_3_eq_3)
  ultimately have init: "hashid_init 3 = \<lparr>hi_hashmod = 15, hi_cap = 3, hi_count = 0,
      hi_id = [free_node, free_node, free_node], hi_hash = replicate 16 None\<rparr>"
    by (simp add: hashid_init_def Let_def)
  have "insert_scan (hashid_init 3) 1 0 = Some 1"
    by (subst insert_scan.simps) (simp add: init to_s32_def Let_def)
  then have "hashid_insert (hashid_init 3) 1 = Some (1, full_node_table)"
    by (simp add: hashid_insert_def init full_node_table_def hash_of_def)
  moreover have "insert_scan full_node_table (2 ^ 31 - 1) 1 = None"
    by (subst insert_scan.simps) (simp add: full_node_table_def to_s32_def)
  then have "insert_scan full_node_table (2 ^ 31 - 1) 0 = None"
    by (subst insert_scan.simps) (simp add: full_node_table_def to_s32_def Let_def)
  then have "hashid_insert full_node_table (2 ^ 31 - 1) = None" by (simp add: hashid_insert_def)
  ultimately show ?thesis by (simp add: hashid_full_def full_node_table_def)
qed

end
