(* ===== verification/Databuffer.thy ===== *)
theory Databuffer
  imports C_Strings
begin

text \<open>
  The receive buffer of a connection: \<^verbatim>\<open>service-src/databuffer.h\<close>. The linked list of
  chunks from \<open>head\<close> to \<open>tail\<close> is a list, a chunk is its bytes, and the pool is the number
  of its blocks and of its free nodes. \<open>stream\<close> is the buffer as the bytes not yet read.
\<close>

subsection \<open>Data\<close>

record databuffer =
  db_header :: int
  db_offset :: nat
  db_size :: int
  db_msgs :: "u8 list list"

record messagepool =
  mp_pools :: nat
  mp_free :: nat

definition MESSAGEPOOL :: nat where "MESSAGEPOOL = 1023"

definition databuffer_zero :: databuffer where
  "databuffer_zero = \<lparr>db_header = 0, db_offset = 0, db_size = 0, db_msgs = []\<rparr>"

definition messagepool_free :: "messagepool \<Rightarrow> messagepool" where
  "messagepool_free mp = \<lparr>mp_pools = 0, mp_free = 0\<rparr>"

subsection \<open>Operations\<close>

definition return_message :: "databuffer \<Rightarrow> messagepool \<Rightarrow> (databuffer \<times> messagepool) option" where
  "return_message db mp =
     (case db_msgs db of
        [] \<Rightarrow> None
      | m # ms \<Rightarrow> Some (db\<lparr>db_msgs := ms\<rparr>, mp\<lparr>mp_free := mp_free mp + 1\<rparr>))"

text \<open>The \<open>for (;;)\<close> loop of \<open>databuffer_read\<close>: the bytes it copies out.\<close>

function read_loop :: "databuffer \<Rightarrow> messagepool \<Rightarrow> int \<Rightarrow> (u8 list \<times> databuffer \<times> messagepool) option" where
  "read_loop db mp sz =
     (case db_msgs db of
        [] \<Rightarrow> None
      | current # ms \<Rightarrow>
          (let bsz = int (length current) - int (db_offset db) in
           if bsz < 0 \<or> sz < 0 then None
           else if bsz > sz then
             Some (take (nat sz) (drop (db_offset db) current), db\<lparr>db_offset := db_offset db + nat sz\<rparr>, mp)
           else if bsz = sz then do {
             (db1, mp1) \<leftarrow> return_message (db\<lparr>db_offset := 0\<rparr>) mp;
             Some (drop (db_offset db) current, db1, mp1)
           } else do {
             (rest, db2, mp2) \<leftarrow> read_loop (db\<lparr>db_msgs := ms, db_offset := 0\<rparr>) (mp\<lparr>mp_free := mp_free mp + 1\<rparr>) (sz - bsz);
             Some (drop (db_offset db) current @ rest, db2, mp2)
           }))"
  by pat_completeness auto
termination by (relation "measure (\<lambda>(db, mp, sz). length (db_msgs db))") auto

declare read_loop.simps [simp del]

definition databuffer_read :: "databuffer \<Rightarrow> messagepool \<Rightarrow> int \<Rightarrow> (u8 list \<times> databuffer \<times> messagepool) option" where
  "databuffer_read db mp sz = do {
     c_assert (db_size db \<ge> sz);
     read_loop (db\<lparr>db_size := db_size db - sz\<rparr>) mp sz
   }"

text \<open>A chunk takes a node of the pool, which grows by \<open>MESSAGEPOOL\<close> nodes when it is empty.\<close>

definition databuffer_push :: "databuffer \<Rightarrow> messagepool \<Rightarrow> u8 list \<Rightarrow> databuffer \<times> messagepool" where
  "databuffer_push db mp data =
     (db\<lparr>db_size := db_size db + int (length data), db_msgs := db_msgs db @ [data]\<rparr>,
      if mp_free mp > 0 then mp\<lparr>mp_free := mp_free mp - 1\<rparr>
      else mp\<lparr>mp_pools := mp_pools mp + 1, mp_free := MESSAGEPOOL - 1\<rparr>)"

text \<open>Big endian; the four byte form is assembled in an \<open>int\<close>.\<close>

definition be_int :: "u8 list \<Rightarrow> int" where
  "be_int bs = foldl (\<lambda>a b. a * 256 + uint b) 0 bs"

definition header_int :: "nat \<Rightarrow> u8 list \<Rightarrow> int" where
  "header_int header_size plen = (if header_size = 2 then be_int plen else to_s32 (be_int plen))"

definition databuffer_readheader :: "databuffer \<Rightarrow> messagepool \<Rightarrow> nat \<Rightarrow> (int \<times> databuffer \<times> messagepool) option" where
  "databuffer_readheader db mp header_size =
     (if db_header db = 0 \<and> db_size db < int header_size then Some (-1, db, mp)
      else do {
        (db1, mp1) \<leftarrow> (if db_header db = 0 then do {
             (plen, db1, mp1) \<leftarrow> databuffer_read db mp (int header_size);
             Some (db1\<lparr>db_header := header_int header_size plen\<rparr>, mp1)
           } else Some (db, mp));
        Some (if db_size db1 < db_header db1 then -1 else db_header db1, db1, mp1)
      })"

definition databuffer_reset :: "databuffer \<Rightarrow> databuffer" where
  "databuffer_reset db = db\<lparr>db_header := 0\<rparr>"

definition databuffer_clear :: "databuffer \<Rightarrow> messagepool \<Rightarrow> databuffer \<times> messagepool" where
  "databuffer_clear db mp = (databuffer_zero, mp\<lparr>mp_free := mp_free mp + length (db_msgs db)\<rparr>)"

subsection \<open>The buffer as a byte stream\<close>

definition stream :: "databuffer \<Rightarrow> u8 list" where
  "stream db = drop (db_offset db) (concat (db_msgs db))"

definition offset_ok :: "databuffer \<Rightarrow> bool" where
  "offset_ok db \<longleftrightarrow> (case db_msgs db of [] \<Rightarrow> db_offset db = 0 | m # _ \<Rightarrow> db_offset db \<le> length m)"

definition db_ok :: "databuffer \<Rightarrow> bool" where
  "db_ok db \<longleftrightarrow> db_size db = int (length (stream db)) \<and> offset_ok db"

lemma offset_frame [simp]:
  "offset_ok (db\<lparr>db_size := x\<rparr>) = offset_ok db" "offset_ok (db\<lparr>db_header := y\<rparr>) = offset_ok db"
  "stream (db\<lparr>db_size := x\<rparr>) = stream db" "stream (db\<lparr>db_header := y\<rparr>) = stream db"
  "db_ok (db\<lparr>db_header := y\<rparr>) = db_ok db"
  by (cases "db_msgs db"; simp add: offset_ok_def stream_def db_ok_def)+

text \<open>The nodes of the pool are in the buffers or in the free list.\<close>

lemma db_ok_zero: "db_ok databuffer_zero" "stream databuffer_zero = []"
  by (simp_all add: db_ok_def stream_def databuffer_zero_def offset_ok_def)

lemma push_ok:
  "db_ok db \<Longrightarrow> db_ok (fst (databuffer_push db mp data)) \<and>
     stream (fst (databuffer_push db mp data)) = stream db @ data \<and>
     db_header (fst (databuffer_push db mp data)) = db_header db"
  by (cases "db_msgs db") (auto simp: db_ok_def stream_def databuffer_push_def offset_ok_def)

lemma read_loop_Cons:
  assumes msgs: "db_msgs db = cur # ms" and b: "length cur = db_offset db + b"
  shows "read_loop db mp (int n) =
    (if n < b then Some (take n (drop (db_offset db) cur), db\<lparr>db_offset := db_offset db + n\<rparr>, mp)
     else if n = b then Some (drop (db_offset db) cur, db\<lparr>db_offset := 0, db_msgs := ms\<rparr>, mp\<lparr>mp_free := mp_free mp + 1\<rparr>)
     else read_loop (db\<lparr>db_msgs := ms, db_offset := 0\<rparr>) (mp\<lparr>mp_free := mp_free mp + 1\<rparr>) (int n - int b)
       \<bind> (\<lambda>(rest, db2, mp2). Some (drop (db_offset db) cur @ rest, db2, mp2)))"
proof -
  have "int (length cur) - int (db_offset db) = int b" using b by simp
  then show ?thesis
    by (subst read_loop.simps) (auto simp: msgs Let_def return_message_def)
qed

lemma read_loop_ok:
  "offset_ok db \<Longrightarrow>
   0 < n \<Longrightarrow> n \<le> length (stream db) \<Longrightarrow>
   \<exists>db' mp'. read_loop db mp (int n) = Some (take n (stream db), db', mp') \<and> stream db' = drop n (stream db) \<and>
     offset_ok db' \<and> db_size db' = db_size db \<and> db_header db' = db_header db \<and>
     mp_free mp' + length (db_msgs db') = mp_free mp + length (db_msgs db) \<and> mp_pools mp' = mp_pools mp"
proof (induction "db_msgs db" arbitrary: db mp n)
  case Nil
  then show ?case by (simp add: stream_def flip: Nil.hyps)
next
  case (Cons cur ms)
  note msgs = Cons.hyps(2) [symmetric]
  let ?off = "db_offset db" and ?b = "length cur - db_offset db"
  have off: "?off \<le> length cur" using Cons.prems(1) by (simp add: msgs offset_ok_def)
  have str: "stream db = drop ?off cur @ concat ms" using off by (simp add: stream_def msgs)
  have "length cur = ?off + ?b" using off by simp
  note step = read_loop_Cons [OF msgs this, of mp n]
  consider "n < ?b" | "n = ?b" | "?b < n" by linarith
  then show ?case
  proof cases
    case 1
    then have "read_loop db mp (int n) = Some (take n (drop ?off cur), db\<lparr>db_offset := ?off + n\<rparr>, mp)"
      by (simp add: step)
    moreover have "stream (db\<lparr>db_offset := ?off + n\<rparr>) = drop n (stream db)"
      using 1 off by (simp add: stream_def msgs add.commute)
    moreover have "offset_ok (db\<lparr>db_offset := ?off + n\<rparr>)" using 1 by (simp add: offset_ok_def msgs)
    moreover have "take n (stream db) = take n (drop ?off cur)" using 1 by (simp add: str)
    ultimately show ?thesis by simp
  next
    case 2
    then have "read_loop db mp (int n) = Some (drop ?off cur, db\<lparr>db_offset := 0, db_msgs := ms\<rparr>, mp\<lparr>mp_free := mp_free mp + 1\<rparr>)"
      unfolding step by simp
    moreover have "stream (db\<lparr>db_offset := 0, db_msgs := ms\<rparr>) = drop n (stream db)"
      using 2 by (simp add: str) (simp add: stream_def)
    moreover have "offset_ok (db\<lparr>db_offset := 0, db_msgs := ms\<rparr>)" by (simp add: offset_ok_def split: list.split)
    moreover have "take n (stream db) = drop ?off cur" using 2 by (simp add: str)
    ultimately show ?thesis by (simp add: msgs)
  next
    case 3
    let ?db = "db\<lparr>db_msgs := ms, db_offset := 0\<rparr>" and ?mp = "mp\<lparr>mp_free := mp_free mp + 1\<rparr>"
    have s2: "stream ?db = concat ms" by (simp add: stream_def)
    have "ms = db_msgs ?db" "offset_ok ?db"
      "0 < n - ?b" "n - ?b \<le> length (stream ?db)"
      using 3 Cons.prems(3) by (auto simp: str s2 offset_ok_def split: list.split)
    from Cons.hyps(1) [OF this, of ?mp] obtain db' mp' where
      r: "read_loop ?db ?mp (int (n - ?b)) = Some (take (n - ?b) (concat ms), db', mp')"
      "stream db' = drop (n - ?b) (concat ms)"
      "offset_ok db'" "db_size db' = db_size db" "db_header db' = db_header db"
      "mp_free mp' + length (db_msgs db') = mp_free mp + 1 + length ms" "mp_pools mp' = mp_pools mp"
      by (auto simp: s2)
    have "int n - int ?b = int (n - ?b)" using 3 by (simp add: of_nat_diff less_imp_le)
    then have "read_loop db mp (int n) = Some (drop ?off cur @ take (n - ?b) (concat ms), db', mp')"
      using 3 r(1) unfolding step by simp
    moreover have "take n (stream db) = drop ?off cur @ take (n - ?b) (concat ms)"
      "drop n (stream db) = drop (n - ?b) (concat ms)" using 3 by (simp_all add: str)
    ultimately show ?thesis using r(2-) by (simp add: msgs)
  qed
qed

lemma databuffer_read_ok:
  assumes ok: "db_ok db" and n: "0 < n" "n \<le> length (stream db)"
  shows "\<exists>db' mp'. databuffer_read db mp (int n) = Some (take n (stream db), db', mp') \<and> db_ok db' \<and>
    stream db' = drop n (stream db) \<and> db_header db' = db_header db \<and>
    mp_free mp' + length (db_msgs db') = mp_free mp + length (db_msgs db) \<and> mp_pools mp' = mp_pools mp"
proof -
  let ?db = "db\<lparr>db_size := db_size db - int n\<rparr>"
  have "offset_ok ?db" using ok by (simp add: db_ok_def)
  from read_loop_ok [OF this n(1), of mp] n(2) obtain db' mp' where
    r: "read_loop ?db mp (int n) = Some (take n (stream db), db', mp')" "stream db' = drop n (stream db)"
    "offset_ok db'" "db_size db' = db_size db - int n" "db_header db' = db_header db"
    "mp_free mp' + length (db_msgs db') = mp_free mp + length (db_msgs db)" "mp_pools mp' = mp_pools mp"
    by auto
  have "db_ok db'" using r(2-4) ok n by (simp add: db_ok_def of_nat_diff)
  moreover have "databuffer_read db mp (int n) = Some (take n (stream db), db', mp')"
    using r(1) ok n by (simp add: databuffer_read_def db_ok_def)
  ultimately show ?thesis using r by simp
qed

subsection \<open>The interface of a stream of bytes\<close>

definition db_push :: "databuffer \<times> messagepool \<Rightarrow> u8 list \<Rightarrow> (databuffer \<times> messagepool) option" where
  "db_push s c = Some (databuffer_push (fst s) (snd s) c)"

definition db_pop :: "databuffer \<times> messagepool \<Rightarrow> nat \<Rightarrow> (u8 list \<times> databuffer \<times> messagepool) option" where
  "db_pop s n = databuffer_read (fst s) (snd s) (int n)"

definition db_rep :: "databuffer \<times> messagepool \<Rightarrow> u8 list \<Rightarrow> bool" where
  "db_rep s bs \<longleftrightarrow> db_ok (fst s) \<and> stream (fst s) = bs"

interpretation received: byte_stream db_push db_pop db_rep "\<lambda>_. True"
proof
  show "\<exists>s'. db_push s c = Some s' \<and> db_rep s' (bs @ c)" if "db_rep s bs" for s bs c
    using that push_ok [of "fst s" "snd s" c] by (auto simp: db_rep_def db_push_def)
  show "\<exists>s'. db_pop s n = Some (take n bs, s') \<and> db_rep s' (drop n bs)" if "db_rep s bs" "0 < n" "n \<le> length bs" for s bs n
    using that databuffer_read_ok [of "fst s" n "snd s"] by (auto simp: db_rep_def db_pop_def)
qed auto

text \<open>Parts of known sizes come out whole, however the data of a client was cut.\<close>

lemma databuffer_reads_parts:
  assumes "[] \<notin> set cs" "[] \<notin> set xs" "concat cs = concat xs @ rest" "db_ok db" "stream db = []"
  shows "\<exists>s1 s2. received.push_all (db, mp) cs = Some s1 \<and> received.pop_all s1 (map length xs) = Some (xs, s2) \<and> db_rep s2 rest"
  by (rule received.reads_parts) (use assms in \<open>auto simp: db_rep_def\<close>)

end
