(* ===== verification/Gate.thy ===== *)
theory Gate
  imports Hashid Databuffer Message_Queue Server
begin

text \<open>
  The gate service \<^verbatim>\<open>service-src/service_gate.c\<close>: it listens, accepts sockets, cuts their
  byte streams into packets and forwards these to an agent, a broker or the watchdog. What it
  asks of the runtime is a list of \<open>gate_out\<close>, in the order of the calls.
\<close>

subsection \<open>Data\<close>

definition SKYNET_SOCKET_TYPE_DATA :: int where "SKYNET_SOCKET_TYPE_DATA = 1"
definition SKYNET_SOCKET_TYPE_CONNECT :: int where "SKYNET_SOCKET_TYPE_CONNECT = 2"
definition SKYNET_SOCKET_TYPE_CLOSE :: int where "SKYNET_SOCKET_TYPE_CLOSE = 3"
definition SKYNET_SOCKET_TYPE_ACCEPT :: int where "SKYNET_SOCKET_TYPE_ACCEPT = 4"
definition SKYNET_SOCKET_TYPE_ERROR :: int where "SKYNET_SOCKET_TYPE_ERROR = 5"
definition SKYNET_SOCKET_TYPE_WARNING :: int where "SKYNET_SOCKET_TYPE_WARNING = 7"

lemmas socket_types = SKYNET_SOCKET_TYPE_DATA_def SKYNET_SOCKET_TYPE_CONNECT_def SKYNET_SOCKET_TYPE_CLOSE_def
  SKYNET_SOCKET_TYPE_ACCEPT_def SKYNET_SOCKET_TYPE_ERROR_def SKYNET_SOCKET_TYPE_WARNING_def

record connection =
  gc_id :: int
  gc_agent :: u32
  gc_client :: u32
  gc_remote_name :: string
  gc_buffer :: databuffer

record gate =
  g_listen_id :: int
  g_watchdog :: u32
  g_broker :: u32
  g_client_tag :: u32
  g_header_size :: nat
  g_max_connection :: nat
  g_hash :: hashid
  g_conn :: "connection list"
  g_mp :: messagepool

text \<open>What the gate asks of the runtime, in order.\<close>

datatype gate_out =
    OClose int
  | OStart int
  | OError string
  | OSend u32 u32 u32 int payload u64
  | OSocketSend u32 payload u64

definition gate_create :: gate where
  "gate_create = \<lparr>g_listen_id = -1, g_watchdog = 0, g_broker = 0, g_client_tag = 0, g_header_size = 0,
     g_max_connection = 0, g_hash = \<lparr>hi_hashmod = 0, hi_cap = 0, hi_count = 0, hi_id = [], hi_hash = []\<rparr>,
     g_conn = [], g_mp = \<lparr>mp_pools = 0, mp_free = 0\<rparr>\<rparr>"

definition conn_zero :: "int \<Rightarrow> connection" where
  "conn_zero i = \<lparr>gc_id = i, gc_agent = 0, gc_client = 0, gc_remote_name = [], gc_buffer = databuffer_zero\<rparr>"

definition gate_release :: "gate \<Rightarrow> gate_out list" where
  "gate_release g =
     map (OClose \<circ> gc_id) (filter (\<lambda>c. gc_id c \<ge> 0) (take (g_max_connection g) (g_conn g))) @
     (if g_listen_id g \<ge> 0 then [OClose (g_listen_id g)] else [])"

subsection \<open>Forwarding packets\<close>

definition gate_report :: "gate \<Rightarrow> string \<Rightarrow> gate_out list" where
  "gate_report g text =
     (if g_watchdog g = 0 then []
      else [OSend 0 (g_watchdog g) (of_int PTYPE_TEXT) 0 (PBytes (bytes_of text)) (of_nat (length text))])"

definition gate_forward :: "gate \<Rightarrow> connection \<Rightarrow> messagepool \<Rightarrow> int \<Rightarrow>
    (connection \<times> messagepool \<times> gate_out list) option" where
  "gate_forward g c mp sz =
     (let fd = gc_id c in
      if fd \<le> 0 then Some (c, mp, [])
      else if g_broker g \<noteq> 0 then do {
        (temp, db, mp1) \<leftarrow> databuffer_read (gc_buffer c) mp sz;
        Some (c\<lparr>gc_buffer := db\<rparr>, mp1,
          [OSend 0 (g_broker g) (g_client_tag g OR PTYPE_TAG_DONTCOPY) fd (PBytes temp) (of_int sz)])
      } else if gc_agent c \<noteq> 0 then do {
        (temp, db, mp1) \<leftarrow> databuffer_read (gc_buffer c) mp sz;
        Some (c\<lparr>gc_buffer := db\<rparr>, mp1,
          [OSend (gc_client c) (gc_agent c) (g_client_tag g OR PTYPE_TAG_DONTCOPY) fd (PBytes temp) (of_int sz)])
      } else if g_watchdog g \<noteq> 0 then do {
        let head = bytes_of (fmt_d (gc_id c) @ '' data '');
        (temp, db, mp1) \<leftarrow> databuffer_read (gc_buffer c) mp sz;
        Some (c\<lparr>gc_buffer := db\<rparr>, mp1,
          [OSend 0 (g_watchdog g) (of_int PTYPE_TEXT OR PTYPE_TAG_DONTCOPY) fd (PBytes (head @ temp))
             (of_int (sz + int (length head)))])
      } else Some (c, mp, []))"

text \<open>The loop of \<open>dispatch_message\<close>.\<close>

partial_function (option) packet_loop :: "gate \<Rightarrow> connection \<Rightarrow> messagepool \<Rightarrow> int \<Rightarrow>
    (connection \<times> messagepool \<times> gate_out list) option" where
  "packet_loop g c mp i = do {
     (sz, db, mp1) \<leftarrow> databuffer_readheader (gc_buffer c) mp (g_header_size g);
     let c1 = c\<lparr>gc_buffer := db\<rparr>;
     (if sz < 0 then Some (c1, mp1, [])
      else if sz > 0 then
        (if sz \<ge> 0x1000000 then
           (let (db2, mp2) = databuffer_clear db mp1 in
            Some (c1\<lparr>gc_buffer := db2\<rparr>, mp2, [OClose i, OError ''Recv socket message > 16M'']))
         else do {
           (c2, mp2, out) \<leftarrow> gate_forward g c1 mp1 sz;
           (c3, mp3, outs) \<leftarrow> packet_loop g (c2\<lparr>gc_buffer := databuffer_reset (gc_buffer c2)\<rparr>) mp2 i;
           Some (c3, mp3, out @ outs)
         })
      else packet_loop g c1 mp1 i)
   }"

definition gate_data :: "gate \<Rightarrow> connection \<Rightarrow> int \<Rightarrow> u8 list \<Rightarrow> (connection \<times> messagepool \<times> gate_out list) option" where
  "gate_data g c i data =
     (let (db, mp) = databuffer_push (gc_buffer c) (g_mp g) data in packet_loop g (c\<lparr>gc_buffer := db\<rparr>) mp i)"

subsection \<open>Socket messages\<close>

definition payload_bytes :: "payload \<Rightarrow> u8 list option" where
  "payload_bytes p = (case p of PBytes bs \<Rightarrow> Some bs | _ \<Rightarrow> None)"

definition c_str :: "string \<Rightarrow> string" where "c_str s = takeWhile (\<lambda>c. c \<noteq> CHR 0x00) s"

definition set_conn :: "gate \<Rightarrow> nat \<Rightarrow> connection \<Rightarrow> gate option" where
  "set_conn g k c = do { cs \<leftarrow> wr (g_conn g) k c; Some (g\<lparr>g_conn := cs\<rparr>) }"

definition dispatch_socket_message :: "gate \<Rightarrow> int \<Rightarrow> int \<Rightarrow> int \<Rightarrow> payload \<Rightarrow> u8 list \<Rightarrow>
    (gate \<times> gate_out list) option" where
  "dispatch_socket_message g ty mid ud buffer extra =
     (if ty = SKYNET_SOCKET_TYPE_DATA then do {
        k \<leftarrow> hashid_lookup (g_hash g) mid;
        (if k \<ge> 0 then do {
           c \<leftarrow> rd (g_conn g) (nat k);
           bs \<leftarrow> payload_bytes buffer;
           c_assert (ud = int (length bs));
           (c1, mp1, out) \<leftarrow> gate_data g c mid bs;
           g1 \<leftarrow> set_conn (g\<lparr>g_mp := mp1\<rparr>) (nat k) c1;
           Some (g1, out)
         } else Some (g, [OError (''Drop unknown connection '' @ fmt_d mid @ '' message''), OClose mid]))
      }
      else if ty = SKYNET_SOCKET_TYPE_CONNECT then
        (if mid = g_listen_id g then Some (g, [])
         else do {
           k \<leftarrow> hashid_lookup (g_hash g) mid;
           Some (g, if k < 0 then [OError (''Close unknown connection '' @ fmt_d mid), OClose mid] else [])
         })
      else if ty = SKYNET_SOCKET_TYPE_CLOSE \<or> ty = SKYNET_SOCKET_TYPE_ERROR then do {
        (k, h) \<leftarrow> hashid_remove (g_hash g) mid;
        (if k \<ge> 0 then do {
           c \<leftarrow> rd (g_conn g) (nat k);
           let (db, mp) = databuffer_clear (gc_buffer c) (g_mp g);
           g1 \<leftarrow> set_conn (g\<lparr>g_hash := h, g_mp := mp\<rparr>) (nat k) (conn_zero (-1));
           Some (g1, gate_report g (fmt_d mid @ '' close''))
         } else Some (g\<lparr>g_hash := h\<rparr>, []))
      }
      else if ty = SKYNET_SOCKET_TYPE_ACCEPT then do {
        c_assert (g_listen_id g = mid);
        (if hashid_full (g_hash g) then Some (g, [OClose ud])
         else do {
           (k, h) \<leftarrow> hashid_insert (g_hash g) ud;
           c \<leftarrow> rd (g_conn g) (nat k);
           let c1 = c\<lparr>gc_id := ud, gc_remote_name := c_str (string_of (take 31 extra))\<rparr>;
           g1 \<leftarrow> set_conn (g\<lparr>g_hash := h\<rparr>) (nat k) c1;
           Some (g1, gate_report g (fmt_d ud @ '' open '' @ fmt_d ud @ '' '' @ gc_remote_name c1 @ '':0'') @
             [OError (''socket open: '' @ fmt_x (of_int ud))])
         })
      }
      else if ty = SKYNET_SOCKET_TYPE_WARNING then
        Some (g, [OError (''fd ('' @ fmt_d mid @ '') send buffer ('' @ fmt_d ud @ '')K'')])
      else Some (g, []))"

subsection \<open>Control messages\<close>

text \<open>\<open>memcmp(command, name, i)\<close> where \<open>word\<close> is the first \<open>i\<close> characters of the command.\<close>

definition is_command :: "string \<Rightarrow> string \<Rightarrow> bool" where
  "is_command word name \<longleftrightarrow> take (length word) (name @ [CHR 0x00]) = word"

text \<open>
  \<open>_parm\<close>: what follows the command and its spaces is moved to the front of the array and
  terminated; behind the terminator the array keeps what it held.
\<close>

definition gate_parm :: "string \<Rightarrow> nat \<Rightarrow> string" where
  "gate_parm msg n = (let rest = dropWhile (\<lambda>c. c = CHR '' '') (drop n msg) in
     rest @ CHR 0x00 # drop (length rest + 1) (msg @ [CHR 0x00]))"

definition forward_agent :: "gate \<Rightarrow> int \<Rightarrow> u32 \<Rightarrow> u32 \<Rightarrow> gate option" where
  "forward_agent g fd agentaddr clientaddr = do {
     k \<leftarrow> hashid_lookup (g_hash g) fd;
     (if k \<ge> 0 then do {
        c \<leftarrow> rd (g_conn g) (nat k);
        set_conn g (nat k) (c\<lparr>gc_agent := agentaddr, gc_client := clientaddr\<rparr>)
      } else Some g)
   }"

text \<open>
  \<open>query\<close> stands for \<open>skynet_queryname\<close>. The second character of an empty field is the first
  one behind its terminator.
\<close>

definition gate_ctrl :: "(string \<Rightarrow> u32) \<Rightarrow> gate \<Rightarrow> string \<Rightarrow> (gate \<times> gate_out list) option" where
  "gate_ctrl query g msg =
     (if msg = [] then Some (g, [])
      else
        (let word = takeWhile (\<lambda>c. c \<noteq> CHR '' '') msg; tmp = gate_parm msg (length word); parm = c_str tmp in
         if is_command word ''kick'' then do {
           let uid = to_s32 (strtol10 parm);
           k \<leftarrow> hashid_lookup (g_hash g) uid;
           Some (g, if k \<ge> 0 then [OClose uid] else [])
         }
         else if is_command word ''forward'' then
           (case strsep parm {CHR '' ''} of
              (idstr, None) \<Rightarrow> Some (g, [])
            | (idstr, Some client1) \<Rightarrow>
                (case strsep client1 {CHR '' ''} of
                   (agent, None) \<Rightarrow> Some (g, [])
                 | (agent, Some client) \<Rightarrow> do {
                     let agent_text = (if agent = [] then client else tl agent);
                     let client_text = (if client = [] then c_str (drop (length parm + 1) tmp) else tl client);
                     g1 \<leftarrow> forward_agent g (to_s32 (strtol10 idstr)) (ucast (strtoul16 agent_text)) (ucast (strtoul16 client_text));
                     Some (g1, [])
                   }))
         else if is_command word ''broker'' then Some (g\<lparr>g_broker := query parm\<rparr>, [])
         else if is_command word ''start'' then do {
           let uid = to_s32 (strtol10 parm);
           k \<leftarrow> hashid_lookup (g_hash g) uid;
           Some (g, if k \<ge> 0 then [OStart uid] else [])
         }
         else if is_command word ''close'' then
           (if g_listen_id g \<ge> 0 then Some (g\<lparr>g_listen_id := -1\<rparr>, [OClose (g_listen_id g)]) else Some (g, []))
         else Some (g, [OError (''[gate] Unkown command : '' @ c_str msg)])))"

text \<open>The message callback; the result says whether the message must not be freed.\<close>

definition le_u32 :: "u8 list \<Rightarrow> u32" where
  "le_u32 bs = foldr (\<lambda>b a. push_bit 8 a OR ucast b) bs 0"

definition gate_cb :: "(string \<Rightarrow> u32) \<Rightarrow> gate \<Rightarrow> int \<Rightarrow> u32 \<Rightarrow> payload \<Rightarrow> u64 \<Rightarrow> (bool \<times> gate \<times> gate_out list) option" where
  "gate_cb query g ty source msg sz =
     (if ty = PTYPE_TEXT then do {
        bs \<leftarrow> payload_bytes msg;
        c_assert (unat sz \<le> length bs);
        (g1, out) \<leftarrow> gate_ctrl query g (string_of (take (unat sz) bs));
        Some (False, g1, out)
      }
      else if ty = PTYPE_CLIENT then
        (if sz \<le> 4 then Some (False, g, [OError (''Invalid client message from '' @ fmt_x source)])
         else do {
           bs \<leftarrow> payload_bytes msg;
           c_assert (unat sz \<le> length bs);
           let uid = le_u32 (take 4 (drop (unat sz - 4) bs));
           k \<leftarrow> hashid_lookup (g_hash g) (sint uid);
           (if k \<ge> 0 then Some (True, g, [OSocketSend uid msg (sz - 4)])
            else Some (False, g, [OError (''Invalid client id '' @ fmt_d (sint uid) @ '' from '' @ fmt_x source)]))
         })
      else if ty = PTYPE_SOCKET then
        (case msg of
           PSocket t i ud buffer extra \<Rightarrow> do {
             (g1, out) \<leftarrow> dispatch_socket_message g t i ud buffer extra;
             Some (False, g1, out)
           }
         | _ \<Rightarrow> None)
      else Some (False, g, []))"

subsection \<open>Start\<close>

text \<open>\<open>listen\<close> stands for \<open>skynet_socket_listen\<close>; the inner \<open>bool\<close> is the failure result.\<close>

definition last_colon :: "string \<Rightarrow> nat option" where
  "last_colon s = (if CHR '':'' \<in> set s then Some (length s - 1 - length (takeWhile (\<lambda>c. c \<noteq> CHR '':'') (rev s))) else None)"

definition start_listen :: "(string \<Rightarrow> int \<Rightarrow> int) \<Rightarrow> gate \<Rightarrow> string \<Rightarrow> bool \<times> gate \<times> gate_out list" where
  "start_listen listen g listen_addr =
     (let (host, port) = (case last_colon listen_addr of
            None \<Rightarrow> ([], to_s32 (strtol10 listen_addr))
          | Some k \<Rightarrow> (take k listen_addr, to_s32 (strtol10 (drop (k + 1) listen_addr))))
      in if port \<le> 0 then (True, g, [OError (''Invalid gate address '' @ listen_addr)])
         else
           (let lid = listen host port; g1 = g\<lparr>g_listen_id := lid\<rparr> in
            if lid < 0 then (True, g1, []) else (False, g1, [OStart lid])))"

text \<open>\<open>%d\<close> of \<open>sscanf\<close>.\<close>

definition scan_int :: "string \<Rightarrow> (int \<times> string) option" where
  "scan_int s = (let t = dropWhile is_space s;
       (neg, u) = strip_sign t;
       ds = takeWhile (\<lambda>c. base_digit 10 c \<noteq> None) u
     in if ds = [] then None else Some (to_s32 (sat64 neg (read_digits 10 0 ds)), drop (length ds) u))"

definition gate_init :: "(string \<Rightarrow> u32) \<Rightarrow> (string \<Rightarrow> int \<Rightarrow> int) \<Rightarrow> gate \<Rightarrow> string option \<Rightarrow>
    bool \<times> gate \<times> gate_out list" where
  "gate_init query listen g parm =
     (case parm of
        None \<Rightarrow> (True, g, [])
      | Some s \<Rightarrow>
          (case s of
             [] \<Rightarrow> (True, g, [OError (''Invalid gate parm '' @ s)])
           | header # s1 \<Rightarrow>
               (case do {
                   (watchdog, s2) \<leftarrow> scan_word s1;
                   (binding, s3) \<leftarrow> scan_word s2;
                   (tag, s4) \<leftarrow> scan_int s3;
                   Some (watchdog, binding, tag, case scan_int s4 of Some (m, _) \<Rightarrow> m | None \<Rightarrow> 0)
                 } of
                  None \<Rightarrow> (True, g, [OError (''Invalid gate parm '' @ s)])
                | Some (watchdog, binding, tag, mx) \<Rightarrow>
                    if mx \<le> 0 then (True, g, [OError ''Need max connection''])
                    else if header \<noteq> CHR ''S'' \<and> header \<noteq> CHR ''L''
                    then (True, g, [OError ''Invalid data header style''])
                    else
                      (let client_tag = (if tag = 0 then of_int PTYPE_CLIENT else of_int tag);
                           w = (if c_hd watchdog = CHR ''!'' then 0 else query watchdog)
                       in if c_hd watchdog \<noteq> CHR ''!'' \<and> w = 0
                          then (True, g\<lparr>g_watchdog := 0\<rparr>, [OError (''Invalid watchdog '' @ watchdog)])
                          else start_listen listen
                            (g\<lparr>g_watchdog := w, g_hash := hashid_init (nat mx),
                               g_conn := replicate (nat mx) (conn_zero (-1)), g_max_connection := nat mx,
                               g_client_tag := client_tag, g_header_size := (if header = CHR ''S'' then 2 else 4)\<rparr>)
                            binding))))"

end
