(* ===== verification/Gate_Properties.thy ===== *)
theory Gate_Properties
  imports Gate
begin

text \<open>
  The packets of a byte stream as a function \<open>parse\<close>, and the gate against it: the loop of
  \<open>dispatch_message\<close> ends and delivers what \<open>parse\<close> finds, so framing does not depend on how
  the stream is cut. The connection array and the id table stay in step.
\<close>

subsection \<open>The packets of a byte stream\<close>

datatype verdict = Pending int "u8 list" | Oversize

text \<open>\<open>h\<close> is the header already read, or 0.\<close>

function parse :: "nat \<Rightarrow> int \<Rightarrow> u8 list \<Rightarrow> u8 list list \<times> verdict" where
  "parse hs h s =
     (if hs = 0 then ([], Pending h s)
      else if h = 0 then
        (if length s < hs then ([], Pending 0 s) else parse hs (header_int hs (take hs s)) (drop hs s))
      else if h < 0 \<or> int (length s) < h then ([], Pending h s)
      else if h \<ge> 0x1000000 then ([], Oversize)
      else (let (ps, v) = parse hs 0 (drop (nat h) s) in (take (nat h) s # ps, v)))"
  by pat_completeness auto
termination
  by (relation "measure (\<lambda>(hs, h, s). 2 * length s + (if h = 0 then 1 else 0))") auto

declare parse.simps [simp del]

lemma parse_append:
  "parse hs h s = (ps, Pending h1 s1) \<Longrightarrow>
     parse hs h (s @ t) = (let (qs, v) = parse hs h1 (s1 @ t) in (ps @ qs, v))"
proof (induction hs h s arbitrary: ps h1 s1 rule: parse.induct)
  case (1 hs h s)
  note IH = 1(1,2) and prem = 1(3)
  consider "hs = 0 \<or> h = 0 \<and> length s < hs \<or> h < 0 \<or> h \<noteq> 0 \<and> int (length s) < h" | "hs \<noteq> 0" "h = 0" "hs \<le> length s"
    | "hs \<noteq> 0" "\<not> (h < 0 \<or> int (length s) < h)" "h \<ge> 0x1000000"
    | "hs \<noteq> 0" "h \<noteq> 0" "\<not> (h < 0 \<or> int (length s) < h)" "\<not> h \<ge> 0x1000000" by linarith
  then show ?case
  proof cases
    case 1
    then have "parse hs h s = ([], Pending h s)" by (subst parse.simps) auto
    with prem show ?thesis by (simp split: prod.splits)
  next
    case 2
    then have "parse hs (header_int hs (take hs s)) (drop hs s) = (ps, Pending h1 s1)"
      using prem by (simp add: parse.simps [of hs 0 s])
    from IH(1) [OF _ _ _ this] 2 show ?thesis by (simp add: parse.simps [of hs 0 "s @ t"])
  next
    case 3
    then have "parse hs h s = ([], Oversize)" by (subst parse.simps) auto
    with prem show ?thesis by simp
  next
    case 4
    then obtain qs where q: "parse hs 0 (drop (nat h) s) = (qs, Pending h1 s1)" "ps = take (nat h) s # qs"
      using prem by (auto simp: parse.simps [of hs h s] split: prod.splits)
    have "nat h \<le> length s" using 4 by (simp add: nat_le_iff)
    with IH(2) [OF _ _ _ _ q(1)] 4 q(2) show ?thesis
      by (simp add: parse.simps [of hs h "s @ t"] split: prod.splits)
  qed
qed

subsection \<open>The loop delivers the packets of the stream\<close>

definition has_target :: "gate \<Rightarrow> connection \<Rightarrow> bool" where
  "has_target g c \<longleftrightarrow> 0 < gc_id c \<and> (g_broker g \<noteq> 0 \<or> gc_agent c \<noteq> 0 \<or> g_watchdog g \<noteq> 0)"

text \<open>The message a packet becomes.\<close>

definition packet_msg :: "gate \<Rightarrow> connection \<Rightarrow> u8 list \<Rightarrow> gate_out" where
  "packet_msg g c p =
     (if g_broker g \<noteq> 0 then OSend 0 (g_broker g) (g_client_tag g OR PTYPE_TAG_DONTCOPY) (gc_id c) (PBytes p) (of_nat (length p))
      else if gc_agent c \<noteq> 0 then
        OSend (gc_client c) (gc_agent c) (g_client_tag g OR PTYPE_TAG_DONTCOPY) (gc_id c) (PBytes p) (of_nat (length p))
      else (let m = bytes_of (fmt_d (gc_id c) @ '' data '') @ p in
        OSend 0 (g_watchdog g) (of_int PTYPE_TEXT OR PTYPE_TAG_DONTCOPY) (gc_id c) (PBytes m) (of_nat (length m))))"

definition verdict_out :: "int \<Rightarrow> verdict \<Rightarrow> gate_out list" where
  "verdict_out i v = (case v of Oversize \<Rightarrow> [OClose i, OError ''Recv socket message > 16M''] | Pending _ _ \<Rightarrow> [])"

definition verdict_buffer :: "verdict \<Rightarrow> databuffer \<Rightarrow> bool" where
  "verdict_buffer v db = (case v of Oversize \<Rightarrow> db = databuffer_zero | Pending h s \<Rightarrow> db_header db = h \<and> stream db = s)"

text \<open>The nodes of the pool are in the buffers or free.\<close>

definition pool_nodes :: "databuffer \<Rightarrow> messagepool \<Rightarrow> nat" where
  "pool_nodes db mp = mp_free mp + length (db_msgs db)"

lemma readheader_wait: "db_header db = 0 \<Longrightarrow> db_ok db \<Longrightarrow> length (stream db) < hs \<Longrightarrow>
    databuffer_readheader db mp hs = Some (-1, db, mp)"
  by (simp add: databuffer_readheader_def db_ok_def)

lemma readheader_kept: "db_header db \<noteq> 0 \<Longrightarrow> db_ok db \<Longrightarrow>
    databuffer_readheader db mp hs = Some (if int (length (stream db)) < db_header db then -1 else db_header db, db, mp)"
  by (simp add: databuffer_readheader_def db_ok_def)

lemma readheader_fresh:
  assumes "db_header db = 0" "db_ok db" "hs \<le> length (stream db)" "0 < hs"
  shows "\<exists>db' mp'. db_ok db' \<and> stream db' = drop hs (stream db) \<and> db_header db' = header_int hs (take hs (stream db)) \<and>
    pool_nodes db' mp' = pool_nodes db mp \<and> mp_pools mp' = mp_pools mp \<and>
    databuffer_readheader db mp hs = Some (if int (length (stream db')) < db_header db' then -1 else db_header db', db', mp')"
proof -
  from databuffer_read_ok [OF assms(2,4,3), of mp] obtain db1 mp1 where
    r: "databuffer_read db mp (int hs) = Some (take hs (stream db), db1, mp1)" "db_ok db1"
    "stream db1 = drop hs (stream db)" "mp_free mp1 + length (db_msgs db1) = mp_free mp + length (db_msgs db)"
    "mp_pools mp1 = mp_pools mp" by blast
  let ?db = "db1\<lparr>db_header := header_int hs (take hs (stream db))\<rparr>"
  have "\<not> db_size db < int hs" using assms(2,3) by (simp add: db_ok_def)
  then have "databuffer_readheader db mp hs =
      Some (if int (length (stream ?db)) < db_header ?db then -1 else db_header ?db, ?db, mp1)"
    using assms(1) r(1,2) by (simp add: databuffer_readheader_def db_ok_def)
  then show ?thesis using r by (intro exI [of _ ?db] exI [of _ mp1]) (simp add: pool_nodes_def)
qed

lemma forward_ok:
  assumes t: "has_target g c" and ok: "db_ok (gc_buffer c)" and n: "0 < n" "n \<le> int (length (stream (gc_buffer c)))"
  shows "\<exists>db mp'. gate_forward g c mp n = Some (c\<lparr>gc_buffer := db\<rparr>, mp', [packet_msg g c (take (nat n) (stream (gc_buffer c)))]) \<and>
    db_ok db \<and> stream db = drop (nat n) (stream (gc_buffer c)) \<and>
    pool_nodes db mp' = pool_nodes (gc_buffer c) mp \<and> mp_pools mp' = mp_pools mp"
proof -
  have n': "0 < nat n" "nat n \<le> length (stream (gc_buffer c))" "int (nat n) = n" using n by auto
  from databuffer_read_ok [OF ok n'(1,2), of mp] obtain db mp1 where
    r: "databuffer_read (gc_buffer c) mp n = Some (take (nat n) (stream (gc_buffer c)), db, mp1)" "db_ok db"
    "stream db = drop (nat n) (stream (gc_buffer c))"
    "mp_free mp1 + length (db_msgs db) = mp_free mp + length (db_msgs (gc_buffer c))" "mp_pools mp1 = mp_pools mp"
    unfolding n'(3) by blast
  have len: "length (take (nat n) (stream (gc_buffer c))) = nat n" using n' by simp
  have "gate_forward g c mp n = Some (c\<lparr>gc_buffer := db\<rparr>, mp1, [packet_msg g c (take (nat n) (stream (gc_buffer c)))])"
    using t n by (simp add: gate_forward_def has_target_def r(1) packet_msg_def Let_def len add.commute
      del: length_take)
  then show ?thesis using r by (auto simp: pool_nodes_def)
qed

definition loop_post :: "connection \<Rightarrow> messagepool \<Rightarrow> verdict \<Rightarrow> databuffer \<Rightarrow> messagepool \<Rightarrow> bool" where
  "loop_post c mp v db mp' \<longleftrightarrow> db_ok db \<and> verdict_buffer v db \<and>
     pool_nodes db mp' = pool_nodes (gc_buffer c) mp \<and> mp_pools mp' = mp_pools mp"

lemma packet_loop_unfold:
  "packet_loop g c mp i = do {
     (sz, db, mp1) \<leftarrow> databuffer_readheader (gc_buffer c) mp (g_header_size g);
     (if sz < 0 then Some (c\<lparr>gc_buffer := db\<rparr>, mp1, [])
      else if sz > 0 then
        (if sz \<ge> 0x1000000 then
           Some (c\<lparr>gc_buffer := databuffer_zero\<rparr>, snd (databuffer_clear db mp1), [OClose i, OError ''Recv socket message > 16M''])
         else do {
           (c2, mp2, out) \<leftarrow> gate_forward g (c\<lparr>gc_buffer := db\<rparr>) mp1 sz;
           (c3, mp3, outs) \<leftarrow> packet_loop g (c2\<lparr>gc_buffer := databuffer_reset (gc_buffer c2)\<rparr>) mp2 i;
           Some (c3, mp3, out @ outs)
         })
      else packet_loop g (c\<lparr>gc_buffer := db\<rparr>) mp1 i)}"
  by (subst packet_loop.simps, cases "databuffer_readheader (gc_buffer c) mp (g_header_size g)")
    (auto simp: Let_def databuffer_clear_def)

lemma packet_msg_buffer: "packet_msg g (c\<lparr>gc_buffer := db\<rparr>) = packet_msg g c" "has_target g (c\<lparr>gc_buffer := db\<rparr>) = has_target g c"
  by (simp_all add: packet_msg_def has_target_def fun_eq_iff)

text \<open>The loop once the header \<open>h\<close> is known.\<close>

lemma packet_loop_known:
  assumes rh: "databuffer_readheader (gc_buffer c) mp (g_header_size g) =
      Some (if int (length (stream db)) < db_header db then -1 else db_header db, db, mp1)"
    and ok: "db_ok db" "db_header db \<noteq> 0" and t: "has_target g c" and hs: "g_header_size g \<noteq> 0"
    and pool: "pool_nodes db mp1 = pool_nodes (gc_buffer c) mp" "mp_pools mp1 = mp_pools mp"
    and IH: "\<And>db' mp'. \<not> (db_header db < 0 \<or> int (length (stream db)) < db_header db) \<Longrightarrow> db_header db < 0x1000000 \<Longrightarrow>
        db_ok db' \<Longrightarrow> db_header db' = 0 \<Longrightarrow> stream db' = drop (nat (db_header db)) (stream db) \<Longrightarrow>
        \<exists>ps v db2 mp2. parse (g_header_size g) 0 (stream db') = (ps, v) \<and>
          packet_loop g (c\<lparr>gc_buffer := db'\<rparr>) mp' i = Some (c\<lparr>gc_buffer := db2\<rparr>, mp2, map (packet_msg g c) ps @ verdict_out i v) \<and>
          loop_post (c\<lparr>gc_buffer := db'\<rparr>) mp' v db2 mp2"
  shows "\<exists>ps v db2 mp2. parse (g_header_size g) (db_header db) (stream db) = (ps, v) \<and>
      packet_loop g c mp i = Some (c\<lparr>gc_buffer := db2\<rparr>, mp2, map (packet_msg g c) ps @ verdict_out i v) \<and>
      loop_post c mp v db2 mp2"
proof -
  let ?h = "db_header db" and ?s = "stream db"
  consider "?h < 0 \<or> int (length ?s) < ?h" | "\<not> (?h < 0 \<or> int (length ?s) < ?h)" "?h \<ge> 0x1000000"
    | "\<not> (?h < 0 \<or> int (length ?s) < ?h)" "?h < 0x1000000" by linarith
  then show ?thesis
  proof cases
    case 1
    then have "packet_loop g c mp i = Some (c\<lparr>gc_buffer := db\<rparr>, mp1, [])"
      by (subst packet_loop_unfold) (auto simp: rh)
    moreover have "parse (g_header_size g) ?h ?s = ([], Pending ?h ?s)" using 1 hs ok by (simp add: parse.simps)
    ultimately show ?thesis using ok pool by (auto simp: verdict_out_def verdict_buffer_def loop_post_def)
  next
    case 2
    then have "packet_loop g c mp i = Some (c\<lparr>gc_buffer := databuffer_zero\<rparr>, snd (databuffer_clear db mp1),
        [OClose i, OError ''Recv socket message > 16M''])"
      by (subst packet_loop_unfold) (auto simp: rh)
    moreover have "parse (g_header_size g) ?h ?s = ([], Oversize)" using 2 hs ok by (simp add: parse.simps)
    ultimately show ?thesis using pool
      by (auto simp: verdict_out_def verdict_buffer_def loop_post_def db_ok_zero databuffer_clear_def pool_nodes_def)
        (simp add: databuffer_zero_def)
  next
    case 3
    then have n: "0 < ?h" "?h \<le> int (length ?s)" using ok(2) by auto
    have t': "has_target g (c\<lparr>gc_buffer := db\<rparr>)" using t by (simp add: packet_msg_buffer)
    from forward_ok [OF t', of ?h mp1] ok(1) n obtain db1 mp2 where
      f: "gate_forward g (c\<lparr>gc_buffer := db\<rparr>) mp1 ?h = Some (c\<lparr>gc_buffer := db1\<rparr>, mp2, [packet_msg g c (take (nat ?h) ?s)])"
      "db_ok db1" "stream db1 = drop (nat ?h) ?s" "pool_nodes db1 mp2 = pool_nodes db mp1" "mp_pools mp2 = mp_pools mp1"
      by (auto simp: packet_msg_buffer)
    let ?db = "databuffer_reset db1"
    have r: "db_ok ?db" "db_header ?db = 0" "stream ?db = drop (nat ?h) ?s" "pool_nodes ?db mp2 = pool_nodes db1 mp2"
      using f by (simp_all add: databuffer_reset_def pool_nodes_def)
    from IH [OF 3 r(1-3), of mp2] obtain ps v db2 mp3 where
      q: "parse (g_header_size g) 0 (stream ?db) = (ps, v)"
      "packet_loop g (c\<lparr>gc_buffer := ?db\<rparr>) mp2 i = Some (c\<lparr>gc_buffer := db2\<rparr>, mp3, map (packet_msg g c) ps @ verdict_out i v)"
      "loop_post (c\<lparr>gc_buffer := ?db\<rparr>) mp2 v db2 mp3" by blast
    have "packet_loop g c mp i = Some (c\<lparr>gc_buffer := db2\<rparr>, mp3,
        map (packet_msg g c) (take (nat ?h) ?s # ps) @ verdict_out i v)"
      by (subst packet_loop_unfold) (use n 3 f(1) q(2) in \<open>simp add: rh\<close>)
    moreover have "parse (g_header_size g) ?h ?s = (take (nat ?h) ?s # ps, v)"
      using 3 hs ok(2) q(1) by (simp add: parse.simps [of _ ?h] r(3))
    moreover have "loop_post c mp v db2 mp3" using q(3) r(4) f(4,5) pool by (simp add: loop_post_def)
    ultimately show ?thesis by blast
  qed
qed

text \<open>From any well-formed buffer the loop ends, and delivers what \<open>parse\<close> finds.\<close>

lemma packet_loop_ok:
  assumes "db_ok (gc_buffer c)" "has_target g c" "g_header_size g \<noteq> 0"
  shows "\<exists>ps v db mp'. parse (g_header_size g) (db_header (gc_buffer c)) (stream (gc_buffer c)) = (ps, v) \<and>
      packet_loop g c mp i = Some (c\<lparr>gc_buffer := db\<rparr>, mp', map (packet_msg g c) ps @ verdict_out i v) \<and>
      loop_post c mp v db mp'"
  using assms
proof (induction "2 * length (stream (gc_buffer c)) + (if db_header (gc_buffer c) = 0 then 1 else 0)"
    arbitrary: c mp rule: less_induct)
  case less
  let ?b = "gc_buffer c" and ?hs = "g_header_size g"
  have rec: "\<exists>ps v db2 mp2. parse ?hs (db_header db') (stream db') = (ps, v) \<and>
      packet_loop g (c\<lparr>gc_buffer := db'\<rparr>) mp' i = Some (c\<lparr>gc_buffer := db2\<rparr>, mp2, map (packet_msg g c) ps @ verdict_out i v) \<and>
      loop_post (c\<lparr>gc_buffer := db'\<rparr>) mp' v db2 mp2"
    if "db_ok db'" "2 * length (stream db') + (if db_header db' = 0 then 1 else 0) <
      2 * length (stream ?b) + (if db_header ?b = 0 then 1 else 0)" for db' mp'
    using less.hyps [of "c\<lparr>gc_buffer := db'\<rparr>" mp'] that less.prems by (simp add: packet_msg_buffer)
  show ?case
  proof (cases "db_header ?b = 0")
    case False
    show ?thesis
    proof (rule packet_loop_known [OF readheader_kept [OF False less.prems(1)] less.prems(1) False less.prems(2,3)])
      fix db' mp'
      assume a: "\<not> (db_header ?b < 0 \<or> int (length (stream ?b)) < db_header ?b)" "db_ok db'" "db_header db' = 0"
        "stream db' = drop (nat (db_header ?b)) (stream ?b)"
      have "0 < nat (db_header ?b)" "nat (db_header ?b) \<le> length (stream ?b)" using a(1) False by (auto simp: nat_le_iff)
      with a(3,4) False rec [OF a(2), of mp']
      show "\<exists>ps v db2 mp2. parse ?hs 0 (stream db') = (ps, v) \<and>
          packet_loop g (c\<lparr>gc_buffer := db'\<rparr>) mp' i = Some (c\<lparr>gc_buffer := db2\<rparr>, mp2, map (packet_msg g c) ps @ verdict_out i v) \<and>
          loop_post (c\<lparr>gc_buffer := db'\<rparr>) mp' v db2 mp2" by simp
    qed simp_all
  next
    case True
    show ?thesis
    proof (cases "length (stream ?b) < ?hs")
      case short: True
      have "packet_loop g c mp i = Some (c, mp, [])"
        by (subst packet_loop_unfold) (simp add: readheader_wait [OF True less.prems(1) short])
      moreover have "parse ?hs (db_header ?b) (stream ?b) = ([], Pending 0 (stream ?b))"
        using True short less.prems(3) by (simp add: parse.simps)
      ultimately show ?thesis using True less.prems(1)
        by (intro exI [of _ "[]"] exI [of _ "Pending 0 (stream ?b)"] exI [of _ ?b] exI [of _ mp])
          (simp add: verdict_out_def loop_post_def verdict_buffer_def)
    next
      case False
      then have len: "?hs \<le> length (stream ?b)" "0 < ?hs" using less.prems(3) by simp_all
      from readheader_fresh [OF True less.prems(1) len, of mp] obtain db mp1 where
        r: "db_ok db" "stream db = drop ?hs (stream ?b)" "db_header db = header_int ?hs (take ?hs (stream ?b))"
        "pool_nodes db mp1 = pool_nodes ?b mp" "mp_pools mp1 = mp_pools mp"
        "databuffer_readheader ?b mp ?hs = Some (if int (length (stream db)) < db_header db then -1 else db_header db, db, mp1)"
        by blast
      have sz: "length (stream db) < length (stream ?b)" using r(2) len by simp
      have p: "parse ?hs (db_header ?b) (stream ?b) = parse ?hs (db_header db) (stream db)"
        using True len r(2,3) by (simp add: parse.simps [of _ 0])
      show ?thesis
      proof (cases "db_header db = 0")
        case False
        show ?thesis
          unfolding p
        proof (rule packet_loop_known [OF r(6,1) False less.prems(2,3) r(4,5)])
          fix db' mp'
          assume a: "db_ok db'" "db_header db' = 0" "stream db' = drop (nat (db_header db)) (stream db)"
          with sz True rec [OF a(1), of mp']
          show "\<exists>ps v db2 mp2. parse ?hs 0 (stream db') = (ps, v) \<and>
              packet_loop g (c\<lparr>gc_buffer := db'\<rparr>) mp' i = Some (c\<lparr>gc_buffer := db2\<rparr>, mp2, map (packet_msg g c) ps @ verdict_out i v) \<and>
              loop_post (c\<lparr>gc_buffer := db'\<rparr>) mp' v db2 mp2" by simp
        qed
      next
        case zero: True
        have "packet_loop g c mp i = packet_loop g (c\<lparr>gc_buffer := db\<rparr>) mp1 i"
          by (subst packet_loop_unfold) (simp add: r(6) zero)
        with rec [OF r(1), of mp1] sz True zero p r(4,5) show ?thesis
          by (auto simp: loop_post_def)
      qed
    qed
  qed
qed

lemma parse_oversize:
  "parse hs h s = (ps, Oversize) \<Longrightarrow> parse hs h (s @ t) = (ps, Oversize)"
proof (induction hs h s arbitrary: ps rule: parse.induct)
  case (1 hs h s)
  note IH = 1(1,2) and prem = 1(3)
  consider "hs = 0 \<or> h = 0 \<and> length s < hs \<or> h < 0 \<or> h \<noteq> 0 \<and> int (length s) < h" | "hs \<noteq> 0" "h = 0" "hs \<le> length s"
    | "hs \<noteq> 0" "\<not> (h < 0 \<or> int (length s) < h)" "h \<ge> 0x1000000"
    | "hs \<noteq> 0" "h \<noteq> 0" "\<not> (h < 0 \<or> int (length s) < h)" "\<not> h \<ge> 0x1000000" by linarith
  then show ?case
  proof cases
    case 1
    then have "parse hs h s = ([], Pending h s)" by (subst parse.simps) auto
    with prem show ?thesis by simp
  next
    case 2
    then have "parse hs (header_int hs (take hs s)) (drop hs s) = (ps, Oversize)"
      using prem by (simp add: parse.simps [of hs 0 s])
    from IH(1) [OF _ _ _ this] 2 show ?thesis by (simp add: parse.simps [of hs 0 "s @ t"])
  next
    case 3
    with prem show ?thesis by (simp add: parse.simps [of hs h])
  next
    case 4
    then obtain qs where q: "parse hs 0 (drop (nat h) s) = (qs, Oversize)" "ps = take (nat h) s # qs"
      using prem by (auto simp: parse.simps [of hs h s] split: prod.splits)
    have "nat h \<le> length s" using 4 by (simp add: nat_le_iff)
    with IH(2) [OF _ _ _ _ q(1)] 4 q(2) show ?thesis
      by (simp add: parse.simps [of hs h "s @ t"] split: prod.splits)
  qed
qed

lemma parse_pending_prefix:
  assumes "parse hs h (s @ t) = (qs, Pending h2 s2)"
  obtains ps h1 s1 rs where "parse hs h s = (ps, Pending h1 s1)" "parse hs h1 (s1 @ t) = (rs, Pending h2 s2)" "qs = ps @ rs"
proof (cases "parse hs h s")
  case (Pair ps v)
  show ?thesis
  proof (cases v)
    case (Pending h1 s1)
    with Pair parse_append [of hs h s ps h1 s1 t] assms that show ?thesis by (auto split: prod.splits)
  next
    case Oversize
    with Pair parse_oversize [of hs h s ps t] assms show ?thesis by simp
  qed
qed

subsection \<open>Reception in pieces\<close>

fun gate_receive :: "gate \<Rightarrow> connection \<Rightarrow> int \<Rightarrow> u8 list list \<Rightarrow> (gate \<times> connection \<times> gate_out list) option" where
  "gate_receive g c i [] = Some (g, c, [])"
| "gate_receive g c i (data # rest) = do {
     (c1, mp1, out) \<leftarrow> gate_data g c i data;
     (g2, c2, outs) \<leftarrow> gate_receive (g\<lparr>g_mp := mp1\<rparr>) c1 i rest;
     Some (g2, c2, out @ outs)
   }"

lemma gate_data_ok:
  assumes "db_ok (gc_buffer c)" "has_target g c" "g_header_size g \<noteq> 0"
    "parse (g_header_size g) (db_header (gc_buffer c)) (stream (gc_buffer c) @ data) = (ps, v)"
  shows "\<exists>db mp. gate_data g c i data = Some (c\<lparr>gc_buffer := db\<rparr>, mp, map (packet_msg g c) ps @ verdict_out i v) \<and>
    db_ok db \<and> verdict_buffer v db"
proof -
  obtain db1 mp1 where p: "databuffer_push (gc_buffer c) (g_mp g) data = (db1, mp1)" by (rule prod.exhaust)
  with push_ok [OF assms(1), of "g_mp g" data] have
    d: "db_ok db1" "stream db1 = stream (gc_buffer c) @ data" "db_header db1 = db_header (gc_buffer c)" by simp_all
  with packet_loop_ok [of "c\<lparr>gc_buffer := db1\<rparr>" g mp1 i] assms p show ?thesis
    by (auto simp: gate_data_def packet_msg_buffer loop_post_def)
qed

lemma gate_mp_frame: "has_target (g\<lparr>g_mp := mp\<rparr>) c = has_target g c" "packet_msg (g\<lparr>g_mp := mp\<rparr>) c = packet_msg g c"
  by (simp_all add: has_target_def packet_msg_def fun_eq_iff)

text \<open>Between two pieces the buffer holds no complete packet.\<close>

definition settled :: "nat \<Rightarrow> databuffer \<Rightarrow> bool" where
  "settled hs db \<longleftrightarrow> db_ok db \<and> parse hs (db_header db) (stream db) = ([], Pending (db_header db) (stream db))"

lemma parse_settled: "parse hs h s = (ps, Pending h1 s1) \<Longrightarrow> parse hs h1 s1 = ([], Pending h1 s1)"
  using parse_append [of hs h s ps h1 s1 "[]"] by (auto split: prod.splits)

lemma gate_receive_ok:
  assumes "settled (g_header_size g) (gc_buffer c)" "has_target g c" "g_header_size g \<noteq> 0"
    "parse (g_header_size g) (db_header (gc_buffer c)) (stream (gc_buffer c) @ concat chunks) = (ps, Pending h s)"
  shows "\<exists>db mp. gate_receive g c i chunks = Some (g\<lparr>g_mp := mp\<rparr>, c\<lparr>gc_buffer := db\<rparr>, map (packet_msg g c) ps) \<and>
    settled (g_header_size g) db \<and> db_header db = h \<and> stream db = s"
  using assms
proof (induction chunks arbitrary: g c ps)
  case Nil
  then show ?case by (intro exI [of _ "gc_buffer c"] exI [of _ "g_mp g"]) (simp add: settled_def)
next
  case (Cons data rest)
  let ?b = "gc_buffer c" and ?hs = "g_header_size g"
  from Cons.prems(4) have "parse ?hs (db_header ?b) ((stream ?b @ data) @ concat rest) = (ps, Pending h s)" by simp
  then obtain ps1 h1 s1 rs where p: "parse ?hs (db_header ?b) (stream ?b @ data) = (ps1, Pending h1 s1)"
    "parse ?hs h1 (s1 @ concat rest) = (rs, Pending h s)" "ps = ps1 @ rs" by (rule parse_pending_prefix)
  have "db_ok ?b" using Cons.prems(1) by (simp add: settled_def)
  from gate_data_ok [OF this Cons.prems(2,3) p(1), of i] obtain db mp where
    d: "gate_data g c i data = Some (c\<lparr>gc_buffer := db\<rparr>, mp, map (packet_msg g c) ps1)"
    "db_ok db" "db_header db = h1" "stream db = s1" by (auto simp: verdict_out_def verdict_buffer_def)
  have "settled ?hs db" using d parse_settled [OF p(1)] by (simp add: settled_def)
  with Cons.IH [of "g\<lparr>g_mp := mp\<rparr>" "c\<lparr>gc_buffer := db\<rparr>" rs] Cons.prems(2,3) p(2,3) d
  show ?case by (auto simp: gate_mp_frame packet_msg_buffer)
qed

subsection \<open>The frames a client sends\<close>

fun be_bytes :: "nat \<Rightarrow> nat \<Rightarrow> u8 list" where
  "be_bytes 0 x = []"
| "be_bytes (Suc k) x = be_bytes k (x div 256) @ [of_nat x]"

definition frame :: "nat \<Rightarrow> u8 list \<Rightarrow> u8 list" where
  "frame hs p = be_bytes hs (length p) @ p"

definition frame_ok :: "nat \<Rightarrow> u8 list \<Rightarrow> bool" where
  "frame_ok hs p \<longleftrightarrow> 0 < length p \<and> length p < 0x1000000 \<and> (hs = 2 \<longrightarrow> length p < 0x10000)"

lemma length_be_bytes [simp]: "length (be_bytes k x) = k"
  by (induction k x rule: be_bytes.induct) auto

lemma be_int_snoc [simp]: "be_int (bs @ [b]) = be_int bs * 256 + uint b" "be_int [] = 0"
  by (simp_all add: be_int_def)

lemma be_int_bytes: "x < 256 ^ k \<Longrightarrow> be_int (be_bytes k x) = int x"
proof (induction k x rule: be_bytes.induct)
  case (2 k x)
  then have "be_int (be_bytes k (x div 256)) = int (x div 256)" by (intro 2(1)) (simp add: less_mult_imp_div_less mult.commute)
  moreover have "uint (of_nat x :: u8) = int (x mod 256)"
    by (simp add: uint_nat unat_of_nat)
  moreover have "int (x div 256) * 256 + int (x mod 256) = int x" by (simp add: zmod_int zdiv_int)
  ultimately show ?case by simp
qed simp

lemma header_int_frame: "frame_ok hs p \<Longrightarrow> hs = 2 \<or> hs = 4 \<Longrightarrow> header_int hs (be_bytes hs (length p)) = int (length p)"
  by (auto simp: header_int_def frame_ok_def be_int_bytes to_s32_id)

lemma parse_frame:
  assumes "frame_ok hs p" "hs = 2 \<or> hs = 4"
  shows "parse hs 0 (frame hs p @ s) = (let (ps, v) = parse hs 0 s in (p # ps, v))"
proof -
  have "parse hs 0 (frame hs p @ s) = parse hs (int (length p)) (p @ s)"
    using assms header_int_frame [OF assms] by (subst parse.simps) (auto simp: frame_def)
  also have "\<dots> = (let (ps, v) = parse hs 0 s in (p # ps, v))"
    using assms by (subst parse.simps) (auto simp: frame_ok_def)
  finally show ?thesis .
qed

lemma parse_frames:
  assumes "hs = 2 \<or> hs = 4" "\<forall>p\<in>set ps. frame_ok hs p"
  shows "parse hs 0 (concat (map (frame hs) ps)) = (ps, Pending 0 [])"
  using assms(2)
proof (induction ps)
  case Nil
  with assms(1) show ?case by (auto simp: parse.simps)
next
  case (Cons p ps)
  then show ?case using parse_frame [OF _ assms(1), of p] by simp
qed

subsection \<open>The table of connections\<close>




















definition demo_gate :: gate where
  "demo_gate = gate_create\<lparr>g_listen_id := 7, g_watchdog := 0x01000005, g_header_size := 2, g_hash := hashid_init 2,
     g_conn := replicate 2 (conn_zero (-1)), g_max_connection := 2\<rparr>"



text \<open>
  C22: framing does not depend on how TCP cuts the stream. If the pieces a client's socket
  delivers concatenate to framed packets, the gate sends its target exactly these packets, in
  order, keeps nothing of them and is ready for the next header.
\<close>

theorem gate_delivers_packets:
  assumes "settled (g_header_size g) (gc_buffer c)" "db_header (gc_buffer c) = 0" "stream (gc_buffer c) = []"
    and "has_target g c" "g_header_size g = 2 \<or> g_header_size g = 4"
    and "\<forall>p\<in>set ps. frame_ok (g_header_size g) p" "concat chunks = concat (map (frame (g_header_size g)) ps)"
  shows "\<exists>db mp. gate_receive g c i chunks = Some (g\<lparr>g_mp := mp\<rparr>, c\<lparr>gc_buffer := db\<rparr>, map (packet_msg g c) ps) \<and>
    settled (g_header_size g) db \<and> db_header db = 0 \<and> stream db = []"
  by (rule gate_receive_ok) (use assms parse_frames [OF assms(5,6)] in auto)

lemma be_bytes_2: "be_bytes 2 x = [of_nat (x div 256), of_nat x]"
  by (simp add: numeral_2_eq_2)

definition demo_conn :: connection where
  "demo_conn = (conn_zero 9)\<lparr>gc_agent := 0x01000007\<rparr>"

theorem gate_delivers_packets_witness:
  "\<exists>db mp. gate_receive demo_gate demo_conn 9 [[0], [2, 65], [66, 0, 1, 67]] =
     Some (demo_gate\<lparr>g_mp := mp\<rparr>, demo_conn\<lparr>gc_buffer := db\<rparr>, map (packet_msg demo_gate demo_conn) [[65, 66], [67]]) \<and>
     settled 2 db \<and> db_header db = 0 \<and> stream db = []"
proof -
  have "settled 2 databuffer_zero" "db_header databuffer_zero = 0"
    by (simp_all add: settled_def db_ok_zero parse.simps databuffer_zero_def stream_def db_ok_def offset_ok_def)
  moreover have "has_target demo_gate demo_conn" "g_header_size demo_gate = 2" "gc_buffer demo_conn = databuffer_zero"
    by (simp_all add: has_target_def demo_gate_def gate_create_def demo_conn_def conn_zero_def)
  ultimately show ?thesis
    using gate_delivers_packets [of demo_gate demo_conn "[[65, 66], [67]]" "[[0], [2, 65], [66, 0, 1, 67]]" 9]
    by (simp add: db_ok_zero frame_ok_def frame_def be_bytes_2)
qed

text \<open>
  A four byte header with its top bit set is a negative size. The connection is then dead
  without being closed: whatever arrives is stored, and nothing is ever forwarded, reported or
  closed.
\<close>

theorem gate_negative_header:
  assumes "db_ok (gc_buffer c)" "db_header (gc_buffer c) < 0" "g_header_size g = 4"
  shows "\<exists>db mp. gate_data g c i data = Some (c\<lparr>gc_buffer := db\<rparr>, mp, []) \<and> db_ok db \<and>
    db_header db = db_header (gc_buffer c) \<and> stream db = stream (gc_buffer c) @ data"
proof -
  obtain db1 mp1 where p: "databuffer_push (gc_buffer c) (g_mp g) data = (db1, mp1)" by (rule prod.exhaust)
  with push_ok [OF assms(1), of "g_mp g" data] have
    d: "db_ok db1" "stream db1 = stream (gc_buffer c) @ data" "db_header db1 = db_header (gc_buffer c)" by simp_all
  have "packet_loop g (c\<lparr>gc_buffer := db1\<rparr>) mp1 i = Some (c\<lparr>gc_buffer := db1\<rparr>, mp1, [])"
    by (subst packet_loop_unfold) (use readheader_kept [of db1 mp1 4] d assms in simp)
  then show ?thesis using p d by (auto simp: gate_data_def)
qed

theorem gate_negative_header_witness:
  "\<exists>db mp. gate_data (demo_gate\<lparr>g_header_size := 4\<rparr>) (demo_conn\<lparr>gc_buffer := databuffer_zero\<lparr>db_header := to_s32 0xFFFFFFFF\<rparr>\<rparr>) 9 [1, 2] =
     Some (demo_conn\<lparr>gc_buffer := db\<rparr>, mp, []) \<and> stream db = [1, 2]"
  using gate_negative_header [of "demo_conn\<lparr>gc_buffer := databuffer_zero\<lparr>db_header := to_s32 0xFFFFFFFF\<rparr>\<rparr>" "demo_gate\<lparr>g_header_size := 4\<rparr>" 9 "[1, 2]"]
  by (auto simp: db_ok_zero to_s32_def)

text \<open>
  A packet with no broker, agent or watchdog to go to is not skipped: its header is
  consumed and its payload stays, so the payload is read again as headers.
\<close>

theorem gate_untargeted_payload_reparsed:
  assumes ok: "db_ok (gc_buffer c)" "db_header (gc_buffer c) = 0" and t: "\<not> has_target g c" and hs: "g_header_size g = 2 \<or> g_header_size g = 4"
    and p: "frame_ok (g_header_size g) p" and s: "stream (gc_buffer c) = frame (g_header_size g) p @ rest"
  shows "\<exists>db mp'. packet_loop g c mp i = packet_loop g (c\<lparr>gc_buffer := db\<rparr>) mp' i \<and> db_ok db \<and> db_header db = 0 \<and> stream db = p @ rest"
proof -
  have len: "g_header_size g \<le> length (stream (gc_buffer c))" "0 < g_header_size g" using hs s by (auto simp: frame_def)
  from readheader_fresh [OF ok(2,1) len, of mp] obtain db mp1 where
    r: "db_ok db" "stream db = p @ rest" "db_header db = header_int (g_header_size g) (be_bytes (g_header_size g) (length p))"
    "databuffer_readheader (gc_buffer c) mp (g_header_size g) = Some (if int (length (stream db)) < db_header db then -1 else db_header db, db, mp1)"
    by (auto simp: s frame_def)
  have h: "db_header db = int (length p)" using r(3) header_int_frame [OF p hs] by simp
  have "gate_forward g (c\<lparr>gc_buffer := db\<rparr>) mp1 (int (length p)) = Some (c\<lparr>gc_buffer := db\<rparr>, mp1, [])"
    using t by (simp add: gate_forward_def has_target_def Let_def)
  then have "packet_loop g c mp i = packet_loop g (c\<lparr>gc_buffer := databuffer_reset db\<rparr>) mp1 i"
    by (subst packet_loop_unfold) (use p in \<open>simp add: r(2,4) h frame_ok_def\<close>)
  with r(1,2) show ?thesis by (intro exI [of _ "databuffer_reset db"] exI [of _ mp1]) (simp add: databuffer_reset_def)
qed

theorem gate_untargeted_payload_reparsed_witness:
  "\<exists>db mp'. packet_loop (demo_gate\<lparr>g_watchdog := 0\<rparr>) ((conn_zero 9)\<lparr>gc_buffer := \<lparr>db_header = 0, db_offset = 0, db_size = 4, db_msgs = [[0, 2, 0, 0]]\<rparr>\<rparr>) \<lparr>mp_pools = 1, mp_free = 5\<rparr> 9 =
     packet_loop (demo_gate\<lparr>g_watchdog := 0\<rparr>) ((conn_zero 9)\<lparr>gc_buffer := db\<rparr>) mp' 9 \<and> stream db = [0, 0]"
  using gate_untargeted_payload_reparsed [of "(conn_zero 9)\<lparr>gc_buffer := \<lparr>db_header = 0, db_offset = 0, db_size = 4, db_msgs = [[0, 2, 0, 0]]\<rparr>\<rparr>"
    "demo_gate\<lparr>g_watchdog := 0\<rparr>" "[0, 0]" "[]" "\<lparr>mp_pools = 1, mp_free = 5\<rparr>" 9]
  by (auto simp: demo_gate_def gate_create_def conn_zero_def db_ok_def stream_def has_target_def frame_ok_def frame_def offset_ok_def numeral_2_eq_2)

end
