(* ===== verification/Crypt_DES.thy ===== *)
theory Crypt_DES
  imports C_Strings
begin

text \<open>
  DES and its use on texts: the first half of \<^verbatim>\<open>lualib-src/lua-crypt.c\<close>, table for table and
  line for line. The permutations are swaps of bits that undo themselves, the rounds are a
  Feistel network, so the reversed subkeys invert the cipher; the paddings are undone by their
  checks. Texts are byte lists shorter than \<open>2 ^ 31\<close>, a raised Lua error is \<open>Inl\<close> of its text.
\<close>

subsection \<open>Tables\<close>

definition SB1 :: "u32 list" where
  "SB1 = [0x01010400, 0x00000000, 0x00010000, 0x01010404, 0x01010004, 0x00010404, 0x00000004, 0x00010000,
     0x00000400, 0x01010400, 0x01010404, 0x00000400, 0x01000404, 0x01010004, 0x01000000, 0x00000004,
     0x00000404, 0x01000400, 0x01000400, 0x00010400, 0x00010400, 0x01010000, 0x01010000, 0x01000404,
     0x00010004, 0x01000004, 0x01000004, 0x00010004, 0x00000000, 0x00000404, 0x00010404, 0x01000000,
     0x00010000, 0x01010404, 0x00000004, 0x01010000, 0x01010400, 0x01000000, 0x01000000, 0x00000400,
     0x01010004, 0x00010000, 0x00010400, 0x01000004, 0x00000400, 0x00000004, 0x01000404, 0x00010404,
     0x01010404, 0x00010004, 0x01010000, 0x01000404, 0x01000004, 0x00000404, 0x00010404, 0x01010400,
     0x00000404, 0x01000400, 0x01000400, 0x00000000, 0x00010004, 0x00010400, 0x00000000, 0x01010004]"

definition SB2 :: "u32 list" where
  "SB2 = [0x80108020, 0x80008000, 0x00008000, 0x00108020, 0x00100000, 0x00000020, 0x80100020, 0x80008020,
     0x80000020, 0x80108020, 0x80108000, 0x80000000, 0x80008000, 0x00100000, 0x00000020, 0x80100020,
     0x00108000, 0x00100020, 0x80008020, 0x00000000, 0x80000000, 0x00008000, 0x00108020, 0x80100000,
     0x00100020, 0x80000020, 0x00000000, 0x00108000, 0x00008020, 0x80108000, 0x80100000, 0x00008020,
     0x00000000, 0x00108020, 0x80100020, 0x00100000, 0x80008020, 0x80100000, 0x80108000, 0x00008000,
     0x80100000, 0x80008000, 0x00000020, 0x80108020, 0x00108020, 0x00000020, 0x00008000, 0x80000000,
     0x00008020, 0x80108000, 0x00100000, 0x80000020, 0x00100020, 0x80008020, 0x80000020, 0x00100020,
     0x00108000, 0x00000000, 0x80008000, 0x00008020, 0x80000000, 0x80100020, 0x80108020, 0x00108000]"

definition SB3 :: "u32 list" where
  "SB3 = [0x00000208, 0x08020200, 0x00000000, 0x08020008, 0x08000200, 0x00000000, 0x00020208, 0x08000200,
     0x00020008, 0x08000008, 0x08000008, 0x00020000, 0x08020208, 0x00020008, 0x08020000, 0x00000208,
     0x08000000, 0x00000008, 0x08020200, 0x00000200, 0x00020200, 0x08020000, 0x08020008, 0x00020208,
     0x08000208, 0x00020200, 0x00020000, 0x08000208, 0x00000008, 0x08020208, 0x00000200, 0x08000000,
     0x08020200, 0x08000000, 0x00020008, 0x00000208, 0x00020000, 0x08020200, 0x08000200, 0x00000000,
     0x00000200, 0x00020008, 0x08020208, 0x08000200, 0x08000008, 0x00000200, 0x00000000, 0x08020008,
     0x08000208, 0x00020000, 0x08000000, 0x08020208, 0x00000008, 0x00020208, 0x00020200, 0x08000008,
     0x08020000, 0x08000208, 0x00000208, 0x08020000, 0x00020208, 0x00000008, 0x08020008, 0x00020200]"

definition SB4 :: "u32 list" where
  "SB4 = [0x00802001, 0x00002081, 0x00002081, 0x00000080, 0x00802080, 0x00800081, 0x00800001, 0x00002001,
     0x00000000, 0x00802000, 0x00802000, 0x00802081, 0x00000081, 0x00000000, 0x00800080, 0x00800001,
     0x00000001, 0x00002000, 0x00800000, 0x00802001, 0x00000080, 0x00800000, 0x00002001, 0x00002080,
     0x00800081, 0x00000001, 0x00002080, 0x00800080, 0x00002000, 0x00802080, 0x00802081, 0x00000081,
     0x00800080, 0x00800001, 0x00802000, 0x00802081, 0x00000081, 0x00000000, 0x00000000, 0x00802000,
     0x00002080, 0x00800080, 0x00800081, 0x00000001, 0x00802001, 0x00002081, 0x00002081, 0x00000080,
     0x00802081, 0x00000081, 0x00000001, 0x00002000, 0x00800001, 0x00002001, 0x00802080, 0x00800081,
     0x00002001, 0x00002080, 0x00800000, 0x00802001, 0x00000080, 0x00800000, 0x00002000, 0x00802080]"

definition SB5 :: "u32 list" where
  "SB5 = [0x00000100, 0x02080100, 0x02080000, 0x42000100, 0x00080000, 0x00000100, 0x40000000, 0x02080000,
     0x40080100, 0x00080000, 0x02000100, 0x40080100, 0x42000100, 0x42080000, 0x00080100, 0x40000000,
     0x02000000, 0x40080000, 0x40080000, 0x00000000, 0x40000100, 0x42080100, 0x42080100, 0x02000100,
     0x42080000, 0x40000100, 0x00000000, 0x42000000, 0x02080100, 0x02000000, 0x42000000, 0x00080100,
     0x00080000, 0x42000100, 0x00000100, 0x02000000, 0x40000000, 0x02080000, 0x42000100, 0x40080100,
     0x02000100, 0x40000000, 0x42080000, 0x02080100, 0x40080100, 0x00000100, 0x02000000, 0x42080000,
     0x42080100, 0x00080100, 0x42000000, 0x42080100, 0x02080000, 0x00000000, 0x40080000, 0x42000000,
     0x00080100, 0x02000100, 0x40000100, 0x00080000, 0x00000000, 0x40080000, 0x02080100, 0x40000100]"

definition SB6 :: "u32 list" where
  "SB6 = [0x20000010, 0x20400000, 0x00004000, 0x20404010, 0x20400000, 0x00000010, 0x20404010, 0x00400000,
     0x20004000, 0x00404010, 0x00400000, 0x20000010, 0x00400010, 0x20004000, 0x20000000, 0x00004010,
     0x00000000, 0x00400010, 0x20004010, 0x00004000, 0x00404000, 0x20004010, 0x00000010, 0x20400010,
     0x20400010, 0x00000000, 0x00404010, 0x20404000, 0x00004010, 0x00404000, 0x20404000, 0x20000000,
     0x20004000, 0x00000010, 0x20400010, 0x00404000, 0x20404010, 0x00400000, 0x00004010, 0x20000010,
     0x00400000, 0x20004000, 0x20000000, 0x00004010, 0x20000010, 0x20404010, 0x00404000, 0x20400000,
     0x00404010, 0x20404000, 0x00000000, 0x20400010, 0x00000010, 0x00004000, 0x20400000, 0x00404010,
     0x00004000, 0x00400010, 0x20004010, 0x00000000, 0x20404000, 0x20000000, 0x00400010, 0x20004010]"

definition SB7 :: "u32 list" where
  "SB7 = [0x00200000, 0x04200002, 0x04000802, 0x00000000, 0x00000800, 0x04000802, 0x00200802, 0x04200800,
     0x04200802, 0x00200000, 0x00000000, 0x04000002, 0x00000002, 0x04000000, 0x04200002, 0x00000802,
     0x04000800, 0x00200802, 0x00200002, 0x04000800, 0x04000002, 0x04200000, 0x04200800, 0x00200002,
     0x04200000, 0x00000800, 0x00000802, 0x04200802, 0x00200800, 0x00000002, 0x04000000, 0x00200800,
     0x04000000, 0x00200800, 0x00200000, 0x04000802, 0x04000802, 0x04200002, 0x04200002, 0x00000002,
     0x00200002, 0x04000000, 0x04000800, 0x00200000, 0x04200800, 0x00000802, 0x00200802, 0x04200800,
     0x00000802, 0x04000002, 0x04200802, 0x04200000, 0x00200800, 0x00000000, 0x00000002, 0x04200802,
     0x00000000, 0x00200802, 0x04200000, 0x00000800, 0x04000002, 0x04000800, 0x00000800, 0x00200002]"

definition SB8 :: "u32 list" where
  "SB8 = [0x10001040, 0x00001000, 0x00040000, 0x10041040, 0x10000000, 0x10001040, 0x00000040, 0x10000000,
     0x00040040, 0x10040000, 0x10041040, 0x00041000, 0x10041000, 0x00041040, 0x00001000, 0x00000040,
     0x10040000, 0x10000040, 0x10001000, 0x00001040, 0x00041000, 0x00040040, 0x10040040, 0x10041000,
     0x00001040, 0x00000000, 0x00000000, 0x10040040, 0x10000040, 0x10001000, 0x00041040, 0x00040000,
     0x00041040, 0x00040000, 0x10041000, 0x00001000, 0x00000040, 0x10040040, 0x00001000, 0x00041040,
     0x10001000, 0x00000040, 0x10000040, 0x10040000, 0x10040040, 0x10000000, 0x00040000, 0x10001040,
     0x00000000, 0x10041040, 0x00040040, 0x10000040, 0x10040000, 0x10001000, 0x10001040, 0x00000000,
     0x10041040, 0x00041000, 0x00041000, 0x00001040, 0x00001040, 0x00040040, 0x10000000, 0x10041000]"

definition LHs :: "u32 list" where
  "LHs = [0x00000000, 0x00000001, 0x00000100, 0x00000101, 0x00010000, 0x00010001, 0x00010100, 0x00010101,
     0x01000000, 0x01000001, 0x01000100, 0x01000101, 0x01010000, 0x01010001, 0x01010100, 0x01010101]"

definition RHs :: "u32 list" where
  "RHs = [0x00000000, 0x01000000, 0x00010000, 0x01010000, 0x00000100, 0x01000100, 0x00010100, 0x01010100,
     0x00000001, 0x01000001, 0x00010001, 0x01010001, 0x00000101, 0x01000101, 0x00010101, 0x01010101]"

text \<open>\<open>GET_UINT32\<close> and \<open>PUT_UINT32\<close>: big endian.\<close>

definition GET_UINT32 :: "u8 list \<Rightarrow> nat \<Rightarrow> u32" where
  "GET_UINT32 b i = push_bit 24 (ucast (b ! i)) OR push_bit 16 (ucast (b ! (i + 1))) OR
     push_bit 8 (ucast (b ! (i + 2))) OR ucast (b ! (i + 3))"

definition PUT_UINT32 :: "u32 \<Rightarrow> u8 list" where
  "PUT_UINT32 n = [ucast (drop_bit 24 n), ucast (drop_bit 16 n), ucast (drop_bit 8 n), ucast n]"

subsection \<open>The block cipher\<close>

text \<open>
  One line of the permutation macros: \<open>T = ((A >> s) ^ B) & m; B ^= T; A ^= T << s\<close>, and the
  line without a shift.
\<close>

definition swap_bits :: "nat \<Rightarrow> u32 \<Rightarrow> u32 \<times> u32 \<Rightarrow> u32 \<times> u32" where
  "swap_bits s m p = (case p of (A, B) \<Rightarrow> let T = (drop_bit s A XOR B) AND m in (A XOR push_bit s T, B XOR T))"

definition rotl32 :: "nat \<Rightarrow> u32 \<Rightarrow> u32" where
  "rotl32 n x = push_bit n x OR drop_bit (32 - n) x"

definition DES_IP :: "u32 \<times> u32 \<Rightarrow> u32 \<times> u32" where
  "DES_IP p =
     (let (X, Y) = swap_bits 4 0x0F0F0F0F p;
          (X, Y) = swap_bits 16 0x0000FFFF (X, Y);
          (Y, X) = swap_bits 2 0x33333333 (Y, X);
          (Y, X) = swap_bits 8 0x00FF00FF (Y, X);
          Y = rotl32 1 Y AND 0xFFFFFFFF;
          (X, Y) = swap_bits 0 0xAAAAAAAA (X, Y);
          X = rotl32 1 X AND 0xFFFFFFFF
      in (X, Y))"

definition DES_FP :: "u32 \<times> u32 \<Rightarrow> u32 \<times> u32" where
  "DES_FP p =
     (let (X, Y) = p;
          X = rotl32 31 X AND 0xFFFFFFFF;
          (X, Y) = swap_bits 0 0xAAAAAAAA (X, Y);
          Y = rotl32 31 Y AND 0xFFFFFFFF;
          (Y, X) = swap_bits 8 0x00FF00FF (Y, X);
          (Y, X) = swap_bits 2 0x33333333 (Y, X);
          (X, Y) = swap_bits 16 0x0000FFFF (X, Y);
          (X, Y) = swap_bits 4 0x0F0F0F0F (X, Y)
      in (X, Y))"

definition sbox :: "u32 list \<Rightarrow> u32 \<Rightarrow> u32" where
  "sbox sb T = sb ! unat (T AND 0x3F)"

text \<open>What \<open>DES_ROUND(X, Y)\<close> adds to \<open>Y\<close>, with the two subkeys it takes.\<close>

definition des_f :: "u32 \<Rightarrow> u32 \<Rightarrow> u32 \<Rightarrow> u32" where
  "des_f k1 k2 X =
     (let T = k1 XOR X;
          y = sbox SB8 T XOR sbox SB6 (drop_bit 8 T) XOR sbox SB4 (drop_bit 16 T) XOR sbox SB2 (drop_bit 24 T);
          T = k2 XOR rotl32 28 X
      in y XOR (sbox SB7 T XOR sbox SB5 (drop_bit 8 T) XOR sbox SB3 (drop_bit 16 T) XOR sbox SB1 (drop_bit 24 T)))"

definition DES_ROUND :: "u32 \<times> u32 \<Rightarrow> u32 \<Rightarrow> u32 \<Rightarrow> u32" where
  "DES_ROUND k X Y = Y XOR des_f (fst k) (snd k) X"

text \<open>\<open>des_main_ks\<close>: the 32 subkeys as the 16 pairs the rounds take.\<close>

definition permuted_choice :: "u32 \<times> u32 \<Rightarrow> u32 \<times> u32" where
  "permuted_choice p =
     (let (Y, X) = swap_bits 4 0x0F0F0F0F (snd p, fst p);
          (Y, X) = swap_bits 0 0x10101010 (Y, X);
          L = (\<lambda>n. LHs ! unat (drop_bit n X AND 0xF));
          R = (\<lambda>n. RHs ! unat (drop_bit n Y AND 0xF));
          X1 = push_bit 3 (L 0) OR push_bit 2 (L 8) OR push_bit 1 (L 16) OR L 24 OR
               push_bit 7 (L 5) OR push_bit 6 (L 13) OR push_bit 5 (L 21) OR push_bit 4 (L 29);
          Y1 = push_bit 3 (R 1) OR push_bit 2 (R 9) OR push_bit 1 (R 17) OR R 25 OR
               push_bit 7 (R 4) OR push_bit 6 (R 12) OR push_bit 5 (R 20) OR push_bit 4 (R 28)
      in (X1 AND 0x0FFFFFFF, Y1 AND 0x0FFFFFFF))"

definition rot28 :: "nat \<Rightarrow> u32 \<Rightarrow> u32" where
  "rot28 n X = (push_bit n X OR drop_bit (28 - n) X) AND 0x0FFFFFFF"

definition subkey1 :: "u32 \<Rightarrow> u32 \<Rightarrow> u32" where
  "subkey1 X Y =
     (push_bit 4 X AND 0x24000000) OR (push_bit 28 X AND 0x10000000) OR
     (push_bit 14 X AND 0x08000000) OR (push_bit 18 X AND 0x02080000) OR
     (push_bit 6 X AND 0x01000000) OR (push_bit 9 X AND 0x00200000) OR
     (drop_bit 1 X AND 0x00100000) OR (push_bit 10 X AND 0x00040000) OR
     (push_bit 2 X AND 0x00020000) OR (drop_bit 10 X AND 0x00010000) OR
     (drop_bit 13 Y AND 0x00002000) OR (drop_bit 4 Y AND 0x00001000) OR
     (push_bit 6 Y AND 0x00000800) OR (drop_bit 1 Y AND 0x00000400) OR
     (drop_bit 14 Y AND 0x00000200) OR (Y AND 0x00000100) OR
     (drop_bit 5 Y AND 0x00000020) OR (drop_bit 10 Y AND 0x00000010) OR
     (drop_bit 3 Y AND 0x00000008) OR (drop_bit 18 Y AND 0x00000004) OR
     (drop_bit 26 Y AND 0x00000002) OR (drop_bit 24 Y AND 0x00000001)"

definition subkey2 :: "u32 \<Rightarrow> u32 \<Rightarrow> u32" where
  "subkey2 X Y =
     (push_bit 15 X AND 0x20000000) OR (push_bit 17 X AND 0x10000000) OR
     (push_bit 10 X AND 0x08000000) OR (push_bit 22 X AND 0x04000000) OR
     (drop_bit 2 X AND 0x02000000) OR (push_bit 1 X AND 0x01000000) OR
     (push_bit 16 X AND 0x00200000) OR (push_bit 11 X AND 0x00100000) OR
     (push_bit 3 X AND 0x00080000) OR (drop_bit 6 X AND 0x00040000) OR
     (push_bit 15 X AND 0x00020000) OR (drop_bit 4 X AND 0x00010000) OR
     (drop_bit 2 Y AND 0x00002000) OR (push_bit 8 Y AND 0x00001000) OR
     (drop_bit 14 Y AND 0x00000808) OR (drop_bit 9 Y AND 0x00000400) OR
     (Y AND 0x00000200) OR (push_bit 7 Y AND 0x00000100) OR
     (drop_bit 7 Y AND 0x00000020) OR (drop_bit 3 Y AND 0x00000011) OR
     (push_bit 2 Y AND 0x00000004) OR (drop_bit 21 Y AND 0x00000002)"

fun subkeys :: "nat list \<Rightarrow> u32 \<times> u32 \<Rightarrow> (u32 \<times> u32) list" where
  "subkeys [] p = []"
| "subkeys (i # is) (X, Y) =
     (let n = (if i < 2 \<or> i = 8 \<or> i = 15 then 1 else 2); X = rot28 n X; Y = rot28 n Y
      in (subkey1 X Y, subkey2 X Y) # subkeys is (X, Y))"

definition des_main_ks :: "u8 list \<Rightarrow> (u32 \<times> u32) list" where
  "des_main_ks key = subkeys [0..<16] (permuted_choice (GET_UINT32 key 0, GET_UINT32 key 4))"

text \<open>\<open>DES_ROUND(Y, X); DES_ROUND(X, Y)\<close>, eight times.\<close>

fun des_rounds :: "(u32 \<times> u32) list \<Rightarrow> u32 \<times> u32 \<Rightarrow> u32 \<times> u32" where
  "des_rounds (k1 # k2 # SK) (X, Y) =
     (let X = DES_ROUND k1 Y X; Y = DES_ROUND k2 X Y in des_rounds SK (X, Y))"
| "des_rounds _ p = p"

definition des_crypt :: "(u32 \<times> u32) list \<Rightarrow> u8 list \<Rightarrow> u8 list" where
  "des_crypt SK input =
     (let (X, Y) = des_rounds SK (DES_IP (GET_UINT32 input 0, GET_UINT32 input 4));
          (Y, X) = DES_FP (Y, X)
      in PUT_UINT32 Y @ PUT_UINT32 X)"

subsection \<open>Padding\<close>

definition PADDING_MODE_ISO7816_4 :: int where "PADDING_MODE_ISO7816_4 = 0"
definition PADDING_MODE_PKCS7 :: int where "PADDING_MODE_PKCS7 = 1"
definition PADDING_MODE_COUNT :: int where "PADDING_MODE_COUNT = 2"

text \<open>A raised Lua error is \<open>Inl\<close> of its text.\<close>

definition check_padding_mode :: "int \<Rightarrow> string + unit" where
  "check_padding_mode mode = (if mode < 0 \<or> mode \<ge> PADDING_MODE_COUNT then Inl (''Invalid padding mode '' @ fmt_d mode) else Inr ())"

definition padding_add_iso7816_4 :: "u8 list \<Rightarrow> u8 list" where
  "padding_add_iso7816_4 src = src @ 0x80 # replicate (7 - length src) 0"

definition padding_add_pkcs7 :: "u8 list \<Rightarrow> u8 list" where
  "padding_add_pkcs7 src = src @ replicate (8 - length src) (of_nat (8 - length src))"

definition add_padding :: "u8 list \<Rightarrow> int \<Rightarrow> string + u8 list" where
  "add_padding src mode =
     (case check_padding_mode mode of
        Inl e \<Rightarrow> Inl e
      | Inr _ \<Rightarrow>
          if length src \<ge> 8 then Inl ''Invalid padding''
          else Inr (if mode = PADDING_MODE_ISO7816_4 then padding_add_iso7816_4 src else padding_add_pkcs7 src))"

text \<open>
  The functions that remove a padding read the text backwards from its end: \<open>rtext\<close> is the
  reversed text, and reading past it is reading in front of the buffer.
\<close>

fun iso7816_4_scan :: "nat \<Rightarrow> u8 list \<Rightarrow> nat \<Rightarrow> nat option" where
  "iso7816_4_scan 0 rtext padding = Some 0"
| "iso7816_4_scan (Suc n) [] padding = None"
| "iso7816_4_scan (Suc n) (c # rtext) padding =
     (if c = 0 then iso7816_4_scan n rtext (padding + 1)
      else if c = 0x80 then Some padding
      else Some 0)"

definition padding_remove_iso7816_4 :: "u8 list \<Rightarrow> nat option" where
  "padding_remove_iso7816_4 rtext = iso7816_4_scan 8 rtext 1"

fun pkcs7_scan :: "nat \<Rightarrow> u8 list \<Rightarrow> u8 \<Rightarrow> nat option" where
  "pkcs7_scan 0 rtext padding = Some (unat padding)"
| "pkcs7_scan (Suc n) [] padding = None"
| "pkcs7_scan (Suc n) (c # rtext) padding = (if c \<noteq> padding then Some 0 else pkcs7_scan n rtext padding)"

definition padding_remove_pkcs7 :: "u8 list \<Rightarrow> nat option" where
  "padding_remove_pkcs7 rtext =
     (case rtext of [] \<Rightarrow> None | padding # rest \<Rightarrow> pkcs7_scan (unat padding - 1) rest padding)"

definition remove_padding :: "u8 list \<Rightarrow> int \<Rightarrow> (string + nat) option" where
  "remove_padding rtext mode =
     (case check_padding_mode mode of
        Inl e \<Rightarrow> Some (Inl e)
      | Inr _ \<Rightarrow> map_option Inr
          (if mode = PADDING_MODE_ISO7816_4 then padding_remove_iso7816_4 rtext else padding_remove_pkcs7 rtext))"

subsection \<open>Encryption and decryption of texts\<close>

definition des_key :: "u8 list \<Rightarrow> string + (u32 \<times> u32) list" where
  "des_key key = (if length key \<noteq> 8 then Inl (''Invalid key size '' @ fmt_u (length key) @ '', need 8 bytes'')
     else Inr (des_main_ks key))"

text \<open>The loop over the whole blocks: their ciphertext, and the rest of the text.\<close>

function des_blocks :: "(u32 \<times> u32) list \<Rightarrow> u8 list \<Rightarrow> u8 list \<times> u8 list" where
  "des_blocks SK text =
     (if length text < 8 then ([], text)
      else let (c, rest) = des_blocks SK (drop 8 text) in (des_crypt SK (take 8 text) @ c, rest))"
  by pat_completeness auto
termination by (relation "measure (\<lambda>(SK, text). length text)") auto

declare des_blocks.simps [simp del]

definition ldesencode :: "u8 list \<Rightarrow> u8 list \<Rightarrow> int option \<Rightarrow> string + u8 list" where
  "ldesencode key text mode =
     (case des_key key of
        Inl e \<Rightarrow> Inl e
      | Inr SK \<Rightarrow>
          let (c, rest) = des_blocks SK text in
          (case add_padding rest (case mode of Some m \<Rightarrow> m | None \<Rightarrow> PADDING_MODE_ISO7816_4) of
             Inl e \<Rightarrow> Inl e
           | Inr tail \<Rightarrow> Inr (c @ des_crypt SK tail)))"

text \<open>The subkeys in reverse, pair by pair.\<close>

definition ldesdecode :: "u8 list \<Rightarrow> u8 list \<Rightarrow> int option \<Rightarrow> (string + u8 list) option" where
  "ldesdecode key text mode =
     (case des_key key of
        Inl e \<Rightarrow> Some (Inl e)
      | Inr ESK \<Rightarrow>
          let SK = rev ESK in
          if length text mod 8 \<noteq> 0 \<or> text = [] then Some (Inl (''Invalid des crypt text length '' @ fmt_u (length text)))
          else
            let buffer = fst (des_blocks SK text) in
            (case remove_padding (rev buffer) (case mode of Some m \<Rightarrow> m | None \<Rightarrow> PADDING_MODE_ISO7816_4) of
               None \<Rightarrow> None
             | Some (Inl e) \<Rightarrow> Some (Inl e)
             | Some (Inr padding) \<Rightarrow>
                 Some (if padding = 0 \<or> padding > 8 then Inl ''Invalid des crypt text''
                       else Inr (take (length text - padding) buffer))))"

subsection \<open>Decryption undoes encryption\<close>

lemma swap_bits_inverse:
  assumes "drop_bit s (push_bit s m) = m"
  shows "swap_bits s m (swap_bits s m p) = p"
proof -
  obtain A B where p: "p = (A, B)" by (rule prod.exhaust)
  define T where "T = (drop_bit s A XOR B) AND m"
  have m: "bit m j \<Longrightarrow> s + j < LENGTH(32)" for j
    using arg_cong [OF assms, of "\<lambda>w. bit w j"] by (auto simp: bit_simps dest: bit_imp_le_length)
  have "(drop_bit s (A XOR push_bit s T) XOR (B XOR T)) AND m = T"
    by (rule bit_word_eqI) (auto simp: T_def bit_simps dest: m simp flip: len_of_numeral_defs)
  then have "swap_bits s m (A XOR push_bit s T, B XOR T) = ((A XOR push_bit s T) XOR push_bit s T, (B XOR T) XOR T)"
    by (simp only: swap_bits_def prod.case Let_def)
  moreover have "swap_bits s m (A, B) = (A XOR push_bit s T, B XOR T)" by (simp only: swap_bits_def prod.case Let_def T_def)
  ultimately show ?thesis by (simp add: p xor.assoc)
qed

lemma mask_fits:
  "drop_bit 4 (push_bit 4 0x0F0F0F0F) = (0x0F0F0F0F :: u32)" "drop_bit 16 (push_bit 16 0x0000FFFF) = (0x0000FFFF :: u32)"
  "drop_bit 2 (push_bit 2 0x33333333) = (0x33333333 :: u32)" "drop_bit 8 (push_bit 8 0x00FF00FF) = (0x00FF00FF :: u32)"
  by (simp_all add: push_bit_eq_mult drop_bit_eq_div word_arith_nat_div unat_of_nat)

lemma rotl32_inverse_gen: "0 < n \<Longrightarrow> n < 32 \<Longrightarrow> rotl32 (32 - n) (rotl32 n x) = x"
  by (rule bit_word_eqI) (auto simp: rotl32_def bit_simps)

lemma rotl32_inverse: "rotl32 (Suc 0) (rotl32 31 x) = x" "rotl32 31 (rotl32 (Suc 0) x) = x"
  using rotl32_inverse_gen [of 31 x] rotl32_inverse_gen [of 1 x] by simp_all

lemma full_mask: "x AND 0xFFFFFFFF = (x :: u32)"
proof -
  have "(0xFFFFFFFF :: u32) = -1" by simp
  then show ?thesis by (simp only: and.right_neutral)
qed

lemma DES_FP_IP: "DES_FP (DES_IP p) = p"
  by (simp add: DES_FP_def DES_IP_def Let_def split_def full_mask rotl32_inverse swap_bits_inverse mask_fits)

lemma DES_IP_FP: "DES_IP (DES_FP p) = p"
  by (simp add: DES_FP_def DES_IP_def Let_def split_def full_mask rotl32_inverse swap_bits_inverse mask_fits)

lemma des_round_inverse [simp]: "DES_ROUND k X (DES_ROUND k X Y) = Y"
  by (simp add: DES_ROUND_def xor.assoc)

lemma des_rounds_append:
  "even (length ks) \<Longrightarrow> des_rounds (ks @ ls) p = des_rounds ls (des_rounds ks p)"
proof (induction ks p rule: des_rounds.induct)
  case (1 k1 k2 SK X Y)
  then show ?case by (simp add: Let_def)
qed auto

lemma des_rounds_inverse:
  "even (length ks) \<Longrightarrow> des_rounds (rev ks) (prod.swap (des_rounds ks p)) = prod.swap p"
proof (induction ks p rule: des_rounds.induct)
  case (1 k1 k2 SK X Y)
  then show ?case by (simp add: Let_def des_rounds_append)
qed auto

text \<open>Four bytes and the word they make up.\<close>

definition join4 :: "u8 \<Rightarrow> u8 \<Rightarrow> u8 \<Rightarrow> u8 \<Rightarrow> u32" where
  "join4 a b c d = push_bit 24 (ucast a) OR push_bit 16 (ucast b) OR push_bit 8 (ucast c) OR ucast d"

lemma join4_split: "join4 (ucast (drop_bit 24 n)) (ucast (drop_bit 16 n)) (ucast (drop_bit 8 n)) (ucast n) = n"
proof (rule bit_word_eqI)
  fix i
  assume "i < LENGTH(32)"
  then consider "i < 8" | "8 \<le> i" "i < 16" | "16 \<le> i" "i < 24" | "24 \<le> i" "i < 32" by fastforce
  then show "bit (join4 (ucast (drop_bit 24 n)) (ucast (drop_bit 16 n)) (ucast (drop_bit 8 n)) (ucast n)) i = bit n i"
    by cases (auto simp: join4_def bit_simps)
qed

lemma split_join4:
  "ucast (drop_bit 24 (join4 a b c d)) = a" "ucast (drop_bit 16 (join4 a b c d)) = b"
  "ucast (drop_bit 8 (join4 a b c d)) = c" "ucast (join4 a b c d) = d"
  by (rule bit_word_eqI; auto simp: join4_def bit_simps dest: bit_imp_le_length)+

lemma GET_PUT: "GET_UINT32 (PUT_UINT32 a @ PUT_UINT32 b) 0 = a" "GET_UINT32 (PUT_UINT32 a @ PUT_UINT32 b) 4 = b"
  using join4_split [of a] join4_split [of b] by (simp_all add: GET_UINT32_def PUT_UINT32_def join4_def)

lemma PUT_join4: "PUT_UINT32 (join4 a b c d) = [a, b, c, d]"
  by (simp add: PUT_UINT32_def split_join4)

lemma length_8: "length b = 8 \<Longrightarrow> \<exists>b0 b1 b2 b3 b4 b5 b6 b7. b = [b0, b1, b2, b3, b4, b5, b6, b7]"
  by (auto simp: numeral_eq_Suc length_Suc_conv)

lemma PUT_GET: "length b = 8 \<Longrightarrow> PUT_UINT32 (GET_UINT32 b 0) @ PUT_UINT32 (GET_UINT32 b 4) = b"
  by (drule length_8) (auto simp: GET_UINT32_def PUT_join4 simp flip: join4_def)

lemma des_crypt_length: "length (des_crypt SK b) = 8"
  by (simp add: des_crypt_def PUT_UINT32_def split: prod.splits)

theorem des_crypt_inverse:
  assumes "even (length SK)" "length b = 8"
  shows "des_crypt (rev SK) (des_crypt SK b) = b"
proof -
  obtain X Y where r: "des_rounds SK (DES_IP (GET_UINT32 b 0, GET_UINT32 b 4)) = (X, Y)" by (rule prod.exhaust)
  obtain Y1 X1 where f: "DES_FP (Y, X) = (Y1, X1)" by (rule prod.exhaust)
  have "DES_IP (Y1, X1) = (Y, X)" using DES_IP_FP [of "(Y, X)"] f by simp
  moreover have "des_rounds (rev SK) (Y, X) = prod.swap (DES_IP (GET_UINT32 b 0, GET_UINT32 b 4))"
    using des_rounds_inverse [OF assms(1), of "DES_IP (GET_UINT32 b 0, GET_UINT32 b 4)"] r by simp
  moreover have "DES_FP (DES_IP (GET_UINT32 b 0, GET_UINT32 b 4)) = (GET_UINT32 b 0, GET_UINT32 b 4)" by (rule DES_FP_IP)
  ultimately show ?thesis using r f PUT_GET [OF assms(2)]
    by (simp add: des_crypt_def GET_PUT split: prod.splits)
qed

lemma length_main_ks: "length (des_main_ks key) = 16"
proof -
  have "length (subkeys is p) = length is" for "is" p
    by (induction "is" p rule: subkeys.induct) (simp_all add: Let_def)
  then show ?thesis by (simp add: des_main_ks_def)
qed

lemma des_blocks_append:
  "length b = 8 \<Longrightarrow> des_blocks SK (b @ t) = (des_crypt SK b @ fst (des_blocks SK t), snd (des_blocks SK t))"
  by (subst des_blocks.simps) (simp add: Let_def split_def)

lemma des_blocks_short: "length t < 8 \<Longrightarrow> des_blocks SK t = ([], t)"
  by (simp add: des_blocks.simps)

text \<open>Decrypting what the loop produced gives the blocks it read.\<close>

lemma des_blocks_inverse:
  "even (length SK) \<Longrightarrow> des_blocks SK ts = (c, rest) \<Longrightarrow>
     length rest < 8 \<and> (\<exists>whole. ts = whole @ rest \<and> length c = length whole \<and> 8 dvd length c \<and>
       (\<forall>t. fst (des_blocks (rev SK) (c @ t)) = whole @ fst (des_blocks (rev SK) t)))"
proof (induction SK ts arbitrary: c rest rule: des_blocks.induct)
  case (1 SK ts)
  show ?case
  proof (cases "length ts < 8")
    case True
    with 1(3) show ?thesis by (auto simp: des_blocks_short)
  next
    case False
    let ?b = "take 8 ts"
    have b: "length ?b = 8" using False by simp
    obtain c1 where c1: "des_blocks SK (drop 8 ts) = (c1, rest)" "c = des_crypt SK ?b @ c1"
      using 1(3) False by (auto simp: des_blocks.simps [of SK ts] split: prod.splits)
    from 1(1) [OF False 1(2) c1(1)] obtain whole where w: "length rest < 8" "drop 8 ts = whole @ rest" "length c1 = length whole"
      "8 dvd length c1" "\<And>t. fst (des_blocks (rev SK) (c1 @ t)) = whole @ fst (des_blocks (rev SK) t)" by blast
    have "ts = (?b @ whole) @ rest" using w(2) by (metis append_take_drop_id append.assoc)
    moreover have "fst (des_blocks (rev SK) (c @ t)) = (?b @ whole) @ fst (des_blocks (rev SK) t)" for t
      using c1(2) w(5) by (simp add: des_blocks_append des_crypt_length des_crypt_inverse [OF 1(2) b] del: length_take)
    moreover have "length c = length (?b @ whole)" "8 dvd length c" using c1(2) w(3,4) b by (simp_all add: des_crypt_length)
    ultimately show ?thesis using w(1) by blast
  qed
qed

lemma iso7816_4_scan_zeros: "k < n \<Longrightarrow> iso7816_4_scan n (replicate k 0 @ 0x80 # r) p = Some (p + k)"
proof (induction k arbitrary: n p)
  case 0
  then show ?case by (cases n) simp_all
next
  case (Suc k)
  then show ?case by (cases n) simp_all
qed

lemma pkcs7_scan_same: "pkcs7_scan k (replicate k x @ r) x = Some (unat x)"
  by (induction k) simp_all

definition pad :: "int \<Rightarrow> u8 list \<Rightarrow> u8 list" where
  "pad mode src = (if mode = PADDING_MODE_ISO7816_4 then padding_add_iso7816_4 src else padding_add_pkcs7 src)"

lemma remove_pad:
  assumes "length src < 8" "mode = 0 \<or> mode = 1"
  shows "add_padding src mode = Inr (pad mode src)" "length (pad mode src) = 8" "take (length src) (pad mode src) = src"
    "remove_padding (rev (whole @ pad mode src)) mode = Some (Inr (8 - length src))"
proof -
  note modes = PADDING_MODE_ISO7816_4_def PADDING_MODE_PKCS7_def PADDING_MODE_COUNT_def
  show "add_padding src mode = Inr (pad mode src)"
    using assms by (auto simp: add_padding_def check_padding_mode_def pad_def modes)
  show "length (pad mode src) = 8" "take (length src) (pad mode src) = src"
    using assms by (auto simp: pad_def padding_add_iso7816_4_def padding_add_pkcs7_def)
  show "remove_padding (rev (whole @ pad mode src)) mode = Some (Inr (8 - length src))"
  proof (cases "mode = 0")
    case True
    have "7 - length src < 8" by simp
    from iso7816_4_scan_zeros [OF this, of "rev src @ rev whole" 1] assms(1) True show ?thesis
      by (simp add: remove_padding_def check_padding_mode_def pad_def modes padding_remove_iso7816_4_def padding_add_iso7816_4_def
        rev_replicate Suc_diff_Suc flip: replicate_append_same)
  next
    case False
    have u: "unat (of_nat (8 - length src) :: u8) = 8 - length src" by (simp add: unat_of_nat)
    let ?x = "of_nat (8 - length src) :: u8"
    have "replicate (8 - length src) ?x = ?x # replicate (8 - length src - 1) ?x"
      using assms(1) by (cases "8 - length src") simp_all
    moreover have "rev (whole @ pad mode src) = replicate (8 - length src) ?x @ rev src @ rev whole"
      using False assms by (simp only: pad_def modes padding_add_pkcs7_def if_False rev_append rev_replicate append_assoc)
    ultimately have "rev (whole @ pad mode src) = ?x # replicate (8 - length src - 1) ?x @ rev src @ rev whole"
      by (simp only: append_Cons)
    then show ?thesis using False assms pkcs7_scan_same [of "8 - length src - 1" ?x "rev src @ rev whole"] u
      by (simp only: remove_padding_def check_padding_mode_def modes padding_remove_pkcs7_def) simp
  qed
qed

subsection \<open>The round trip\<close>

text \<open>
  C24: what \<open>desencode\<close> makes of a text under an eight byte key, in either padding mode, is a
  whole number of blocks, longer than the text, and \<open>desdecode\<close> gives the text back.
\<close>

theorem des_round_trip:
  assumes "length key = 8" "mode = None \<or> mode = Some PADDING_MODE_ISO7816_4 \<or> mode = Some PADDING_MODE_PKCS7"
  shows "\<exists>c. ldesencode key txt mode = Inr c \<and> 8 dvd length c \<and> length txt < length c \<and>
    ldesdecode key c mode = Some (Inr txt)"
proof -
  let ?SK = "des_main_ks key"
  define m where "m = (case mode of Some m \<Rightarrow> m | None \<Rightarrow> PADDING_MODE_ISO7816_4)"
  have m: "m = 0 \<or> m = 1" using assms(2) by (auto simp: m_def PADDING_MODE_ISO7816_4_def PADDING_MODE_PKCS7_def)
  have SK: "even (length ?SK)" by (simp add: length_main_ks)
  obtain c rest where b: "des_blocks ?SK txt = (c, rest)" by (rule prod.exhaust)
  from des_blocks_inverse [OF SK b] obtain whole where w: "length rest < 8" "txt = whole @ rest" "length c = length whole"
    "8 dvd length c" "\<And>t. fst (des_blocks (rev ?SK) (c @ t)) = whole @ fst (des_blocks (rev ?SK) t)" by blast
  note P = remove_pad [OF w(1) m]
  let ?c = "c @ des_crypt ?SK (pad m rest)"
  have ne: "des_crypt ?SK (pad m rest) \<noteq> []" using des_crypt_length [of ?SK "pad m rest"] by auto
  have "ldesencode key txt mode = Inr ?c"
    using assms(1) b P(1) by (simp add: ldesencode_def des_key_def flip: m_def)
  moreover have len: "length ?c = length c + 8" by (simp add: des_crypt_length)
  moreover have "fst (des_blocks (rev ?SK) ?c) = whole @ pad m rest"
    using w(5) [of "des_crypt ?SK (pad m rest)"] des_blocks_append [OF des_crypt_length, of "rev ?SK" ?SK "pad m rest" "[]"]
    by (simp add: des_blocks_short des_crypt_inverse [OF SK P(2)])
  moreover have "take (length ?c - (8 - length rest)) (whole @ pad m rest) = txt"
    using w(1-3) P(3) len by simp
  ultimately have "ldesdecode key ?c mode = Some (Inr txt)"
    using assms(1) w(1,4) P(4) [of whole] ne by (simp add: ldesdecode_def des_key_def flip: m_def)
  with \<open>ldesencode key txt mode = Inr ?c\<close> w(1-4) len show ?thesis by (intro exI [of _ ?c]) simp
qed

theorem des_round_trip_witness:
  "\<exists>c. ldesencode [1, 2, 3, 4, 5, 6, 7, 8] [65, 66, 67] None = Inr c \<and> ldesdecode [1, 2, 3, 4, 5, 6, 7, 8] c None = Some (Inr [65, 66, 67])"
  using des_round_trip [of "[1, 2, 3, 4, 5, 6, 7, 8]" None "[65, 66, 67]"] by auto

lemma pkcs7_scan_past: "k < n \<Longrightarrow> pkcs7_scan n (replicate k p) p = None"
proof (induction k arbitrary: n)
  case 0
  then show ?case by (cases n) simp_all
next
  case (Suc k)
  then show ?case by (cases n) simp_all
qed

text \<open>
  C26: PKCS7 padding is checked without a bound. For every key there is an eight byte
  ciphertext whose last plaintext byte is 255 and for which the check reads in front of the
  buffer.
\<close>

theorem des_pkcs7_reads_before_buffer:
  assumes "length key = 8"
  shows "\<exists>c. length c = 8 \<and> ldesdecode key c (Some PADDING_MODE_PKCS7) = None"
proof -
  let ?SK = "des_main_ks key" and ?p = "replicate 8 (255 :: u8)"
  let ?c = "des_crypt ?SK ?p"
  have "even (length ?SK)" by (simp add: length_main_ks)
  then have "fst (des_blocks (rev ?SK) (?c @ [])) = ?p"
    by (simp add: des_blocks_append des_crypt_length des_blocks_short des_crypt_inverse del: append_Nil2)
  moreover have "remove_padding (rev ?p) 1 = None"
  proof -
    have "rev ?p = 255 # replicate 7 255" by (simp only: rev_replicate) (simp add: eval_nat_numeral)
    moreover have "pkcs7_scan (unat (255 :: u8) - 1) (replicate 7 255) 255 = None" by (rule pkcs7_scan_past) simp
    ultimately show ?thesis
      by (simp only: remove_padding_def check_padding_mode_def PADDING_MODE_COUNT_def PADDING_MODE_ISO7816_4_def padding_remove_pkcs7_def) simp
  qed
  moreover have "?c \<noteq> []" using des_crypt_length [of ?SK ?p] by (metis list.size(3) zero_neq_numeral)
  ultimately have "ldesdecode key ?c (Some PADDING_MODE_PKCS7) = None"
    using assms by (simp add: ldesdecode_def des_key_def des_crypt_length PADDING_MODE_PKCS7_def)
  then show ?thesis using des_crypt_length by blast
qed

theorem des_pkcs7_reads_before_buffer_witness:
  "\<exists>c. length c = 8 \<and> ldesdecode [1, 2, 3, 4, 5, 6, 7, 8] c (Some PADDING_MODE_PKCS7) = None"
  using des_pkcs7_reads_before_buffer [of "[1, 2, 3, 4, 5, 6, 7, 8]"] by simp

end
