(* ===== verification/Crypt.thy ===== *)
theory Crypt
  imports C_Strings
begin

text \<open>
  The other functions of \<^verbatim>\<open>lualib-src/lua-crypt.c\<close>: string hashes, the MD5 block function and
  the keyed hashes on it, Diffie-Hellman over the largest 64 bit prime, hexadecimal, base64 and
  xor. A string argument is a byte list, a raised Lua error is \<open>Inl\<close> of its text.
\<close>

subsection \<open>Hashes of strings\<close>

text \<open>\<open>Hash\<close>: two 32 bit hashes, written little endian.\<close>

definition hash_step :: "u8 \<Rightarrow> u32 \<times> u32 \<Rightarrow> u32 \<times> u32" where
  "hash_step c p = (case p of (djb_hash, js_hash) \<Rightarrow>
     (djb_hash + (push_bit 5 djb_hash + ucast c), js_hash XOR (push_bit 5 js_hash + ucast c + drop_bit 2 js_hash)))"

definition le4 :: "u32 \<Rightarrow> u8 list" where
  "le4 r = [ucast r, ucast (drop_bit 8 r), ucast (drop_bit 16 r), ucast (drop_bit 24 r)]"

definition Hash :: "u8 list \<Rightarrow> u8 list" where
  "Hash str = (let (djb_hash, js_hash) = fold hash_step str (5381, 1315423911) in le4 djb_hash @ le4 js_hash)"

definition lhashkey :: "u8 list \<Rightarrow> u8 list" where
  "lhashkey key = Hash key"

text \<open>\<open>rnd\<close> are the results of eight calls of \<open>random\<close>.\<close>

definition lrandomkey :: "u8 list \<Rightarrow> u8 list" where
  "lrandomkey rnd = (if fold (XOR) rnd 0 = 0 then rnd[0 := rnd ! 0 OR 1] else rnd)"

subsection \<open>MD5 block function and the keyed hashes\<close>

definition md5_k :: "u32 list" where
  "md5_k = [0xD76AA478, 0xE8C7B756, 0x242070DB, 0xC1BDCEEE, 0xF57C0FAF, 0x4787C62A, 0xA8304613, 0xFD469501,
     0x698098D8, 0x8B44F7AF, 0xFFFF5BB1, 0x895CD7BE, 0x6B901122, 0xFD987193, 0xA679438E, 0x49B40821,
     0xF61E2562, 0xC040B340, 0x265E5A51, 0xE9B6C7AA, 0xD62F105D, 0x02441453, 0xD8A1E681, 0xE7D3FBC8,
     0x21E1CDE6, 0xC33707D6, 0xF4D50D87, 0x455A14ED, 0xA9E3E905, 0xFCEFA3F8, 0x676F02D9, 0x8D2A4C8A,
     0xFFFA3942, 0x8771F681, 0x6D9D6122, 0xFDE5380C, 0xA4BEEA44, 0x4BDECFA9, 0xF6BB4B60, 0xBEBFBC70,
     0x289B7EC6, 0xEAA127FA, 0xD4EF3085, 0x04881D05, 0xD9D4D039, 0xE6DB99E5, 0x1FA27CF8, 0xC4AC5665,
     0xF4292244, 0x432AFF97, 0xAB9423A7, 0xFC93A039, 0x655B59C3, 0x8F0CCC92, 0xFFEFF47D, 0x85845DD1,
     0x6FA87E4F, 0xFE2CE6E0, 0xA3014314, 0x4E0811A1, 0xF7537E82, 0xBD3AF235, 0x2AD7D2BB, 0xEB86D391]"

definition md5_r :: "nat list" where
  "md5_r = [7, 12, 17, 22, 7, 12, 17, 22,
     7, 12, 17, 22, 7, 12, 17, 22,
     5, 9, 14, 20, 5, 9, 14, 20,
     5, 9, 14, 20, 5, 9, 14, 20,
     4, 11, 16, 23, 4, 11, 16, 23,
     4, 11, 16, 23, 4, 11, 16, 23,
     6, 10, 15, 21, 6, 10, 15, 21,
     6, 10, 15, 21, 6, 10, 15, 21]"

definition LEFTROTATE :: "u32 \<Rightarrow> nat \<Rightarrow> u32" where
  "LEFTROTATE x c = push_bit c x OR drop_bit (32 - c) x"

definition md5_step :: "u32 list \<Rightarrow> nat \<Rightarrow> u32 \<times> u32 \<times> u32 \<times> u32 \<Rightarrow> u32 \<times> u32 \<times> u32 \<times> u32" where
  "md5_step w i s = (case s of (a, b, c, d) \<Rightarrow>
     let (f, g) = (if i < 16 then ((b AND c) OR (NOT b AND d), i)
       else if i < 32 then ((d AND b) OR (NOT d AND c), (5 * i + 1) mod 16)
       else if i < 48 then (b XOR c XOR d, (3 * i + 5) mod 16)
       else (c XOR (b OR NOT d), (7 * i) mod 16))
     in (d, b + LEFTROTATE (a + f + md5_k ! i + w ! g) (md5_r ! i), b, c))"

definition digest_md5 :: "u32 list \<Rightarrow> u32 \<times> u32 \<times> u32 \<times> u32" where
  "digest_md5 w = fold (md5_step w) [0..<64] (0x67452301, 0xEFCDAB89, 0x98BADCFE, 0x10325476)"

definition hmac :: "u32 \<times> u32 \<Rightarrow> u32 \<times> u32 \<Rightarrow> u32 \<times> u32" where
  "hmac x y =
     (let w = concat (replicate 4 [snd x, fst x, snd y, fst y]);
          (r0, r1, r2, r3) = digest_md5 w
      in (r2 XOR r3, r0 XOR r1))"

definition hmac_md5 :: "u32 \<times> u32 \<Rightarrow> u32 \<times> u32 \<Rightarrow> u32 \<times> u32" where
  "hmac_md5 x y =
     (let w = concat (replicate 3 [fst x, snd x, fst y, snd y]) @ [0x80, 0, 384, 0];
          (r0, r1, r2, r3) = digest_md5 w
      in ((r0 + 0x67452301) XOR (r2 + 0x98BADCFE), (r1 + 0xEFCDAB89) XOR (r3 + 0x10325476)))"

text \<open>Two little endian words of eight bytes.\<close>

definition le_word :: "u8 list \<Rightarrow> nat \<Rightarrow> u32" where
  "le_word x i = ucast (x ! i) OR push_bit 8 (ucast (x ! (i + 1))) OR push_bit 16 (ucast (x ! (i + 2))) OR
     push_bit 24 (ucast (x ! (i + 3)))"

definition read64 :: "u8 list \<Rightarrow> u8 list \<Rightarrow> string + (u32 \<times> u32) \<times> (u32 \<times> u32)" where
  "read64 x y =
     (if length x \<noteq> 8 then Inl ''Invalid uint64 x''
      else if length y \<noteq> 8 then Inl ''Invalid uint64 y''
      else Inr ((le_word x 0, le_word x 4), (le_word y 0, le_word y 4)))"

definition pushqword :: "u32 \<times> u32 \<Rightarrow> u8 list" where
  "pushqword r = le4 (fst r) @ le4 (snd r)"

definition lhmac64 :: "u8 list \<Rightarrow> u8 list \<Rightarrow> string + u8 list" where
  "lhmac64 x y = (case read64 x y of Inl e \<Rightarrow> Inl e | Inr (xx, yy) \<Rightarrow> Inr (pushqword (hmac xx yy)))"

definition lhmac64_md5 :: "u8 list \<Rightarrow> u8 list \<Rightarrow> string + u8 list" where
  "lhmac64_md5 x y = (case read64 x y of Inl e \<Rightarrow> Inl e | Inr (xx, yy) \<Rightarrow> Inr (pushqword (hmac_md5 xx yy)))"

definition lhmac_hash :: "u8 list \<Rightarrow> u8 list \<Rightarrow> string + u8 list" where
  "lhmac_hash x txt =
     (if length x \<noteq> 8 then Inl ''Invalid uint64 key''
      else let h = Hash txt in
        Inr (pushqword (hmac (le_word h 0, le_word h 4) (le_word x 0, le_word x 4))))"

subsection \<open>Diffie-Hellman over a 64 bit prime\<close>

definition P64 :: u64 where "P64 = 0xFFFFFFFFFFFFFFC5"
definition G5 :: u64 where "G5 = 5"

function mul_loop :: "u64 \<Rightarrow> u64 \<Rightarrow> u64 \<Rightarrow> u64" where
  "mul_loop a b m =
     (if b = 0 then m
      else
        let m = (if b AND 1 \<noteq> 0 then let t = P64 - a in if m \<ge> t then m - t else m + a else m);
            a = (if a \<ge> P64 - a then a * 2 - P64 else a * 2)
        in mul_loop a (drop_bit 1 b) m)"
  by pat_completeness auto
termination
proof (relation "measure (\<lambda>(a, b, m). unat b)")
  fix b :: u64
  assume "b \<noteq> 0"
  then have "0 < unat b" by (simp add: unat_gt_0)
  then have "unat b div 2 < unat b" by simp
  moreover have "unat (drop_bit 1 b) = unat b div 2" by (simp only: drop_bit_eq_div power_one_right unat_div_distrib) simp
  ultimately have "unat (drop_bit 1 b) < unat b" by simp
  then show "((x, drop_bit 1 b, z), a, b, m) \<in> measure (\<lambda>(a, b, m). unat b)" for x :: u64 and z :: u64 and a :: u64 and m :: u64
    by simp
qed auto

declare mul_loop.simps [simp del]

definition mul_mod_p :: "u64 \<Rightarrow> u64 \<Rightarrow> u64" where
  "mul_mod_p a b = mul_loop a b 0"

text \<open>The recursion does not end for the exponent 0, which the callers exclude.\<close>

partial_function (option) pow_mod_p :: "u64 \<Rightarrow> u64 \<Rightarrow> u64 option" where
  "pow_mod_p a b =
     (if b = 1 then Some a
      else do {
        t \<leftarrow> pow_mod_p a (drop_bit 1 b);
        let t = mul_mod_p t t;
        Some (if b mod 2 \<noteq> 0 then mul_mod_p t a else t)
      })"

definition powmodp :: "u64 \<Rightarrow> u64 \<Rightarrow> u64 option" where
  "powmodp a b = pow_mod_p (if a > P64 then a mod P64 else a) b"

definition push64 :: "u64 \<Rightarrow> u8 list" where
  "push64 r = map (\<lambda>i. ucast (drop_bit (8 * i) r)) [0..<8]"

definition qword :: "u8 list \<Rightarrow> u64" where
  "qword x = ucast (le_word x 0) OR push_bit 32 (ucast (le_word x 4))"

definition ldhsecret :: "u8 list \<Rightarrow> u8 list \<Rightarrow> (string + u8 list) option" where
  "ldhsecret x y =
     (case read64 x y of
        Inl e \<Rightarrow> Some (Inl e)
      | Inr _ \<Rightarrow>
          if qword x = 0 \<or> qword y = 0 then Some (Inl ''Can't be 0'')
          else map_option (Inr \<circ> push64) (powmodp (qword x) (qword y)))"

definition ldhexchange :: "u8 list \<Rightarrow> (string + u8 list) option" where
  "ldhexchange x =
     (if length x \<noteq> 8 then Some (Inl ''Invalid dh uint64 key'')
      else if qword x = 0 then Some (Inl ''Can't be 0'')
      else map_option (Inr \<circ> push64) (powmodp G5 (qword x)))"

subsection \<open>Hexadecimal, base64 and xor\<close>

definition ltohex :: "u8 list \<Rightarrow> string" where
  "ltohex txt = concat (map (\<lambda>b. [lower_hex ! unat (drop_bit 4 b), lower_hex ! unat (b AND 0xF)]) txt)"

text \<open>The macro \<open>HEX\<close>.\<close>

definition HEX :: "u8 \<Rightarrow> u8" where
  "HEX c = (if 48 \<le> c \<and> c \<le> 57 then c - 48 else c - 97 + 10)"

fun fromhex :: "u8 list \<Rightarrow> string + u8 list" where
  "fromhex (a # b # txt) =
     (let hi = HEX a; low = HEX b in
      if hi > 16 \<or> low > 16 then Inl ''Invalid hex text''
      else case fromhex txt of Inl e \<Rightarrow> Inl e | Inr bs \<Rightarrow> Inr ((push_bit 4 hi OR low) # bs))"
| "fromhex _ = Inr []"

definition lfromhex :: "u8 list \<Rightarrow> string + u8 list" where
  "lfromhex txt = (if odd (length txt) then Inl (''Invalid hex text size '' @ fmt_u (length txt)) else fromhex txt)"

definition b64_encoding :: string where
  "b64_encoding = ''ABCDEFGHIJKLMNOPQRSTUVWXYZabcdefghijklmnopqrstuvwxyz0123456789+/''"

fun lb64encode :: "u8 list \<Rightarrow> string" where
  "lb64encode (x # y # z # txt) =
     (let v = push_bit 16 (ucast x) OR push_bit 8 (ucast y) OR ucast z :: u32 in
      [b64_encoding ! unat (drop_bit 18 v), b64_encoding ! unat (drop_bit 12 v AND 0x3F),
       b64_encoding ! unat (drop_bit 6 v AND 0x3F), b64_encoding ! unat (v AND 0x3F)] @ lb64encode txt)"
| "lb64encode [x] =
     (let v = ucast x :: u32 in
      [b64_encoding ! unat (drop_bit 2 v), b64_encoding ! unat (push_bit 4 (v AND 3)), CHR ''='', CHR ''=''])"
| "lb64encode [x, y] =
     (let v = push_bit 8 (ucast x) OR ucast y :: u32 in
      [b64_encoding ! unat (drop_bit 10 v), b64_encoding ! unat (drop_bit 4 v AND 0x3F),
       b64_encoding ! unat (push_bit 2 (v AND 0xF)), CHR ''=''])"
| "lb64encode [] = []"

definition b64_decoding :: "int list" where
  "b64_decoding = [62, -1, -1, -1, 63, 52, 53, 54, 55, 56, 57, 58, 59, 60, 61, -1, -1, -1, -2, -1, -1, -1,
     0, 1, 2, 3, 4, 5, 6, 7, 8, 9, 10, 11, 12, 13, 14, 15, 16, 17, 18, 19, 20, 21, 22, 23, 24, 25, -1, -1, -1, -1, -1, -1,
     26, 27, 28, 29, 30, 31, 32, 33, 34, 35, 36, 37, 38, 39, 40, 41, 42, 43, 44, 45, 46, 47, 48, 49, 50, 51]"

definition b64index :: "u8 \<Rightarrow> int" where
  "b64index c = (if c < 43 then -1
     else let c = c - 43 in if unat c \<ge> length b64_decoding then -1 else b64_decoding ! unat c)"

text \<open>The inner loop: four characters of the alphabet, other characters skipped.\<close>

fun b64_four :: "nat \<Rightarrow> u8 list \<Rightarrow> (int list \<times> u8 list) option" where
  "b64_four 0 txt = Some ([], txt)"
| "b64_four (Suc n) [] = None"
| "b64_four (Suc n) (x # txt) =
     (if b64index x = -1 then b64_four (Suc n) txt
      else map_option (\<lambda>(cs, rest). (b64index x # cs, rest)) (b64_four n txt))"

text \<open>The bytes of four decoded characters.\<close>

definition b64_bytes :: "int list \<Rightarrow> string + u8 list" where
  "b64_bytes c =
     (let padding = length (filter (\<lambda>x. x = -2) c); w = (\<lambda>j. of_int (c ! j) :: u32) in
      if padding = 0 then
        (let v = push_bit 18 (w 0) OR push_bit 12 (w 1) OR push_bit 6 (w 2) OR w 3
         in Inr [ucast (drop_bit 16 v), ucast (drop_bit 8 v), ucast v])
      else if padding = 1 then
        (if c ! 3 \<noteq> -2 \<or> w 2 AND 3 \<noteq> 0 then Inl ''Invalid base64 text''
         else let v = push_bit 10 (w 0) OR push_bit 4 (w 1) OR drop_bit 2 (w 2) in Inr [ucast (drop_bit 8 v), ucast v])
      else if padding = 2 then
        (if c ! 3 \<noteq> -2 \<or> c ! 2 \<noteq> -2 \<or> w 1 AND 0xF \<noteq> 0 then Inl ''Invalid base64 text''
         else let v = push_bit 2 (w 0) OR drop_bit 4 (w 1) in Inr [ucast v])
      else Inl ''Invalid base64 text'')"

lemma b64_four_shorter: "b64_four n xs = Some (cs, rest) \<Longrightarrow> length rest + n \<le> length xs"
  by (induction n xs arbitrary: cs rule: b64_four.induct) (fastforce split: if_splits)+

function lb64decode :: "u8 list \<Rightarrow> string + u8 list" where
  "lb64decode txt =
     (if txt = [] then Inr []
      else case b64_four 4 txt of
        None \<Rightarrow> Inl ''Invalid base64 text''
      | Some (c, rest) \<Rightarrow>
          (case b64_bytes c of
             Inl e \<Rightarrow> Inl e
           | Inr bs \<Rightarrow> (case lb64decode rest of Inl e \<Rightarrow> Inl e | Inr out \<Rightarrow> Inr (bs @ out))))"
  by pat_completeness auto
termination by (relation "measure length") (auto dest: b64_four_shorter)

declare lb64decode.simps [simp del]

definition lxor_str :: "u8 list \<Rightarrow> u8 list \<Rightarrow> string + u8 list" where
  "lxor_str s1 s2 = (if s2 = [] then Inl ''Can't xor empty string''
     else Inr (map (\<lambda>i. s1 ! i XOR s2 ! (i mod length s2)) [0..<length s1]))"

subsection \<open>Multiplication and powers modulo the prime\<close>

abbreviation P :: nat where "P \<equiv> 18446744073709551557"

lemma P64: "unat P64 = P" by (simp add: P64_def)

lemma add_mod_p:
  assumes "unat a < P" "unat m < P"
  shows "unat (if m \<ge> P64 - a then m - (P64 - a) else m + a) = (unat m + unat a) mod P"
proof -
  have a: "a \<le> P64" using assms(1) P64 by (simp add: word_le_nat_alt)
  have t: "unat (P64 - a) = P - unat a" using a P64 by (simp add: unat_sub)
  show ?thesis
  proof (cases "P64 - a \<le> m")
    case True
    then have le: "P - unat a \<le> unat m" using t by (simp add: word_le_nat_alt)
    have "unat (m - (P64 - a)) = unat m - (P - unat a)" using True t by (simp add: unat_sub)
    also have "\<dots> = (unat m + unat a) mod P" using le assms by (simp add: mod_if) linarith
    finally show ?thesis using True by simp
  next
    case False
    then have lt: "unat m < P - unat a" using t by (simp add: word_le_nat_alt)
    then have "unat m + unat a < P" by simp
    moreover from this have "unat (m + a) = unat m + unat a" by (simp add: unat_add_lem [symmetric])
    ultimately show ?thesis using False by simp
  qed
qed

lemma double_mod_p:
  assumes "unat a < P"
  shows "unat (if a \<ge> P64 - a then a * 2 - P64 else a * 2) = 2 * unat a mod P"
proof -
  have le: "a \<le> P64" using assms P64 by (simp add: word_le_nat_alt)
  have "(if a \<ge> P64 - a then a * 2 - P64 else a * 2) = (if a \<ge> P64 - a then a - (P64 - a) else a + a)"
    by (simp add: algebra_simps)
  then show ?thesis using add_mod_p [OF assms assms] by (simp add: mult_2)
qed

lemma mod_2_odd: "(b :: u64) mod 2 \<noteq> 0 \<longleftrightarrow> odd (unat b)"
proof -
  have "unat (b mod 2) = unat b mod 2" by (simp only: unat_mod_distrib) simp
  then show ?thesis by (metis odd_iff_mod_2_eq_one even_iff_mod_2_eq_zero unat_0 unat_eq_0)
qed

lemma and_1_odd: "(b :: u64) AND 1 \<noteq> 0 \<longleftrightarrow> odd (unat b)"
  using mod_2_odd [of b] by (simp add: and_one_eq)

lemma unat_half: "unat (drop_bit 1 (b :: u64)) = unat b div 2"
  by (simp only: drop_bit_eq_div power_one_right unat_div_distrib) simp

lemma mul_loop_ok:
  "unat a < P \<Longrightarrow> unat m < P \<Longrightarrow> unat (mul_loop a b m) = (unat m + unat a * unat b) mod P"
proof (induction a b m rule: mul_loop.induct)
  case (1 a b m)
  show ?case
  proof (cases "b = 0")
    case True
    with 1(3) show ?thesis by (simp add: mul_loop.simps)
  next
    case False
    define m' where "m' = (if b AND 1 \<noteq> 0 then let t = P64 - a in if m \<ge> t then m - t else m + a else m)"
    define a' where "a' = (if a \<ge> P64 - a then a * 2 - P64 else a * 2)"
    have a': "unat a' = 2 * unat a mod P" unfolding a'_def by (rule double_mod_p [OF 1(2)])
    have m': "unat m' = (unat m + unat a * (unat b mod 2)) mod P"
      using add_mod_p [OF 1(2,3)] 1(3) by (cases "odd (unat b)") (simp_all add: m'_def and_1_odd Let_def odd_iff_mod_2_eq_one)
    have "unat (mul_loop a b m) = unat (mul_loop a' (drop_bit 1 b) m')"
      using False by (subst mul_loop.simps) (simp add: Let_def flip: m'_def a'_def)
    also have "\<dots> = (unat m' + unat a' * (unat b div 2)) mod P"
      using 1(1) [OF False m'_def a'_def] a' m' unfolding unat_half by simp
    also have "\<dots> = (unat m + unat a * (unat b mod 2) + 2 * unat a * (unat b div 2)) mod P"
      unfolding a' m' by (rule mod_add_cong) (simp_all only: mod_mod_trivial mod_mult_left_eq)
    also have "unat m + unat a * (unat b mod 2) + 2 * unat a * (unat b div 2) = unat m + unat a * unat b"
    proof -
      have "unat a * unat b = unat a * (unat b div 2 * 2 + unat b mod 2)" by (simp only: div_mult_mod_eq)
      then show ?thesis by (simp only: distrib_left add.assoc mult.assoc mult.commute [of 2] mult.left_commute add.commute)
    qed
    finally show ?thesis .
  qed
qed

lemma mul_mod_p_ok: "unat a < P \<Longrightarrow> unat (mul_mod_p a b) = unat a * unat b mod P"
  using mul_loop_ok [of a 0 b] by (simp add: mul_mod_p_def)

lemma pow_mod_p_ok:
  "unat a < P \<Longrightarrow> b \<noteq> 0 \<Longrightarrow> \<exists>r. pow_mod_p a b = Some r \<and> unat r = unat a ^ unat b mod P"
proof (induction "unat b" arbitrary: b rule: less_induct)
  case less
  show ?case
  proof (cases "b = 1")
    case True
    with less.prems(1) show ?thesis by (subst pow_mod_p.simps) simp
  next
    case False
    have b: "2 \<le> unat b" using False less.prems(2)
      by (metis One_nat_def Suc_1 Suc_leI le_less_Suc_eq less_2_cases not_less unat_1 unat_eq_0 word_unat_eq_iff)
    have half: "unat (drop_bit 1 b) = unat b div 2" by (rule unat_half)
    then have "unat (drop_bit 1 b) < unat b" "drop_bit 1 b \<noteq> 0" using b by (auto simp flip: unat_eq_0)
    from less.hyps [OF this(1) less.prems(1) this(2)] obtain t where
      t: "pow_mod_p a (drop_bit 1 b) = Some t" "unat t = unat a ^ (unat b div 2) mod P" unfolding half by blast
    let ?t = "mul_mod_p t t"
    have lt: "unat t < P" using t(2) by simp
    have sq: "unat ?t = unat a ^ (2 * (unat b div 2)) mod P"
      using mul_mod_p_ok [OF lt, of t] t(2) by (simp add: mod_mult_eq power_mult power2_eq_square mult.commute [of 2] flip: power_mult_distrib)
    have odd: "b mod 2 \<noteq> 0 \<longleftrightarrow> odd (unat b)" by (rule mod_2_odd)
    show ?thesis
    proof (cases "odd (unat b)")
      case True
      then have "unat b = Suc (2 * (unat b div 2))" by simp
      then have "unat a ^ unat b = unat a ^ (2 * (unat b div 2)) * unat a" by (metis power_Suc2)
      moreover have "unat (mul_mod_p ?t a) = unat a ^ (2 * (unat b div 2)) * unat a mod P"
        using mul_mod_p_ok [of ?t a] sq by (simp add: mod_mult_left_eq)
      ultimately show ?thesis using t(1) False True odd by (subst pow_mod_p.simps) simp
    next
      case e: False
      then have "2 * (unat b div 2) = unat b" by simp
      with sq t(1) False e odd show ?thesis by (subst pow_mod_p.simps) simp
    qed
  qed
qed

lemma powmodp_ok:
  assumes "a \<noteq> P64" "b \<noteq> 0" shows "\<exists>r. powmodp a b = Some r \<and> unat r = unat a ^ unat b mod P"
proof -
  let ?a = "if a > P64 then a mod P64 else a"
  have "unat ?a = unat a mod P"
  proof (cases "a > P64")
    case True
    then show ?thesis by (simp add: unat_mod P64)
  next
    case False
    with assms(1) have "unat a < P" using P64 by (metis linorder_neqE word_less_nat_alt)
    with False show ?thesis by simp
  qed
  moreover from this have "unat ?a < P" by simp
  ultimately show ?thesis using pow_mod_p_ok [of ?a b] assms(2) by (simp add: powmodp_def power_mod)
qed

subsection \<open>Bytes of a word\<close>

lemma le_word_le4: "le_word (le4 a @ le4 b) 0 = a" "le_word (le4 a @ le4 b) 4 = b"
proof -
  have "ucast (ucast n :: u8) OR push_bit 8 (ucast (ucast (drop_bit 8 n) :: u8)) OR
      push_bit 16 (ucast (ucast (drop_bit 16 n) :: u8)) OR push_bit 24 (ucast (ucast (drop_bit 24 n) :: u8)) = n" for n :: u32
  proof (rule bit_word_eqI)
    fix i
    assume "i < LENGTH(32)"
    then consider "i < 8" | "8 \<le> i" "i < 16" | "16 \<le> i" "i < 24" | "24 \<le> i" "i < 32" by fastforce
    then show "bit (ucast (ucast n :: u8) OR push_bit 8 (ucast (ucast (drop_bit 8 n) :: u8)) OR
      push_bit 16 (ucast (ucast (drop_bit 16 n) :: u8)) OR push_bit 24 (ucast (ucast (drop_bit 24 n) :: u8)) :: u32) i = bit n i"
      by cases (auto simp: bit_simps)
  qed
  then show "le_word (le4 a @ le4 b) 0 = a" "le_word (le4 a @ le4 b) 4 = b" by (simp_all add: le_word_def le4_def)
qed

lemma push64_le4: "push64 r = le4 (ucast r) @ le4 (ucast (drop_bit 32 r))"
proof -
  have "push64 r = [ucast r, ucast (drop_bit 8 r), ucast (drop_bit 16 r), ucast (drop_bit 24 r), ucast (drop_bit 32 r),
      ucast (drop_bit 40 r), ucast (drop_bit 48 r), ucast (drop_bit 56 r)]"
    by (simp add: push64_def upt_rec)
  moreover have "ucast (drop_bit k r) = (ucast (drop_bit k (ucast r :: u32)) :: u8)" if "k \<le> 24" for k
    by (rule bit_word_eqI) (use that in \<open>auto simp: bit_simps\<close>)
  moreover have "ucast (drop_bit (32 + k) r) = (ucast (drop_bit k (ucast (drop_bit 32 r) :: u32)) :: u8)" if "k \<le> 24" for k
    by (rule bit_word_eqI) (use that in \<open>auto simp: bit_simps add.assoc\<close>)
  from this [of 0] this [of 8] this [of 16] this [of 24] calculation(2) [of 0] calculation(2) [of 8] calculation(2) [of 16] calculation(2) [of 24]
    calculation(1) show ?thesis by (simp add: le4_def)
qed

lemma qword_push64: "qword (push64 r) = r"
proof -
  have "ucast (ucast r :: u32) OR push_bit 32 (ucast (ucast (drop_bit 32 r) :: u32)) = r"
  proof (rule bit_word_eqI)
    fix i
    assume "i < LENGTH(64)"
    then consider "i < 32" | "32 \<le> i" "i < 64" by fastforce
    then show "bit (ucast (ucast r :: u32) OR push_bit 32 (ucast (ucast (drop_bit 32 r) :: u32)) :: u64) i = bit r i"
      by cases (auto simp: bit_simps)
  qed
  then show ?thesis by (simp add: qword_def push64_le4 le_word_le4)
qed

lemma length_push64: "length (push64 r) = 8" by (simp add: push64_def)

subsection \<open>The key exchange\<close>

lemma coprime_5_P: "coprime 5 P" by (simp add: coprime_iff_gcd_eq_1 gcd_non_0_nat)

lemma power_5_ne_0: "5 ^ n mod P \<noteq> 0"
proof
  assume "5 ^ n mod P = 0"
  then have "P dvd 5 ^ n" by (simp add: mod_eq_0_iff_dvd)
  moreover have "coprime (5 ^ n) P" using coprime_5_P by simp
  ultimately have "is_unit P" by (meson coprime_common_divisor dvd_refl)
  then show False by simp
qed

lemma ldhexchange_ok:
  assumes "length x = 8" "qword x \<noteq> 0"
  shows "\<exists>A. ldhexchange x = Some (Inr (push64 A)) \<and> unat A = 5 ^ unat (qword x) mod P"
  using powmodp_ok [of G5 "qword x"] assms by (auto simp: ldhexchange_def G5_def P64_def)

text \<open>
  C25: the key exchange agrees. Two eight byte secrets that are not zero give public values
  without an error, and each side computes the same secret from its own secret and the other's
  public value, namely \<open>5\<close> to the product of the secrets modulo the prime.
\<close>

theorem dh_exchange_agrees:
  assumes "length x = 8" "length y = 8" "qword x \<noteq> 0" "qword y \<noteq> 0"
  shows "\<exists>X Y s. ldhexchange x = Some (Inr X) \<and> ldhexchange y = Some (Inr Y) \<and>
    ldhsecret Y x = Some (Inr s) \<and> ldhsecret X y = Some (Inr s) \<and>
    unat (qword s) = 5 ^ (unat (qword x) * unat (qword y)) mod P"
proof -
  obtain A where A: "ldhexchange x = Some (Inr (push64 A))" "unat A = 5 ^ unat (qword x) mod P"
    using ldhexchange_ok assms by blast
  obtain B where B: "ldhexchange y = Some (Inr (push64 B))" "unat B = 5 ^ unat (qword y) mod P"
    using ldhexchange_ok assms by blast
  have ne: "C \<noteq> 0 \<and> C \<noteq> P64" if "unat C = 5 ^ n mod P" for C n
  proof -
    have "unat C \<noteq> 0" "unat C < P" using that power_5_ne_0 by simp_all
    then show ?thesis using P64 by auto
  qed
  obtain r where r: "powmodp A (qword y) = Some r" "unat r = unat A ^ unat (qword y) mod P"
    using powmodp_ok ne [OF A(2)] assms(4) by blast
  obtain q where q: "powmodp B (qword x) = Some q" "unat q = unat B ^ unat (qword x) mod P"
    using powmodp_ok ne [OF B(2)] assms(3) by blast
  have "unat r = 5 ^ (unat (qword x) * unat (qword y)) mod P" using r(2) A(2) by (simp add: power_mod power_mult)
  moreover have "unat q = 5 ^ (unat (qword x) * unat (qword y)) mod P"
    using q(2) B(2) by (simp add: power_mod power_mult mult.commute flip: power_mult)
  ultimately have rq: "q = r" "unat r = 5 ^ (unat (qword x) * unat (qword y)) mod P" by (simp_all add: word_unat_eq_iff)
  have "ldhsecret (push64 A) y = Some (Inr (push64 r))" "ldhsecret (push64 B) x = Some (Inr (push64 r))"
    using r(1) q(1) rq(1) ne [OF A(2)] ne [OF B(2)] assms
    by (simp_all add: ldhsecret_def read64_def qword_push64 length_push64)
  with A(1) B(1) rq(2) show ?thesis by (auto simp: qword_push64)
qed

theorem dh_exchange_agrees_witness:
  "\<exists>X Y s. ldhexchange [3, 0, 0, 0, 0, 0, 0, 0] = Some (Inr X) \<and> ldhexchange [4, 0, 0, 0, 0, 0, 0, 1] = Some (Inr Y) \<and>
    ldhsecret Y [3, 0, 0, 0, 0, 0, 0, 0] = Some (Inr s) \<and> ldhsecret X [4, 0, 0, 0, 0, 0, 0, 1] = Some (Inr s)"
proof -
  have "qword [3, 0, 0, 0, 0, 0, 0, 0] \<noteq> 0" "qword [4, 0, 0, 0, 0, 0, 0, 1] \<noteq> 0"
    by (simp_all add: qword_def le_word_def)
  then show ?thesis using dh_exchange_agrees [of "[3, 0, 0, 0, 0, 0, 0, 0]" "[4, 0, 0, 0, 0, 0, 0, 1]"] by auto
qed

subsection \<open>Text encodings\<close>

definition byte :: "char \<Rightarrow> u8" where "byte c = of_nat (code c)"

lemma bytes_of_simps [simp]: "bytes_of [] = []" "bytes_of (c # s) = byte c # bytes_of s" "bytes_of (s @ t) = bytes_of s @ bytes_of t"
  by (simp_all add: bytes_of_def byte_def)

lemma HEX_lower: "n < 16 \<Longrightarrow> HEX (byte (lower_hex ! n)) = of_nat n"
proof -
  have "map (HEX \<circ> byte) lower_hex = map of_nat [0..<16]"
    by (simp add: HEX_def lower_hex_def byte_def code_def upt_rec)
  then show "n < 16 \<Longrightarrow> HEX (byte (lower_hex ! n)) = of_nat n"
    by (metis (no_types, lifting) comp_apply length_map length_upt nth_map nth_upt add_0 diff_zero)
qed

lemma nibbles: "unat (drop_bit 4 (b :: u8)) < 16" "unat (b AND 0xF) < 16"
  "push_bit 4 (drop_bit 4 b) OR (b AND 0xF) = b"
proof -
  show "unat (drop_bit 4 b) < 16"
    using unsigned_less [of b, where ?'a = nat] by (simp add: unat_drop_bit_eq drop_bit_nat_def less_mult_imp_div_less)
  have "b AND 0xF \<le> 0xF" by (rule word_and_le1)
  then show "unat (b AND 0xF) < 16" by (simp add: word_le_nat_alt)
  have m: "(0xF :: u8) = mask 4" by (simp add: mask_eq_exp_minus_1)
  show "push_bit 4 (drop_bit 4 b) OR (b AND 0xF) = b"
    unfolding m by (rule bit_word_eqI) (auto simp: bit_simps)
qed

text \<open>
  Decoding the hexadecimal text of a string gives the string back; the text has two digits
  for each byte. The decoder also accepts the letter g as the value 16.
\<close>

theorem hex_round_trip:
  "lfromhex (bytes_of (ltohex bs)) = Inr bs \<and> length (ltohex bs) = 2 * length bs \<and> lfromhex (bytes_of ''0g'') = Inr [16]"
proof -
  have len: "length (ltohex bs) = 2 * length bs" by (induction bs) (simp_all add: ltohex_def)
  have "fromhex (bytes_of (ltohex bs)) = Inr bs"
  proof (induction bs)
    case Nil
    then show ?case by (simp add: ltohex_def)
  next
    case (Cons b bs)
    have "HEX (byte (lower_hex ! unat (drop_bit 4 b))) = drop_bit 4 b" "HEX (byte (lower_hex ! unat (b AND 0xF))) = b AND 0xF"
      using nibbles [of b] by (simp_all add: HEX_lower)
    moreover have "\<not> drop_bit 4 b > 16" "\<not> b AND 0xF > 16"
      using nibbles(1,2) [of b] by (simp_all add: word_less_nat_alt)
    ultimately show ?case using Cons nibbles(3) [of b] by (simp add: ltohex_def)
  qed
  moreover have "length (bytes_of s) = length s" for s by (simp add: bytes_of_def)
  moreover have "lfromhex (bytes_of ''0g'') = Inr [16]" by (simp add: lfromhex_def HEX_def byte_def code_def)
  ultimately show ?thesis using len by (simp add: lfromhex_def)
qed

subsubsection \<open>Base64\<close>

lemma b64index_encoding: "n < 64 \<Longrightarrow> b64index (byte (b64_encoding ! n)) = int n"
proof -
  have "map (b64index \<circ> byte) b64_encoding = map int [0..<64]"
    by (simp add: b64index_def b64_encoding_def b64_decoding_def byte_def code_def upt_rec)
  then show "n < 64 \<Longrightarrow> b64index (byte (b64_encoding ! n)) = int n"
    by (metis (no_types, lifting) comp_apply length_map length_upt nth_map nth_upt add_0 diff_zero)
qed

lemma b64index_pad: "b64index (byte (CHR ''='')) = -2"
  by (simp add: b64index_def b64_decoding_def byte_def code_def)

definition sextet :: "u32 \<Rightarrow> char" where "sextet w = b64_encoding ! unat w"

lemma b64_four_sextet: "w < 64 \<Longrightarrow> b64_four (Suc n) (byte (sextet w) # t) =
    map_option (\<lambda>(cs, rest). (int (unat w) # cs, rest)) (b64_four n t)"
proof -
  have "uint w \<noteq> -1" using uint_ge_0 [of w] by linarith
  then show "w < 64 \<Longrightarrow> ?thesis" using b64index_encoding [of "unat w"] by (simp add: sextet_def word_less_nat_alt)
qed

lemma b64_four_pad: "b64_four (Suc n) (byte (CHR ''='') # t) = map_option (\<lambda>(cs, rest). (-2 # cs, rest)) (b64_four n t)"
  by (simp add: b64index_pad)

lemma uint_not_neg: "uint w \<noteq> -2" "uint w \<noteq> -1"
  using uint_ge_0 [of w] by linarith+

lemma four: "b64_four 4 = b64_four (Suc (Suc (Suc (Suc 0))))"
  by (simp add: eval_nat_numeral)

lemma lb64decode_quad:
  assumes "b64_four 4 (q @ t) = Some (c, t)" "q \<noteq> []" "b64_bytes c = Inr bs" "lb64decode t = Inr out"
  shows "lb64decode (q @ t) = Inr (bs @ out)"
  using assms by (subst lb64decode.simps) simp

lemma sextets:
  fixes x y z :: u8
  defines "v \<equiv> push_bit 16 (ucast x) OR push_bit 8 (ucast y) OR ucast z :: u32"
  shows "drop_bit 18 v < 64" "drop_bit 12 v AND 0x3F < 64" "drop_bit 6 v AND 0x3F < 64" "v AND 0x3F < 64"
    "push_bit 18 (drop_bit 18 v) OR push_bit 12 (drop_bit 12 v AND 0x3F) OR push_bit 6 (drop_bit 6 v AND 0x3F) OR (v AND 0x3F) = v"
    "ucast (drop_bit 16 v) = x" "ucast (drop_bit 8 v) = y" "ucast v = z"
proof -
  have m: "(0x3F :: u32) = mask 6" by (simp add: mask_eq_exp_minus_1)
  have small: "w AND 0x3F < 64" for w :: u32
  proof -
    have "w AND 0x3F \<le> 0x3F" by (rule word_and_le1)
    then show ?thesis by (simp add: word_le_nat_alt word_less_nat_alt)
  qed
  show "drop_bit 12 v AND 0x3F < 64" "drop_bit 6 v AND 0x3F < 64" "v AND 0x3F < 64" by (rule small)+
  have "drop_bit 18 v = drop_bit 18 v AND 0x3F"
    unfolding m by (rule bit_word_eqI) (auto simp: v_def bit_simps dest: bit_imp_le_length)
  with small [of "drop_bit 18 v"] show "drop_bit 18 v < 64" by simp
  show "push_bit 18 (drop_bit 18 v) OR push_bit 12 (drop_bit 12 v AND 0x3F) OR push_bit 6 (drop_bit 6 v AND 0x3F) OR (v AND 0x3F) = v"
  proof (unfold m, rule bit_word_eqI)
    fix i
    assume "i < LENGTH(32)"
    then consider "i < 6" | "6 \<le> i" "i < 12" | "12 \<le> i" "i < 18" | "18 \<le> i" "i < 32" by fastforce
    then show "bit (push_bit 18 (drop_bit 18 v) OR push_bit 12 (drop_bit 12 v AND mask 6) OR push_bit 6 (drop_bit 6 v AND mask 6) OR
      (v AND mask 6)) i = bit v i" by cases (auto simp: bit_simps)
  qed
  show "ucast (drop_bit 16 v) = x" "ucast (drop_bit 8 v) = y" "ucast v = z"
    by (rule bit_word_eqI; auto simp: v_def bit_simps dest: bit_imp_le_length)+
qed

lemma sextets_2:
  fixes x y :: u8
  defines "v \<equiv> push_bit 8 (ucast x) OR ucast y :: u32"
  shows "drop_bit 10 v < 64" "drop_bit 4 v AND 0x3F < 64" "push_bit 2 (v AND 0xF) < 64" "push_bit 2 (v AND 0xF) AND 3 = 0"
    "push_bit 10 (drop_bit 10 v) OR push_bit 4 (drop_bit 4 v AND 0x3F) OR drop_bit 2 (push_bit 2 (v AND 0xF)) = v"
    "ucast (drop_bit 8 v) = x" "ucast v = y"
proof -
  have m: "(0x3F :: u32) = mask 6" "(0xF :: u32) = mask 4" "(3 :: u32) = mask 2" by (simp_all add: mask_eq_exp_minus_1)
  have small: "w AND 0x3F < 64" for w :: u32
  proof -
    have "w AND 0x3F \<le> 0x3F" by (rule word_and_le1)
    then show ?thesis by (simp add: word_le_nat_alt word_less_nat_alt)
  qed
  show "drop_bit 4 v AND 0x3F < 64" by (rule small)
  have "drop_bit 10 v = drop_bit 10 v AND 0x3F"
    unfolding m by (rule bit_word_eqI) (auto simp: v_def bit_simps dest: bit_imp_le_length)
  with small [of "drop_bit 10 v"] show "drop_bit 10 v < 64" by simp
  have "push_bit 2 (v AND 0xF) = push_bit 2 (v AND 0xF) AND 0x3F"
    unfolding m by (rule bit_word_eqI) (auto simp: bit_simps)
  with small [of "push_bit 2 (v AND 0xF)"] show "push_bit 2 (v AND 0xF) < 64" by simp
  show "push_bit 2 (v AND 0xF) AND 3 = 0"
    unfolding m by (rule bit_word_eqI) (auto simp: bit_simps)
  show "push_bit 10 (drop_bit 10 v) OR push_bit 4 (drop_bit 4 v AND 0x3F) OR drop_bit 2 (push_bit 2 (v AND 0xF)) = v"
  proof (unfold m, rule bit_word_eqI)
    fix i
    assume "i < LENGTH(32)"
    then consider "i < 4" | "4 \<le> i" "i < 10" | "10 \<le> i" "i < 32" by fastforce
    then show "bit (push_bit 10 (drop_bit 10 v) OR push_bit 4 (drop_bit 4 v AND mask 6) OR drop_bit 2 (push_bit 2 (v AND mask 4))) i = bit v i"
      by cases (auto simp: bit_simps)
  qed
  show "ucast (drop_bit 8 v) = x" "ucast v = y"
    by (rule bit_word_eqI; auto simp: v_def bit_simps dest: bit_imp_le_length)+
qed

lemma sextets_1:
  fixes x :: u8
  defines "v \<equiv> ucast x :: u32"
  shows "drop_bit 2 v < 64" "push_bit 4 (v AND 3) < 64" "push_bit 4 (v AND 3) AND 0xF = 0"
    "ucast (push_bit 2 (drop_bit 2 v) OR drop_bit 4 (push_bit 4 (v AND 3))) = x"
proof -
  have m: "(0x3F :: u32) = mask 6" "(0xF :: u32) = mask 4" "(3 :: u32) = mask 2" by (simp_all add: mask_eq_exp_minus_1)
  have small: "w AND 0x3F < 64" for w :: u32
  proof -
    have "w AND 0x3F \<le> 0x3F" by (rule word_and_le1)
    then show ?thesis by (simp add: word_le_nat_alt word_less_nat_alt)
  qed
  have "drop_bit 2 v = drop_bit 2 v AND 0x3F" "push_bit 4 (v AND 3) = push_bit 4 (v AND 3) AND 0x3F"
    unfolding m by (rule bit_word_eqI; auto simp: v_def bit_simps dest: bit_imp_le_length)+
  with small [of "drop_bit 2 v"] small [of "push_bit 4 (v AND 3)"]
  show "drop_bit 2 v < 64" "push_bit 4 (v AND 3) < 64" by simp_all
  show "push_bit 4 (v AND 3) AND 0xF = 0"
    unfolding m by (rule bit_word_eqI) (auto simp: bit_simps)
  show "ucast (push_bit 2 (drop_bit 2 v) OR drop_bit 4 (push_bit 4 (v AND 3))) = x"
  proof (unfold m, rule bit_word_eqI)
    fix i
    assume "i < LENGTH(8)"
    then consider "i < 2" | "2 \<le> i" "i < 8" by fastforce
    then show "bit (ucast (push_bit 2 (drop_bit 2 v) OR drop_bit 4 (push_bit 4 (v AND mask 2))) :: u8) i = bit x i"
    proof cases
      case 2
      then obtain j where "i = 2 + j" using le_Suc_ex by blast
      with 2 show ?thesis by (auto simp: v_def bit_simps)
    qed (auto simp: v_def bit_simps)
  qed
qed

text \<open>
  Decoding the base64 text of a string gives the string back, whatever its length modulo
  three; the text has four characters for every started group of three bytes.
\<close>

theorem base64_round_trip:
  "lb64decode (bytes_of (lb64encode bs)) = Inr bs \<and> length (lb64encode bs) = (length bs + 2) div 3 * 4"
proof -
  have "lb64decode (bytes_of (lb64encode bs)) = Inr bs"
  proof (induction bs rule: lb64encode.induct)
    case (1 x y z rest)
    define v where "v = push_bit 16 (ucast x) OR push_bit 8 (ucast y) OR (ucast z :: u32)"
    note S = sextets [of x y z, folded v_def]
    let ?q = "[byte (sextet (drop_bit 18 v)), byte (sextet (drop_bit 12 v AND 0x3F)), byte (sextet (drop_bit 6 v AND 0x3F)), byte (sextet (v AND 0x3F))]"
    let ?c = "[int (unat (drop_bit 18 v)), int (unat (drop_bit 12 v AND 0x3F)), int (unat (drop_bit 6 v AND 0x3F)), int (unat (v AND 0x3F))]"
    have "b64_four 4 (?q @ t) = Some (?c, t)" for t
      using S(1-4) by (simp add: four b64_four_sextet del: b64_four.simps(3))
    moreover have "b64_bytes ?c = Inr [x, y, z]"
      unfolding b64_bytes_def using S(5-8) by (simp add: Let_def uint_not_neg)
    moreover have "bytes_of (lb64encode (x # y # z # rest)) = ?q @ bytes_of (lb64encode rest)"
      by (simp add: Let_def sextet_def flip: v_def)
    ultimately show ?case using lb64decode_quad [of ?q "bytes_of (lb64encode rest)" ?c "[x, y, z]" rest] 1 by simp
  next
    case (2 x)
    define v where "v = (ucast x :: u32)"
    note S = sextets_1 [of x, folded v_def]
    let ?q = "[byte (sextet (drop_bit 2 v)), byte (sextet (push_bit 4 (v AND 3))), byte (CHR ''=''), byte (CHR ''='')]"
    let ?c = "[int (unat (drop_bit 2 v)), int (unat (push_bit 4 (v AND 3))), -2, -2]"
    have "b64_four 4 (?q @ []) = Some (?c, [])"
      using S(1,2) by (simp add: four b64_four_sextet b64_four_pad del: b64_four.simps(3))
    moreover have "b64_bytes ?c = Inr [x]"
      unfolding b64_bytes_def using S(3,4) by (simp add: Let_def uint_not_neg)
    moreover have "bytes_of (lb64encode [x]) = ?q" by (simp add: Let_def sextet_def flip: v_def)
    ultimately show ?case using lb64decode_quad [of ?q "[]" ?c "[x]" "[]"] by (simp add: lb64decode.simps)
  next
    case (3 x y)
    define v where "v = push_bit 8 (ucast x) OR (ucast y :: u32)"
    note S = sextets_2 [of x y, folded v_def]
    let ?q = "[byte (sextet (drop_bit 10 v)), byte (sextet (drop_bit 4 v AND 0x3F)), byte (sextet (push_bit 2 (v AND 0xF))), byte (CHR ''='')]"
    let ?c = "[int (unat (drop_bit 10 v)), int (unat (drop_bit 4 v AND 0x3F)), int (unat (push_bit 2 (v AND 0xF))), -2]"
    have "b64_four 4 (?q @ []) = Some (?c, [])"
      using S(1-3) by (simp add: four b64_four_sextet b64_four_pad del: b64_four.simps(3))
    moreover have "b64_bytes ?c = Inr [x, y]"
      unfolding b64_bytes_def using S(4-7) by (simp add: Let_def uint_not_neg)
    moreover have "bytes_of (lb64encode [x, y]) = ?q" by (simp add: Let_def sextet_def flip: v_def)
    ultimately show ?case using lb64decode_quad [of ?q "[]" ?c "[x, y]" "[]"] by (simp add: lb64decode.simps)
  next
    case 4
    then show ?case by (simp add: lb64decode.simps)
  qed
  moreover have "length (lb64encode bs) = (length bs + 2) div 3 * 4"
  proof (induction bs rule: lb64encode.induct)
    case (1 x y z rest)
    have "(length (x # y # z # rest) + 2) div 3 = (length rest + 2 + 3) div 3" by simp
    also have "\<dots> = (length rest + 2) div 3 + 1" by (rule div_add_self2) simp
    finally show ?case using 1 by (simp add: Let_def)
  qed (simp_all add: Let_def)
  ultimately show ?thesis by simp
qed

subsection \<open>Keys and xor\<close>

lemma xor_str_involution:
  assumes "k \<noteq> []"
  shows "\<exists>c. lxor_str s k = Inr c \<and> length c = length s \<and> lxor_str c k = Inr s"
proof -
  let ?c = "map (\<lambda>i. s ! i XOR k ! (i mod length k)) [0..<length s]"
  have "map (\<lambda>i. ?c ! i XOR k ! (i mod length k)) [0..<length s] = s"
    by (rule nth_equalityI) (simp_all add: xor.assoc)
  then show ?thesis using assms by (simp add: lxor_str_def)
qed

text \<open>A random key is never the zero key, whatever \<open>random\<close> gives.\<close>

lemma random_key_nonzero:
  assumes "length rnd = 8"
  shows "\<exists>b\<in>set (lrandomkey rnd). b \<noteq> 0"
proof (cases "fold (XOR) rnd 0 = 0")
  case True
  have "rnd ! 0 OR 1 \<noteq> 0"
  proof
    assume "rnd ! 0 OR 1 = 0"
    then have "bit (rnd ! 0 OR 1) 0 = bit (0 :: u8) 0" by simp
    then show False by (simp add: bit_simps)
  qed
  moreover have "lrandomkey rnd = rnd[0 := rnd ! 0 OR 1]" using True by (simp add: lrandomkey_def)
  ultimately show ?thesis using assms
    by (metis length_greater_0_conv length_list_update list.size(3) nth_list_update_eq nth_mem zero_neq_numeral)
next
  case False
  have "fold (XOR) xs a = a" if "\<forall>b\<in>set xs. b = 0" for xs :: "u8 list" and a
    using that by (induction xs arbitrary: a) simp_all
  with False have "\<exists>b\<in>set rnd. b \<noteq> 0" by metis
  with False show ?thesis by (simp add: lrandomkey_def)
qed

end
