(* ===== verification/Ring.thy ===== *)
theory Ring
  imports Skynet_Prelude
begin

text \<open>
  The contents of a ring buffer given by its capacity, its head, its tail and its cells: what
  storing behind the last cell, taking the first one and copying to a larger array do to the
  list of its elements. Several components keep such a ring.
\<close>

subsection \<open>Live cells and contents\<close>

definition ring_count :: "nat \<Rightarrow> nat \<Rightarrow> nat \<Rightarrow> nat" where
  "ring_count c h t = (t + c - h) mod c"

definition ring_live :: "nat \<Rightarrow> nat \<Rightarrow> nat \<Rightarrow> 'm option list \<Rightarrow> bool" where
  "ring_live c h t xs \<longleftrightarrow> 0 < c \<and> length xs = c \<and> h < c \<and> t < c \<and> (\<forall>i<ring_count c h t. xs ! ((h + i) mod c) \<noteq> None)"

definition ring_list :: "nat \<Rightarrow> nat \<Rightarrow> nat \<Rightarrow> 'm option list \<Rightarrow> 'm list" where
  "ring_list c h t xs = map (\<lambda>i. the (xs ! ((h + i) mod c))) [0..<ring_count c h t]"

lemma ring_new: "0 < c \<Longrightarrow> ring_live c 0 0 (replicate c None)" "ring_list c 0 0 xs = []"
  by (simp_all add: ring_live_def ring_count_def ring_list_def)

lemma ring_bounds:
  assumes "ring_live c h t xs"
  shows "0 < c" "length xs = c" "h < c" "t < c"
  using assms by (simp_all add: ring_live_def)

lemma length_ring_list [simp]: "length (ring_list c h t xs) = ring_count c h t"
  by (simp add: ring_list_def)

lemma ring_count_less: "0 < c \<Longrightarrow> ring_count c h t < c"
  by (simp add: ring_count_def)

lemma ring_empty: "ring_live c h t xs \<Longrightarrow> h = t \<longleftrightarrow> ring_list c h t xs = []"
  by (auto simp: ring_live_def ring_list_def ring_count_def ring_count_pos split: if_splits)

text \<open>Storing behind the last cell.\<close>

lemma ring_store:
  assumes "ring_live c h t xs" "i \<le> ring_count c h t"
  shows "xs[t := Some m] ! ((h + i) mod c) = (if i = ring_count c h t then Some m else xs ! ((h + i) mod c))"
proof -
  note b = ring_bounds [OF assms(1)]
  have last: "(h + ring_count c h t) mod c = t" using ring_last [OF b(3,4)] by (simp add: ring_count_def)
  show ?thesis
  proof (cases "i = ring_count c h t")
    case True
    then show ?thesis using last b by simp
  next
    case False
    then have "(h + i) mod c \<noteq> t"
      using ring_inj [of i c "ring_count c h t" h] assms(2) last ring_count_less [OF b(1), of h t] by auto
    then show ?thesis using False by simp
  qed
qed

lemma ring_store_list:
  assumes "ring_live c h t xs"
  shows "map (\<lambda>i. the (xs[t := Some m] ! ((h + i) mod c))) [0..<Suc (ring_count c h t)] = ring_list c h t xs @ [m]"
  using ring_store [OF assms] by (simp add: ring_list_def)

lemma ring_push:
  assumes live: "ring_live c h t xs" and room: "ring_next c t \<noteq> h"
  shows "ring_live c h (ring_next c t) (xs[t := Some m])"
    "ring_list c h (ring_next c t) (xs[t := Some m]) = ring_list c h t xs @ [m]"
proof -
  note b = ring_bounds [OF live]
  have cnt: "ring_count c h (ring_next c t) = Suc (ring_count c h t)"
    using ring_grow [OF b(3,4)] room by (auto simp: ring_count_def)
  have old: "\<forall>i<ring_count c h t. xs ! ((h + i) mod c) \<noteq> None" using live by (simp add: ring_live_def)
  show "ring_live c h (ring_next c t) (xs[t := Some m])"
    unfolding ring_live_def cnt using b ring_next_less [OF b(1)] old by (auto simp: ring_store [OF live] less_Suc_eq)
  show "ring_list c h (ring_next c t) (xs[t := Some m]) = ring_list c h t xs @ [m]"
    unfolding ring_list_def [of c h "ring_next c t"] cnt by (rule ring_store_list [OF live])
qed

text \<open>When the last cell has been stored, the whole array is live.\<close>

lemma ring_push_full:
  assumes live: "ring_live c h t xs" and full: "ring_next c t = h"
  shows "\<forall>i<c. xs[t := Some m] ! ((h + i) mod c) \<noteq> None"
    "map (\<lambda>i. the (xs[t := Some m] ! ((h + i) mod c))) [0..<c] = ring_list c h t xs @ [m]"
proof -
  note b = ring_bounds [OF live]
  have c: "c = Suc (ring_count c h t)" using ring_full [OF b(3,4)] full by (simp add: ring_count_def)
  have old: "\<forall>i<ring_count c h t. xs ! ((h + i) mod c) \<noteq> None" using live by (simp add: ring_live_def)
  have le: "i \<le> ring_count c h t" if "i < c" for i using that c by simp
  show "\<forall>i<c. xs[t := Some m] ! ((h + i) mod c) \<noteq> None" using old le by (simp add: ring_store [OF live]) (metis le_neq_implies_less)
  show "map (\<lambda>i. the (xs[t := Some m] ! ((h + i) mod c))) [0..<c] = ring_list c h t xs @ [m]"
    using ring_store_list [OF live] c by metis
qed

lemma ring_pop:
  assumes live: "ring_live c h t xs" and ne: "h \<noteq> t"
  shows "\<exists>m. xs ! h = Some m \<and> ring_list c h t xs = m # ring_list c (ring_next c h) t xs"
    "ring_live c (ring_next c h) t xs"
proof -
  note b = ring_bounds [OF live]
  have pos: "0 < ring_count c h t" using ring_empty [OF live] ne by (auto simp: ring_list_def)
  then obtain n where n: "ring_count c h t = Suc n" by (cases "ring_count c h t") auto
  have cnt: "ring_count c (ring_next c h) t = n" using ring_drop [OF b(3,4) ne] n by (simp add: ring_count_def)
  have cell: "xs ! ((ring_next c h + i) mod c) = xs ! ((h + Suc i) mod c)" for i using ring_next_add [OF b(3), of i] by simp
  have old: "\<forall>i<Suc n. xs ! ((h + i) mod c) \<noteq> None" using live n by (simp add: ring_live_def)
  then have next1: "\<forall>i<n. xs ! ((h + Suc i) mod c) \<noteq> None" by blast
  obtain m where m: "xs ! h = Some m" using old b(3) by force
  have "ring_list c h t xs = the (xs ! h) # map (\<lambda>i. the (xs ! ((h + Suc i) mod c))) [0..<n]"
    using b(3) by (simp add: ring_list_def n upt_conv_Cons map_Suc_upt [symmetric] del: upt_Suc)
  then show "\<exists>m. xs ! h = Some m \<and> ring_list c h t xs = m # ring_list c (ring_next c h) t xs"
    using m by (simp add: ring_list_def cnt cell)
  show "ring_live c (ring_next c h) t xs"
    unfolding ring_live_def cnt using b ring_next_less [OF b(1)] next1 by (simp add: cell del: add_Suc_right)
qed

text \<open>Copying the live cells to the front of a larger array.\<close>

lemma ring_copy:
  assumes "length xs = c" "0 < c" "n < d" "\<forall>i<n. xs ! ((h + i) mod c) \<noteq> None" "length pad = d - n"
  shows "those (map (\<lambda>i. rd xs ((h + i) mod c)) [0..<n]) = Some (map (\<lambda>i. xs ! ((h + i) mod c)) [0..<n])"
    "ring_live d 0 n (map (\<lambda>i. xs ! ((h + i) mod c)) [0..<n] @ pad)"
    "ring_list d 0 n (map (\<lambda>i. xs ! ((h + i) mod c)) [0..<n] @ pad) = map (\<lambda>i. the (xs ! ((h + i) mod c))) [0..<n]"
proof -
  have "map (\<lambda>i. rd xs ((h + i) mod c)) [0..<n] = map (\<lambda>i. Some (xs ! ((h + i) mod c))) [0..<n]"
    using assms(1,2) by simp
  then show "those (map (\<lambda>i. rd xs ((h + i) mod c)) [0..<n]) = Some (map (\<lambda>i. xs ! ((h + i) mod c)) [0..<n])"
    by (simp only: those_Some)
  show "ring_live d 0 n (map (\<lambda>i. xs ! ((h + i) mod c)) [0..<n] @ pad)"
    using assms by (simp add: ring_live_def ring_count_def nth_append)
  show "ring_list d 0 n (map (\<lambda>i. xs ! ((h + i) mod c)) [0..<n] @ pad) = map (\<lambda>i. the (xs ! ((h + i) mod c))) [0..<n]"
    using assms(3) by (simp add: ring_list_def ring_count_def nth_append)
qed

end
