(* ===== verification/Netpack.thy ===== *)
theory Netpack
  imports Gate Ring
begin

text \<open>
  The packet splitter of lualib-src/lua-netpack.c: a queue of complete packets in a growing
  ring, a hash of the packets that are incomplete, the filter that sorts the data of a socket
  into them, and the packing of a message behind its two bytes of size.
\<close>

subsection \<open>Data\<close>

definition QUEUESIZE :: nat where "QUEUESIZE = 1024"
definition HASHSIZE :: nat where "HASHSIZE = 4096"

text \<open>A packet; its size is the length of its bytes.\<close>

record netpack =
  np_id :: int
  np_buffer :: "u8 list"

text \<open>
  A packet that has not arrived whole: \<open>uc_buffer\<close> is the part of the buffer that is filled,
  \<open>uc_read\<close> is -1 when only the first byte of the size has come.
\<close>

record uncomplete =
  uc_id :: int
  uc_size :: int
  uc_buffer :: "u8 list"
  uc_read :: int
  uc_header :: int

record np_queue =
  n_cap :: nat
  n_head :: nat
  n_tail :: nat
  n_hash :: "nat \<Rightarrow> uncomplete list"
  n_cells :: "netpack option list"

text \<open>The queue is a Lua value that is absent until it is needed.\<close>

type_synonym np_state = "np_queue option"

definition np_new :: np_queue where
  "np_new = \<lparr>n_cap = QUEUESIZE, n_head = 0, n_tail = 0, n_hash = (\<lambda>_. []), n_cells = replicate QUEUESIZE None\<rparr>"

definition get_queue :: "np_state \<Rightarrow> np_queue" where
  "get_queue st = (case st of None \<Rightarrow> np_new | Some q \<Rightarrow> q)"

definition hash_fd :: "int \<Rightarrow> nat" where
  "hash_fd fd = nat ((fd div 2 ^ 24 + fd div 2 ^ 12 + fd) mod 2 ^ 32 mod int HASHSIZE)"

subsection \<open>The incomplete packets\<close>

fun unlink :: "int \<Rightarrow> uncomplete list \<Rightarrow> (uncomplete \<times> uncomplete list) option" where
  "unlink fd [] = None"
| "unlink fd (u # us) =
     (if uc_id u = fd then Some (u, us) else map_option (\<lambda>(v, vs). (v, u # vs)) (unlink fd us))"

definition find_uncomplete :: "np_state \<Rightarrow> int \<Rightarrow> uncomplete option \<times> np_state" where
  "find_uncomplete st fd =
     (case st of
        None \<Rightarrow> (None, None)
      | Some q \<Rightarrow>
          (case unlink fd (n_hash q (hash_fd fd)) of
             None \<Rightarrow> (None, Some q)
           | Some (u, us) \<Rightarrow> (Some u, Some (q\<lparr>n_hash := (n_hash q)(hash_fd fd := us)\<rparr>))))"

text \<open>\<open>save_uncomplete\<close> with the fields its callers set.\<close>

definition save_uncomplete :: "np_state \<Rightarrow> uncomplete \<Rightarrow> np_state" where
  "save_uncomplete st u =
     (let q = get_queue st; h = hash_fd (uc_id u) in Some (q\<lparr>n_hash := (n_hash q)(h := u # n_hash q h)\<rparr>))"

definition uc_header_only :: "int \<Rightarrow> u8 \<Rightarrow> uncomplete" where
  "uc_header_only fd b = \<lparr>uc_id = fd, uc_size = 0, uc_buffer = [], uc_read = -1, uc_header = uint b\<rparr>"

definition uc_started :: "int \<Rightarrow> int \<Rightarrow> u8 list \<Rightarrow> uncomplete" where
  "uc_started fd pack_size bs = \<lparr>uc_id = fd, uc_size = pack_size, uc_buffer = bs, uc_read = int (length bs), uc_header = 0\<rparr>"

definition close_uncomplete :: "np_state \<Rightarrow> int \<Rightarrow> np_state" where
  "close_uncomplete st fd = snd (find_uncomplete st fd)"

subsection \<open>The queue of complete packets\<close>

definition np_expand :: "np_queue \<Rightarrow> np_queue option" where
  "np_expand q = do {
     cells \<leftarrow> those (map (\<lambda>i. rd (n_cells q) ((n_head q + i) mod n_cap q)) [0..<n_cap q]);
     Some (q\<lparr>n_cap := n_cap q + QUEUESIZE, n_head := 0, n_tail := n_cap q,
             n_cells := cells @ replicate QUEUESIZE None\<rparr>)
   }"

definition push_data :: "np_state \<Rightarrow> netpack \<Rightarrow> np_state option" where
  "push_data st p = do {
     let q = get_queue st;
     cells \<leftarrow> wr (n_cells q) (n_tail q) (Some p);
     let t = (if n_tail q + 1 \<ge> n_cap q then n_tail q + 1 - n_cap q else n_tail q + 1);
     let q1 = q\<lparr>n_cells := cells, n_tail := t\<rparr>;
     (if n_head q1 = n_tail q1 then map_option Some (np_expand q1) else Some (Some q1))
   }"

definition lpop :: "np_state \<Rightarrow> (netpack option \<times> np_state) option" where
  "lpop st =
     (case st of
        None \<Rightarrow> Some (None, None)
      | Some q \<Rightarrow>
          if n_head q = n_tail q then Some (None, Some q)
          else do {
            cell \<leftarrow> rd (n_cells q) (n_head q);
            p \<leftarrow> cell;
            Some (Some p, Some (q\<lparr>n_head := ring_next (n_cap q) (n_head q)\<rparr>))
          })"

definition lclear :: "np_state \<Rightarrow> np_state" where
  "lclear st = map_option (\<lambda>q. q\<lparr>n_hash := (\<lambda>_. []), n_head := 0, n_tail := 0\<rparr>) st"

subsection \<open>Filtering the data of a socket\<close>

definition read_size :: "u8 \<Rightarrow> u8 \<Rightarrow> nat" where
  "read_size a b = unat a * 256 + unat b"

function push_more :: "np_state \<Rightarrow> int \<Rightarrow> u8 list \<Rightarrow> np_state option" where
  "push_more st fd buffer =
     (case buffer of
        [] \<Rightarrow> None
      | [b] \<Rightarrow> Some (save_uncomplete st (uc_header_only fd b))
      | a # b # bs \<Rightarrow>
          (let pack_size = read_size a b in
           if length bs < pack_size then Some (save_uncomplete st (uc_started fd (int pack_size) bs))
           else do {
             st1 \<leftarrow> push_data st \<lparr>np_id = fd, np_buffer = take pack_size bs\<rparr>;
             (if drop pack_size bs \<noteq> [] then push_more st1 fd (drop pack_size bs) else Some st1)
           }))"
  by pat_completeness auto
termination by (relation "measure (\<lambda>(st, fd, buffer). length buffer)") auto

declare push_more.simps [simp del]

datatype np_result =
    FNone
  | FData int "u8 list"
  | FMore
  | FError int "u8 list"
  | FOpen int "u8 list"
  | FClose int
  | FWarning int int

definition filter_data :: "np_state \<Rightarrow> int \<Rightarrow> u8 list \<Rightarrow> (np_result \<times> np_state) option" where
  "filter_data st fd buffer =
     (case find_uncomplete st fd of
        (Some uc, st1) \<Rightarrow> do {
          (uc1, bs) \<leftarrow> (if uc_read uc < 0 then do {
               c_assert (uc_read uc = -1);
               (case buffer of
                  [] \<Rightarrow> None
                | b # bs \<Rightarrow> Some (uc\<lparr>uc_size := uint b OR push_bit 8 (uc_header uc), uc_buffer := [], uc_read := 0\<rparr>, bs))
             } else Some (uc, buffer));
          let need = uc_size uc1 - uc_read uc1;
          (if int (length bs) < need then
             Some (FNone, save_uncomplete st1 (uc1\<lparr>uc_buffer := uc_buffer uc1 @ bs, uc_read := uc_read uc1 + int (length bs)\<rparr>))
           else do {
             let p = uc_buffer uc1 @ take (nat need) bs;
             let rest = drop (nat need) bs;
             (if rest = [] then Some (FData fd p, st1)
              else do {
                st2 \<leftarrow> push_data st1 \<lparr>np_id = fd, np_buffer = p\<rparr>;
                st3 \<leftarrow> push_more st2 fd rest;
                Some (FMore, st3)
              })
           })
        }
      | (None, st1) \<Rightarrow>
          (case buffer of
             [] \<Rightarrow> None
           | [b] \<Rightarrow> Some (FNone, save_uncomplete st1 (uc_header_only fd b))
           | a # b # bs \<Rightarrow>
               (let pack_size = read_size a b in
                if length bs < pack_size then Some (FNone, save_uncomplete st1 (uc_started fd (int pack_size) bs))
                else if length bs = pack_size then Some (FData fd bs, st1)
                else do {
                  st2 \<leftarrow> push_data st1 \<lparr>np_id = fd, np_buffer = take pack_size bs\<rparr>;
                  st3 \<leftarrow> push_more st2 fd (drop pack_size bs);
                  Some (FMore, st3)
                })))"

text \<open>
  \<open>lfilter\<close> on a message of the socket layer; \<open>extra\<close> is what follows the message when it has
  no buffer. A string taken from a buffer would have the size -1.
\<close>

definition pushstring :: "payload \<Rightarrow> u8 list \<Rightarrow> u8 list option" where
  "pushstring buffer extra = (case payload_bytes buffer of Some bs \<Rightarrow> None | None \<Rightarrow> Some extra)"

definition lfilter :: "np_state \<Rightarrow> int \<Rightarrow> int \<Rightarrow> int \<Rightarrow> payload \<Rightarrow> u8 list \<Rightarrow> (np_result \<times> np_state) option" where
  "lfilter st ty mid ud buffer extra =
     (if ty = SKYNET_SOCKET_TYPE_DATA then do {
        bs \<leftarrow> payload_bytes buffer;
        c_assert (ud = int (length bs));
        filter_data st mid bs
      }
      else if ty = SKYNET_SOCKET_TYPE_CONNECT then Some (FNone, st)
      else if ty = SKYNET_SOCKET_TYPE_CLOSE then Some (FClose mid, close_uncomplete st mid)
      else if ty = SKYNET_SOCKET_TYPE_ACCEPT then map_option (\<lambda>s. (FOpen ud s, st)) (pushstring buffer extra)
      else if ty = SKYNET_SOCKET_TYPE_ERROR then map_option (\<lambda>s. (FError mid s, close_uncomplete st mid)) (pushstring buffer extra)
      else if ty = SKYNET_SOCKET_TYPE_WARNING then Some (FWarning mid ud, st)
      else Some (FNone, st))"

text \<open>Packing a message for sending.\<close>

definition write_size :: "nat \<Rightarrow> u8 list" where
  "write_size len = [of_nat (len div 256), of_nat len]"

definition lpack :: "u8 list \<Rightarrow> string + u8 list" where
  "lpack ptr = (if length ptr \<ge> 0x10000 then Inl (''Invalid size (too long) of data : '' @ fmt_u (length ptr))
     else Inr (write_size (length ptr) @ ptr))"

definition ltostring :: "u8 list option \<Rightarrow> u8 list" where
  "ltostring ptr = (case ptr of None \<Rightarrow> [] | Some bs \<Rightarrow> bs)"

subsection \<open>The packets of a stream\<close>

text \<open>A packet is two bytes of size, big endian, and that many bytes.\<close>

function np_parse :: "u8 list \<Rightarrow> u8 list list \<times> u8 list" where
  "np_parse s =
     (case s of
        a # b # bs \<Rightarrow>
          (if length bs < read_size a b then ([], s)
           else let (ps, rest) = np_parse (drop (read_size a b) bs) in (take (read_size a b) bs # ps, rest))
      | _ \<Rightarrow> ([], s))"
  by pat_completeness auto
termination by (relation "measure length") auto

declare np_parse.simps [simp del]

lemma np_parse_simps:
  "np_parse [] = ([], [])" "np_parse [a] = ([], [a])"
  "length bs < read_size a b \<Longrightarrow> np_parse (a # b # bs) = ([], a # b # bs)"
  "length p = read_size a b \<Longrightarrow> np_parse (a # b # p @ s) = (let (ps, rest) = np_parse s in (p # ps, rest))"
  by (simp_all add: np_parse.simps [of "[]"] np_parse.simps [of "[a]"] np_parse.simps [of "a # b # bs"] np_parse.simps [of "a # b # p @ s"])

lemma np_parse_take:
  "read_size a b \<le> length bs \<Longrightarrow> np_parse (a # b # bs) =
     (let (ps, rest) = np_parse (drop (read_size a b) bs) in (take (read_size a b) bs # ps, rest))"
  by (simp add: np_parse.simps [of "a # b # bs"])

lemma np_parse_append:
  "np_parse s = (ps, r) \<Longrightarrow> np_parse (s @ t) = (let (qs, r') = np_parse (r @ t) in (ps @ qs, r'))"
proof (induction s arbitrary: ps r rule: np_parse.induct)
  case (1 s)
  note IH = 1(1) and prem = 1(2)
  consider "s = []" | a where "s = [a]" | a b bs where "s = a # b # bs" "length bs < read_size a b"
    | a b bs where "s = a # b # bs" "read_size a b \<le> length bs"
    by (cases s; cases "tl s") (auto, meson not_less)
  then show ?case
  proof cases
    case 4
    then obtain qs where q: "np_parse (drop (read_size a b) bs) = (qs, r)" "ps = take (read_size a b) bs # qs"
      using prem by (auto simp: np_parse_take split: prod.splits)
    have "np_parse (s @ t) = (let (ps, rest) = np_parse (drop (read_size a b) bs @ t) in (take (read_size a b) bs # ps, rest))"
      using 4 by (simp add: np_parse_take)
    also have "np_parse (drop (read_size a b) bs @ t) = (let (qs', r') = np_parse (r @ t) in (qs @ qs', r'))"
      using IH [OF 4(1) refl _ q(1)] 4(2) by simp
    finally show ?thesis using q(2) by (simp add: split_def Let_def)
  qed (use prem in \<open>auto simp: np_parse_simps split_def\<close>)
qed

subsection \<open>The state as the streams and the queue\<close>

definition uc_ok :: "uncomplete \<Rightarrow> bool" where
  "uc_ok u \<longleftrightarrow> uc_read u = -1 \<and> 0 \<le> uc_header u \<and> uc_header u < 256 \<or>
     uc_read u = int (length (uc_buffer u)) \<and> uc_read u < uc_size u \<and> uc_size u < 0x10000"

text \<open>The bytes of the stream that an incomplete packet stands for.\<close>

definition uc_bytes :: "uncomplete \<Rightarrow> u8 list" where
  "uc_bytes u = (if uc_read u < 0 then [of_int (uc_header u)] else write_size (nat (uc_size u)) @ uc_buffer u)"

definition hash_find :: "np_queue \<Rightarrow> int \<Rightarrow> uncomplete option" where
  "hash_find q fd = List.find (\<lambda>u. uc_id u = fd) (n_hash q (hash_fd fd))"

definition np_pending :: "np_state \<Rightarrow> int \<Rightarrow> u8 list" where
  "np_pending st fd = (case st of None \<Rightarrow> [] | Some q \<Rightarrow> (case hash_find q fd of None \<Rightarrow> [] | Some u \<Rightarrow> uc_bytes u))"

definition hash_good :: "np_queue \<Rightarrow> bool" where
  "hash_good q \<longleftrightarrow> (\<forall>h. distinct (map uc_id (n_hash q h)) \<and> (\<forall>u\<in>set (n_hash q h). uc_ok u \<and> hash_fd (uc_id u) = h))"

definition ring_good :: "np_queue \<Rightarrow> bool" where
  "ring_good q \<longleftrightarrow> ring_live (n_cap q) (n_head q) (n_tail q) (n_cells q)"

definition queued :: "np_state \<Rightarrow> netpack list" where
  "queued st = (case st of None \<Rightarrow> [] | Some q \<Rightarrow> ring_list (n_cap q) (n_head q) (n_tail q) (n_cells q))"

definition np_ok :: "np_state \<Rightarrow> bool" where
  "np_ok st \<longleftrightarrow> (case st of None \<Rightarrow> True | Some q \<Rightarrow> hash_good q \<and> ring_good q)"

lemma np_new_good: "hash_good np_new" "ring_good np_new" "queued (Some np_new) = []" "hash_find np_new fd = None"
  using ring_new [of QUEUESIZE] by (simp_all add: hash_good_def ring_good_def np_new_def queued_def hash_find_def QUEUESIZE_def)

lemma get_queue_good:
  assumes "np_ok st"
  shows "hash_good (get_queue st)" "ring_good (get_queue st)" "queued (Some (get_queue st)) = queued st"
    "np_pending (Some (get_queue st)) = np_pending st"
  using assms np_new_good by (cases st; auto simp: np_ok_def get_queue_def queued_def np_pending_def fun_eq_iff)+

lemma n_hash_frame [simp]:
  "ring_good (q\<lparr>n_hash := f\<rparr>) = ring_good q" "queued (Some (q\<lparr>n_hash := f\<rparr>)) = queued (Some q)"
  by (simp_all add: ring_good_def queued_def)

lemma ring_frame:
  "n_hash q' = n_hash q \<Longrightarrow> hash_good q' = hash_good q" "n_hash q' = n_hash q \<Longrightarrow> np_pending (Some q') = np_pending (Some q)"
  by (simp_all add: hash_good_def np_pending_def hash_find_def fun_eq_iff)

subsection \<open>The ring\<close>

lemma np_expand_ok:
  assumes c: "0 < n_cap q" "length (n_cells q) = n_cap q"
    and live: "\<forall>i<n_cap q. n_cells q ! ((n_head q + i) mod n_cap q) \<noteq> None"
  shows "\<exists>q'. np_expand q = Some q' \<and> ring_good q' \<and> n_hash q' = n_hash q \<and>
    queued (Some q') = map (\<lambda>i. the (n_cells q ! ((n_head q + i) mod n_cap q))) [0..<n_cap q]"
  using ring_copy [OF c(2,1) _ live, of "n_cap q + QUEUESIZE" "replicate QUEUESIZE None"]
  by (simp add: np_expand_def ring_good_def queued_def QUEUESIZE_def)

text \<open>A push appends one packet.\<close>

lemma push_data_ok:
  assumes ok: "np_ok st"
  shows "\<exists>q. push_data st p = Some (Some q) \<and> np_ok (Some q) \<and> queued (Some q) = queued st @ [p] \<and>
    np_pending (Some q) = np_pending st"
proof -
  let ?q = "get_queue st"
  note G = get_queue_good [OF ok]
  have live: "ring_live (n_cap ?q) (n_head ?q) (n_tail ?q) (n_cells ?q)" using G(2) by (simp add: ring_good_def)
  note b = ring_bounds [OF live]
  define q1 where "q1 = ?q\<lparr>n_cells := (n_cells ?q)[n_tail ?q := Some p], n_tail := ring_next (n_cap ?q) (n_tail ?q)\<rparr>"
  have t: "(if n_tail ?q + 1 \<ge> n_cap ?q then n_tail ?q + 1 - n_cap ?q else n_tail ?q + 1) = ring_next (n_cap ?q) (n_tail ?q)"
    using b(4) by (simp add: ring_next_def)
  have push: "push_data st p = (if n_head q1 = n_tail q1 then map_option Some (np_expand q1) else Some (Some q1))"
    using b t by (simp add: push_data_def q1_def Let_def)
  have h1: "n_hash q1 = n_hash ?q" by (simp add: q1_def)
  obtain q where "push_data st p = Some (Some q)" "ring_good q" "n_hash q = n_hash ?q" "queued (Some q) = queued (Some ?q) @ [p]"
  proof (cases "n_head q1 = n_tail q1")
    case True
    then have "ring_next (n_cap ?q) (n_tail ?q) = n_head ?q" by (simp add: q1_def)
    note full = ring_push_full [OF live this, of p]
    have "0 < n_cap q1" "length (n_cells q1) = n_cap q1" "\<forall>i<n_cap q1. n_cells q1 ! ((n_head q1 + i) mod n_cap q1) \<noteq> None"
      using b full(1) by (simp_all add: q1_def)
    from np_expand_ok [OF this] obtain q where "np_expand q1 = Some q" "ring_good q" "n_hash q = n_hash q1"
      "queued (Some q) = map (\<lambda>i. the (n_cells q1 ! ((n_head q1 + i) mod n_cap q1))) [0..<n_cap q1]" by blast
    with that True push h1 full(2) show thesis by (simp add: q1_def queued_def)
  next
    case False
    then have "ring_next (n_cap ?q) (n_tail ?q) \<noteq> n_head ?q" by (simp add: q1_def)
    from ring_push [OF live this, of p] that [of q1] False push h1 show thesis
      by (simp add: q1_def ring_good_def queued_def)
  qed
  then show ?thesis using G(1,3,4) ring_frame [of q ?q] by (intro exI [of _ q]) (simp add: np_ok_def)
qed

text \<open>A pop takes the oldest packet.\<close>

lemma lpop_ok:
  assumes ok: "np_ok st"
  shows "case queued st of
      [] \<Rightarrow> lpop st = Some (None, st)
    | p # ps \<Rightarrow> \<exists>st'. lpop st = Some (Some p, st') \<and> np_ok st' \<and> queued st' = ps \<and> np_pending st' = np_pending st"
proof (cases st)
  case None
  then show ?thesis by (simp add: queued_def lpop_def)
next
  case (Some q)
  have live: "ring_live (n_cap q) (n_head q) (n_tail q) (n_cells q)" "hash_good q"
    using ok Some by (simp_all add: np_ok_def ring_good_def)
  note b = ring_bounds [OF live(1)]
  show ?thesis
  proof (cases "n_head q = n_tail q")
    case True
    then show ?thesis using Some ring_empty [OF live(1)] by (simp add: queued_def lpop_def)
  next
    case False
    let ?q = "q\<lparr>n_head := ring_next (n_cap q) (n_head q)\<rparr>"
    from ring_pop [OF live(1) False] obtain p where p: "n_cells q ! n_head q = Some p"
      "queued st = p # queued (Some ?q)" "ring_good ?q" by (auto simp: queued_def Some ring_good_def)
    then show ?thesis using Some False b live(2) ring_frame [of ?q q] by (simp add: np_ok_def lpop_def)
  qed
qed

subsection \<open>The chains\<close>

lemma unlink_find:
  "distinct (map uc_id us) \<Longrightarrow> unlink fd us =
     map_option (\<lambda>u. (u, filter (\<lambda>u. uc_id u \<noteq> fd) us)) (List.find (\<lambda>u. uc_id u = fd) us)"
proof (induction us)
  case (Cons u us)
  show ?case
  proof (cases "uc_id u = fd")
    case True
    with Cons.prems have "filter (\<lambda>u. uc_id u \<noteq> fd) us = us" by (auto simp: filter_id_conv) (metis image_eqI)
    with True show ?thesis by simp
  qed (use Cons in \<open>auto simp: option.map_comp comp_def\<close>)
qed simp

lemma uc_bytes_ne: "uc_bytes u \<noteq> []"
  by (simp add: uc_bytes_def write_size_def)

lemma find_uncomplete_ok:
  assumes ok: "np_ok st"
  shows "\<exists>uo st1. find_uncomplete st fd = (uo, st1) \<and> np_ok st1 \<and> queued st1 = queued st \<and> np_pending st1 = (np_pending st)(fd := []) \<and>
    (case uo of None \<Rightarrow> np_pending st fd = [] | Some u \<Rightarrow> uc_ok u \<and> uc_id u = fd \<and> np_pending st fd = uc_bytes u)"
proof (cases st)
  case None
  then show ?thesis by (auto simp: find_uncomplete_def np_pending_def np_ok_def)
next
  case (Some q)
  have g: "hash_good q" "ring_good q" using ok Some by (simp_all add: np_ok_def)
  let ?us = "n_hash q (hash_fd fd)"
  have d: "distinct (map uc_id ?us)" using g(1) by (simp add: hash_good_def)
  note un = unlink_find [OF d, of fd]
  show ?thesis
  proof (cases "hash_find q fd")
    case None
    then have "unlink fd ?us = None" using un by (simp add: hash_find_def)
    moreover have "np_pending st fd = []" using None Some by (simp add: np_pending_def)
    ultimately show ?thesis using Some ok by (auto simp: find_uncomplete_def)
  next
    case u: (Some u)
    let ?q = "q\<lparr>n_hash := (n_hash q)(hash_fd fd := filter (\<lambda>u. uc_id u \<noteq> fd) ?us)\<rparr>"
    have fnd: "find_uncomplete st fd = (Some u, Some ?q)" using u un Some by (simp add: find_uncomplete_def hash_find_def)
    have mem: "u \<in> set ?us" "uc_id u = fd" using u by (auto simp: hash_find_def find_Some_iff)
    have "uc_ok u" using g(1) mem by (auto simp: hash_good_def)
    moreover have "hash_good ?q" using g(1) by (auto simp: hash_good_def distinct_map_filter)
    moreover have "hash_find ?q j = (if j = fd then None else hash_find q j)" for j
    proof (cases "j = fd")
      case True
      then show ?thesis by (auto simp: hash_find_def find_None_iff)
    next
      case False
      have "List.find (\<lambda>u. uc_id u = j) (filter (\<lambda>u. uc_id u \<noteq> fd) xs) = List.find (\<lambda>u. uc_id u = j) xs" for xs :: "uncomplete list"
        using False by (induction xs) auto
      with False show ?thesis by (simp add: hash_find_def)
    qed
    then have "np_pending (Some ?q) = (np_pending st)(fd := [])" using Some by (simp add: np_pending_def fun_eq_iff)
    moreover have "np_pending st fd = uc_bytes u" using u Some by (simp add: np_pending_def)
    ultimately show ?thesis using fnd g(2) mem(2) Some by (auto simp: np_ok_def)
  qed
qed

lemma save_uncomplete_ok:
  assumes ok: "np_ok st" and u: "uc_ok u" "uc_id u = fd" and none: "np_pending st fd = []"
  shows "np_ok (save_uncomplete st u) \<and> queued (save_uncomplete st u) = queued st \<and>
    np_pending (save_uncomplete st u) = (np_pending st)(fd := uc_bytes u)"
proof -
  let ?q = "get_queue st"
  note G = get_queue_good [OF ok]
  let ?q1 = "?q\<lparr>n_hash := (n_hash ?q)(hash_fd fd := u # n_hash ?q (hash_fd fd))\<rparr>"
  have save: "save_uncomplete st u = Some ?q1" using u(2) by (simp add: save_uncomplete_def Let_def)
  have "hash_find ?q fd = None"
    using none G(4) uc_bytes_ne by (auto simp: np_pending_def split: option.splits dest: fun_cong [where x = fd])
  then have fresh: "\<forall>v\<in>set (n_hash ?q (hash_fd fd)). uc_id v \<noteq> fd" by (auto simp: hash_find_def find_None_iff)
  have "hash_good ?q1" using G(1) u fresh by (auto simp: hash_good_def)
  moreover have "hash_find ?q1 j = (if j = fd then Some u else hash_find ?q j)" for j
    using u(2) by (auto simp: hash_find_def)
  then have "np_pending (Some ?q1) = (np_pending (Some ?q))(fd := uc_bytes u)" by (simp add: np_pending_def fun_eq_iff)
  ultimately show ?thesis using save G by (simp add: np_ok_def)
qed

lemma header_bytes: "uc_ok (uc_header_only fd b)" "uc_bytes (uc_header_only fd b) = [b]" "uc_id (uc_header_only fd b) = fd"
  using unsigned_less [of b, where ?'a = int] by (simp_all add: uc_ok_def uc_bytes_def uc_header_only_def)

lemma write_read_size: "write_size (read_size a b) = [a, b]" "read_size a b < 0x10000"
proof -
  have a: "unat a < 256" "unat b < 256" using unsigned_less [of a, where ?'a = nat] unsigned_less [of b, where ?'a = nat] by simp_all
  then show "read_size a b < 0x10000" by (simp add: read_size_def)
  have "(256 :: u8) = 0" by (simp add: word_unat_eq_iff)
  then have "a * 256 = 0" by (metis mult_zero_right)
  then have "(of_nat (unat a * 256 + unat b) :: u8) = b" by simp
  with a show "write_size (read_size a b) = [a, b]" by (simp add: write_size_def read_size_def)
qed

lemma read_write_size: "n < 0x10000 \<Longrightarrow> \<exists>a b. write_size n = [a, b] \<and> read_size a b = n"
  by (auto simp: write_size_def read_size_def unat_of_nat)

lemma started_bytes:
  "length bs < read_size a b \<Longrightarrow> uc_ok (uc_started fd (int (read_size a b)) bs) \<and>
     uc_bytes (uc_started fd (int (read_size a b)) bs) = a # b # bs \<and> uc_id (uc_started fd (int (read_size a b)) bs) = fd"
  using write_read_size [of a b] by (auto simp: uc_ok_def uc_bytes_def uc_started_def)

subsection \<open>Filtering\<close>

definition np_pack :: "int \<Rightarrow> u8 list \<Rightarrow> netpack" where
  "np_pack fd p = \<lparr>np_id = fd, np_buffer = p\<rparr>"

text \<open>The rest of a chunk: all its packets are queued, what is left is pending.\<close>

lemma push_more_ok:
  assumes "np_ok st" "np_pending st fd = []" "s \<noteq> []" "np_parse s = (ps, r)"
  shows "\<exists>st'. push_more st fd s = Some st' \<and> np_ok st' \<and> queued st' = queued st @ map (np_pack fd) ps \<and>
    np_pending st' = (np_pending st)(fd := r)"
  using assms
proof (induction "length s" arbitrary: st s ps rule: less_induct)
  case less
  consider a where "s = [a]" | a b bs where "s = a # b # bs" "length bs < read_size a b"
    | a b bs where "s = a # b # bs" "read_size a b \<le> length bs"
    using less.prems(3) by (cases s; cases "tl s") (auto, meson not_less)
  then show ?case
  proof cases
    case (1 a)
    then have "ps = []" "r = [a]" using less.prems(4) by (simp_all add: np_parse_simps)
    moreover have "push_more st fd s = Some (save_uncomplete st (uc_header_only fd a))"
      using 1 by (simp add: push_more.simps [of st fd "[a]"])
    ultimately show ?thesis
      using save_uncomplete_ok [OF less.prems(1) header_bytes(1,3) less.prems(2), of a] by (simp add: header_bytes)
  next
    case (2 a b bs)
    note S = started_bytes [OF 2(2), of fd]
    have "ps = []" "r = a # b # bs" using less.prems(4) 2 by (simp_all add: np_parse_simps)
    moreover have "push_more st fd s = Some (save_uncomplete st (uc_started fd (int (read_size a b)) bs))"
      using 2 by (simp add: push_more.simps [of st fd "a # b # bs"])
    ultimately show ?thesis
      using S save_uncomplete_ok [OF less.prems(1) _ _ less.prems(2), of "uc_started fd (int (read_size a b)) bs"] by simp
  next
    case (3 a b bs)
    let ?n = "read_size a b" and ?rest = "drop (read_size a b) bs"
    obtain qs where q: "np_parse ?rest = (qs, r)" "ps = take ?n bs # qs"
      using less.prems(4) 3 by (auto simp: np_parse_take split: prod.splits)
    from push_data_ok [OF less.prems(1), of "np_pack fd (take ?n bs)"] obtain q1 where
      p: "push_data st \<lparr>np_id = fd, np_buffer = take ?n bs\<rparr> = Some (Some q1)" "np_ok (Some q1)"
      "queued (Some q1) = queued st @ [np_pack fd (take ?n bs)]" "np_pending (Some q1) = np_pending st"
      by (auto simp: np_pack_def)
    have step: "push_more st fd s = (if ?rest \<noteq> [] then push_more (Some q1) fd ?rest else Some (Some q1))"
      using 3 p(1) by (subst push_more.simps) (simp add: Let_def)
    show ?thesis
    proof (cases "?rest = []")
      case True
      then have "qs = []" "r = []" using q(1) by (simp_all add: np_parse_simps)
      with True step p q(2) less.prems(2) show ?thesis by (auto simp: fun_eq_iff)
    next
      case False
      have "length ?rest < length s" using 3 by simp
      from less.hyps [OF this p(2) _ False q(1)] p(3,4) less.prems(2) obtain st' where
        "push_more (Some q1) fd ?rest = Some st'" "np_ok st'" "queued st' = queued st @ np_pack fd (take ?n bs) # map (np_pack fd) qs"
        "np_pending st' = (np_pending st)(fd := r)" by auto
      with step False q(2) show ?thesis by simp
    qed
  qed
qed

end
