(* ===== verification/Netpack_Properties.thy ===== *)
theory Netpack_Properties
  imports Netpack
begin

text \<open>
  What the packet splitter yields for a chunk of data, and that packed messages survive any
  cutting of the stream.
\<close>

text \<open>What one chunk yields, given the packets that become complete.\<close>

definition np_yield :: "int \<Rightarrow> u8 list list \<Rightarrow> u8 list \<Rightarrow> np_result \<times> netpack list" where
  "np_yield fd ps r =
     (case ps of
        [] \<Rightarrow> (FNone, [])
      | p # qs \<Rightarrow> if qs = [] \<and> r = [] then (FData fd p, []) else (FMore, map (np_pack fd) ps))"

text \<open>The steps after the first packet \<open>p\<close> of a chunk is complete, with \<open>rest\<close> behind it.\<close>

lemma yield_more:
  assumes ok: "np_ok st1" and none: "np_pending st1 fd = []" and r: "np_parse rest = (qs, r)" "rest \<noteq> []"
  shows "\<exists>st2 st3. push_data st1 \<lparr>np_id = fd, np_buffer = p\<rparr> = Some st2 \<and> push_more st2 fd rest = Some st3 \<and> np_ok st3 \<and>
    queued st3 = queued st1 @ snd (np_yield fd (p # qs) r) \<and> np_pending st3 = (np_pending st1)(fd := r) \<and>
    fst (np_yield fd (p # qs) r) = FMore"
proof -
  from push_data_ok [OF ok, of "np_pack fd p"] obtain q1 where
    q1: "push_data st1 \<lparr>np_id = fd, np_buffer = p\<rparr> = Some (Some q1)" "np_ok (Some q1)"
    "queued (Some q1) = queued st1 @ [np_pack fd p]" "np_pending (Some q1) = np_pending st1"
    by (auto simp: np_pack_def)
  have none1: "np_pending (Some q1) fd = []" using none q1(4) by simp
  from push_more_ok [OF q1(2) none1 r(2,1)] q1(3,4) obtain st3 where
    st3: "push_more (Some q1) fd rest = Some st3" "np_ok st3" "queued st3 = queued st1 @ np_pack fd p # map (np_pack fd) qs"
    "np_pending st3 = (np_pending st1)(fd := r)" by auto
  have "qs \<noteq> [] \<or> r \<noteq> []" using r by (auto simp: np_parse.simps [of rest] split: list.splits if_splits prod.splits)
  then show ?thesis using q1(1) st3 by (auto simp: np_yield_def)
qed

lemma netpack_filter_chunk_aux:
  assumes ok: "np_ok st" and ne: "data \<noteq> []" and p: "np_parse (np_pending st fd @ data) = (ps, r)"
  shows "\<exists>st'. filter_data st fd data = Some (fst (np_yield fd ps r), st') \<and> np_ok st' \<and>
    queued st' = queued st @ snd (np_yield fd ps r) \<and> np_pending st' = (np_pending st)(fd := r)"
proof -
  obtain uo st1 where f: "find_uncomplete st fd = (uo, st1)" "np_ok st1" "queued st1 = queued st"
    "np_pending st1 = (np_pending st)(fd := [])"
    "case uo of None \<Rightarrow> np_pending st fd = [] | Some u \<Rightarrow> uc_ok u \<and> uc_id u = fd \<and> np_pending st fd = uc_bytes u"
    using find_uncomplete_ok [OF ok, of fd] by blast
  have none: "np_pending st1 fd = []" using f(4) by simp
  show ?thesis
  proof (cases uo)
    case None
    then have p': "np_parse data = (ps, r)" using p f(5) by simp
    consider a where "data = [a]" | a b bs where "data = a # b # bs" "length bs < read_size a b"
      | a b bs where "data = a # b # bs" "length bs = read_size a b"
      | a b bs where "data = a # b # bs" "read_size a b < length bs"
      using ne by (cases data; cases "tl data") (auto, meson linorder_neqE_nat)
    then show ?thesis
    proof cases
      case (1 a)
      then have "ps = []" "r = [a]" using p' by (simp_all add: np_parse_simps)
      with 1 f None save_uncomplete_ok [OF f(2) header_bytes(1,3) none, of a] show ?thesis
        by (auto simp: filter_data_def np_yield_def header_bytes)
    next
      case (2 a b bs)
      then have "ps = []" "r = a # b # bs" using p' by (simp_all add: np_parse_simps)
      with 2 f None started_bytes [OF 2(2), of fd]
        save_uncomplete_ok [OF f(2) _ _ none, of "uc_started fd (int (read_size a b)) bs"] show ?thesis
        by (auto simp: filter_data_def np_yield_def Let_def)
    next
      case (3 a b bs)
      then have "ps = [bs]" "r = []" using p' by (simp_all add: np_parse_take np_parse_simps(1))
      with 3 f None show ?thesis by (auto simp: filter_data_def np_yield_def Let_def)
    next
      case (4 a b bs)
      let ?n = "read_size a b"
      obtain qs where q: "np_parse (drop ?n bs) = (qs, r)" "ps = take ?n bs # qs"
        using p' 4 by (auto simp: np_parse_take split: prod.splits)
      from yield_more [OF f(2) none q(1), of "take ?n bs"] 4 f None q(2) show ?thesis
        by (auto simp: filter_data_def Let_def)
    qed
  next
    case (Some u)
    then have u: "uc_ok u" "uc_id u = fd" "np_pending st fd = uc_bytes u" using f(5) by simp_all
    define step where "step = (if uc_read u < 0 then do {
         c_assert (uc_read u = -1);
         (case data of [] \<Rightarrow> None
          | b # bs \<Rightarrow> Some (u\<lparr>uc_size := uint b OR push_bit 8 (uc_header u), uc_buffer := [], uc_read := 0\<rparr>, bs))
       } else Some (u, data))"
    obtain v bs a b where v: "step = Some (v, bs)" "uc_id v = fd" "uc_read v = int (length (uc_buffer v))"
      "uc_size v = int (read_size a b)" "uc_bytes u @ data = a # b # uc_buffer v @ bs" "length (uc_buffer v) \<le> read_size a b"
    proof (cases "uc_read u < 0")
      case True
      obtain b bs where d: "data = b # bs" using ne by (cases data) auto
      define a :: u8 where "a = of_int (uc_header u)"
      have h: "uc_read u = -1" "uint a = uc_header u" using u(1) True by (auto simp: uc_ok_def a_def uint_word_of_int_eq take_bit_eq_mod)
      have "uint b OR push_bit 8 (uc_header u) = int (read_size a b)"
      proof -
        have "uint b OR push_bit 8 (uint a) = push_bit 8 (uint a) + uint b"
          by (subst or.commute) (rule disjunctive_add [symmetric], auto simp: bit_simps dest: bit_imp_le_length)
        then show ?thesis using h(2) by (simp add: read_size_def push_bit_eq_mult)
      qed
      moreover have "uc_bytes u @ data = a # b # bs" using True d by (simp add: uc_bytes_def a_def)
      ultimately show thesis using that [of "u\<lparr>uc_size := uint b OR push_bit 8 (uc_header u), uc_buffer := [], uc_read := 0\<rparr>" bs a b] h d u(2)
        by (simp add: step_def)
    next
      case False
      then have s: "uc_read u = int (length (uc_buffer u))" "uc_read u < uc_size u" "uc_size u < 0x10000"
        using u(1) by (auto simp: uc_ok_def)
      then have "nat (uc_size u) < 0x10000" by linarith
      then obtain a b where ab: "write_size (nat (uc_size u)) = [a, b]" "read_size a b = nat (uc_size u)"
        using read_write_size by blast
      moreover have "uc_bytes u @ data = a # b # uc_buffer u @ data" using False ab by (simp add: uc_bytes_def)
      ultimately show thesis using that [of u data a b] False s u(2) by (simp add: step_def)
    qed
    let ?n = "read_size a b" and ?s = "uc_buffer v @ bs"
    let ?need = "uc_size v - uc_read v"
    have need: "nat ?need = ?n - length (uc_buffer v)" using v(3,4,6) by (simp add: nat_diff_distrib' flip: of_nat_diff)
    have filt: "filter_data st fd data =
       (if int (length bs) < ?need then
             Some (FNone, save_uncomplete st1 (v\<lparr>uc_buffer := uc_buffer v @ bs, uc_read := uc_read v + int (length bs)\<rparr>))
        else do {
             let p = uc_buffer v @ take (nat ?need) bs;
             let rest = drop (nat ?need) bs;
             (if rest = [] then Some (FData fd p, st1)
              else do {
                st2 \<leftarrow> push_data st1 \<lparr>np_id = fd, np_buffer = p\<rparr>;
                st3 \<leftarrow> push_more st2 fd rest;
                Some (FMore, st3)
              })
           })"
      using f(1) Some v(1) by (simp add: filter_data_def step_def [symmetric] Let_def)
    show ?thesis
    proof (cases "int (length bs) < ?need")
      case True
      then have short: "length ?s < ?n" using v(3,4) by simp
      let ?v = "v\<lparr>uc_buffer := uc_buffer v @ bs, uc_read := uc_read v + int (length bs)\<rparr>"
      have "uc_ok ?v" "uc_id ?v = fd" "uc_bytes ?v = a # b # ?s"
        using v short write_read_size [of a b] by (auto simp: uc_ok_def uc_bytes_def)
      moreover have "ps = []" "r = a # b # ?s" using p u(3) v(5) short by (simp_all add: np_parse_simps)
      ultimately show ?thesis using filt True f save_uncomplete_ok [OF f(2) _ _ none, of ?v] by (simp add: np_yield_def)
    next
      case False
      then have long: "?n \<le> length ?s" using v(3,4) by simp
      have tk: "uc_buffer v @ take (nat ?need) bs = take ?n ?s" "drop (nat ?need) bs = drop ?n ?s"
        using v(6) by (simp_all add: need)
      obtain qs where q: "np_parse (drop ?n ?s) = (qs, r)" "ps = take ?n ?s # qs"
        using p u(3) v(5) np_parse_take [OF long] by (auto split: prod.splits)
      show ?thesis
      proof (cases "drop ?n ?s = []")
        case True
        then have "qs = []" "r = []" using q(1) by (simp_all only: np_parse_simps) auto
        then show ?thesis using filt False True q(2) f tk by (simp add: np_yield_def Let_def)
      next
        case ne2: False
        from yield_more [OF f(2) none q(1) ne2, of "take ?n ?s"] filt False ne2 q(2) f tk show ?thesis
          by (auto simp: Let_def)
      qed
    qed
  qed
qed
text \<open>
  A chunk of a socket. Together with what was pending of the socket, the chunk is cut into
  packets: none, and all of it stays pending; or one and nothing left, which is handed over at
  once; or more, which are queued in order, and the rest stays pending. Other sockets are not
  touched, and no chunk makes it fail.
\<close>

theorem netpack_filter_chunk:
  assumes "np_ok st" "data \<noteq> []" "np_parse (np_pending st fd @ data) = (ps, r)"
  shows "\<exists>st'. filter_data st fd data = Some (fst (np_yield fd ps r), st') \<and> np_ok st' \<and>
    queued st' = queued st @ snd (np_yield fd ps r) \<and> np_pending st' = (np_pending st)(fd := r)"
  by (rule netpack_filter_chunk_aux [OF assms])

lemma np_yield_example: "np_parse [0, 1, 65, 0] = ([[65]], [0])"
  by (simp add: np_parse.simps [of "[0, 1, 65, 0]"] np_parse_simps read_size_def Let_def)

theorem netpack_filter_chunk_witness:
  "\<exists>st'. filter_data None 7 [0, 1, 65, 0] = Some (FMore, st') \<and> queued st' = [np_pack 7 [65]] \<and> np_pending st' 7 = [0]"
proof -
  have n: "np_ok None" "queued None = []" "np_pending None 7 = []" by (simp_all add: np_ok_def np_pending_def queued_def)
  from netpack_filter_chunk [OF n(1), of "[0, 1, 65, 0]" 7 "[[65]]" "[0]"] np_yield_example n(2,3) show ?thesis
    by (auto simp: np_yield_def)
qed

subsection \<open>The queue of packets as a queue\<close>

lemma push_data_fifo: "np_ok st \<Longrightarrow> \<exists>st'. push_data st p = Some st' \<and> np_ok st' \<and> queued st' = queued st @ [p]"
  using push_data_ok [of st p] by blast

lemma lpop_empty: "np_ok st \<Longrightarrow> queued st = [] \<Longrightarrow> \<exists>st'. lpop st = Some (None, st') \<and> np_ok st' \<and> queued st' = []"
  using lpop_ok [of st] by auto

lemma lpop_cons: "np_ok st \<Longrightarrow> queued st = p # ps \<Longrightarrow>
    \<exists>st'. lpop st = Some (Some p, st') \<and> np_ok st' \<and> queued st' = ps"
  using lpop_ok [of st] by auto

interpretation packs: fifo push_data lpop queued np_ok "\<lambda>_ _. True"
  by unfold_locales (assumption | rule TrueI push_data_fifo lpop_empty lpop_cons)+

subsection \<open>A receiver\<close>

text \<open>A receiver handles a packet at once, and pops the queue until it is empty after more.\<close>

primrec np_drain :: "nat \<Rightarrow> np_state \<Rightarrow> (netpack list \<times> np_state) option" where
  "np_drain 0 st = Some ([], st)"
| "np_drain (Suc n) st = do {
     (r, st1) \<leftarrow> lpop st;
     (case r of
        None \<Rightarrow> Some ([], st1)
      | Some p \<Rightarrow> do { (ps, st2) \<leftarrow> np_drain n st1; Some (p # ps, st2) })
   }"

lemma np_drain_ok:
  "np_ok st \<Longrightarrow> \<exists>st'. np_drain (length (queued st)) st = Some (queued st, st') \<and> np_ok st' \<and> queued st' = [] \<and>
     np_pending st' = np_pending st"
proof (induction "queued st" arbitrary: st)
  case Nil
  then show ?case by (metis list.size(3) np_drain.simps(1))
next
  case (Cons p ps)
  note q = Cons.hyps(2) [symmetric]
  from lpop_ok [OF Cons.prems] obtain st1 where
    s: "lpop st = Some (Some p, st1)" "np_ok st1" "queued st1 = ps" "np_pending st1 = np_pending st" unfolding q by auto
  from Cons.hyps(1) [OF s(3) [symmetric] s(2)] s show ?case unfolding q by auto
qed

fun np_receive :: "np_state \<Rightarrow> int \<Rightarrow> u8 list list \<Rightarrow> (netpack list \<times> np_state) option" where
  "np_receive st fd [] = Some ([], st)"
| "np_receive st fd (data # chunks) = do {
     (r, st1) \<leftarrow> filter_data st fd data;
     (out, st2) \<leftarrow> (case r of
          FData f p \<Rightarrow> Some ([np_pack f p], st1)
        | FMore \<Rightarrow> np_drain (length (queued st1)) st1
        | _ \<Rightarrow> Some ([], st1));
     (outs, st3) \<leftarrow> np_receive st2 fd chunks;
     Some (out @ outs, st3)
   }"

lemma np_parse_rest: "np_parse s = (ps, r) \<Longrightarrow> np_parse r = ([], r)"
  using np_parse_append [of s ps r "[]"] by (cases "np_parse r") simp

lemma np_receive_ok:
  assumes "np_ok st" "queued st = []" "np_parse (np_pending st fd) = ([], np_pending st fd)" "\<forall>d\<in>set chunks. d \<noteq> []"
    "np_parse (np_pending st fd @ concat chunks) = (ps, r)"
  shows "\<exists>st'. np_receive st fd chunks = Some (map (np_pack fd) ps, st') \<and> np_ok st' \<and> queued st' = [] \<and>
    np_pending st' = (np_pending st)(fd := r)"
  using assms
proof (induction chunks arbitrary: st ps)
  case Nil
  then show ?case by auto
next
  case (Cons data chunks)
  obtain ps1 r1 where p1: "np_parse (np_pending st fd @ data) = (ps1, r1)" by (rule prod.exhaust)
  obtain ps2 r2 where p2: "np_parse (r1 @ concat chunks) = (ps2, r2)" by (rule prod.exhaust)
  have p: "ps = ps1 @ ps2" "r = r2"
    using Cons.prems(5) np_parse_append [OF p1, of "concat chunks"] p2 by simp_all
  have ne: "data \<noteq> []" using Cons.prems(4) by simp
  from netpack_filter_chunk_aux [OF Cons.prems(1) ne p1] obtain st1 where
    f: "filter_data st fd data = Some (fst (np_yield fd ps1 r1), st1)" "np_ok st1"
    "queued st1 = snd (np_yield fd ps1 r1)" "np_pending st1 = (np_pending st)(fd := r1)" using Cons.prems(2) by auto
  obtain st2 where s2: "(case fst (np_yield fd ps1 r1) of
          FData f p \<Rightarrow> Some ([np_pack f p], st1)
        | FMore \<Rightarrow> np_drain (length (queued st1)) st1
        | _ \<Rightarrow> Some ([], st1)) = Some (map (np_pack fd) ps1, st2)"
    "np_ok st2" "queued st2 = []" "np_pending st2 = np_pending st1"
  proof (cases "fst (np_yield fd ps1 r1) = FMore")
    case True
    then have "queued st1 = map (np_pack fd) ps1" using f(3) by (auto simp: np_yield_def split: list.splits if_splits)
    with np_drain_ok [OF f(2)] True that show thesis by auto
  next
    case False
    then have "queued st1 = []" "ps1 = [] \<and> fst (np_yield fd ps1 r1) = FNone \<or> (\<exists>p. ps1 = [p] \<and> fst (np_yield fd ps1 r1) = FData fd p)"
      using f(3) by (auto simp: np_yield_def split: list.splits if_splits)
    with that f(2) show thesis by auto
  qed
  have s: "np_parse (np_pending st2 fd) = ([], np_pending st2 fd)" using np_parse_rest [OF p1] s2(4) f(4) by simp
  have t: "np_parse (np_pending st2 fd @ concat chunks) = (ps2, r2)" using p2 s2(4) f(4) by simp
  have "\<forall>d\<in>set chunks. d \<noteq> []" using Cons.prems(4) by simp
  from Cons.IH [OF s2(2,3) s this t [folded p(2)]] obtain st3 where 1: "np_receive st2 fd chunks = Some (map (np_pack fd) ps2, st3)" "np_ok st3" "queued st3 = []"
    "np_pending st3 = (np_pending st2)(fd := r2)" unfolding p(2) by blast
  then have "np_pending st3 = (np_pending st)(fd := r2)" using s2(4) f(4) by (simp add: fun_eq_iff)
  then show ?case using f(1) s2(1) p 1 by (simp add: fun_eq_iff)
qed

text \<open>The bytes of packed messages.\<close>

lemma np_parse_packed:
  "\<forall>p\<in>set ps. length p < 0x10000 \<Longrightarrow> np_parse (concat (map (\<lambda>p. write_size (length p) @ p) ps)) = (ps, [])"
proof (induction ps)
  case Nil
  then show ?case by (simp add: np_parse_simps)
next
  case (Cons p ps)
  then obtain a b where "write_size (length p) = [a, b]" "read_size a b = length p" using read_write_size [of "length p"] by auto
  with Cons show ?case by (simp add: np_parse_simps(4))
qed

text \<open>
  C27: packets survive the stream. Messages packed with \<open>lpack\<close> and sent one after the other
  arrive as the same messages, in order and complete, however the stream is cut into chunks,
  and the connections of other sockets keep their state.
\<close>

theorem netpack_round_trip:
  assumes "np_ok st" "queued st = []" "np_pending st fd = []"
    and "\<forall>d\<in>set chunks. d \<noteq> []" "concat chunks = concat frames" "map Inr frames = map lpack ps"
  shows "\<exists>st'. np_receive st fd chunks = Some (map (np_pack fd) ps, st') \<and> np_ok st' \<and> queued st' = [] \<and>
    np_pending st' = np_pending st"
proof -
  have "\<forall>p\<in>set ps. length p < 0x10000 \<and> lpack p = Inr (write_size (length p) @ p)"
  proof
    fix p
    assume "p \<in> set ps"
    then have "lpack p \<in> Inr ` set frames" using arg_cong [OF assms(6), of set] by auto
    then show "length p < 0x10000 \<and> lpack p = Inr (write_size (length p) @ p)" by (auto simp: lpack_def split: if_splits)
  qed
  then have len: "\<forall>p\<in>set ps. length p < 0x10000" and fr: "map Inr frames = map (\<lambda>p. Inr (write_size (length p) @ p) :: string + u8 list) ps"
    using assms(6) by auto
  have "frames = map (\<lambda>p. write_size (length p) @ p) ps"
    using arg_cong [OF fr, of "map projr"] by (simp add: comp_def)
  then have "np_parse (np_pending st fd @ concat chunks) = (ps, [])" using np_parse_packed [OF len] assms(3,5) by simp
  moreover have "np_parse (np_pending st fd) = ([], np_pending st fd)" using assms(3) by (simp add: np_parse_simps)
  moreover have "(np_pending st)(fd := []) = np_pending st" using assms(3) by (simp add: fun_upd_idem)
  ultimately show ?thesis using np_receive_ok [OF assms(1,2) _ assms(4), of fd ps "[]"] by simp
qed

theorem netpack_round_trip_witness:
  "\<exists>st'. np_receive None 7 [[0], [2, 65, 66, 0], [1, 67]] = Some ([np_pack 7 [65, 66], np_pack 7 [67]], st') \<and> np_ok st'"
proof -
  have "map Inr [[0, 2, 65, 66], [0, 1, 67]] = map lpack [[65, 66], [67]]" by (simp add: lpack_def write_size_def)
  from netpack_round_trip [OF _ _ _ _ _ this, of None 7 "[[0], [2, 65, 66, 0], [1, 67]]"] show ?thesis
    by (auto simp: np_ok_def queued_def np_pending_def)
qed

end
