(* ===== verification/Harbor.thy ===== *)
theory Harbor
  imports Gate
begin

text \<open>
  The harbor service of service-src/service_harbor.c: the queues of messages that wait, the
  table of global names, the connections to the other harbors with their receive states, the
  packages on the wire, the commands and the main loop. What the service asks of the node and
  of the socket layer is the list of its outputs; whether a destination exists is the argument
  \<open>deliver\<close>.
\<close>

subsection \<open>Data\<close>

definition HASH_SIZE :: nat where "HASH_SIZE = 4096"
definition HARBOR_QUEUE_SIZE :: nat where "HARBOR_QUEUE_SIZE = 1024"
definition HEADER_COOKIE_LENGTH :: nat where "HEADER_COOKIE_LENGTH = 12"
definition REMOTE_MAX :: nat where "REMOTE_MAX = 256"

definition STATUS_WAIT :: nat where "STATUS_WAIT = 0"
definition STATUS_HANDSHAKE :: nat where "STATUS_HANDSHAKE = 1"
definition STATUS_HEADER :: nat where "STATUS_HEADER = 2"
definition STATUS_CONTENT :: nat where "STATUS_CONTENT = 3"
definition STATUS_DOWN :: nat where "STATUS_DOWN = 4"

lemmas harbor_status = STATUS_WAIT_def STATUS_HANDSHAKE_def STATUS_HEADER_def STATUS_CONTENT_def STATUS_DOWN_def

record remote_message_header =
  rh_source :: u32
  rh_destination :: u32
  rh_session :: u32

record harbor_msg =
  hm_header :: remote_message_header
  hm_buffer :: payload
  hm_size :: u64

record harbor_msg_queue =
  hq_size :: nat
  hq_head :: nat
  hq_tail :: nat
  hq_data :: "harbor_msg option list"

record keyvalue =
  kv_key :: string
  kv_hash :: u32
  kv_value :: u32
  kv_queue :: "harbor_msg_queue option"

text \<open>The chains of the table of global names, newest node first.\<close>

type_synonym hashmap = "nat \<Rightarrow> keyvalue list"

text \<open>\<open>sl_recv\<close> is the part of the receive buffer that is filled.\<close>

record slave =
  sl_fd :: int
  sl_queue :: "harbor_msg_queue option"
  sl_status :: nat
  sl_length :: nat
  sl_read :: nat
  sl_size :: "u8 list"
  sl_recv :: "u8 list"

record harbor =
  h_id :: int
  h_slave :: u32
  h_map :: hashmap
  h_s :: "slave list"

text \<open>What the service asks of the rest of the node and of the socket layer, in order.\<close>

datatype harbor_out =
    HClose int
  | HStart int
  | HError string
  | HSend u32 u32 u32 int payload u64
  | HSocketSend int "u8 list"

subsection \<open>The queues\<close>

definition hq_expand :: "harbor_msg_queue \<Rightarrow> harbor_msg_queue option" where
  "hq_expand q = do {
     cells \<leftarrow> those (map (\<lambda>i. rd (hq_data q) ((i + hq_head q) mod hq_size q)) [0..<hq_size q - 1]);
     Some (q\<lparr>hq_data := cells @ replicate (hq_size q * 2 - (hq_size q - 1)) None, hq_head := 0,
             hq_tail := hq_size q - 1, hq_size := hq_size q * 2\<rparr>)
   }"

definition push_queue_msg :: "harbor_msg_queue \<Rightarrow> harbor_msg \<Rightarrow> harbor_msg_queue option" where
  "push_queue_msg q m = do {
     q1 \<leftarrow> (if (hq_tail q + 1) mod hq_size q = hq_head q then hq_expand q else Some q);
     cells \<leftarrow> wr (hq_data q1) (hq_tail q1) (Some m);
     Some (q1\<lparr>hq_data := cells, hq_tail := (hq_tail q1 + 1) mod hq_size q1\<rparr>)
   }"

definition push_queue :: "harbor_msg_queue \<Rightarrow> payload \<Rightarrow> u64 \<Rightarrow> remote_message_header \<Rightarrow> harbor_msg_queue option" where
  "push_queue q buffer sz header = push_queue_msg q \<lparr>hm_header = header, hm_buffer = buffer, hm_size = sz\<rparr>"

definition pop_queue :: "harbor_msg_queue \<Rightarrow> (harbor_msg option \<times> harbor_msg_queue) option" where
  "pop_queue q =
     (if hq_head q = hq_tail q then Some (None, q)
      else do {
        cell \<leftarrow> rd (hq_data q) (hq_head q);
        m \<leftarrow> cell;
        Some (Some m, q\<lparr>hq_head := (hq_head q + 1) mod hq_size q\<rparr>)
      })"

definition new_queue :: harbor_msg_queue where
  "new_queue = \<lparr>hq_size = HARBOR_QUEUE_SIZE, hq_head = 0, hq_tail = 0, hq_data = replicate HARBOR_QUEUE_SIZE None\<rparr>"

subsection \<open>The global names\<close>

definition le_u32_at :: "u8 list \<Rightarrow> nat \<Rightarrow> u32" where
  "le_u32_at bs i = le_u32 (take 4 (drop (4 * i) bs))"

definition name_hash :: "string \<Rightarrow> u32" where
  "name_hash name = (let p = le_u32_at (bytes_of name) in p 0 XOR p 1 XOR p 2 XOR p 3)"

definition key_matches :: "string \<Rightarrow> keyvalue \<Rightarrow> bool" where
  "key_matches name node \<longleftrightarrow> kv_hash node = name_hash name \<and>
     c_str (take GLOBALNAME_LENGTH (kv_key node)) = c_str (take GLOBALNAME_LENGTH name)"

definition name_slot :: "string \<Rightarrow> nat" where
  "name_slot name = unat (name_hash name) mod HASH_SIZE"

definition hash_search :: "hashmap \<Rightarrow> string \<Rightarrow> keyvalue option" where
  "hash_search m name = List.find (key_matches name) (m (name_slot name))"

definition hash_insert :: "hashmap \<Rightarrow> string \<Rightarrow> keyvalue \<times> hashmap" where
  "hash_insert m name =
     (let node = \<lparr>kv_key = name, kv_hash = name_hash name, kv_value = 0, kv_queue = None\<rparr>;
          k = name_slot name
      in (node, m(k := node # m k)))"

text \<open>Writing through the pointer that a search or an insertion for \<open>name\<close> returned.\<close>

primrec node_write :: "string \<Rightarrow> keyvalue \<Rightarrow> keyvalue list \<Rightarrow> keyvalue list" where
  "node_write name node [] = []"
| "node_write name node (x # xs) = (if key_matches name x then node # xs else x # node_write name node xs)"

definition hash_write :: "hashmap \<Rightarrow> string \<Rightarrow> keyvalue \<Rightarrow> hashmap" where
  "hash_write m name node = (let k = name_slot name in m(k := node_write name node (m k)))"

definition hash_new :: hashmap where "hash_new = (\<lambda>_. [])"

subsection \<open>The connections\<close>

definition slave_zero :: slave where
  "slave_zero = \<lparr>sl_fd = 0, sl_queue = None, sl_status = STATUS_WAIT, sl_length = 0, sl_read = 0,
     sl_size = replicate 4 0, sl_recv = []\<rparr>"

definition harbor_create :: harbor where
  "harbor_create = \<lparr>h_id = 0, h_slave = 0, h_map = hash_new, h_s = replicate REMOTE_MAX slave_zero\<rparr>"

definition set_slave :: "harbor \<Rightarrow> nat \<Rightarrow> slave \<Rightarrow> harbor option" where
  "set_slave h i s = do { ss \<leftarrow> wr (h_s h) i s; Some (h\<lparr>h_s := ss\<rparr>) }"

definition close_harbor :: "harbor \<Rightarrow> nat \<Rightarrow> (harbor \<times> harbor_out list) option" where
  "close_harbor h i = do {
     s \<leftarrow> rd (h_s h) i;
     h1 \<leftarrow> set_slave h i (s\<lparr>sl_status := STATUS_DOWN, sl_queue := None\<rparr>);
     Some (h1, if sl_fd s \<noteq> 0 then [HClose (sl_fd s)] else [])
   }"

definition report_harbor_down :: "harbor \<Rightarrow> nat \<Rightarrow> harbor_out list" where
  "report_harbor_down h i =
     (let down = ''D '' @ fmt_u i
      in [HSend 0 (h_slave h) (of_int PTYPE_TEXT) 0 (PBytes (bytes_of down)) (of_nat (length down))])"

primrec release_from :: "nat list \<Rightarrow> harbor \<Rightarrow> (harbor \<times> harbor_out list) option" where
  "release_from [] h = Some (h, [])"
| "release_from (i # is) h = do {
     s \<leftarrow> rd (h_s h) i;
     (h1, out) \<leftarrow> (if sl_fd s \<noteq> 0 \<and> sl_status s \<noteq> STATUS_DOWN then close_harbor h i else Some (h, []));
     (h2, outs) \<leftarrow> release_from is h1;
     Some (h2, out @ outs)
   }"

definition harbor_release :: "harbor \<Rightarrow> (harbor_out list) option" where
  "harbor_release h = map_option snd (release_from [1..<REMOTE_MAX] h)"

subsection \<open>The bytes of a header\<close>

definition to_bigendian :: "u32 \<Rightarrow> u8 list" where
  "to_bigendian n = [ucast (drop_bit 24 n AND 0xff), ucast (drop_bit 16 n AND 0xff), ucast (drop_bit 8 n AND 0xff), ucast (n AND 0xff)]"

definition header_to_message :: "remote_message_header \<Rightarrow> u8 list" where
  "header_to_message c = to_bigendian (rh_source c) @ to_bigendian (rh_destination c) @ to_bigendian (rh_session c)"

definition from_bigendian :: "u8 list \<Rightarrow> u32" where
  "from_bigendian bs = push_bit 24 (ucast (bs ! 0)) OR push_bit 16 (ucast (bs ! 1)) OR push_bit 8 (ucast (bs ! 2)) OR ucast (bs ! 3)"

definition message_to_header :: "u8 list \<Rightarrow> remote_message_header" where
  "message_to_header bs = \<lparr>rh_source = from_bigendian (take 4 bs), rh_destination = from_bigendian (take 4 (drop 4 bs)),
     rh_session = from_bigendian (take 4 (drop 8 bs))\<rparr>"

definition s32_of :: "u32 \<Rightarrow> int" where "s32_of w = to_s32 (uint w)"

text \<open>
  \<open>forward_local_messsage\<close>: \<open>deliver\<close> says whether \<open>skynet_send\<close> finds the destination. A
  package shorter than its cookie makes the code read in front of the buffer.
\<close>

definition forward_local_messsage :: "(u32 \<Rightarrow> bool) \<Rightarrow> harbor \<Rightarrow> u8 list \<Rightarrow> harbor_out list option" where
  "forward_local_messsage deliver h msg = do {
     c_assert (HEADER_COOKIE_LENGTH \<le> length msg);
     let n = length msg - HEADER_COOKIE_LENGTH;
     let header = message_to_header (drop n msg);
     let ty = drop_bit HANDLE_REMOTE_SHIFT (rh_destination header);
     let destination = (rh_destination header AND HANDLE_MASK) OR push_bit HANDLE_REMOTE_SHIFT (of_int (h_id h));
     Some (HSend (rh_source header) destination (ty OR PTYPE_TAG_DONTCOPY) (s32_of (rh_session header))
             (PBytes (take n msg)) (of_nat n) #
           (if deliver destination then []
            else
              (if ty \<noteq> of_int PTYPE_ERROR
               then [HSend destination (rh_source header) (of_int PTYPE_ERROR) (s32_of (rh_session header)) PNull 0] else []) @
              [HError (''Unknown destination :'' @ fmt_x destination @ '' from :'' @ fmt_x (rh_source header) @
                 '' type('' @ fmt_u (unat ty) @ '')'')]))
   }"

text \<open>The bytes \<open>memcpy\<close> takes from a message.\<close>

definition buffer_bytes :: "payload \<Rightarrow> u64 \<Rightarrow> u8 list option" where
  "buffer_bytes p sz =
     (case p of
        PBytes bs \<Rightarrow> if unat sz \<le> length bs then Some (take (unat sz) bs) else None
      | _ \<Rightarrow> if sz = 0 then Some [] else None)"

definition send_remote :: "int \<Rightarrow> payload \<Rightarrow> u64 \<Rightarrow> remote_message_header \<Rightarrow> harbor_out list option" where
  "send_remote fd buffer sz cookie =
     (let sz_header = sz + of_nat HEADER_COOKIE_LENGTH in
      if unat sz_header > 2 ^ 32 - 1 then
        Some [HError (''remote message from :'' @ fmt_08x (rh_source cookie) @ '' to :'' @
                fmt_08x (rh_destination cookie) @ '' is too large.'')]
      else do {
        bs \<leftarrow> buffer_bytes buffer sz;
        Some [HSocketSend fd (to_bigendian (ucast sz_header) @ bs @ header_to_message cookie)]
      })"

subsection \<open>Emptying the queues\<close>

partial_function (option) send_queue :: "int \<Rightarrow> u32 \<Rightarrow> harbor_msg_queue \<Rightarrow> (harbor_msg_queue \<times> harbor_out list) option" where
  "send_queue fd handle q = do {
     (m, q1) \<leftarrow> pop_queue q;
     (case m of
        None \<Rightarrow> Some (q1, [])
      | Some m \<Rightarrow> do {
          let hd = hm_header m;
          out \<leftarrow> send_remote fd (hm_buffer m) (hm_size m)
            (hd\<lparr>rh_destination := rh_destination hd OR (handle AND HANDLE_MASK)\<rparr>);
          (q2, outs) \<leftarrow> send_queue fd handle q1;
          Some (q2, out @ outs)
        })
   }"

partial_function (option) move_queue :: "harbor_msg_queue \<Rightarrow> harbor_msg_queue \<Rightarrow> (harbor_msg_queue \<times> harbor_msg_queue) option" where
  "move_queue q d = do {
     (m, q1) \<leftarrow> pop_queue q;
     (case m of
        None \<Rightarrow> Some (q1, d)
      | Some m \<Rightarrow> do { d1 \<leftarrow> push_queue_msg d m; move_queue q1 d1 })
   }"

partial_function (option) deliver_queue :: "u32 \<Rightarrow> harbor_msg_queue \<Rightarrow> (harbor_msg_queue \<times> harbor_out list) option" where
  "deliver_queue handle q = do {
     (m, q1) \<leftarrow> pop_queue q;
     (case m of
        None \<Rightarrow> Some (q1, [])
      | Some m \<Rightarrow> do {
          let hd = hm_header m;
          (q2, outs) \<leftarrow> deliver_queue handle q1;
          Some (q2, HSend (rh_source hd) handle (drop_bit HANDLE_REMOTE_SHIFT (rh_destination hd) OR PTYPE_TAG_DONTCOPY)
             (s32_of (rh_session hd)) (hm_buffer m) (hm_size m) # outs)
        })
   }"

definition handle_harbor :: "u32 \<Rightarrow> nat" where
  "handle_harbor handle = unat (drop_bit HANDLE_REMOTE_SHIFT handle)"

text \<open>
  \<open>dispatch_name_queue\<close> on the node of a name, whose queue it takes; the caller frees what is
  left of the queue.
\<close>

definition dispatch_name_queue :: "harbor \<Rightarrow> keyvalue \<Rightarrow> harbor_msg_queue \<Rightarrow> (harbor \<times> harbor_out list) option" where
  "dispatch_name_queue h node queue = do {
     let handle = kv_value node;
     let i = handle_harbor handle;
     s \<leftarrow> rd (h_s h) i;
     (if sl_fd s = 0 then
        (if sl_status s = STATUS_DOWN then
           Some (h, [HError (''Drop message to '' @ c_str (take GLOBALNAME_LENGTH (kv_key node)) @ '' (in harbor '' @ fmt_u i @ '')'')])
         else do {
           sq \<leftarrow> (case sl_queue s of None \<Rightarrow> Some queue | Some d \<Rightarrow> map_option snd (move_queue queue d));
           (if i = handle_harbor (h_slave h) then do {
              (_, outs) \<leftarrow> deliver_queue handle sq;
              h1 \<leftarrow> set_slave h i (s\<lparr>sl_queue := None\<rparr>);
              Some (h1, outs)
            } else do {
              h1 \<leftarrow> set_slave h i (s\<lparr>sl_queue := Some sq\<rparr>);
              Some (h1, [])
            })
         })
      else do {
        (_, outs) \<leftarrow> send_queue (sl_fd s) handle queue;
        Some (h, outs)
      })
   }"

text \<open>\<open>dispatch_queue\<close>: the handles are in the headers already.\<close>

definition harbor_dispatch_queue :: "harbor \<Rightarrow> nat \<Rightarrow> (harbor \<times> harbor_out list) option" where
  "harbor_dispatch_queue h i = do {
     s \<leftarrow> rd (h_s h) i;
     c_assert (sl_fd s \<noteq> 0);
     (case sl_queue s of
        None \<Rightarrow> Some (h, [])
      | Some q \<Rightarrow> do {
          (_, outs) \<leftarrow> send_queue (sl_fd s) 0 q;
          h1 \<leftarrow> set_slave h i (s\<lparr>sl_queue := None\<rparr>);
          Some (h1, outs)
        })
   }"

subsection \<open>Data of a connection\<close>

definition blit :: "u8 list \<Rightarrow> nat \<Rightarrow> u8 list \<Rightarrow> u8 list" where
  "blit xs k ys = take k xs @ ys @ drop (k + length ys) xs"

text \<open>
  One turn of the loop of \<open>push_socket_data\<close>: the new state, and the bytes left when the loop
  goes on. The cases fall through as in the \<open>switch\<close>.
\<close>

definition content_step :: "(u32 \<Rightarrow> bool) \<Rightarrow> harbor \<Rightarrow> nat \<Rightarrow> u8 list \<Rightarrow> (harbor \<times> harbor_out list \<times> u8 list option) option" where
  "content_step deliver h i buffer = do {
     s \<leftarrow> rd (h_s h) i;
     let need = int (sl_length s) - int (sl_read s);
     (if int (length buffer) < need then do {
        h1 \<leftarrow> set_slave h i (s\<lparr>sl_recv := take (sl_read s) (sl_recv s) @ buffer, sl_read := sl_read s + length buffer\<rparr>);
        Some (h1, [], None)
      } else do {
        c_assert (0 \<le> need);
        out \<leftarrow> forward_local_messsage deliver h (take (sl_read s) (sl_recv s) @ take (nat need) buffer);
        h1 \<leftarrow> set_slave h i (s\<lparr>sl_length := 0, sl_read := 0, sl_recv := [], sl_status := STATUS_HEADER\<rparr>);
        let rest = drop (nat need) buffer;
        Some (h1, out, if rest = [] then None else Some rest)
      })
   }"

definition header_step :: "(u32 \<Rightarrow> bool) \<Rightarrow> harbor \<Rightarrow> nat \<Rightarrow> u8 list \<Rightarrow> (harbor \<times> harbor_out list \<times> u8 list option) option" where
  "header_step deliver h i buffer = do {
     s \<leftarrow> rd (h_s h) i;
     let need = 4 - int (sl_read s);
     (if int (length buffer) < need then do {
        h1 \<leftarrow> set_slave h i (s\<lparr>sl_size := blit (sl_size s) (sl_read s) buffer, sl_read := sl_read s + length buffer\<rparr>);
        Some (h1, [], None)
      } else do {
        c_assert (0 \<le> need);
        let sz = blit (sl_size s) (sl_read s) (take (nat need) buffer);
        let rest = drop (nat need) buffer;
        h1 \<leftarrow> set_slave h i (s\<lparr>sl_size := sz\<rparr>);
        (if sz ! 0 \<noteq> 0 then do {
           (h2, out) \<leftarrow> close_harbor h1 i;
           Some (h2, HError (''Message is too long from harbor '' @ fmt_u i) # out, None)
         } else do {
           h2 \<leftarrow> set_slave h1 i (s\<lparr>sl_size := sz, sl_length := unat (sz ! 1) * 65536 + unat (sz ! 2) * 256 + unat (sz ! 3),
                   sl_read := 0, sl_recv := [], sl_status := STATUS_CONTENT\<rparr>);
           (if rest = [] then Some (h2, [], None) else content_step deliver h2 i rest)
         })
      })
   }"

definition socket_step :: "(u32 \<Rightarrow> bool) \<Rightarrow> harbor \<Rightarrow> nat \<Rightarrow> u8 list \<Rightarrow> (harbor \<times> harbor_out list \<times> u8 list option) option" where
  "socket_step deliver h i buffer = do {
     s \<leftarrow> rd (h_s h) i;
     (if sl_status s = STATUS_HANDSHAKE then
        (case buffer of
           [] \<Rightarrow> None
         | remote_id # rest \<Rightarrow>
             (if uint remote_id \<noteq> int i then do {
                (h1, out) \<leftarrow> close_harbor h i;
                Some (h1, HError (''Invalid shakehand id ('' @ fmt_u i @ '') from fd = '' @ fmt_d (sl_fd s) @ '' , harbor = '' @
                  fmt_u (unat remote_id)) # out, None)
              } else do {
                h1 \<leftarrow> set_slave h i (s\<lparr>sl_status := STATUS_HEADER\<rparr>);
                (h2, out) \<leftarrow> harbor_dispatch_queue h1 i;
                (if rest = [] then Some (h2, out, Some [])
                 else do {
                   (h3, out1, r) \<leftarrow> header_step deliver h2 i rest;
                   Some (h3, out @ out1, r)
                 })
              }))
      else if sl_status s = STATUS_HEADER then header_step deliver h i buffer
      else if sl_status s = STATUS_CONTENT then content_step deliver h i buffer
      else Some (h, [], None))
   }"

partial_function (option) socket_loop :: "(u32 \<Rightarrow> bool) \<Rightarrow> harbor \<Rightarrow> nat \<Rightarrow> u8 list \<Rightarrow> (harbor \<times> harbor_out list) option" where
  "socket_loop deliver h i buffer = do {
     (h1, out, r) \<leftarrow> socket_step deliver h i buffer;
     (case r of
        None \<Rightarrow> Some (h1, out)
      | Some rest \<Rightarrow> do {
          (h2, outs) \<leftarrow> socket_loop deliver h1 i rest;
          Some (h2, out @ outs)
        })
   }"

definition find_fd :: "harbor \<Rightarrow> int \<Rightarrow> nat option" where
  "find_fd h fd = List.find (\<lambda>i. sl_fd (h_s h ! i) = fd) [1..<REMOTE_MAX]"

definition push_socket_data :: "(u32 \<Rightarrow> bool) \<Rightarrow> harbor \<Rightarrow> int \<Rightarrow> u8 list \<Rightarrow> (harbor \<times> harbor_out list) option" where
  "push_socket_data deliver h fd buffer =
     (case find_fd h fd of
        None \<Rightarrow> Some (h, [HError (''Invalid socket fd ('' @ fmt_d fd @ '') data'')])
      | Some i \<Rightarrow> socket_loop deliver h i buffer)"

definition harbor_id :: "harbor \<Rightarrow> int \<Rightarrow> nat" where
  "harbor_id h fd = (case find_fd h fd of None \<Rightarrow> 0 | Some i \<Rightarrow> i)"

subsection \<open>Names and messages to other harbors\<close>

definition update_name :: "harbor \<Rightarrow> string \<Rightarrow> u32 \<Rightarrow> (harbor \<times> harbor_out list) option" where
  "update_name h name handle = do {
     let (node, m) = (case hash_search (h_map h) name of Some n \<Rightarrow> (n, h_map h) | None \<Rightarrow> hash_insert (h_map h) name);
     let node1 = node\<lparr>kv_value := handle\<rparr>;
     let h1 = h\<lparr>h_map := hash_write m name node1\<rparr>;
     (case kv_queue node1 of
        None \<Rightarrow> Some (h1, [])
      | Some q \<Rightarrow> do {
          (h2, outs) \<leftarrow> dispatch_name_queue h1 node1 q;
          Some (h2\<lparr>h_map := hash_write (h_map h2) name (node1\<lparr>kv_queue := None\<rparr>)\<rparr>, outs)
        })
   }"

text \<open>The flag says that the message has been kept or passed on, so that the caller does not free it.\<close>

definition remote_send_handle :: "harbor \<Rightarrow> u32 \<Rightarrow> u32 \<Rightarrow> int \<Rightarrow> int \<Rightarrow> payload \<Rightarrow> u64 \<Rightarrow>
    (bool \<times> harbor \<times> harbor_out list) option" where
  "remote_send_handle h source destination ty session msg sz = do {
     let i = handle_harbor destination;
     (if int i = h_id h then
        Some (True, h, [HSend source destination (of_int ty OR PTYPE_TAG_DONTCOPY) session msg sz])
      else do {
        s \<leftarrow> rd (h_s h) i;
        let header = \<lparr>rh_source = source, rh_destination = push_bit HANDLE_REMOTE_SHIFT (of_int ty) OR (destination AND HANDLE_MASK),
              rh_session = of_int session\<rparr>;
        (if sl_fd s = 0 \<or> sl_status s = STATUS_HANDSHAKE then
           (if sl_status s = STATUS_DOWN then
              Some (False, h, [HSend destination source (of_int PTYPE_ERROR) 0 PNull 0,
                HError (''Drop message to harbor '' @ fmt_u i @ '' from '' @ fmt_x source @ '' to '' @ fmt_x destination @
                  '' (session = '' @ fmt_d session @ '', msgsz = '' @ fmt_d (to_s32 (uint sz)) @ '')'')])
            else do {
              q \<leftarrow> push_queue (case sl_queue s of None \<Rightarrow> new_queue | Some q \<Rightarrow> q) msg sz header;
              h1 \<leftarrow> set_slave h i (s\<lparr>sl_queue := Some q\<rparr>);
              Some (True, h1, [])
            })
         else do {
           outs \<leftarrow> send_remote (sl_fd s) msg sz header;
           Some (False, h, outs)
         })
      })
   }"

definition remote_send_name :: "harbor \<Rightarrow> u32 \<Rightarrow> string \<Rightarrow> int \<Rightarrow> int \<Rightarrow> payload \<Rightarrow> u64 \<Rightarrow>
    (bool \<times> harbor \<times> harbor_out list) option" where
  "remote_send_name h source name ty session msg sz = do {
     let (node, m) = (case hash_search (h_map h) name of Some n \<Rightarrow> (n, h_map h) | None \<Rightarrow> hash_insert (h_map h) name);
     (if kv_value node = 0 then do {
        q \<leftarrow> push_queue (case kv_queue node of None \<Rightarrow> new_queue | Some q \<Rightarrow> q) msg sz
          \<lparr>rh_source = source, rh_destination = push_bit HANDLE_REMOTE_SHIFT (of_int ty), rh_session = of_int session\<rparr>;
        let query = ''Q '' @ c_str (take GLOBALNAME_LENGTH name);
        Some (True, h\<lparr>h_map := hash_write m name (node\<lparr>kv_queue := Some q\<rparr>)\<rparr>,
          [HSend 0 (h_slave h) (of_int PTYPE_TEXT) 0 (PBytes (bytes_of query)) (of_nat (length query))])
      } else remote_send_handle (h\<lparr>h_map := m\<rparr>) source (kv_value node) ty session msg sz)
   }"

subsection \<open>Commands and the main loop\<close>

definition handshake :: "harbor \<Rightarrow> int \<Rightarrow> harbor_out list" where
  "handshake h fd = [HSocketSend fd [of_int (h_id h)]]"

text \<open>\<open>msg\<close> is the text with its size; a NUL follows it in memory.\<close>

definition harbor_command :: "harbor \<Rightarrow> string \<Rightarrow> u32 \<Rightarrow> (harbor \<times> harbor_out list) option" where
  "harbor_command h msg source =
     (let c = c_hd msg; name = drop 2 msg; s = int (length msg) - 2 in
      if c = CHR ''N'' then
        (if s \<le> 0 \<or> s \<ge> int GLOBALNAME_LENGTH then do {
           c_assert (0 \<le> s);
           Some (h, [HError (''Invalid global name '' @ c_str name)])
         } else update_name h (name @ replicate (GLOBALNAME_LENGTH - length name) (CHR 0x00)) source)
      else if c = CHR ''S'' \<or> c = CHR ''A'' then do {
        c_assert (0 \<le> s);
        let buffer = c_str name;
        let (fd, rest) = (case scan_int buffer of None \<Rightarrow> (0, None) | Some (x, r) \<Rightarrow> (x, Some r));
        let k = (case rest of None \<Rightarrow> 0 | Some r \<Rightarrow> (case scan_int r of None \<Rightarrow> 0 | Some (x, _) \<Rightarrow> x));
        (if fd = 0 \<or> k \<le> 0 \<or> k \<ge> int REMOTE_MAX then
           Some (h, [HError (''Invalid command '' @ [c] @ '' '' @ buffer)])
         else do {
           sl \<leftarrow> rd (h_s h) (nat k);
           (if sl_fd sl \<noteq> 0 then Some (h, [HError (''Harbor '' @ fmt_d k @ '' alreay exist'')])
            else if c = CHR ''S'' then do {
              h1 \<leftarrow> set_slave h (nat k) (sl\<lparr>sl_fd := fd, sl_status := STATUS_HANDSHAKE\<rparr>);
              Some (h1, HStart fd # handshake h fd)
            } else do {
              h1 \<leftarrow> set_slave h (nat k) (sl\<lparr>sl_fd := fd, sl_status := STATUS_HEADER\<rparr>);
              (h2, outs) \<leftarrow> harbor_dispatch_queue h1 (nat k);
              Some (h2, HStart fd # handshake h fd @ outs)
            })
         })
      }
      else Some (h, [HError (''Unknown command '' @ c_str msg)]))"

definition harbor_socket :: "(u32 \<Rightarrow> bool) \<Rightarrow> harbor \<Rightarrow> int \<Rightarrow> int \<Rightarrow> int \<Rightarrow> payload \<Rightarrow> int \<Rightarrow> (harbor \<times> harbor_out list) option" where
  "harbor_socket deliver h mty mid ud buffer ty =
     (if mty = SKYNET_SOCKET_TYPE_DATA then do {
        bs \<leftarrow> payload_bytes buffer;
        c_assert (ud = int (length bs));
        push_socket_data deliver h mid bs
      }
      else if mty = SKYNET_SOCKET_TYPE_ERROR \<or> mty = SKYNET_SOCKET_TYPE_CLOSE then
        Some (h, if harbor_id h mid \<noteq> 0 then report_harbor_down h (harbor_id h mid)
                 else [HError (''Unkown fd ('' @ fmt_d mid @ '') closed'')])
      else if mty = SKYNET_SOCKET_TYPE_CONNECT then Some (h, [])
      else if mty = SKYNET_SOCKET_TYPE_WARNING then
        Some (h, if harbor_id h mid \<noteq> 0
                 then [HError (''message havn't send to Harbor ('' @ fmt_u (harbor_id h mid) @ '') reach '' @ fmt_d ud @ '' K'')] else [])
      else Some (h, [HError (''recv invalid socket message type '' @ fmt_d ty)]))"

definition harbor_mainloop :: "(u32 \<Rightarrow> bool) \<Rightarrow> harbor \<Rightarrow> int \<Rightarrow> int \<Rightarrow> u32 \<Rightarrow> payload \<Rightarrow> u64 \<Rightarrow> (harbor \<times> harbor_out list) option" where
  "harbor_mainloop deliver h ty session source msg sz =
     (if ty = PTYPE_SOCKET then
        (case msg of PSocket mty mid ud buffer _ \<Rightarrow> harbor_socket deliver h mty mid ud buffer ty | _ \<Rightarrow> None)
      else if ty = PTYPE_HARBOR then do {
        bs \<leftarrow> payload_bytes msg;
        c_assert (unat sz \<le> length bs);
        harbor_command h (string_of (take (unat sz) bs)) source
      }
      else if ty = PTYPE_SYSTEM then
        (case msg of
           PRemote name handle m rsz rty \<Rightarrow> do {
             (_, h1, outs) \<leftarrow> (if handle = 0 then remote_send_name h source name rty session m rsz
                else remote_send_handle h source handle rty session m rsz);
             Some (h1, outs)
           }
         | _ \<Rightarrow> None)
      else
        Some (h, HError (''recv invalid message from '' @ fmt_x source @ '',  type = '' @ fmt_d ty) #
          (if session \<noteq> 0 \<and> ty \<noteq> PTYPE_ERROR then [HSend 0 source (of_int PTYPE_ERROR) session PNull 0] else [])))"

text \<open>\<open>harbor_init\<close>: the result is 1 when there is no slave; \<open>skynet_harbor_start\<close> is in \<open>Server\<close>.\<close>

definition scan_u32 :: "string \<Rightarrow> u32 option" where
  "scan_u32 s = (let (neg, t) = strip_sign s; ds = takeWhile (\<lambda>c. base_digit 10 c \<noteq> None) t; v = read_digits 10 0 ds
     in if ds = [] then None
        else Some (if v \<ge> 2 ^ 64 then -1 else if neg then - of_nat v else of_nat v))"

definition harbor_init :: "harbor \<Rightarrow> string \<Rightarrow> bool \<times> harbor" where
  "harbor_init h args =
     (let (i, rest) = (case scan_int args of None \<Rightarrow> (0, None) | Some (x, r) \<Rightarrow> (x, Some r));
          sl = (case rest of None \<Rightarrow> 0 | Some r \<Rightarrow> (case scan_u32 r of None \<Rightarrow> 0 | Some x \<Rightarrow> x))
      in if sl = 0 then (True, h) else (False, h\<lparr>h_id := i, h_slave := sl\<rparr>))"

end
