(* ===== verification/Harbor_Properties.thy ===== *)
theory Harbor_Properties
  imports Harbor Ring
begin

text \<open>
  The queues of the harbor service are lists; a connection is a stream of packages; a link
  between two harbors delivers every message once and in order; messages wait for a connection;
  what happens to closed connections and to messages sent by name.
\<close>

subsection \<open>The queues hold lists\<close>

definition hq_ok :: "harbor_msg_queue \<Rightarrow> bool" where
  "hq_ok q \<longleftrightarrow> ring_live (hq_size q) (hq_head q) (hq_tail q) (hq_data q)"

definition hq_list :: "harbor_msg_queue \<Rightarrow> harbor_msg list" where
  "hq_list q = ring_list (hq_size q) (hq_head q) (hq_tail q) (hq_data q)"

lemma new_queue_ok [simp]: "hq_ok new_queue" "hq_list new_queue = []"
  using ring_new [of HARBOR_QUEUE_SIZE] by (simp_all add: hq_ok_def hq_list_def new_queue_def HARBOR_QUEUE_SIZE_def)

lemma hq_expand_ok:
  assumes ok: "hq_ok q" and full: "(hq_tail q + 1) mod hq_size q = hq_head q"
  shows "\<exists>q'. hq_expand q = Some q' \<and> hq_ok q' \<and> hq_list q' = hq_list q \<and> (hq_tail q' + 1) mod hq_size q' \<noteq> hq_head q'"
proof -
  have live: "ring_live (hq_size q) (hq_head q) (hq_tail q) (hq_data q)" using ok by (simp add: hq_ok_def)
  note b = ring_bounds [OF live]
  have cnt: "ring_count (hq_size q) (hq_head q) (hq_tail q) = hq_size q - 1"
    using ring_full [OF b(3,4)] full b by (simp add: ring_count_def ring_next_mod)
  have "\<forall>i<hq_size q - 1. hq_data q ! ((hq_head q + i) mod hq_size q) \<noteq> None"
    using live cnt by (simp add: ring_live_def)
  from ring_copy [OF b(2,1) _ this, of "hq_size q * 2" "replicate (hq_size q * 2 - (hq_size q - 1)) None"] b(1)
  show ?thesis by (simp add: hq_expand_def hq_ok_def hq_list_def add.commute ring_list_def [of "hq_size q"] cnt)
qed

lemma push_queue_msg_ok:
  assumes "hq_ok q"
  shows "\<exists>q'. push_queue_msg q m = Some q' \<and> hq_ok q' \<and> hq_list q' = hq_list q @ [m]"
proof -
  obtain q1 where q1: "(if (hq_tail q + 1) mod hq_size q = hq_head q then hq_expand q else Some q) = Some q1"
    "hq_ok q1" "hq_list q1 = hq_list q" "(hq_tail q1 + 1) mod hq_size q1 \<noteq> hq_head q1"
    using hq_expand_ok [OF assms] assms by (cases "(hq_tail q + 1) mod hq_size q = hq_head q") auto
  have live: "ring_live (hq_size q1) (hq_head q1) (hq_tail q1) (hq_data q1)" using q1(2) by (simp add: hq_ok_def)
  note b = ring_bounds [OF live]
  have "ring_next (hq_size q1) (hq_tail q1) \<noteq> hq_head q1" using q1(4) b(4) by (simp add: ring_next_mod)
  from ring_push [OF live this, of m] q1 b show ?thesis
    by (simp add: push_queue_msg_def hq_ok_def hq_list_def ring_next_mod)
qed

lemma pop_queue_empty: "hq_ok q \<Longrightarrow> hq_list q = [] \<Longrightarrow> \<exists>q'. pop_queue q = Some (None, q') \<and> hq_ok q' \<and> hq_list q' = []"
  using ring_empty [of "hq_size q" "hq_head q" "hq_tail q" "hq_data q"] by (auto simp: pop_queue_def hq_ok_def hq_list_def)

lemma pop_queue_cons:
  assumes ok: "hq_ok q" and l: "hq_list q = m # ms"
  shows "\<exists>q'. pop_queue q = Some (Some m, q') \<and> hq_ok q' \<and> hq_list q' = ms"
proof -
  have live: "ring_live (hq_size q) (hq_head q) (hq_tail q) (hq_data q)" using ok by (simp add: hq_ok_def)
  note b = ring_bounds [OF live]
  have ne: "hq_head q \<noteq> hq_tail q" using ring_empty [OF live] l by (simp add: hq_list_def)
  from ring_pop [OF live ne] l b ne show ?thesis
    by (auto simp: pop_queue_def hq_ok_def hq_list_def ring_next_mod)
qed

interpretation harbor_queue: fifo push_queue_msg pop_queue hq_list hq_ok "\<lambda>_ _. True"
  by unfold_locales (assumption | rule TrueI push_queue_msg_ok pop_queue_empty pop_queue_cons)+

subsection \<open>Emptying a queue\<close>

text \<open>What \<open>send_queue\<close> sends for a list of messages: None when a message has no bytes.\<close>

definition send_one :: "int \<Rightarrow> u32 \<Rightarrow> harbor_msg \<Rightarrow> harbor_out list option" where
  "send_one fd handle m = send_remote fd (hm_buffer m) (hm_size m)
     ((hm_header m)\<lparr>rh_destination := rh_destination (hm_header m) OR (handle AND HANDLE_MASK)\<rparr>)"

primrec send_all :: "int \<Rightarrow> u32 \<Rightarrow> harbor_msg list \<Rightarrow> harbor_out list option" where
  "send_all fd handle [] = Some []"
| "send_all fd handle (m # ms) = do {
     out \<leftarrow> send_one fd handle m;
     outs \<leftarrow> send_all fd handle ms;
     Some (out @ outs)
   }"

lemma send_queue_ok:
  "hq_ok q \<Longrightarrow> send_all fd handle (hq_list q) = Some outs \<Longrightarrow>
   \<exists>q'. send_queue fd handle q = Some (q', outs) \<and> hq_ok q' \<and> hq_list q' = []"
proof (induction "hq_list q" arbitrary: q outs)
  case Nil
  then show ?case using pop_queue_empty [of q] by (auto simp: send_queue.simps [of fd handle q])
next
  case (Cons m ms)
  obtain q1 where q1: "pop_queue q = Some (Some m, q1)" "hq_ok q1" "hq_list q1 = ms"
    using pop_queue_cons [OF Cons.prems(1) Cons.hyps(2) [symmetric]] by blast
  have "send_all fd handle (m # ms) = Some outs" using Cons.prems(2) Cons.hyps(2) by simp
  then obtain o1 o2 where o: "send_one fd handle m = Some o1" "send_all fd handle (hq_list q1) = Some o2" "outs = o1 @ o2"
    by (auto simp: q1(3) bind_eq_Some_conv)
  from Cons.hyps(1) [OF q1(3) [symmetric] q1(2) o(2)] q1(1) o(1,3) show ?case
    by (subst send_queue.simps) (auto simp: send_one_def Let_def)
qed

lemma move_queue_ok:
  "hq_ok q \<Longrightarrow> hq_ok d \<Longrightarrow>
   \<exists>q' d'. move_queue q d = Some (q', d') \<and> hq_ok d' \<and> hq_list d' = hq_list d @ hq_list q"
proof (induction "hq_list q" arbitrary: q d)
  case Nil
  then show ?case using pop_queue_empty [of q] by (auto simp: move_queue.simps [of q d])
next
  case (Cons m ms)
  obtain q1 where q1: "pop_queue q = Some (Some m, q1)" "hq_ok q1" "hq_list q1 = ms"
    using pop_queue_cons [OF Cons.prems(1) Cons.hyps(2) [symmetric]] by blast
  obtain d1 where d1: "push_queue_msg d m = Some d1" "hq_ok d1" "hq_list d1 = hq_list d @ [m]"
    using push_queue_msg_ok [OF Cons.prems(2)] by blast
  from Cons.hyps(1) [OF q1(3) [symmetric] q1(2) d1(2)] q1(1,3) d1(1,3) Cons.hyps(2) show ?case
    by (subst move_queue.simps) auto
qed

definition local_send :: "u32 \<Rightarrow> harbor_msg \<Rightarrow> harbor_out" where
  "local_send handle m = HSend (rh_source (hm_header m)) handle
     (drop_bit HANDLE_REMOTE_SHIFT (rh_destination (hm_header m)) OR PTYPE_TAG_DONTCOPY)
     (s32_of (rh_session (hm_header m))) (hm_buffer m) (hm_size m)"

lemma deliver_queue_ok:
  "hq_ok q \<Longrightarrow> \<exists>q'. deliver_queue handle q = Some (q', map (local_send handle) (hq_list q))"
proof (induction "hq_list q" arbitrary: q)
  case Nil
  then show ?case using pop_queue_empty [of q] by (auto simp: deliver_queue.simps [of handle q])
next
  case (Cons m ms)
  obtain q1 where q1: "pop_queue q = Some (Some m, q1)" "hq_ok q1" "hq_list q1 = ms"
    using pop_queue_cons [OF Cons.prems(1) Cons.hyps(2) [symmetric]] by blast
  from Cons.hyps(1) [OF q1(3) [symmetric] q1(2)] q1 Cons.hyps(2) [symmetric] show ?case
    by (subst deliver_queue.simps) (auto simp: local_send_def Let_def)
qed

subsection \<open>Headers as bytes\<close>

lemma byte_and: "(ucast (w AND 0xff :: u32) :: u8) = ucast w"
proof -
  have m: "(0xff :: u32) = mask 8" by (simp add: mask_eq_exp_minus_1)
  show ?thesis unfolding m by (rule bit_word_eqI) (auto simp: bit_simps)
qed

lemma to_bigendian_bytes:
  "to_bigendian n = [ucast (drop_bit 24 n), ucast (drop_bit 16 n), ucast (drop_bit 8 n), ucast n]"
  by (simp add: to_bigendian_def byte_and)

lemma length_to_bigendian [simp]: "length (to_bigendian n) = 4"
  by (simp add: to_bigendian_bytes)

lemma from_to_bigendian [simp]: "from_bigendian (to_bigendian n) = n"
proof (rule bit_word_eqI)
  fix i
  assume "i < LENGTH(32)"
  then consider "i < 8" | "8 \<le> i" "i < 16" | "16 \<le> i" "i < 24" | "24 \<le> i" "i < 32" by force
  then show "bit (from_bigendian (to_bigendian n)) i = bit n i"
    by cases (auto simp: from_bigendian_def to_bigendian_bytes bit_simps)
qed

lemma length_header_to_message [simp]: "length (header_to_message c) = HEADER_COOKIE_LENGTH"
  by (simp add: header_to_message_def HEADER_COOKIE_LENGTH_def)

lemma message_header [simp]: "message_to_header (header_to_message c) = c"
  by (simp add: message_to_header_def header_to_message_def)




subsection \<open>The packages of a stream\<close>









subsection \<open>A connection as a stream\<close>















lemma find_fd_Some:
  assumes "find_fd h fd = Some i" "length (h_s h) = REMOTE_MAX"
  shows "i < length (h_s h)" "sl_fd (h_s h ! i) = fd"
  using assms by (auto simp: find_fd_def find_Some_iff)




subsection \<open>From one harbor to another\<close>

text \<open>A message: source, destination, type, session, bytes.\<close>

type_synonym link_message = "u32 \<times> u32 \<times> int \<times> int \<times> u8 list"

definition link_ok :: "nat \<Rightarrow> link_message \<Rightarrow> bool" where
  "link_ok k = (\<lambda>(source, destination, ty, session, bs). handle_harbor destination = k \<and> 0 \<le> ty \<and> ty < 256 \<and>
     - (2 ^ 31) \<le> session \<and> session < 2 ^ 31 \<and> length bs < 2 ^ 24 - HEADER_COOKIE_LENGTH)"

definition link_header :: "link_message \<Rightarrow> remote_message_header" where
  "link_header = (\<lambda>(source, destination, ty, session, bs).
     \<lparr>rh_source = source, rh_destination = push_bit HANDLE_REMOTE_SHIFT (of_int ty) OR (destination AND HANDLE_MASK),
      rh_session = of_int session\<rparr>)"

definition link_package :: "link_message \<Rightarrow> u8 list" where
  "link_package m = snd (snd (snd (snd m))) @ header_to_message (link_header m)"

definition link_frame :: "link_message \<Rightarrow> u8 list" where
  "link_frame m = to_bigendian (of_nat (length (link_package m))) @ link_package m"

definition link_send :: "harbor \<Rightarrow> link_message \<Rightarrow> (bool \<times> harbor \<times> harbor_out list) option" where
  "link_send h = (\<lambda>(source, destination, ty, session, bs).
     remote_send_handle h source destination ty session (PBytes bs) (of_nat (length bs)))"




lemma send_remote_frame:
  assumes "link_ok k m"
  shows "send_remote fd (PBytes (snd (snd (snd (snd m))))) (of_nat (length (snd (snd (snd (snd m)))))) (link_header m) =
     Some [HSocketSend fd (link_frame m)]"
proof -
  obtain source destination ty session bs where m: "m = (source, destination, ty, session, bs)" by (metis prod_cases5)
  have len: "length bs + 12 < 2 ^ 24" using assms(1) by (simp add: link_ok_def m HEADER_COOKIE_LENGTH_def)
  then have u: "unat (of_nat (length bs) :: u64) = length bs" by (simp add: unat_of_nat)
  define n where "n = length bs + 12"
  have n: "n < 2 ^ 24" using len by (simp add: n_def)
  have sum: "(of_nat (length bs) + of_nat HEADER_COOKIE_LENGTH :: u64) = of_nat n"
    by (simp add: n_def HEADER_COOKIE_LENGTH_def)
  have un: "unat (of_nat n :: u64) = n" "(ucast (of_nat n :: u64) :: u32) = of_nat n"
    using n by (simp_all add: unat_of_nat unsigned_of_nat take_bit_nat_eq_self)
  have "length (link_package m) = n" by (simp add: link_package_def m n_def HEADER_COOKIE_LENGTH_def)
  then have frame: "link_frame m = to_bigendian (of_nat n) @ bs @ header_to_message (link_header m)"
    by (simp add: link_frame_def link_package_def m)
  have "send_remote fd (PBytes bs) (of_nat (length bs)) (link_header m) = Some [HSocketSend fd (link_frame m)]"
    unfolding send_remote_def Let_def sum un using n by (simp add: buffer_bytes_def u frame)
  then show ?thesis by (simp add: m)
qed

lemma link_send_eq:
  assumes "link_ok k m" "h_id h \<noteq> int k" "k < length (h_s h)" "sl_fd (h_s h ! k) \<noteq> 0" "sl_status (h_s h ! k) \<noteq> STATUS_HANDSHAKE"
  shows "link_send h m = Some (False, h, [HSocketSend (sl_fd (h_s h ! k)) (link_frame m)])"
proof -
  obtain source destination ty session bs where m: "m = (source, destination, ty, session, bs)" by (metis prod_cases5)
  show ?thesis using assms send_remote_frame [OF assms(1)]
    by (simp add: link_send_def m remote_send_handle_def link_ok_def link_header_def Let_def)
qed








subsection \<open>Any chunk on a connection\<close>







subsection \<open>The queue of a harbor that is not connected\<close>

definition msg_of :: "link_message \<Rightarrow> harbor_msg" where
  "msg_of m = \<lparr>hm_header = link_header m, hm_buffer = PBytes (snd (snd (snd (snd m)))), hm_size = of_nat (length (snd (snd (snd (snd m)))))\<rparr>"

definition slave_list :: "slave \<Rightarrow> harbor_msg list" where
  "slave_list s = (case sl_queue s of None \<Rightarrow> [] | Some q \<Rightarrow> hq_list q)"

definition slave_queue_ok :: "slave \<Rightarrow> bool" where
  "slave_queue_ok s = (case sl_queue s of None \<Rightarrow> True | Some q \<Rightarrow> hq_ok q)"

text \<open>Sending a list of messages, the state passed on.\<close>

fun link_sends :: "harbor \<Rightarrow> link_message list \<Rightarrow> (harbor \<times> harbor_out list) option" where
  "link_sends h [] = Some (h, [])"
| "link_sends h (m # ms) = do {
     (_, h1, out) \<leftarrow> link_send h m;
     (h2, outs) \<leftarrow> link_sends h1 ms;
     Some (h2, out @ outs)
   }"

definition waiting :: "harbor \<Rightarrow> nat \<Rightarrow> bool" where
  "waiting h k \<longleftrightarrow> k < length (h_s h) \<and> h_id h \<noteq> int k \<and> slave_queue_ok (h_s h ! k) \<and>
     sl_status (h_s h ! k) \<noteq> STATUS_DOWN \<and> (sl_fd (h_s h ! k) = 0 \<or> sl_status (h_s h ! k) = STATUS_HANDSHAKE)"

lemma link_send_queues:
  assumes w: "waiting h k" and m: "link_ok k m"
  shows "\<exists>q. link_send h m = Some (True, h\<lparr>h_s := (h_s h)[k := (h_s h ! k)\<lparr>sl_queue := Some q\<rparr>]\<rparr>, []) \<and> hq_ok q \<and>
    hq_list q = slave_list (h_s h ! k) @ [msg_of m]"
proof -
  obtain source destination ty session bs where t: "m = (source, destination, ty, session, bs)" by (metis prod_cases5)
  let ?q = "case sl_queue (h_s h ! k) of None \<Rightarrow> new_queue | Some q \<Rightarrow> q"
  have "hq_ok ?q" "hq_list ?q = slave_list (h_s h ! k)"
    using w by (auto simp: waiting_def slave_queue_ok_def slave_list_def split: option.splits)
  from push_queue_msg_ok [OF this(1), of "msg_of m"] this(2) obtain q where
    "push_queue_msg ?q (msg_of m) = Some q" "hq_ok q" "hq_list q = slave_list (h_s h ! k) @ [msg_of m]" by auto
  then show ?thesis using w m
    by (intro exI [of _ q]) (simp add: waiting_def link_send_def remote_send_handle_def link_ok_def t push_queue_def msg_of_def link_header_def
        set_slave_def Let_def)
qed

lemma link_sends_queue:
  "waiting h k \<Longrightarrow> \<forall>m\<in>set ms. link_ok k m \<Longrightarrow>
   \<exists>s'. link_sends h ms = Some (h\<lparr>h_s := (h_s h)[k := s']\<rparr>, []) \<and> slave_queue_ok s' \<and>
     slave_list s' = slave_list (h_s h ! k) @ map msg_of ms \<and> s'\<lparr>sl_queue := None\<rparr> = (h_s h ! k)\<lparr>sl_queue := None\<rparr>"
proof (induction ms arbitrary: h)
  case Nil
  then show ?case by (intro exI [of _ "h_s h ! k"]) (simp add: waiting_def)
next
  case (Cons m ms)
  obtain q where q: "link_send h m = Some (True, h\<lparr>h_s := (h_s h)[k := (h_s h ! k)\<lparr>sl_queue := Some q\<rparr>]\<rparr>, [])" "hq_ok q"
    "hq_list q = slave_list (h_s h ! k) @ [msg_of m]" using link_send_queues [OF Cons.prems(1), of m] Cons.prems(2) by auto
  let ?s = "(h_s h ! k)\<lparr>sl_queue := Some q\<rparr>"
  let ?h = "h\<lparr>h_s := (h_s h)[k := ?s]\<rparr>"
  have k: "h_s ?h ! k = ?s" using Cons.prems(1) by (simp add: waiting_def)
  have "waiting ?h k" using Cons.prems(1) q(2) by (simp add: waiting_def slave_queue_ok_def)
  from Cons.IH [OF this, unfolded k] Cons.prems(2) obtain s' where "link_sends ?h ms = Some (?h\<lparr>h_s := (h_s ?h)[k := s']\<rparr>, [])" "slave_queue_ok s'"
    "slave_list s' = slave_list ?s @ map msg_of ms" "s'\<lparr>sl_queue := None\<rparr> = ?s\<lparr>sl_queue := None\<rparr>" by (metis list.set_intros(2))
  with q show ?case by (intro exI [of _ s']) (simp add: slave_list_def [of ?s])
qed

lemma send_all_links:
  "\<forall>m\<in>set ms. \<exists>k. link_ok k m \<Longrightarrow> send_all fd 0 (map msg_of ms) = Some (map (\<lambda>m. HSocketSend fd (link_frame m)) ms)"
proof (induction ms)
  case (Cons m ms)
  have "send_one fd 0 (msg_of m) = Some [HSocketSend fd (link_frame m)]"
    using Cons.prems send_remote_frame [of _ m fd] by (auto simp: send_one_def msg_of_def)
  with Cons show ?case by simp
qed simp

lemma digits_10: "\<forall>c\<in>set (print_base 10 n). base_digit 10 c \<noteq> None"
  by (intro ballI print_base_digits) simp_all

lemma print_base_nonempty: "print_base b n \<noteq> []"
  by (subst print_base.simps) simp

lemma takeWhile_digits:
  assumes "\<forall>c\<in>set ds. base_digit 10 c \<noteq> None" "t = [] \<or> base_digit 10 (hd t) = None"
  shows "takeWhile (\<lambda>c. base_digit 10 c \<noteq> None) (ds @ t) = ds"
  using assms by (cases t) (auto simp: takeWhile_append takeWhile_eq_all_conv)

text \<open>A decimal number is read back, with what follows it.\<close>

lemma scan_fmt_d:
  assumes i: "- (2 ^ 31) \<le> i" "i < 2 ^ 31" and t: "t = [] \<or> base_digit 10 (hd t) = None"
  shows "scan_int (fmt_d i @ t) = Some (i, t)"
proof -
  let ?ds = "print_base 10 (nat \<bar>i\<bar>)"
  have r: "read_digits 10 0 ?ds = nat \<bar>i\<bar>" by (simp add: read_print_base)
  have tw: "takeWhile (\<lambda>c. base_digit 10 c \<noteq> None) (?ds @ t) = ?ds" by (rule takeWhile_digits [OF digits_10 t])
  obtain c cs where c: "?ds = c # cs" using print_base_nonempty [of 10 "nat \<bar>i\<bar>"] by (cases ?ds) auto
  have d: "\<not> is_space c" "c \<noteq> CHR ''-''" "c \<noteq> CHR ''+''" using digits_10 [of "nat \<bar>i\<bar>"] digit_plain [of 10 c] c by auto
  have f: "fmt_d i = (if i < 0 then [CHR ''-''] else []) @ c # cs" using c by (cases "i < 0") (simp_all add: fmt_d_def)
  have "\<not> is_space (CHR ''-'')" by (simp add: is_space_def code_def)
  with d have sign: "strip_sign (dropWhile is_space (fmt_d i @ t)) = (i < 0, ?ds @ t)"
    unfolding c f by (cases "i < 0") (simp_all add: strip_sign_def)
  have "to_s32 (sat64 (i < 0) (nat \<bar>i\<bar>)) = i" using i by (simp add: sat64_def to_s32_id)
  then show ?thesis using print_base_nonempty [of 10 "nat \<bar>i\<bar>"]
    unfolding scan_int_def Let_def sign prod.case tw r by simp
qed

lemma scan_space: "scan_int (CHR '' '' # s) = scan_int s"
  by (simp add: scan_int_def is_space_def code_def)

lemma fmt_d_no_nul: "CHR 0x00 \<notin> set (fmt_d i)"
proof -
  have "base_digit 10 (CHR 0x00) = None" by (simp add: base_digit_def digit_val_def code_def)
  then have "CHR 0x00 \<notin> set (print_base 10 n)" for n using digits_10 [of n] by metis
  then show ?thesis by (simp add: fmt_d_def)
qed

definition connect_text :: "char \<Rightarrow> int \<Rightarrow> nat \<Rightarrow> string" where
  "connect_text c fd k = [c, CHR '' ''] @ fmt_d fd @ [CHR '' ''] @ fmt_d (int k)"

lemma connect_scan:
  assumes "- (2 ^ 31) \<le> fd" "fd < 2 ^ 31" "k < 256"
  shows "c_str (drop 2 (connect_text c fd k)) = fmt_d fd @ [CHR '' ''] @ fmt_d (int k)"
    "scan_int (fmt_d fd @ [CHR '' ''] @ fmt_d (int k)) = Some (fd, CHR '' '' # fmt_d (int k))"
    "scan_int (CHR '' '' # fmt_d (int k)) = Some (int k, [])"
proof -
  show "c_str (drop 2 (connect_text c fd k)) = fmt_d fd @ [CHR '' ''] @ fmt_d (int k)"
    using fmt_d_no_nul [of fd] fmt_d_no_nul [of "int k"]
    by (auto simp: connect_text_def c_str_def takeWhile_eq_all_conv)
  show "scan_int (fmt_d fd @ [CHR '' ''] @ fmt_d (int k)) = Some (fd, CHR '' '' # fmt_d (int k))"
    using assms by (subst scan_fmt_d) (simp_all add: base_digit_def digit_val_def code_def)
  show "scan_int (CHR '' '' # fmt_d (int k)) = Some (int k, [])"
    using scan_fmt_d [of "int k" "[]"] assms(3) by (simp add: scan_space)
qed

lemma dispatch_queue_links:
  assumes "k < length (h_s h)" "sl_fd (h_s h ! k) \<noteq> 0" "slave_queue_ok (h_s h ! k)"
    "slave_list (h_s h ! k) = map msg_of ms" "\<forall>m\<in>set ms. \<exists>j. link_ok j m"
  shows "harbor_dispatch_queue h k = Some (h\<lparr>h_s := (h_s h)[k := (h_s h ! k)\<lparr>sl_queue := None\<rparr>]\<rparr>,
    map (\<lambda>m. HSocketSend (sl_fd (h_s h ! k)) (link_frame m)) ms)"
proof (cases "sl_queue (h_s h ! k)")
  case None
  then have "(h_s h)[k := (h_s h ! k)\<lparr>sl_queue := None\<rparr>] = h_s h" by (metis list_update_id slave.surjective slave.update_convs(2))
  with None assms show ?thesis by (simp add: harbor_dispatch_queue_def slave_list_def)
next
  case (Some q)
  then have "hq_ok q" "hq_list q = map msg_of ms" using assms(3,4) by (simp_all add: slave_queue_ok_def slave_list_def)
  with send_queue_ok [OF this(1), of "sl_fd (h_s h ! k)" 0] send_all_links [OF assms(5), of "sl_fd (h_s h ! k)"] Some assms(1,2)
  show ?thesis by (auto simp: harbor_dispatch_queue_def set_slave_def)
qed

lemma find_fd_open:
  assumes "find_fd h fd = None" "0 < k" "k < length (h_s h)" "length (h_s h) = REMOTE_MAX" "sl_fd s = fd"
  shows "find_fd (h\<lparr>h_s := (h_s h)[k := s]\<rparr>) fd = Some k"
proof -
  have no: "sl_fd (h_s h ! i) \<noteq> fd" if "1 \<le> i" "i < REMOTE_MAX" for i
    using assms(1) that by (auto simp: find_fd_def find_None_iff)
  show ?thesis unfolding find_fd_def find_Some_iff
    using assms no by (intro exI [of _ "k - 1"]) (auto simp: nth_list_update)
qed

lemma blit_nothing: "blit xs n [] = xs"
  by (simp add: blit_def)

text \<open>The id alone, on a connection that waits for it.\<close>

lemma handshake_step:
  assumes "k < 256" "k < length (h_s h)" "h_s h ! k = s" "sl_status s = STATUS_HANDSHAKE" "sl_read s = 0"
    "harbor_dispatch_queue (h\<lparr>h_s := (h_s h)[k := s\<lparr>sl_status := STATUS_HEADER\<rparr>]\<rparr>) k =
       Some (h\<lparr>h_s := (h_s h)[k := s1]\<rparr>, outs)" "sl_status s1 = STATUS_HEADER" "sl_read s1 = 0"
  shows "socket_loop deliver h k [of_nat k] = Some (h\<lparr>h_s := (h_s h)[k := s1]\<rparr>, outs)"
proof -
  let ?h = "h\<lparr>h_s := (h_s h)[k := s1]\<rparr>"
  have "uint (of_nat k :: u8) = int k" using assms(1) by (simp add: unsigned_of_nat take_bit_nat_eq_self)
  then have 1: "socket_step deliver h k [of_nat k] = Some (?h, outs, Some [])"
    using assms(2-6) by (simp add: socket_step_def set_slave_def)
  have e: "s1\<lparr>sl_read := 0\<rparr> = s1" using assms(8) by (cases s1) simp
  have "socket_step deliver ?h k [] = Some (?h, [], None)"
    using assms(2,7,8) by (simp add: socket_step_def header_step_def set_slave_def blit_nothing harbor_status e)
  then have "socket_loop deliver ?h k [] = Some (?h, [])" by (subst socket_loop.simps) simp
  then show ?thesis by (subst socket_loop.simps) (simp add: 1)
qed

lemma command_accept:
  assumes "h_s h ! k = s" "sl_fd s = 0" "k < length (h_s h)" "length (h_s h) = REMOTE_MAX" "0 < k" "fd \<noteq> 0" "- (2 ^ 31) \<le> fd" "fd < 2 ^ 31"
    "harbor_dispatch_queue (h\<lparr>h_s := (h_s h)[k := s\<lparr>sl_fd := fd, sl_status := STATUS_HEADER\<rparr>]\<rparr>) k = Some (h', outs)"
  shows "harbor_command h (connect_text (CHR ''A'') fd k) src = Some (h', HStart fd # HSocketSend fd [of_int (h_id h)] # outs)"
proof -
  have k: "k < 256" using assms(3,4) by (simp add: REMOTE_MAX_def)
  show ?thesis using assms connect_scan [OF assms(7,8) k] k
    by (simp add: harbor_command_def connect_text_def c_hd_def REMOTE_MAX_def set_slave_def handshake_def)
qed

text \<open>
  C30: messages for a harbor that is not connected wait. They are kept without sending anything;
  when the connection is accepted (command A), or when the harbor asked for (command S) answers
  with its id, the handshake byte goes out first and then the kept messages as packages, in the
  order in which they were sent; the queue is gone.
\<close>

theorem harbor_connect_flushes:
  assumes "k < length (h_s h)" "length (h_s h) = REMOTE_MAX" "0 < k" "h_id h \<noteq> int k" "h_s h ! k = slave_zero" "\<forall>m\<in>set ms. link_ok k m"
    and "fd \<noteq> 0" "- (2 ^ 31) \<le> fd" "fd < 2 ^ 31" "find_fd h fd = None"
  shows "\<exists>h1. link_sends h ms = Some (h1, []) \<and>
    harbor_command h1 (connect_text (CHR ''A'') fd k) src =
      Some (h\<lparr>h_s := (h_s h)[k := slave_zero\<lparr>sl_fd := fd, sl_status := STATUS_HEADER\<rparr>]\<rparr>,
        HStart fd # HSocketSend fd [of_int (h_id h)] # map (\<lambda>m. HSocketSend fd (link_frame m)) ms) \<and>
    (\<exists>h2. harbor_command h1 (connect_text (CHR ''S'') fd k) src = Some (h2, [HStart fd, HSocketSend fd [of_int (h_id h)]]) \<and>
      push_socket_data deliver h2 fd [of_nat k] =
        Some (h\<lparr>h_s := (h_s h)[k := slave_zero\<lparr>sl_fd := fd, sl_status := STATUS_HEADER\<rparr>]\<rparr>,
          map (\<lambda>m. HSocketSend fd (link_frame m)) ms))"
proof -
  have "waiting h k" using assms(1,4,5) by (simp add: waiting_def slave_zero_def slave_queue_ok_def harbor_status)
  from link_sends_queue [OF this assms(6)] obtain s' where s': "link_sends h ms = Some (h\<lparr>h_s := (h_s h)[k := s']\<rparr>, [])"
    "slave_queue_ok s'" "slave_list s' = map msg_of ms" "s'\<lparr>sl_queue := None\<rparr> = slave_zero"
    by (auto simp: assms(5) slave_list_def slave_zero_def)
  have z: "s' = slave_zero\<lparr>sl_queue := sl_queue s'\<rparr>" "sl_fd s' = 0"
    using arg_cong [OF s'(4), of "\<lambda>s. s\<lparr>sl_queue := sl_queue s'\<rparr>"] arg_cong [OF s'(4), of sl_fd]
    by (simp_all add: slave_zero_def)
  let ?h1 = "h\<lparr>h_s := (h_s h)[k := s']\<rparr>"
  let ?open = "\<lambda>st. slave_zero\<lparr>sl_fd := fd, sl_status := st, sl_queue := sl_queue s'\<rparr>"
  let ?h = "\<lambda>st. h\<lparr>h_s := (h_s h)[k := ?open st]\<rparr>"
  let ?fin = "h\<lparr>h_s := (h_s h)[k := slave_zero\<lparr>sl_fd := fd, sl_status := STATUS_HEADER\<rparr>]\<rparr>"
  have op: "s'\<lparr>sl_fd := fd, sl_status := st\<rparr> = ?open st" for st by (subst z(1)) simp
  have k: "k < 256" using assms(1,2) by (simp add: REMOTE_MAX_def)
  note scan = connect_scan [OF assms(8,9) k]
  have flush: "harbor_dispatch_queue (?h STATUS_HEADER) k = Some (?fin, map (\<lambda>m. HSocketSend fd (link_frame m)) ms)"
    using dispatch_queue_links [of k "?h STATUS_HEADER" ms] assms(1,6,7) s'(2,3)
    by (auto simp: slave_queue_ok_def slave_list_def slave_zero_def)
  have "harbor_command ?h1 (connect_text (CHR ''A'') fd k) src =
      Some (?fin, HStart fd # HSocketSend fd [of_int (h_id h)] # map (\<lambda>m. HSocketSend fd (link_frame m)) ms)"
    using command_accept [of ?h1 k s' fd, OF _ z(2) _ _ assms(3,7,8,9)] flush assms(1,2) by (simp add: op)
  moreover have "harbor_command ?h1 (connect_text (CHR ''S'') fd k) src = Some (?h STATUS_HANDSHAKE, [HStart fd, HSocketSend fd [of_int (h_id h)]])"
    using assms(1,3,7) k z(2) scan
    by (simp add: harbor_command_def connect_text_def c_hd_def REMOTE_MAX_def set_slave_def handshake_def op)
  moreover have "push_socket_data deliver (?h STATUS_HANDSHAKE) fd [of_nat k] = Some (?fin, map (\<lambda>m. HSocketSend fd (link_frame m)) ms)"
    unfolding push_socket_data_def
    using find_fd_open [OF assms(10,3,1,2), of "?open STATUS_HANDSHAKE"]
      handshake_step [of k "?h STATUS_HANDSHAKE" "?open STATUS_HANDSHAKE" "slave_zero\<lparr>sl_fd := fd, sl_status := STATUS_HEADER\<rparr>"] flush k assms(1)
    by (simp add: slave_zero_def)
  ultimately show ?thesis using s'(1) by blast
qed

theorem harbor_connect_flushes_witness:
  "\<exists>h1. link_sends (harbor_create\<lparr>h_id := 1\<rparr>) [(0x01000003, 0x02000009, 10, 5, [65])] = Some (h1, []) \<and>
     harbor_command h1 (connect_text (CHR ''A'') 7 2) 0x01000005 =
       Some (harbor_create\<lparr>h_id := 1, h_s := (h_s harbor_create)[2 := slave_zero\<lparr>sl_fd := 7, sl_status := STATUS_HEADER\<rparr>]\<rparr>,
         [HStart 7, HSocketSend 7 [1], HSocketSend 7 (link_frame (0x01000003, 0x02000009, 10, 5, [65]))])"
proof -
  let ?h = "harbor_create\<lparr>h_id := 1\<rparr>"
  have a: "2 < length (h_s ?h)" "length (h_s ?h) = REMOTE_MAX" "(0::nat) < 2" "h_id ?h \<noteq> int 2" "h_s ?h ! 2 = slave_zero"
    by (simp_all add: harbor_create_def REMOTE_MAX_def)
  have b: "\<forall>m\<in>set [(0x01000003, 0x02000009, 10, 5, [65])]. link_ok 2 m"
    by (simp add: link_ok_def handle_harbor_def HANDLE_REMOTE_SHIFT_def HEADER_COOKIE_LENGTH_def)
  have c: "find_fd ?h 7 = None" by (auto simp: find_fd_def find_None_iff harbor_create_def slave_zero_def)
  from harbor_connect_flushes [OF a b _ _ _ c] show ?thesis by auto
qed

subsection \<open>A connection that was closed\<close>

text \<open>
  The slot of a closed connection stays taken. When the other side answers the handshake
  with a wrong id, the connection is closed; but its descriptor is kept, so every later message
  for this harbor goes to the closed descriptor without an error for the sender, and a new
  connection of the harbor is refused.
\<close>

theorem harbor_closed_slot_stays:
  assumes "length (h_s h) = REMOTE_MAX" "find_fd h fd = Some k" "fd \<noteq> 0" "k < 256" "sl_status (h_s h ! k) = STATUS_HANDSHAKE" "uint b \<noteq> int k"
    and "h_id h \<noteq> int k" "0 < k" "- (2 ^ 31) \<le> fd2" "fd2 < 2 ^ 31" "fd2 \<noteq> 0" "c = CHR ''S'' \<or> c = CHR ''A''"
  shows "\<exists>h' e. push_socket_data deliver h fd (b # rest) = Some (h', [HError e, HClose fd]) \<and>
    (\<forall>m. link_ok k m \<longrightarrow> link_send h' m = Some (False, h', [HSocketSend fd (link_frame m)])) \<and>
    harbor_command h' (connect_text c fd2 k) src = Some (h', [HError (''Harbor '' @ fmt_d (int k) @ '' alreay exist'')])"
proof -
  note f = find_fd_Some [OF assms(2,1)]
  let ?s = "(h_s h ! k)\<lparr>sl_status := STATUS_DOWN, sl_queue := None\<rparr>"
  let ?h = "h\<lparr>h_s := (h_s h)[k := ?s]\<rparr>"
  have "\<exists>e. socket_step deliver h k (b # rest) = Some (?h, [HError e, HClose fd], None)"
    using f assms(3,5,6) by (simp add: socket_step_def close_harbor_def set_slave_def)
  then obtain e where "push_socket_data deliver h fd (b # rest) = Some (?h, [HError e, HClose fd])"
    using assms(2) by (auto simp: push_socket_data_def socket_loop.simps [of deliver h k "b # rest"])
  moreover have "link_send ?h m = Some (False, ?h, [HSocketSend fd (link_frame m)])" if "link_ok k m" for m
    using link_send_eq [OF that, of ?h] f assms(3,7) by (simp add: harbor_status)
  moreover have "harbor_command ?h (connect_text c fd2 k) src = Some (?h, [HError (''Harbor '' @ fmt_d (int k) @ '' alreay exist'')])"
    using connect_scan [OF assms(9,10,4)] f assms(3,4,8,11,12)
    by (auto simp: harbor_command_def connect_text_def c_hd_def REMOTE_MAX_def)
  ultimately show ?thesis by blast
qed

theorem harbor_closed_slot_stays_witness:
  "\<exists>h' e. push_socket_data (\<lambda>_. True) (harbor_create\<lparr>h_id := 2, h_s := (h_s harbor_create)[1 := slave_zero\<lparr>sl_fd := 9, sl_status := STATUS_HANDSHAKE\<rparr>]\<rparr>)
     9 [3] = Some (h', [HError e, HClose 9]) \<and>
     harbor_command h' (connect_text (CHR ''A'') 12 1) 0 = Some (h', [HError (''Harbor '' @ fmt_d (int 1) @ '' alreay exist'')])"
proof -
  let ?h = "harbor_create\<lparr>h_id := 2, h_s := (h_s harbor_create)[1 := slave_zero\<lparr>sl_fd := 9, sl_status := STATUS_HANDSHAKE\<rparr>]\<rparr>"
  have "length (h_s ?h) = REMOTE_MAX" "find_fd ?h 9 = Some 1" "sl_status (h_s ?h ! 1) = STATUS_HANDSHAKE" "h_id ?h \<noteq> int 1"
    by (simp_all add: harbor_create_def find_fd_def REMOTE_MAX_def upt_conv_Cons)
  from harbor_closed_slot_stays [OF this(1,2) _ _ this(3) _ this(4), of 3 12 "CHR ''A''" "\<lambda>_. True" "[]" 0] show ?thesis by auto
qed

subsection \<open>Global names\<close>

lemma node_write_find:
  "key_matches name n \<Longrightarrow> List.find (key_matches name) ns = Some x \<Longrightarrow> List.find (key_matches name) (node_write name n ns) = Some n"
  by (induction ns) auto

lemma hash_search_write:
  "key_matches name n \<Longrightarrow> hash_search m name = Some x \<Longrightarrow> hash_search (hash_write m name n) name = Some n"
  by (simp add: hash_search_def hash_write_def Let_def node_write_find)

lemma hash_search_insert: "hash_insert m name = (n, m') \<Longrightarrow> hash_search m' name = Some n \<and> key_matches name n"
  by (auto simp: hash_insert_def hash_search_def Let_def key_matches_def)

lemma key_matches_frame [simp]:
  "key_matches name (n\<lparr>kv_value := v\<rparr>) = key_matches name n" "key_matches name (n\<lparr>kv_queue := q\<rparr>) = key_matches name n"
  by (simp_all add: key_matches_def)

text \<open>The first message to a name that is not known is kept with the name.\<close>

lemma send_name_unknown:
  assumes "hash_search (h_map h) name = None"
  shows "\<exists>q m n. remote_send_name h source name ty session (PBytes bs) (of_nat (length bs)) =
      Some (True, h\<lparr>h_map := m\<rparr>, [HSend 0 (h_slave h) (of_int PTYPE_TEXT) 0 (PBytes (bytes_of (''Q '' @ c_str (take GLOBALNAME_LENGTH name))))
        (of_nat (length (''Q '' @ c_str (take GLOBALNAME_LENGTH name))))]) \<and>
    hash_search m name = Some n \<and> kv_queue n = Some q \<and> hq_ok q \<and> hq_list q = [msg_of (source, 0, ty, session, bs)] \<and> key_matches name n"
proof -
  obtain n m where n: "hash_insert (h_map h) name = (n, m)" by (rule prod.exhaust)
  have z: "kv_value n = 0" "kv_queue n = None" using n by (auto simp: hash_insert_def Let_def)
  note s = hash_search_insert [OF n]
  obtain q where q: "push_queue_msg new_queue (msg_of (source, 0, ty, session, bs)) = Some q" "hq_ok q" "hq_list q = [msg_of (source, 0, ty, session, bs)]"
    using push_queue_msg_ok [of new_queue "msg_of (source, 0, ty, session, bs)"] by auto
  let ?n = "n\<lparr>kv_queue := Some q\<rparr>"
  have "push_queue new_queue (PBytes bs) (of_nat (length bs))
      \<lparr>rh_source = source, rh_destination = push_bit HANDLE_REMOTE_SHIFT (of_int ty), rh_session = of_int session\<rparr> = Some q"
    using q(1) by (simp add: push_queue_def msg_of_def link_header_def)
  moreover have "hash_search (hash_write m name ?n) name = Some ?n" using s hash_search_write [of name ?n m n] by simp
  ultimately show ?thesis using assms n z q s
    by (intro exI [of _ q] exI [of _ "hash_write m name ?n"] exI [of _ ?n]) (simp add: remote_send_name_def Let_def)
qed

text \<open>
  C31: a message sent by name before the name is known. When the name becomes known and its
  harbor is connected, the message goes out with the handle of the name. When the harbor is not
  connected at that moment, the message moves to the queue of the harbor without the handle
  being entered, and once the connection is there it goes out with destination 0.
\<close>

theorem harbor_named_message:
  assumes "hash_search (h_map h) name = None" "link_ok k (source, handle, ty, session, bs)" "h_id h \<noteq> int k" "k < length (h_s h)"
    and "k \<noteq> handle_harbor (h_slave h)" "length (h_s h) = REMOTE_MAX" "0 < k" "- (2 ^ 31) \<le> fd" "fd < 2 ^ 31" "fd \<noteq> 0"
  shows "\<exists>h1 q. remote_send_name h source name ty session (PBytes bs) (of_nat (length bs)) = Some (True, h1, [q]) \<and>
    (sl_fd (h_s h ! k) \<noteq> 0 \<longrightarrow>
       (\<exists>h2. update_name h1 name handle = Some (h2, [HSocketSend (sl_fd (h_s h ! k)) (link_frame (source, handle, ty, session, bs))]))) \<and>
    (h_s h ! k = slave_zero \<longrightarrow>
       (\<exists>h2 h3. update_name h1 name handle = Some (h2, []) \<and>
          harbor_command h2 (connect_text (CHR ''A'') fd k) src =
            Some (h3, [HStart fd, HSocketSend fd [of_int (h_id h)], HSocketSend fd (link_frame (source, 0, ty, session, bs))])))"
proof -
  from send_name_unknown [OF assms(1)] obtain q m n where s: "remote_send_name h source name ty session (PBytes bs) (of_nat (length bs)) =
      Some (True, h\<lparr>h_map := m\<rparr>, [HSend 0 (h_slave h) (of_int PTYPE_TEXT) 0 (PBytes (bytes_of (''Q '' @ c_str (take GLOBALNAME_LENGTH name))))
        (of_nat (length (''Q '' @ c_str (take GLOBALNAME_LENGTH name))))])"
    "hash_search m name = Some n" "kv_queue n = Some q" "hq_ok q" "hq_list q = [msg_of (source, 0, ty, session, bs)]" "key_matches name n"
    by blast
  have k: "handle_harbor handle = k" using assms(2) by (simp add: link_ok_def)
  have one: "send_one fd' handle (msg_of (source, 0, ty, session, bs)) = Some [HSocketSend fd' (link_frame (source, handle, ty, session, bs))]" for fd'
    using send_remote_frame [OF assms(2), of fd'] by (simp add: send_one_def msg_of_def link_header_def)
  have look: "update_name (h\<lparr>h_map := m\<rparr>) name handle = do {
      (h2, outs) \<leftarrow> dispatch_name_queue (h\<lparr>h_map := hash_write m name (n\<lparr>kv_value := handle\<rparr>)\<rparr>) (n\<lparr>kv_value := handle\<rparr>) q;
      Some (h2\<lparr>h_map := hash_write (h_map h2) name (n\<lparr>kv_value := handle, kv_queue := None\<rparr>)\<rparr>, outs)
    }"
    using s(2,3) by (simp add: update_name_def Let_def)
  have "\<exists>h2. update_name (h\<lparr>h_map := m\<rparr>) name handle = Some (h2, [HSocketSend (sl_fd (h_s h ! k)) (link_frame (source, handle, ty, session, bs))])"
    if "sl_fd (h_s h ! k) \<noteq> 0"
    using send_queue_ok [OF s(4), of "sl_fd (h_s h ! k)" handle] that assms(4) one [of "sl_fd (h_s h ! k)"]
    unfolding look by (auto simp: dispatch_name_queue_def k s(5))
  moreover have "\<exists>h2 h3. update_name (h\<lparr>h_map := m\<rparr>) name handle = Some (h2, []) \<and>
      harbor_command h2 (connect_text (CHR ''A'') fd k) src =
        Some (h3, [HStart fd, HSocketSend fd [of_int (h_id h)], HSocketSend fd (link_frame (source, 0, ty, session, bs))])"
    if z: "h_s h ! k = slave_zero"
  proof -
    let ?s = "slave_zero\<lparr>sl_queue := Some q\<rparr>"
    define m2 where "m2 = hash_write (hash_write m name (n\<lparr>kv_value := handle\<rparr>)) name (n\<lparr>kv_value := handle, kv_queue := None\<rparr>)"
    have m2: "update_name (h\<lparr>h_map := m\<rparr>) name handle = Some (h\<lparr>h_map := m2, h_s := (h_s h)[k := ?s]\<rparr>, [])"
      using z assms(4,5) unfolding look
      by (simp add: dispatch_name_queue_def k set_slave_def slave_zero_def harbor_status m2_def)
    let ?h = "h\<lparr>h_map := m2, h_s := (h_s h)[k := ?s]\<rparr>"
    let ?o = "?h\<lparr>h_s := (h_s ?h)[k := ?s\<lparr>sl_fd := fd, sl_status := STATUS_HEADER\<rparr>]\<rparr>"
    have "link_ok 0 (source, 0, ty, session, bs)" using assms(2) by (simp add: link_ok_def handle_harbor_def)
    then have "\<exists>h3. harbor_dispatch_queue ?o k = Some (h3, [HSocketSend fd (link_frame (source, 0, ty, session, bs))])"
      using dispatch_queue_links [of k ?o "[(source, 0, ty, session, bs)]"] assms(4,10) s(4,5)
      by (auto simp: slave_queue_ok_def slave_list_def)
    then show ?thesis using command_accept [of ?h k ?s fd, OF _ _ _ _ assms(7,10,8,9)] m2 assms(4,6)
      by (auto simp: slave_zero_def)
  qed
  ultimately show ?thesis using s(1) by blast
qed

theorem harbor_named_message_witness:
  "\<exists>h1 q h2 h3. remote_send_name (harbor_create\<lparr>h_id := 1, h_slave := 0x01000005\<rparr>) 0x01000003 (copy_name ''DB'') 10 5 (PBytes [65]) 1 = Some (True, h1, [q]) \<and>
     update_name h1 (copy_name ''DB'') 0x02000009 = Some (h2, []) \<and>
     harbor_command h2 (connect_text (CHR ''A'') 7 2) 0x01000005 =
       Some (h3, [HStart 7, HSocketSend 7 [1], HSocketSend 7 (link_frame (0x01000003, 0, 10, 5, [65]))])"
proof -
  let ?h = "harbor_create\<lparr>h_id := 1, h_slave := 0x01000005\<rparr>"
  have a: "hash_search (h_map ?h) (copy_name ''DB'') = None" "h_id ?h \<noteq> int 2" "2 < length (h_s ?h)" "2 \<noteq> handle_harbor (h_slave ?h)"
    "length (h_s ?h) = REMOTE_MAX" "h_s ?h ! 2 = slave_zero"
    by (simp_all add: harbor_create_def REMOTE_MAX_def hash_search_def hash_new_def handle_harbor_def HANDLE_REMOTE_SHIFT_def)
  have b: "link_ok 2 (0x01000003, 0x02000009, 10, 5, [65])"
    by (simp add: link_ok_def handle_harbor_def HANDLE_REMOTE_SHIFT_def HEADER_COOKIE_LENGTH_def)
  have "(0::nat) < 2" "- (2 ^ 31) \<le> (7::int)" "(7::int) < 2 ^ 31" "(7::int) \<noteq> 0" by simp_all
  from harbor_named_message [OF a(1) b a(2-5) this] a(6) show ?thesis
    by (simp add: harbor_create_def) blast
qed

end
