(* ===== verification/Lua_Seri.thy ===== *)
theory Lua_Seri
  imports C_Strings
begin

text \<open>
  The serialisation of Lua values of lualib-src/lua-seri.c: the chain of blocks that is written,
  packing by type, and unpacking from a buffer. What the Lua interpreter does with table keys
  (doubles with an integer value, keys that are not numbers, nil values) is written out.
\<close>

subsection \<open>Lua values\<close>

text \<open>
  A table has the way its pairs are visited and the pairs: \<open>RawLen n\<close> for a table without a
  \<open>__pairs\<close> metamethod, of which \<open>lua_rawlen\<close> is \<open>n\<close> and whose pairs are listed in the order of
  \<open>lua_next\<close>; \<open>MetaPairs\<close> for a table with one, whose pairs are those that it yields. Numbers
  that are not integers are the 64 bits of a double.
\<close>

datatype table_info = RawLen nat | MetaPairs

datatype 'i lua =
    LNil
  | LBoolean bool
  | LInteger int
  | LNumber u64
  | LString "u8 list"
  | LLightUserdata u64
  | LTable 'i "('i lua \<times> 'i lua) list"
  | LOther string

subsection \<open>Types on the wire\<close>

definition TYPE_NIL :: int where "TYPE_NIL = 0"
definition TYPE_BOOLEAN :: int where "TYPE_BOOLEAN = 1"
definition TYPE_NUMBER :: int where "TYPE_NUMBER = 2"
definition TYPE_NUMBER_ZERO :: int where "TYPE_NUMBER_ZERO = 0"
definition TYPE_NUMBER_BYTE :: int where "TYPE_NUMBER_BYTE = 1"
definition TYPE_NUMBER_WORD :: int where "TYPE_NUMBER_WORD = 2"
definition TYPE_NUMBER_DWORD :: int where "TYPE_NUMBER_DWORD = 4"
definition TYPE_NUMBER_QWORD :: int where "TYPE_NUMBER_QWORD = 6"
definition TYPE_NUMBER_REAL :: int where "TYPE_NUMBER_REAL = 8"
definition TYPE_USERDATA :: int where "TYPE_USERDATA = 3"
definition TYPE_SHORT_STRING :: int where "TYPE_SHORT_STRING = 4"
definition TYPE_LONG_STRING :: int where "TYPE_LONG_STRING = 5"
definition TYPE_TABLE :: int where "TYPE_TABLE = 6"
definition MAX_COOKIE :: int where "MAX_COOKIE = 32"
definition COMBINE_TYPE :: "int \<Rightarrow> int \<Rightarrow> u8" where "COMBINE_TYPE t v = of_int (t OR push_bit 3 v)"
definition BLOCK_SIZE :: nat where "BLOCK_SIZE = 128"
definition MAX_DEPTH :: nat where "MAX_DEPTH = 32"

lemmas seri_types = TYPE_NIL_def TYPE_BOOLEAN_def TYPE_NUMBER_def TYPE_NUMBER_ZERO_def TYPE_NUMBER_BYTE_def
  TYPE_NUMBER_WORD_def TYPE_NUMBER_DWORD_def TYPE_NUMBER_QWORD_def TYPE_NUMBER_REAL_def TYPE_USERDATA_def
  TYPE_SHORT_STRING_def TYPE_LONG_STRING_def TYPE_TABLE_def

datatype seri_error =
    PackTooDeep
  | Unsupported string
  | InvalidStream nat
  | NullBuffer
  | BlockTooBig
  | IndexIsNaN

type_synonym 'a seri = "seri_error + 'a"

text \<open>The memory of an integer of \<open>n\<close> bytes, low byte first.\<close>

definition le_bytes :: "nat \<Rightarrow> int \<Rightarrow> u8 list" where
  "le_bytes n x = map (\<lambda>i. of_int (x div 256 ^ i)) [0..<n]"

fun le_uint :: "u8 list \<Rightarrow> int" where
  "le_uint [] = 0"
| "le_uint (b # bs) = uint b + 256 * le_uint bs"

definition to_s64 :: "int \<Rightarrow> int" where
  "to_s64 x = (x + 2 ^ 63) mod 2 ^ 64 - 2 ^ 63"

subsection \<open>The blocks that are written\<close>

text \<open>The blocks before the current one are full; \<open>wb_current\<close> is the written part of the current one.\<close>

record write_block =
  wb_done :: "u8 list list"
  wb_current :: "u8 list"
  wb_len :: nat
  wb_ptr :: nat

definition wb_init :: write_block where
  "wb_init = \<lparr>wb_done = [], wb_current = [], wb_len = 0, wb_ptr = 0\<rparr>"

definition wb_next :: "write_block \<Rightarrow> write_block" where
  "wb_next b = b\<lparr>wb_done := wb_done b @ [wb_current b], wb_current := [], wb_ptr := 0\<rparr>"

definition wb_copy :: "write_block \<Rightarrow> u8 list \<Rightarrow> write_block" where
  "wb_copy b bs = b\<lparr>wb_current := wb_current b @ bs, wb_ptr := wb_ptr b + length bs, wb_len := wb_len b + length bs\<rparr>"

text \<open>What follows the label \<open>_again\<close> of \<open>wb_push\<close>, after the new block is there.\<close>

function wb_fill :: "write_block \<Rightarrow> u8 list \<Rightarrow> write_block" where
  "wb_fill b buf =
     (if wb_ptr b + length buf \<le> BLOCK_SIZE then wb_copy b buf
      else if wb_ptr b \<ge> BLOCK_SIZE then wb_fill (wb_next b) buf
      else
        (let copy = BLOCK_SIZE - wb_ptr b
         in wb_fill (wb_next (wb_copy b (take copy buf))) (drop copy buf)))"
  by pat_completeness auto
termination
  by (relation "measure (\<lambda>(b, buf). 2 * length buf + (if wb_ptr b \<ge> BLOCK_SIZE then 1 else 0))")
    (auto simp: wb_next_def wb_copy_def BLOCK_SIZE_def)

declare wb_fill.simps [simp del]

definition wb_push :: "write_block \<Rightarrow> u8 list \<Rightarrow> write_block" where
  "wb_push b buf = (if wb_ptr b = BLOCK_SIZE then wb_fill (wb_next b) buf else wb_fill b buf)"

text \<open>\<open>seri\<close>: the blocks are copied into one buffer.\<close>

fun seri_copy :: "u8 list list \<Rightarrow> nat \<Rightarrow> u8 list option" where
  "seri_copy bs len =
     (if len = 0 then Some []
      else (case bs of
          [] \<Rightarrow> None
        | b # rest \<Rightarrow>
            if len \<ge> BLOCK_SIZE then
              (if length b \<noteq> BLOCK_SIZE then None else map_option (\<lambda>r. b @ r) (seri_copy rest (len - BLOCK_SIZE)))
            else (if length b < len then None else Some (take len b))))"

declare seri_copy.simps [simp del]

definition seri_blocks :: "write_block \<Rightarrow> u8 list option" where
  "seri_blocks b = seri_copy (wb_done b @ [wb_current b]) (wb_len b)"

subsection \<open>Packing\<close>

definition wb_nil :: "write_block \<Rightarrow> write_block" where
  "wb_nil wb = wb_push wb [of_int TYPE_NIL]"

definition wb_boolean :: "write_block \<Rightarrow> bool \<Rightarrow> write_block" where
  "wb_boolean wb b = wb_push wb [COMBINE_TYPE TYPE_BOOLEAN (if b then 1 else 0)]"

definition wb_integer :: "write_block \<Rightarrow> int \<Rightarrow> write_block" where
  "wb_integer wb v =
     (if v = 0 then wb_push wb [COMBINE_TYPE TYPE_NUMBER TYPE_NUMBER_ZERO]
      else if v \<noteq> to_s32 v then wb_push (wb_push wb [COMBINE_TYPE TYPE_NUMBER TYPE_NUMBER_QWORD]) (le_bytes 8 v)
      else if v < 0 then wb_push (wb_push wb [COMBINE_TYPE TYPE_NUMBER TYPE_NUMBER_DWORD]) (le_bytes 4 v)
      else if v < 0x100 then wb_push (wb_push wb [COMBINE_TYPE TYPE_NUMBER TYPE_NUMBER_BYTE]) (le_bytes 1 v)
      else if v < 0x10000 then wb_push (wb_push wb [COMBINE_TYPE TYPE_NUMBER TYPE_NUMBER_WORD]) (le_bytes 2 v)
      else wb_push (wb_push wb [COMBINE_TYPE TYPE_NUMBER TYPE_NUMBER_DWORD]) (le_bytes 4 v))"

definition wb_real :: "write_block \<Rightarrow> u64 \<Rightarrow> write_block" where
  "wb_real wb v = wb_push (wb_push wb [COMBINE_TYPE TYPE_NUMBER TYPE_NUMBER_REAL]) (le_bytes 8 (uint v))"

definition wb_pointer :: "write_block \<Rightarrow> u64 \<Rightarrow> write_block" where
  "wb_pointer wb v = wb_push (wb_push wb [of_int TYPE_USERDATA]) (le_bytes 8 (uint v))"

text \<open>\<open>len\<close> is an \<open>int\<close>; the caller truncates the length to it.\<close>

definition wb_string :: "write_block \<Rightarrow> u8 list \<Rightarrow> int \<Rightarrow> write_block" where
  "wb_string wb str len =
     (if len < MAX_COOKIE then
        (let wb1 = wb_push wb [COMBINE_TYPE TYPE_SHORT_STRING len]
         in if len > 0 then wb_push wb1 (take (nat len) str) else wb1)
      else if len < 0x10000 then
        wb_push (wb_push (wb_push wb [COMBINE_TYPE TYPE_LONG_STRING 2]) (le_bytes 2 len)) (take (nat len) str)
      else wb_push (wb_push (wb_push wb [COMBINE_TYPE TYPE_LONG_STRING 4]) (le_bytes 4 len)) (take (nat len) str))"

text \<open>The head of a table: its array size.\<close>

definition wb_array_head :: "write_block \<Rightarrow> int \<Rightarrow> write_block" where
  "wb_array_head wb array_size =
     (if array_size \<ge> MAX_COOKIE - 1 then wb_integer (wb_push wb [COMBINE_TYPE TYPE_TABLE (MAX_COOKIE - 1)]) array_size
      else wb_push wb [COMBINE_TYPE TYPE_TABLE array_size])"

text \<open>\<open>lua_rawgeti\<close>, and the keys that \<open>wb_table_hash\<close> skips because the array part has them.\<close>

definition rawgeti :: "('i lua \<times> 'i lua) list \<Rightarrow> int \<Rightarrow> 'i lua" where
  "rawgeti ps i = (case map_of ps (LInteger i) of None \<Rightarrow> LNil | Some v \<Rightarrow> v)"

definition in_array :: "int \<Rightarrow> 'i lua \<Rightarrow> bool" where
  "in_array array_size k = (case k of LInteger x \<Rightarrow> x > 0 \<and> x \<le> array_size | _ \<Rightarrow> False)"

lemma rawgeti_size: "size (rawgeti ps i) < Suc (size_list (size_prod size size) ps)"
proof (cases "map_of ps (LInteger i)")
  case (Some v)
  from map_of_SomeD [OF this] have "size_prod size size (LInteger i, v) \<le> size_list (size_prod size size) ps"
    by (rule size_list_estimation') simp
  with Some show ?thesis by (simp add: rawgeti_def)
qed (simp add: rawgeti_def)

text \<open>
  \<open>pack_one\<close> with \<open>wb_table\<close>: the array part is packed from index 1 on, then the other pairs in
  the order they are visited, then a nil.
\<close>

function pack_one :: "write_block \<Rightarrow> table_info lua \<Rightarrow> nat \<Rightarrow> write_block seri"
  and pack_array :: "write_block \<Rightarrow> (table_info lua \<times> table_info lua) list \<Rightarrow> int list \<Rightarrow> nat \<Rightarrow> write_block seri"
  and pack_hash :: "write_block \<Rightarrow> (table_info lua \<times> table_info lua) list \<Rightarrow> int \<Rightarrow> nat \<Rightarrow> write_block seri" where
  "pack_one wb v depth =
     (if depth > MAX_DEPTH then Inl PackTooDeep
      else (case v of
          LNil \<Rightarrow> Inr (wb_nil wb)
        | LInteger x \<Rightarrow> Inr (wb_integer wb x)
        | LNumber d \<Rightarrow> Inr (wb_real wb d)
        | LBoolean b \<Rightarrow> Inr (wb_boolean wb b)
        | LString s \<Rightarrow> Inr (wb_string wb s (to_s32 (int (length s))))
        | LLightUserdata p \<Rightarrow> Inr (wb_pointer wb p)
        | LTable info ps \<Rightarrow>
            (case info of
               MetaPairs \<Rightarrow> pack_hash (wb_push wb [COMBINE_TYPE TYPE_TABLE 0]) ps 0 (depth + 1)
             | RawLen n \<Rightarrow>
                 (let array_size = to_s32 (int n)
                  in case pack_array (wb_array_head wb array_size) ps [1..array_size] (depth + 1) of
                       Inl e \<Rightarrow> Inl e
                     | Inr wb1 \<Rightarrow> pack_hash wb1 ps array_size (depth + 1)))
        | LOther tn \<Rightarrow> Inl (Unsupported tn)))"
| "pack_array wb ps [] depth = Inr wb"
| "pack_array wb ps (i # is) depth =
     (case pack_one wb (rawgeti ps i) depth of
        Inl e \<Rightarrow> Inl e
      | Inr wb1 \<Rightarrow> pack_array wb1 ps is depth)"
| "pack_hash wb [] array_size depth = Inr (wb_nil wb)"
| "pack_hash wb ((k, v) # ps) array_size depth =
     (if in_array array_size k then pack_hash wb ps array_size depth
      else (case pack_one wb k depth of
          Inl e \<Rightarrow> Inl e
        | Inr wb1 \<Rightarrow> (case pack_one wb1 v depth of
            Inl e \<Rightarrow> Inl e
          | Inr wb2 \<Rightarrow> pack_hash wb2 ps array_size depth)))"
  by pat_completeness auto
termination
proof (relation "measures [(\<lambda>x. case x of Inl (_, v, _) \<Rightarrow> 2 * size v
      | Inr (Inl (_, ps, _, _)) \<Rightarrow> Suc (2 * size_list (size_prod size size) ps)
      | Inr (Inr (_, ps, _, _)) \<Rightarrow> Suc (2 * size_list (size_prod size size) ps)),
    (\<lambda>x. case x of Inl _ \<Rightarrow> 0 | Inr (Inl (_, _, is, _)) \<Rightarrow> length is | Inr (Inr (_, ps, _, _)) \<Rightarrow> length ps)]", goal_cases)
  case (5 wb ps i "is" depth)
  have "size (rawgeti ps i) \<le> size_list (size_prod size size) ps" using rawgeti_size [of ps i] by simp
  then show ?case by simp
qed auto

declare pack_one.simps [simp del]

fun pack_from :: "write_block \<Rightarrow> table_info lua list \<Rightarrow> write_block seri" where
  "pack_from wb [] = Inr wb"
| "pack_from wb (v # vs) =
     (case pack_one wb v 0 of Inl e \<Rightarrow> Inl e | Inr wb1 \<Rightarrow> pack_from wb1 vs)"

definition luaseri_pack :: "table_info lua list \<Rightarrow> u8 list seri option" where
  "luaseri_pack vs =
     (case pack_from wb_init vs of
        Inl e \<Rightarrow> Some (Inl e)
      | Inr wb \<Rightarrow> map_option Inr (seri_blocks wb))"

subsection \<open>Keys of tables\<close>

text \<open>
  The Lua interpreter stores a double with an integer value as the integer key; a key that is
  not a number is refused.
\<close>

definition real_exponent :: "u64 \<Rightarrow> int" where "real_exponent w = uint (drop_bit 52 w AND 0x7ff)"
definition real_mantissa :: "u64 \<Rightarrow> int" where "real_mantissa w = uint (w AND mask 52)"

definition real_is_nan :: "u64 \<Rightarrow> bool" where
  "real_is_nan w \<longleftrightarrow> real_exponent w = 0x7ff \<and> real_mantissa w \<noteq> 0"

definition real_to_integer :: "u64 \<Rightarrow> int option" where
  "real_to_integer w =
     (let e = real_exponent w; m = real_mantissa w; sign = (if bit w 63 then -1 else 1) in
      if e = 0x7ff then None
      else if e = 0 then (if m = 0 then Some 0 else None)
      else
        (let s = e - 1075; full = 2 ^ 52 + m in
         if s \<ge> 11 then None
         else if s \<ge> 0 then
           (let x = sign * full * 2 ^ nat s in if - (2 ^ 63) \<le> x \<and> x < 2 ^ 63 then Some x else None)
         else if full mod 2 ^ nat (- s) = 0 then Some (sign * (full div 2 ^ nat (- s))) else None))"

definition normal_key :: "unit lua \<Rightarrow> unit lua" where
  "normal_key k = (case k of LNumber w \<Rightarrow> (case real_to_integer w of Some x \<Rightarrow> LInteger x | None \<Rightarrow> k) | _ \<Rightarrow> k)"

definition is_table :: "'i lua \<Rightarrow> bool" where
  "is_table v = (case v of LTable _ _ \<Rightarrow> True | _ \<Rightarrow> False)"

text \<open>Two keys that are read from a stream are the same key when they are equal and not tables, which are always new.\<close>

definition raw_equal :: "'i lua \<Rightarrow> 'i lua \<Rightarrow> bool" where
  "raw_equal k k' \<longleftrightarrow> k = k' \<and> \<not> is_table k"

text \<open>\<open>lua_rawset\<close> on the pairs of a table: nil removes.\<close>

fun set_pair :: "('i lua \<times> 'i lua) list \<Rightarrow> 'i lua \<Rightarrow> 'i lua \<Rightarrow> ('i lua \<times> 'i lua) list" where
  "set_pair [] k v = (if v = LNil then [] else [(k, v)])"
| "set_pair ((k', v') # ps) k v =
     (if raw_equal k' k then (if v = LNil then ps else (k', v) # ps) else (k', v') # set_pair ps k v)"

definition raw_set :: "(unit lua \<times> unit lua) list \<Rightarrow> unit lua \<Rightarrow> unit lua \<Rightarrow> (unit lua \<times> unit lua) list seri" where
  "raw_set ps k v =
     (case k of
        LNumber w \<Rightarrow> if real_is_nan w then Inl IndexIsNaN else Inr (set_pair ps (normal_key k) v)
      | _ \<Rightarrow> Inr (set_pair ps k v))"

subsection \<open>Unpacking\<close>

text \<open>\<open>rb_read\<close>, and the error that its callers raise; the stream is what is left of the buffer.\<close>

definition rb_read :: "u8 list \<Rightarrow> nat \<Rightarrow> (u8 list \<times> u8 list) seri" where
  "rb_read rb sz = (if length rb < sz then Inl (InvalidStream (length rb)) else Inr (take sz rb, drop sz rb))"

definition get_integer :: "u8 list \<Rightarrow> int \<Rightarrow> (int \<times> u8 list) seri" where
  "get_integer rb cookie =
     (if cookie = TYPE_NUMBER_ZERO then Inr (0, rb)
      else if cookie = TYPE_NUMBER_BYTE then map_sum id (\<lambda>(p, r). (le_uint p, r)) (rb_read rb 1)
      else if cookie = TYPE_NUMBER_WORD then map_sum id (\<lambda>(p, r). (le_uint p, r)) (rb_read rb 2)
      else if cookie = TYPE_NUMBER_DWORD then map_sum id (\<lambda>(p, r). (to_s32 (le_uint p), r)) (rb_read rb 4)
      else if cookie = TYPE_NUMBER_QWORD then map_sum id (\<lambda>(p, r). (to_s64 (le_uint p), r)) (rb_read rb 8)
      else Inl (InvalidStream (length rb)))"

definition get_real :: "u8 list \<Rightarrow> (u64 \<times> u8 list) seri" where
  "get_real rb = map_sum id (\<lambda>(p, r). (of_int (le_uint p), r)) (rb_read rb 8)"

definition get_pointer :: "u8 list \<Rightarrow> (u64 \<times> u8 list) seri" where
  "get_pointer rb = map_sum id (\<lambda>(p, r). (of_int (le_uint p), r)) (rb_read rb 8)"

text \<open>A length from \<open>2 ^ 31\<close> on is a negative \<open>int\<close>: it passes \<open>rb_read\<close>, and Lua refuses the string.\<close>

definition get_buffer :: "u8 list \<Rightarrow> int \<Rightarrow> ('i lua \<times> u8 list) seri" where
  "get_buffer rb len =
     (if len < 0 then Inl BlockTooBig else map_sum id (\<lambda>(p, r). (LString p, r)) (rb_read rb (nat len)))"

text \<open>The values that are not tables.\<close>

definition push_scalar :: "u8 list \<Rightarrow> int \<Rightarrow> int \<Rightarrow> ('i lua \<times> u8 list) seri" where
  "push_scalar rb ty cookie =
     (if ty = TYPE_NIL then Inr (LNil, rb)
      else if ty = TYPE_BOOLEAN then Inr (LBoolean (cookie \<noteq> 0), rb)
      else if ty = TYPE_NUMBER then
        (if cookie = TYPE_NUMBER_REAL then map_sum id (\<lambda>(d, r). (LNumber d, r)) (get_real rb)
         else map_sum id (\<lambda>(x, r). (LInteger x, r)) (get_integer rb cookie))
      else if ty = TYPE_USERDATA then map_sum id (\<lambda>(p, r). (LLightUserdata p, r)) (get_pointer rb)
      else if ty = TYPE_SHORT_STRING then get_buffer rb cookie
      else if ty = TYPE_LONG_STRING then
        (if cookie = 2 then
           (case rb_read rb 2 of Inl e \<Rightarrow> Inl e | Inr (p, r) \<Rightarrow> get_buffer r (le_uint p))
         else if cookie \<noteq> 4 then Inl (InvalidStream (length rb))
         else (case rb_read rb 4 of Inl e \<Rightarrow> Inl e | Inr (p, r) \<Rightarrow> get_buffer r (to_s32 (le_uint p))))
      else Inl (InvalidStream (length rb)))"

text \<open>The start of \<open>unpack_table\<close>: the array size.\<close>

definition table_size :: "u8 list \<Rightarrow> int \<Rightarrow> (int \<times> u8 list) seri" where
  "table_size rb array_size =
     (if array_size = MAX_COOKIE - 1 then
        (case rb of
           [] \<Rightarrow> Inl (InvalidStream 0)
         | t # r \<Rightarrow>
             (let cookie = uint (drop_bit 3 t) in
              if uint (t AND 7) \<noteq> TYPE_NUMBER \<or> cookie = TYPE_NUMBER_REAL then Inl (InvalidStream (length r))
              else map_sum id (\<lambda>(x, r'). (to_s32 x, r')) (get_integer r cookie)))
      else Inr (array_size, rb))"

lemma rb_read_length: "rb_read rb n = Inr (p, r) \<Longrightarrow> length r \<le> length rb"
  by (auto simp: rb_read_def split: if_splits)

lemma get_integer_length: "get_integer rb cookie = Inr (x, r) \<Longrightarrow> length r \<le> length rb"
  by (auto simp: get_integer_def rb_read_def split: if_splits)

lemma push_scalar_length: "push_scalar rb ty cookie = Inr (v, r) \<Longrightarrow> length r \<le> length rb"
  by (auto simp: push_scalar_def get_real_def get_pointer_def get_buffer_def rb_read_def get_integer_def split: if_splits sum.splits)

lemma table_size_length: "table_size rb a = Inr (n, r) \<Longrightarrow> length r \<le> length rb"
  by (auto simp: table_size_def Let_def map_sum_def dest: get_integer_length split: if_splits list.splits sum.splits)

text \<open>
  \<open>unpack_one\<close> with \<open>push_value\<close> and \<open>unpack_table\<close>: the array part from index \<open>i\<close> to \<open>n\<close>, then
  pairs up to a nil key.
\<close>

function unpack_one :: "u8 list \<Rightarrow> (unit lua \<times> u8 list) seri"
  and unpack_array :: "u8 list \<Rightarrow> int \<Rightarrow> int \<Rightarrow> (unit lua \<times> unit lua) list \<Rightarrow> ((unit lua \<times> unit lua) list \<times> u8 list) seri"
  and unpack_hash :: "u8 list \<Rightarrow> (unit lua \<times> unit lua) list \<Rightarrow> ((unit lua \<times> unit lua) list \<times> u8 list) seri" where
  "unpack_one rb =
     (case rb of
        [] \<Rightarrow> Inl (InvalidStream 0)
      | t # r \<Rightarrow>
          if uint (t AND 7) = TYPE_TABLE then
            (case table_size r (uint (drop_bit 3 t)) of
               Inl e \<Rightarrow> Inl e
             | Inr (n, r1) \<Rightarrow>
                 (case unpack_array r1 1 n [] of
                    Inl e \<Rightarrow> Inl e
                  | Inr (ps, r2) \<Rightarrow>
                      (case unpack_hash r2 ps of
                         Inl e \<Rightarrow> Inl e
                       | Inr (ps1, r3) \<Rightarrow> Inr (LTable () ps1, r3))))
          else push_scalar r (uint (t AND 7)) (uint (drop_bit 3 t)))"
| "unpack_array rb i n ps =
     (if i > n then Inr (ps, rb)
      else (case unpack_one rb of
          Inl e \<Rightarrow> Inl e
        | Inr (v, r) \<Rightarrow> unpack_array r (i + 1) n (set_pair ps (LInteger i) v)))"
| "unpack_hash rb ps =
     (case unpack_one rb of
        Inl e \<Rightarrow> Inl e
      | Inr (k, r) \<Rightarrow>
          if k = LNil then Inr (ps, r)
          else (case unpack_one r of
              Inl e \<Rightarrow> Inl e
            | Inr (v, r1) \<Rightarrow>
                (case raw_set ps k v of
                   Inl e \<Rightarrow> Inl e
                 | Inr ps1 \<Rightarrow> unpack_hash r1 ps1)))"
  by pat_completeness auto

text \<open>Every call that returns has consumed a part of the stream.\<close>

lemma unpack_consumes_dom:
  "unpack_one_unpack_array_unpack_hash_dom (Inl rb) \<Longrightarrow> \<forall>v r. unpack_one rb = Inr (v, r) \<longrightarrow> length r < length rb"
  "unpack_one_unpack_array_unpack_hash_dom (Inr (Inl (rb, i, n, ps))) \<Longrightarrow> \<forall>qs r. unpack_array rb i n ps = Inr (qs, r) \<longrightarrow> length r \<le> length rb"
  "unpack_one_unpack_array_unpack_hash_dom (Inr (Inr (rb, ps))) \<Longrightarrow> \<forall>qs r. unpack_hash rb ps = Inr (qs, r) \<longrightarrow> length r < length rb"
proof (induction rb and rb i n ps and rb ps rule: unpack_one_unpack_array_unpack_hash.pinduct)
  case (1 rb)
  then show ?case
    by (subst unpack_one.psimps [OF 1(1)])
      (fastforce split: list.splits sum.splits if_splits dest: push_scalar_length table_size_length)
next
  case (2 rb i n ps)
  then show ?case
    by (subst unpack_array.psimps [OF 2(1)]) (fastforce split: sum.splits if_splits)
next
  case (3 rb ps)
  then show ?case
    by (subst unpack_hash.psimps [OF 3(1)]) (fastforce split: sum.splits if_splits)
qed

termination unpack_one
proof (relation "measures [(\<lambda>x. case x of Inl rb \<Rightarrow> length rb | Inr (Inl (rb, _)) \<Rightarrow> length rb | Inr (Inr (rb, _)) \<Rightarrow> length rb),
    (\<lambda>x. case x of Inl _ \<Rightarrow> 0 | Inr _ \<Rightarrow> 1)]", goal_cases)
  case 1
  then show ?case by simp
qed (auto dest!: table_size_length unpack_consumes_dom [rule_format])

declare unpack_one.simps [simp del] unpack_array.simps [simp del] unpack_hash.simps [simp del]

lemma unpack_consumes:
  "\<forall>v r. unpack_one rb = Inr (v, r) \<longrightarrow> length r < length rb"
  "\<forall>qs r. unpack_array rb i n ps = Inr (qs, r) \<longrightarrow> length r \<le> length rb"
  "\<forall>qs r. unpack_hash rb ps = Inr (qs, r) \<longrightarrow> length r < length rb"
proof (induction rb and rb i n ps and rb ps rule: unpack_one_unpack_array_unpack_hash.induct)
  case (1 rb)
  then show ?case
    by (subst unpack_one.simps)
      (fastforce split: list.splits sum.splits if_splits dest: push_scalar_length table_size_length)
next
  case (2 rb i n ps)
  then show ?case by (subst unpack_array.simps) (fastforce split: sum.splits if_splits)
next
  case (3 rb ps)
  then show ?case by (subst unpack_hash.simps) (fastforce split: sum.splits if_splits)
qed

subsection \<open>The whole stream\<close>

function unpack_all :: "u8 list \<Rightarrow> unit lua list seri" where
  "unpack_all rb =
     (if rb = [] then Inr []
      else (case unpack_one rb of
          Inl e \<Rightarrow> Inl e
        | Inr (v, r) \<Rightarrow> (case unpack_all r of Inl e \<Rightarrow> Inl e | Inr vs \<Rightarrow> Inr (v # vs))))"
  by pat_completeness auto
termination by (relation "measure length") (auto dest: unpack_consumes(1) [rule_format])

declare unpack_all.simps [simp del]

text \<open>The arguments of \<open>luaseri_unpack\<close>: nothing, a string, or a pointer and a length.\<close>

datatype seri_arg =
    SeriNone
  | SeriString "u8 list"
  | SeriPointer "u8 list option" int

definition unpack_buffer :: "u8 list option \<Rightarrow> int \<Rightarrow> unit lua list seri option" where
  "unpack_buffer buffer len =
     (if len = 0 then Some (Inr [])
      else (case buffer of
          None \<Rightarrow> Some (Inl NullBuffer)
        | Some bs \<Rightarrow>
            if len < 0 then Some (Inr [])
            else if nat len \<le> length bs then Some (unpack_all (take (nat len) bs)) else None))"

definition luaseri_unpack :: "seri_arg \<Rightarrow> unit lua list seri option" where
  "luaseri_unpack arg =
     (case arg of
        SeriNone \<Rightarrow> Some (Inr [])
      | SeriString s \<Rightarrow> unpack_buffer (Some s) (to_s32 (int (length s)))
      | SeriPointer buffer len \<Rightarrow> unpack_buffer buffer (to_s32 len))"

end
