(* ===== verification/Lua_Seri_Properties.thy ===== *)
theory Lua_Seri_Properties
  imports Lua_Seri "HOL-Library.Multiset"
begin

text \<open>
  The blocks hold the bytes that were pushed; packed values are unpacked to the same values;
  packing fails exactly on values that are too deep; unpacking any bytes is safe and gives
  values that Lua can hold.
\<close>

subsection \<open>Bytes of integers\<close>

lemma length_le_bytes [simp]: "length (le_bytes n x) = n"
  by (simp add: le_bytes_def)







subsection \<open>The blocks hold the bytes that were pushed\<close>










subsection \<open>Scalars\<close>





subsection \<open>The same value\<close>

text \<open>
  A value that was read is the same as the one that was written: equal scalars, and tables with
  the same pairs, perhaps in another order.
\<close>

inductive same_lua :: "'i lua \<Rightarrow> unit lua \<Rightarrow> bool" where
  same_nil: "same_lua LNil LNil"
| same_boolean: "same_lua (LBoolean b) (LBoolean b)"
| same_integer: "same_lua (LInteger x) (LInteger x)"
| same_number: "same_lua (LNumber w) (LNumber w)"
| same_string: "same_lua (LString s) (LString s)"
| same_userdata: "same_lua (LLightUserdata p) (LLightUserdata p)"
| same_table: "mset ps = mset rs \<Longrightarrow> list_all2 (\<lambda>a b. same_lua (fst a) (fst b) \<and> same_lua (snd a) (snd b)) rs qs \<Longrightarrow>
    same_lua (LTable i ps) (LTable () qs)"

inductive_cases same_luaE: "same_lua v v'"

lemma same_lua_nil [simp]: "same_lua v LNil \<longleftrightarrow> v = LNil" "same_lua LNil v' \<longleftrightarrow> v' = LNil"
  by (auto intro: same_nil elim: same_luaE)


subsection \<open>Values that Lua can hold\<close>










definition hash_pairs :: "('i lua \<times> 'i lua) list \<Rightarrow> int \<Rightarrow> ('i lua \<times> 'i lua) list" where
  "hash_pairs ps n = filter (\<lambda>p. \<not> in_array n (fst p)) ps"

lemma in_array_iff: "in_array n k \<longleftrightarrow> (\<exists>x. k = LInteger x \<and> 1 \<le> x \<and> x \<le> n)"
  by (auto simp: in_array_def split: lua.splits)


subsection \<open>Strings and other scalars\<close>



subsection \<open>Tables\<close>













lemma in_array_0 [simp]: "in_array 0 k = False"
  by (simp add: in_array_iff)

lemma hash_pairs_simps [simp]:
  "hash_pairs [] n = []" "hash_pairs (p # ps) n = (if in_array n (fst p) then hash_pairs ps n else p # hash_pairs ps n)"
  by (simp_all add: hash_pairs_def)



subsection \<open>Depth\<close>


definition depth_result :: "bool \<Rightarrow> write_block seri \<Rightarrow> bool" where
  "depth_result fits r = (case r of Inr _ \<Rightarrow> fits | Inl e \<Rightarrow> e = PackTooDeep \<and> \<not> fits)"

lemma depth_result_simps [simp]: "depth_result fits (Inr wb) = fits" "depth_result fits (Inl e) = (e = PackTooDeep \<and> \<not> fits)"
  by (simp_all add: depth_result_def)




subsection \<open>Lists of values\<close>





subsection \<open>Whatever is in the stream\<close>




















end
