(* ===== verification/Lua_Socket_Buffer.thy ===== *)
theory Lua_Socket_Buffer
  imports C_Strings "HOL-Library.Monad_Syntax" "HOL-Library.Sublist"
begin

text \<open>
  The buffers of received data that Lua services read: \<^verbatim>\<open>lualib-src/lua-socket.c\<close>, from
  \<open>lnewpool\<close> to \<open>lreadline\<close>, and its parsing of addresses. The messages of a buffer are linked
  nodes from a pool that the buffers of a service share; taken nodes go back to the free list.
\<close>

subsection \<open>Memory blocks\<close>

text \<open>The \<open>n\<close> bytes at \<open>off\<close> of a block; an access outside of it does not survive.\<close>

definition bytes_at :: "u8 list \<Rightarrow> int \<Rightarrow> int \<Rightarrow> u8 list option" where
  "bytes_at m off n =
     (if 0 \<le> off \<and> 0 \<le> n \<and> off + n \<le> int (length m) then Some (take (nat n) (drop (nat off) m)) else None)"

subsection \<open>Nodes and pools\<close>

record buffer_node =
  bn_msg :: "u8 list option"
  bn_sz :: int
  bn_next :: "nat option"

text \<open>
  The table \<open>pool\<close>: the nodes of all its chunks in the order of their allocation (the address of
  a node is its position), the sizes of the chunks (entries 2, 3, ... of the table), the head of
  the free list (entry 1). The messages freed and the warnings logged are kept in their order.
\<close>

record pool =
  pl_nodes :: "buffer_node list"
  pl_chunks :: "nat list"
  pl_free :: "nat option"
  pl_freed :: "u8 list list"
  pl_log :: "string list"

record socket_buffer =
  sb_size :: int
  sb_offset :: int
  sb_head :: "nat option"
  sb_tail :: "nat option"

definition LARGE_PAGE_NODE :: nat where "LARGE_PAGE_NODE = 12"
definition POOL_SIZE_WARNING :: nat where "POOL_SIZE_WARNING = 32"

definition empty_pool :: pool where
  "empty_pool = \<lparr>pl_nodes = [], pl_chunks = [], pl_free = None, pl_freed = [], pl_log = []\<rparr>"

definition get_node :: "pool \<Rightarrow> nat \<Rightarrow> buffer_node option" where
  "get_node pl p = rd (pl_nodes pl) p"

definition set_node :: "pool \<Rightarrow> nat \<Rightarrow> buffer_node \<Rightarrow> pool option" where
  "set_node pl p x = do { ns \<leftarrow> wr (pl_nodes pl) p x; Some (pl\<lparr>pl_nodes := ns\<rparr>) }"

text \<open>The finalizer of a chunk: nodes \<open>a\<close> up to \<open>a + n\<close>.\<close>

primrec lfreepool :: "nat \<Rightarrow> nat \<Rightarrow> pool \<Rightarrow> pool option" where
  "lfreepool a 0 pl = Some pl"
| "lfreepool a (Suc n) pl = do {
     x \<leftarrow> get_node pl a;
     pl1 \<leftarrow> (case bn_msg x of
         None \<Rightarrow> Some pl
       | Some m \<Rightarrow> set_node (pl\<lparr>pl_freed := pl_freed pl @ [m]\<rparr>) a (x\<lparr>bn_msg := None\<rparr>));
     lfreepool (Suc a) n pl1
   }"

definition new_nodes :: "nat \<Rightarrow> nat \<Rightarrow> buffer_node list" where
  "new_nodes a sz = map (\<lambda>i. \<lparr>bn_msg = None, bn_sz = 0, bn_next = if i + 1 < sz then Some (a + i + 1) else None\<rparr>) [0..<sz]"

definition lnewpool :: "nat \<Rightarrow> pool \<Rightarrow> nat \<times> pool" where
  "lnewpool sz pl = (let a = length (pl_nodes pl) in
     (a, pl\<lparr>pl_nodes := pl_nodes pl @ new_nodes a sz, pl_chunks := pl_chunks pl @ [sz]\<rparr>))"

definition lnewbuffer :: socket_buffer where
  "lnewbuffer = \<lparr>sb_size = 0, sb_offset = 0, sb_head = None, sb_tail = None\<rparr>"

text \<open>
  \<open>tsz\<close>, the length of the table with entry 1, is one more than the number of chunks. The new
  chunk becomes the free list.
\<close>

definition take_free_node :: "pool \<Rightarrow> nat \<times> pool" where
  "take_free_node pl =
     (case pl_free pl of
        Some p \<Rightarrow> (p, pl)
      | None \<Rightarrow>
          (let tsz = length (pl_chunks pl) + 1;
               size = 8 * 2 ^ (if tsz \<le> LARGE_PAGE_NODE - 3 then tsz else LARGE_PAGE_NODE - 3);
               (p, pl1) = lnewpool size pl
           in (p, if tsz > POOL_SIZE_WARNING
                  then pl1\<lparr>pl_log := pl_log pl1 @ [''Too many socket pool ('' @ fmt_d (int tsz) @ '')'']\<rparr> else pl1)))"

definition lpushbuffer :: "pool \<Rightarrow> socket_buffer \<Rightarrow> u8 list \<Rightarrow> int \<Rightarrow> (int \<times> pool \<times> socket_buffer) option" where
  "lpushbuffer pl sb msg sz = do {
     let (p, pl1) = take_free_node pl;
     free_node \<leftarrow> get_node pl1 p;
     pl2 \<leftarrow> set_node (pl1\<lparr>pl_free := bn_next free_node\<rparr>) p \<lparr>bn_msg = Some msg, bn_sz = sz, bn_next = None\<rparr>;
     (pl3, sb1) \<leftarrow> (case sb_head sb of
         None \<Rightarrow> do {
           c_assert (sb_tail sb = None);
           Some (pl2, sb\<lparr>sb_head := Some p, sb_tail := Some p\<rparr>)
         }
       | Some _ \<Rightarrow> do {
           t \<leftarrow> sb_tail sb;
           x \<leftarrow> get_node pl2 t;
           pl3 \<leftarrow> set_node pl2 t (x\<lparr>bn_next := Some p\<rparr>);
           Some (pl3, sb\<lparr>sb_tail := Some p\<rparr>)
         });
     let sb2 = sb1\<lparr>sb_size := to_s32 (sb_size sb1 + sz)\<rparr>;
     Some (sb_size sb2, pl3, sb2)
   }"

definition return_free_node :: "pool \<Rightarrow> socket_buffer \<Rightarrow> (pool \<times> socket_buffer) option" where
  "return_free_node pl sb = do {
     p \<leftarrow> sb_head sb;
     x \<leftarrow> get_node pl p;
     let sb1 = sb\<lparr>sb_offset := 0, sb_head := bn_next x, sb_tail := if bn_next x = None then None else sb_tail sb\<rparr>;
     let freed = (case bn_msg x of Some m \<Rightarrow> pl_freed pl @ [m] | None \<Rightarrow> pl_freed pl);
     pl1 \<leftarrow> set_node pl p \<lparr>bn_msg = None, bn_sz = 0, bn_next = pl_free pl\<rparr>;
     Some (pl1\<lparr>pl_free := Some p, pl_freed := freed\<rparr>, sb1)
   }"

subsection \<open>Taking bytes\<close>

text \<open>The bytes of the head node from the offset on.\<close>

definition head_bytes :: "pool \<Rightarrow> socket_buffer \<Rightarrow> int \<Rightarrow> u8 list option" where
  "head_bytes pl sb n = do {
     p \<leftarrow> sb_head sb;
     x \<leftarrow> get_node pl p;
     m \<leftarrow> bn_msg x;
     bytes_at m (sb_offset sb) n
   }"

definition head_sz :: "pool \<Rightarrow> socket_buffer \<Rightarrow> int option" where
  "head_sz pl sb = do { p \<leftarrow> sb_head sb; x \<leftarrow> get_node pl p; Some (bn_sz x) }"

partial_function (option) pop_loop :: "pool \<Rightarrow> socket_buffer \<Rightarrow> int \<Rightarrow> int \<Rightarrow> u8 list \<Rightarrow> (u8 list \<times> pool \<times> socket_buffer) option" where
  "pop_loop pl sb sz skip b = do {
     csz \<leftarrow> head_sz pl sb;
     let bytes = csz - sb_offset sb;
     (if bytes \<ge> sz then do {
        b1 \<leftarrow> (if sz > skip then map_option (append b) (head_bytes pl sb (sz - skip)) else Some b);
        let sb1 = sb\<lparr>sb_offset := sb_offset sb + sz\<rparr>;
        (pl2, sb2) \<leftarrow> (if bytes = sz then return_free_node pl sb1 else Some (pl, sb1));
        Some (b1, pl2, sb2)
      } else do {
        let real_sz = sz - skip;
        b1 \<leftarrow> (if real_sz > 0 then map_option (append b) (head_bytes pl sb (if real_sz < bytes then real_sz else bytes)) else Some b);
        (pl1, sb1) \<leftarrow> return_free_node pl sb;
        (if sz - bytes = 0 then Some (b1, pl1, sb1) else pop_loop pl1 sb1 (sz - bytes) skip b1)
      })
   }"

text \<open>A negative length is a huge \<open>size_t\<close>: Lua raises an error and nothing has changed yet.\<close>

definition pop_lstring :: "pool \<Rightarrow> socket_buffer \<Rightarrow> int \<Rightarrow> int \<Rightarrow> (string + u8 list \<times> pool \<times> socket_buffer) option" where
  "pop_lstring pl sb sz skip = do {
     csz \<leftarrow> head_sz pl sb;
     (if sz \<le> csz - sb_offset sb then
        (if sz - skip < 0 then Some (Inl ''not enough memory'')
         else do {
           str \<leftarrow> head_bytes pl sb (sz - skip);
           (if sz < csz - sb_offset sb then Some (Inr (str, pl, sb\<lparr>sb_offset := sb_offset sb + sz\<rparr>))
            else do { (pl1, sb1) \<leftarrow> return_free_node pl sb; Some (Inr (str, pl1, sb1)) })
         })
      else map_option Inr (pop_loop pl sb sz skip []))
   }"

definition lpopbuffer :: "pool \<Rightarrow> socket_buffer \<Rightarrow> int \<Rightarrow> (string + (u8 list option \<times> int) \<times> pool \<times> socket_buffer) option" where
  "lpopbuffer pl sb sz =
     (if sb_size sb < sz \<or> sz = 0 then Some (Inr ((None, sb_size sb), pl, sb))
      else do {
        r \<leftarrow> pop_lstring pl sb sz 0;
        (case r of
           Inl e \<Rightarrow> Some (Inl e)
         | Inr (str, pl1, sb1) \<Rightarrow>
             (let sb2 = sb1\<lparr>sb_size := sb_size sb1 - sz\<rparr> in Some (Inr ((Some str, sb_size sb2), pl1, sb2))))
      })"

partial_function (option) clear_loop :: "pool \<Rightarrow> socket_buffer \<Rightarrow> (pool \<times> socket_buffer) option" where
  "clear_loop pl sb =
     (if sb_head sb = None then Some (pl, sb)
      else do { (pl1, sb1) \<leftarrow> return_free_node pl sb; clear_loop pl1 sb1 })"

definition lclearbuffer :: "pool \<Rightarrow> socket_buffer \<Rightarrow> (pool \<times> socket_buffer) option" where
  "lclearbuffer pl sb = do { (pl1, sb1) \<leftarrow> clear_loop pl sb; Some (pl1, sb1\<lparr>sb_size := 0\<rparr>) }"

partial_function (option) readall_loop :: "pool \<Rightarrow> socket_buffer \<Rightarrow> u8 list \<Rightarrow> (u8 list \<times> pool \<times> socket_buffer) option" where
  "readall_loop pl sb b =
     (if sb_head sb = None then Some (b, pl, sb)
      else do {
        csz \<leftarrow> head_sz pl sb;
        bs \<leftarrow> head_bytes pl sb (csz - sb_offset sb);
        (pl1, sb1) \<leftarrow> return_free_node pl sb;
        readall_loop pl1 sb1 (b @ bs)
      })"

definition lreadall :: "pool \<Rightarrow> socket_buffer \<Rightarrow> (u8 list \<times> pool \<times> socket_buffer) option" where
  "lreadall pl sb = do { (b, pl1, sb1) \<leftarrow> readall_loop pl sb []; Some (b, pl1, sb1\<lparr>sb_size := 0\<rparr>) }"

subsection \<open>Lines\<close>

partial_function (option) check_sep :: "pool \<Rightarrow> nat option \<Rightarrow> int \<Rightarrow> u8 list \<Rightarrow> bool option" where
  "check_sep pl node from sep = do {
     p \<leftarrow> node;
     x \<leftarrow> get_node pl p;
     m \<leftarrow> bn_msg x;
     let sz = bn_sz x - from;
     (if sz \<ge> int (length sep) then map_option (\<lambda>bs. bs = sep) (bytes_at m from (int (length sep)))
      else do {
        same \<leftarrow> (if sz > 0 then map_option (\<lambda>bs. bs = take (nat sz) sep) (bytes_at m from sz) else Some True);
        (if \<not> same then Some False
         else do { c_assert (sz \<ge> 0); check_sep pl (bn_next x) 0 (drop (nat sz) sep) })
      })
   }"

text \<open>The loop of \<open>lreadline\<close>: the position of the separator, if there is one.\<close>

partial_function (option) readline_loop :: "pool \<Rightarrow> int \<Rightarrow> u8 list \<Rightarrow> int \<Rightarrow> nat \<Rightarrow> int \<Rightarrow> int \<Rightarrow> int option option" where
  "readline_loop pl avail sep i current from bytes =
     (if i > avail - int (length sep) then Some None
      else do {
        hit \<leftarrow> check_sep pl (Some current) from sep;
        (if hit then Some (Some i)
         else if bytes - 1 = 0 then do {
           x \<leftarrow> get_node pl current;
           (case bn_next x of
              None \<Rightarrow> Some None
            | Some q \<Rightarrow> do { y \<leftarrow> get_node pl q; readline_loop pl avail sep (i + 1) q 0 (bn_sz y) })
         }
         else readline_loop pl avail sep (i + 1) current (from + 1) (bytes - 1))
      })"

datatype line = NoLine | Found | Line "u8 list"

definition lreadline :: "pool \<Rightarrow> socket_buffer \<Rightarrow> bool \<Rightarrow> u8 list \<Rightarrow> (string + line \<times> pool \<times> socket_buffer) option" where
  "lreadline pl sb check sep =
     (case sb_head sb of
        None \<Rightarrow> Some (Inr (NoLine, pl, sb))
      | Some p \<Rightarrow> do {
          csz \<leftarrow> head_sz pl sb;
          r \<leftarrow> readline_loop pl (sb_size sb) sep 0 p (sb_offset sb) (csz - sb_offset sb);
          (case r of
             None \<Rightarrow> Some (Inr (NoLine, pl, sb))
           | Some i \<Rightarrow>
               if check then Some (Inr (Found, pl, sb))
               else do {
                 t \<leftarrow> pop_lstring pl sb (i + int (length sep)) (int (length sep));
                 (case t of
                    Inl e \<Rightarrow> Some (Inl e)
                  | Inr (str, pl1, sb1) \<Rightarrow>
                      Some (Inr (Line str, pl1, sb1\<lparr>sb_size := sb_size sb1 - (i + int (length sep))\<rparr>)))
               })
        })"

subsection \<open>Headers and addresses\<close>

text \<open>\<open>lheader\<close>: one to four bytes, most significant first.\<close>

definition lheader :: "u8 list \<Rightarrow> string + nat" where
  "lheader s =
     (if length s > 4 \<or> length s < 1 then Inl ''Invalid read''
      else Inr (foldl (\<lambda>sz b. sz * 256 + unat b) 0 s))"

text \<open>\<open>strchr\<close>: the index of the first occurrence.\<close>

fun strchr :: "string \<Rightarrow> char \<Rightarrow> nat option" where
  "strchr [] c = None"
| "strchr (x # xs) c = (if x = c then Some 0 else map_option Suc (strchr xs c))"

definition strtoul10 :: "string \<Rightarrow> int" where
  "strtoul10 s = (let (neg, t) = strip_sign s; v = read_digits 10 0 t
     in if v \<ge> 2 ^ 64 then 2 ^ 64 - 1 else if neg then (- int v) mod 2 ^ 64 else int v)"

text \<open>
  \<open>address_port\<close>: \<open>[host]:port\<close>, \<open>host:port\<close>, or the host with the port as an argument of its
  own. The closing bracket is looked for from the start of the text; one before the opening
  bracket makes the length of the copy negative.
\<close>

definition address_port :: "string \<Rightarrow> int option \<Rightarrow> (string + string \<times> int) option" where
  "address_port addr port_arg =
     (let invalid = Some (Inl (''Invalid address '' @ addr @ ''.''))
      in case port_arg of
           Some port \<Rightarrow> Some (Inr (addr, to_s32 port))
         | None \<Rightarrow>
             (case strchr addr (CHR ''['') of
                Some h \<Rightarrow>
                  (case strchr addr (CHR '']'') of
                     None \<Rightarrow> invalid
                   | Some sep \<Rightarrow> do {
                       c_assert (h + 1 \<le> sep);
                       (case strchr (drop (sep + 1) addr) (CHR '':'') of
                          None \<Rightarrow> invalid
                        | Some k \<Rightarrow> Some (Inr (take (sep - (h + 1)) (drop (h + 1) addr),
                            to_s32 (strtoul10 (drop (sep + 1 + k + 1) addr)))))
                     })
              | None \<Rightarrow>
                  (case strchr addr (CHR '':'') of
                     None \<Rightarrow> invalid
                   | Some sep \<Rightarrow> Some (Inr (take sep addr, to_s32 (strtoul10 (drop (sep + 1) addr)))))))"

end
