(* ===== verification/Lua_Socket_Properties.thy ===== *)
theory Lua_Socket_Properties
  imports Lua_Socket_Buffer
begin

text \<open>
  The buffers of \<open>Lua_Socket_Buffer\<close> behave as lists of bytes. The nodes of a pool are the
  disjoint union of the free list and the chains of the buffers (\<open>own\<close>); each operation is
  proved for one buffer with the rest of the pool as a frame (\<open>becomes\<close>), then lifted to any
  number of buffers (\<open>all_hold\<close>).
\<close>

subsection \<open>Chains\<close>

primrec chain :: "buffer_node list \<Rightarrow> nat option \<Rightarrow> nat list \<Rightarrow> bool" where
  "chain ns a [] \<longleftrightarrow> a = None"
| "chain ns a (p # ps) \<longleftrightarrow> a = Some p \<and> p < length ns \<and> chain ns (bn_next (ns ! p)) ps"

lemma chain_bound: "chain ns a ps \<Longrightarrow> p \<in> set ps \<Longrightarrow> p < length ns"
  by (induction ps arbitrary: a) auto

lemma chain_None [simp]: "chain ns None ps \<longleftrightarrow> ps = []"
  by (cases ps) auto

lemma chain_update: "q \<notin> set ps \<Longrightarrow> chain (ns[q := x]) a ps = chain ns a ps"
  by (induction ps arbitrary: a) (auto simp: nth_list_update)

lemma chain_extend: "chain ns a ps \<Longrightarrow> chain (ns @ xs) a ps"
  by (induction ps arbitrary: a) (auto simp: nth_append)

text \<open>The last node of a chain gets a successor.\<close>

lemma chain_snoc:
  "chain ns a ps \<Longrightarrow> ps \<noteq> [] \<Longrightarrow> distinct ps \<Longrightarrow> q \<notin> set ps \<Longrightarrow> q < length ns \<Longrightarrow> bn_next (ns ! q) = None \<Longrightarrow>
   chain (ns[last ps := (ns ! last ps)\<lparr>bn_next := Some q\<rparr>]) a (ps @ [q])"
proof (induction ps arbitrary: a)
  case (Cons p ps)
  show ?case
  proof (cases ps)
    case Nil
    then show ?thesis using Cons.prems by auto
  next
    case (Cons p' ps')
    have "p \<noteq> last ps" using Cons Cons.prems(3) by auto
    then show ?thesis using Cons.IH [of "bn_next (ns ! p)"] Cons.prems Cons by (auto simp: nth_list_update)
  qed
qed simp

lemma chain_new_nodes:
  "chain (ns @ new_nodes (length ns) sz) (if k < sz then Some (length ns + k) else None) (map (\<lambda>i. length ns + i) [k..<sz])"
proof (induction "sz - k" arbitrary: k)
  case (Suc n)
  then have "[k..<sz] = k # [Suc k..<sz]" by (simp add: upt_conv_Cons)
  moreover have "(ns @ new_nodes (length ns) sz) ! (length ns + k) =
      \<lparr>bn_msg = None, bn_sz = 0, bn_next = if k + 1 < sz then Some (length ns + k + 1) else None\<rparr>"
    using Suc.hyps(2) by (simp add: new_nodes_def nth_append)
  ultimately show ?case using Suc.hyps(1) [of "Suc k"] Suc.hyps(2) by (auto simp: new_nodes_def)
qed auto

subsection \<open>A buffer and its pool\<close>

definition node_msg :: "buffer_node list \<Rightarrow> nat \<Rightarrow> u8 list" where
  "node_msg ns p = (case bn_msg (ns ! p) of Some m \<Rightarrow> m | None \<Rightarrow> [])"

definition node_full :: "buffer_node list \<Rightarrow> nat \<Rightarrow> bool" where
  "node_full ns p \<longleftrightarrow> (case bn_msg (ns ! p) of Some m \<Rightarrow> bn_sz (ns ! p) = int (length m) \<and> m \<noteq> [] | None \<Rightarrow> False)"

definition msgs :: "pool \<Rightarrow> nat list \<Rightarrow> u8 list list" where
  "msgs pl ps = map (node_msg (pl_nodes pl)) ps"

text \<open>
  The free nodes \<open>fs\<close>, the nodes \<open>ps\<close> of a buffer, and the nodes \<open>os\<close> of the other buffers of
  the pool are all its nodes, and no node is two of them.
\<close>

definition own :: "pool \<Rightarrow> nat list \<Rightarrow> socket_buffer \<Rightarrow> nat list \<Rightarrow> nat list \<Rightarrow> bool" where
  "own pl fs sb ps os \<longleftrightarrow> chain (pl_nodes pl) (pl_free pl) fs \<and> chain (pl_nodes pl) (sb_head sb) ps \<and>
     sb_tail sb = (if ps = [] then None else Some (last ps)) \<and>
     (\<forall>p \<in> set ps. node_full (pl_nodes pl) p) \<and> (\<forall>p \<in> set fs. bn_msg (pl_nodes pl ! p) = None) \<and>
     distinct (fs @ ps @ os) \<and> set (fs @ ps @ os) = {..<length (pl_nodes pl)}"

definition off_ok :: "pool \<Rightarrow> socket_buffer \<Rightarrow> nat list \<Rightarrow> bool" where
  "off_ok pl sb ps \<longleftrightarrow> 0 \<le> sb_offset sb \<and>
     (case ps of [] \<Rightarrow> sb_offset sb = 0 | p # _ \<Rightarrow> sb_offset sb < int (length (node_msg (pl_nodes pl) p)))"

definition held :: "pool \<Rightarrow> socket_buffer \<Rightarrow> nat list \<Rightarrow> u8 list" where
  "held pl sb ps = drop (nat (sb_offset sb)) (concat (msgs pl ps))"

text \<open>What an operation on one buffer keeps: the nodes of the others, and each message in one place.\<close>

definition keeps :: "pool \<Rightarrow> nat list \<Rightarrow> pool \<Rightarrow> nat list \<Rightarrow> nat list \<Rightarrow> bool" where
  "keeps pl ps pl' ps' os \<longleftrightarrow> (\<forall>p \<in> set os. pl_nodes pl' ! p = pl_nodes pl ! p) \<and>
     mset (pl_freed pl') + mset (msgs pl' ps') = mset (pl_freed pl) + mset (msgs pl ps)"

lemma keeps_refl: "keeps pl ps pl ps os"
  by (simp add: keeps_def)

lemma keeps_trans: "keeps pl ps pl1 ps1 os \<Longrightarrow> keeps pl1 ps1 pl2 ps2 os \<Longrightarrow> keeps pl ps pl2 ps2 os"
  by (simp add: keeps_def)

lemma node_full_msg: "node_full ns p \<Longrightarrow> bn_msg (ns ! p) = Some (node_msg ns p)"
  "node_full ns p \<Longrightarrow> bn_sz (ns ! p) = int (length (node_msg ns p))" "node_full ns p \<Longrightarrow> node_msg ns p \<noteq> []"
  by (auto simp: node_full_def node_msg_def split: option.splits)

lemma node_update [simp]: "p \<noteq> q \<Longrightarrow> node_msg (ns[q := x]) p = node_msg ns p"
  "p \<noteq> q \<Longrightarrow> node_full (ns[q := x]) p = node_full ns p"
  by (auto simp: node_msg_def node_full_def split: option.split)

lemma node_msgs_update: "q \<notin> set ps \<Longrightarrow> image_mset (node_msg (ns[q := x])) (mset ps) = image_mset (node_msg ns) (mset ps)"
  by (rule image_mset_cong, rule node_update) auto

lemma return_free_node_ok:
  assumes "own pl fs sb (p # ps) os"
  shows "\<exists>pl1 sb1. return_free_node pl sb = Some (pl1, sb1) \<and> own pl1 (p # fs) sb1 ps os \<and> sb_offset sb1 = 0 \<and>
    sb_size sb1 = sb_size sb \<and> msgs pl1 ps = msgs pl ps \<and> keeps pl (p # ps) pl1 ps os"
proof -
  let ?x = "pl_nodes pl ! p"
  have p: "p < length (pl_nodes pl)" "sb_head sb = Some p" "chain (pl_nodes pl) (bn_next ?x) ps"
    "p \<notin> set fs" "p \<notin> set ps" "p \<notin> set os" "bn_msg ?x = Some (node_msg (pl_nodes pl) p)"
    using assms node_full_msg(1) by (auto simp: own_def)
  have nx: "bn_next ?x = None \<longleftrightarrow> ps = []" using p(3) by (cases ps) auto
  have f: "\<And>q. q \<in> set fs \<Longrightarrow> q \<noteq> p" "\<And>q. q \<in> set ps \<Longrightarrow> q \<noteq> p" "\<And>q. q \<in> set os \<Longrightarrow> q \<noteq> p" using p(4-6) by auto
  have eq: "insert p (set fs \<union> set ps \<union> set os) = {..<length (pl_nodes pl)}" using assms by (auto simp: own_def)
  show ?thesis
    using p assms nx f eq
    by (auto simp: return_free_node_def get_node_def set_node_def own_def keeps_def msgs_def chain_update nth_list_update node_msgs_update)
qed

text \<open>A run of bytes of the head node.\<close>

lemma head_facts:
  assumes "own pl fs sb (p # ps) os" "off_ok pl sb (p # ps)"
  shows "head_sz pl sb = Some (int (length (node_msg (pl_nodes pl) p)))"
    "0 \<le> n \<Longrightarrow> sb_offset sb + n \<le> int (length (node_msg (pl_nodes pl) p)) \<Longrightarrow>
      head_bytes pl sb n = Some (take (nat n) (held pl sb (p # ps)))"
proof -
  have p: "p < length (pl_nodes pl)" "sb_head sb = Some p" "node_full (pl_nodes pl) p"
    using assms(1) by (auto simp: own_def)
  note m = node_full_msg [OF p(3)]
  show "head_sz pl sb = Some (int (length (node_msg (pl_nodes pl) p)))"
    using p m by (simp add: head_sz_def get_node_def)
  show "head_bytes pl sb n = Some (take (nat n) (held pl sb (p # ps)))"
    if "0 \<le> n" "sb_offset sb + n \<le> int (length (node_msg (pl_nodes pl) p))"
    using p m that assms(2)
    by (auto simp: head_bytes_def get_node_def bytes_at_def held_def msgs_def off_ok_def nat_add_distrib)
qed

lemma held_Cons:
  "off_ok pl sb (p # ps) \<Longrightarrow> held pl sb (p # ps) = drop (nat (sb_offset sb)) (node_msg (pl_nodes pl) p) @ concat (msgs pl ps)"
  by (simp add: held_def msgs_def off_ok_def nat_le_iff)

lemma off_ok_0: "own pl fs sb ps os \<Longrightarrow> sb_offset sb = 0 \<Longrightarrow> off_ok pl sb ps"
  using node_full_msg(3) by (auto simp: off_ok_def own_def split: list.split)

lemma own_offset: "own pl fs (sb\<lparr>sb_offset := x\<rparr>) ps os = own pl fs sb ps os"
  "own pl fs (sb\<lparr>sb_size := y\<rparr>) ps os = own pl fs sb ps os"
  by (simp_all add: own_def)

lemma off_ok_size: "off_ok pl (sb\<lparr>sb_size := y\<rparr>) ps = off_ok pl sb ps" "held pl (sb\<lparr>sb_size := y\<rparr>) ps = held pl sb ps"
  by (simp_all add: off_ok_def held_def split: list.split)

subsection \<open>Taking bytes\<close>

text \<open>The buffer after \<open>n\<close> bytes were taken.\<close>

definition taken :: "pool \<Rightarrow> socket_buffer \<Rightarrow> nat list \<Rightarrow> nat list \<Rightarrow> nat \<Rightarrow> pool \<Rightarrow> socket_buffer \<Rightarrow> bool" where
  "taken pl sb ps os n pl' sb' \<longleftrightarrow> (\<exists>fs' ps'. own pl' fs' sb' ps' os \<and> off_ok pl' sb' ps' \<and> sb_size sb' = sb_size sb \<and>
     held pl' sb' ps' = drop n (held pl sb ps) \<and> keeps pl ps pl' ps' os)"

lemma taken_part:
  assumes "own pl fs sb (p # ps) os" "off_ok pl sb (p # ps)" "0 \<le> n" "sb_offset sb + n < int (length (node_msg (pl_nodes pl) p))"
  shows "taken pl sb (p # ps) os (nat n) pl (sb\<lparr>sb_offset := sb_offset sb + n\<rparr>)"
proof -
  have "own pl fs (sb\<lparr>sb_offset := sb_offset sb + n\<rparr>) (p # ps) os" using assms(1) by (simp add: own_offset)
  moreover have "off_ok pl (sb\<lparr>sb_offset := sb_offset sb + n\<rparr>) (p # ps)" using assms(2-4) by (simp add: off_ok_def)
  moreover have "held pl (sb\<lparr>sb_offset := sb_offset sb + n\<rparr>) (p # ps) = drop (nat n) (held pl sb (p # ps))"
    using assms(2,3) by (simp add: held_def off_ok_def nat_add_distrib add.commute)
  ultimately show ?thesis using keeps_refl unfolding taken_def by fastforce
qed

lemma taken_node:
  assumes "own pl fs sb (p # ps) os" "off_ok pl sb (p # ps)" "n = nat (int (length (node_msg (pl_nodes pl) p)) - sb_offset sb)"
  shows "\<exists>pl1 sb1. return_free_node pl sb = Some (pl1, sb1) \<and> taken pl sb (p # ps) os n pl1 sb1 \<and>
    own pl1 (p # fs) sb1 ps os \<and> off_ok pl1 sb1 ps \<and> held pl1 sb1 ps = drop n (held pl sb (p # ps)) \<and> keeps pl (p # ps) pl1 ps os \<and>
    sb_size sb1 = sb_size sb"
proof -
  obtain pl1 sb1 where r: "return_free_node pl sb = Some (pl1, sb1)" "own pl1 (p # fs) sb1 ps os" "sb_offset sb1 = 0"
    "sb_size sb1 = sb_size sb" "msgs pl1 ps = msgs pl ps" "keeps pl (p # ps) pl1 ps os"
    using return_free_node_ok [OF assms(1)] by blast
  have h: "held pl1 sb1 ps = drop n (held pl sb (p # ps))"
    using assms(2,3) r(3,5) by (simp add: held_Cons held_def [of pl1] off_ok_def nat_diff_distrib)
  from r h off_ok_0 [OF r(2,3)] show ?thesis unfolding taken_def by blast
qed

lemma taken_trans:
  assumes "own pl1 fs1 sb1 ps1 os" "held pl1 sb1 ps1 = drop n (held pl sb ps)" "keeps pl ps pl1 ps1 os" "sb_size sb1 = sb_size sb"
    and "taken pl1 sb1 ps1 os m pl2 sb2"
  shows "taken pl sb ps os (n + m) pl2 sb2"
  using assms keeps_trans unfolding taken_def by (fastforce simp: add.commute)

lemma return_free_offset: "return_free_node pl (sb\<lparr>sb_offset := x\<rparr>) = return_free_node pl sb"
  by (simp add: return_free_node_def Let_def cong: if_cong)

lemma pop_loop_ok:
  assumes "own pl fs sb ps os" "off_ok pl sb ps" "0 < sz" "0 \<le> skip" "sz \<le> int (length (held pl sb ps))"
  shows "\<exists>pl' sb'. pop_loop pl sb sz skip b = Some (b @ take (nat (sz - skip)) (held pl sb ps), pl', sb') \<and>
    taken pl sb ps os (nat sz) pl' sb'"
  using assms
proof (induction ps arbitrary: pl fs sb sz b)
  case Nil
  then show ?case by (simp add: held_def msgs_def)
next
  case (Cons p ps)
  let ?len = "int (length (node_msg (pl_nodes pl) p))" and ?h = "held pl sb (p # ps)"
  let ?bytes = "?len - sb_offset sb"
  note hf = head_facts [OF Cons.prems(1,2)]
  have pos: "0 < ?bytes" "0 \<le> sb_offset sb" using Cons.prems(2) by (auto simp: off_ok_def)
  have hl: "length ?h = nat ?bytes + length (concat (msgs pl ps))"
    using pos by (simp add: held_Cons [OF Cons.prems(2)] nat_diff_distrib)
  show ?case
  proof (cases "sz \<le> ?bytes")
    case True
    have b1: "(if skip < sz then map_option ((@) b) (head_bytes pl sb (sz - skip)) else Some b) = Some (b @ take (nat (sz - skip)) ?h)"
      using hf(2) [of "sz - skip"] Cons.prems(4) True by auto
    show ?thesis
    proof (cases "sz = ?bytes")
      case eq: True
      from taken_node [OF Cons.prems(1,2), of "nat sz"] eq b1 hf(1) Cons.prems(3) show ?thesis
        by (subst pop_loop.simps) (auto simp: return_free_offset)
    next
      case False
      with True have "taken pl sb (p # ps) os (nat sz) pl (sb\<lparr>sb_offset := sb_offset sb + sz\<rparr>)"
        using taken_part [OF Cons.prems(1,2), of sz] Cons.prems(3) by simp
      with False True b1 hf(1) show ?thesis by (subst pop_loop.simps) (auto simp: Let_def)
    qed
  next
    case False
    obtain pl1 sb1 where r: "return_free_node pl sb = Some (pl1, sb1)" "own pl1 (p # fs) sb1 ps os" "off_ok pl1 sb1 ps"
      "held pl1 sb1 ps = drop (nat ?bytes) ?h" "keeps pl (p # ps) pl1 ps os" "sb_size sb1 = sb_size sb"
      using taken_node [OF Cons.prems(1,2) refl] by blast
    let ?b1 = "b @ take (nat (min (sz - skip) ?bytes)) ?h"
    have b1: "(if sz - skip > 0 then map_option ((@) b) (head_bytes pl sb (if sz - skip < ?bytes then sz - skip else ?bytes)) else Some b) = Some ?b1"
      using hf(2) [of "sz - skip"] hf(2) [of ?bytes] pos by auto
    have "int (length (held pl1 sb1 ps)) = int (length ?h) - ?bytes" unfolding r(4) using hl pos by auto
    then obtain pl2 sb2 where rec: "pop_loop pl1 sb1 (sz - ?bytes) skip ?b1 =
        Some (?b1 @ take (nat (sz - ?bytes - skip)) (held pl1 sb1 ps), pl2, sb2)" "taken pl1 sb1 ps os (nat (sz - ?bytes)) pl2 sb2"
      using Cons.IH [OF r(2,3), of "sz - ?bytes" ?b1] Cons.prems(4,5) False by auto
    have "taken pl sb (p # ps) os (nat ?bytes + nat (sz - ?bytes)) pl2 sb2"
      using taken_trans [OF r(2,4,5,6) rec(2)] .
    moreover have "nat ?bytes + nat (sz - ?bytes) = nat sz" using False pos by (subst nat_add_distrib [symmetric]) auto
    ultimately have t: "taken pl sb (p # ps) os (nat sz) pl2 sb2" by metis
    have "take (nat (min (sz - skip) ?bytes)) ?h @ take (nat (sz - ?bytes - skip)) (drop (nat ?bytes) ?h) = take (nat (sz - skip)) ?h"
    proof (cases "sz - skip \<le> ?bytes")
      case False
      then have "nat (sz - skip) = nat ?bytes + nat (sz - ?bytes - skip)" using pos by (subst nat_add_distrib [symmetric]) auto
      with False show ?thesis by (simp add: take_add)
    qed simp
    with rec(1) r(1,4) b1 hf(1) False t show ?thesis by (subst pop_loop.simps) (simp add: Let_def)
  qed
qed

lemma held_Nil: "off_ok pl sb [] \<Longrightarrow> held pl sb [] = []"
  by (simp add: held_def msgs_def)

lemma pop_lstring_ok:
  assumes "own pl fs sb ps os" "off_ok pl sb ps" "0 \<le> skip" "skip \<le> sz" "sz \<le> int (length (held pl sb ps))" "ps \<noteq> []"
  shows "\<exists>pl' sb'. pop_lstring pl sb sz skip = Some (Inr (take (nat (sz - skip)) (held pl sb ps), pl', sb')) \<and>
    taken pl sb ps os (nat sz) pl' sb'"
proof -
  obtain p qs where ps: "ps = p # qs" using assms(6) by (cases ps) auto
  note own = assms(1) [unfolded ps] and off = assms(2) [unfolded ps]
  let ?len = "int (length (node_msg (pl_nodes pl) p))"
  note hf = head_facts [OF own off]
  have pos: "0 < ?len - sb_offset sb" using off by (simp add: off_ok_def)
  consider (part) "sz < ?len - sb_offset sb" | (whole) "sz = ?len - sb_offset sb" | (more) "?len - sb_offset sb < sz" by linarith
  then show ?thesis
  proof cases
    case part
    with taken_part [OF own off, of sz] hf(1) hf(2) [of "sz - skip"] assms(3,4) show ?thesis
      by (auto simp: pop_lstring_def ps)
  next
    case whole
    with taken_node [OF own off, of "nat sz"] hf(1) hf(2) [of "sz - skip"] assms(3,4) show ?thesis
      by (auto simp: pop_lstring_def ps)
  next
    case more
    with pop_loop_ok [OF assms(1,2) _ assms(3,5), of "[]"] hf(1) pos show ?thesis
      by (auto simp: pop_lstring_def ps)
  qed
qed

text \<open>A buffer whose contents are \<open>bs\<close>.\<close>

definition holds :: "pool \<Rightarrow> nat list \<Rightarrow> socket_buffer \<Rightarrow> nat list \<Rightarrow> nat list \<Rightarrow> u8 list \<Rightarrow> bool" where
  "holds pl fs sb ps os bs \<longleftrightarrow> own pl fs sb ps os \<and> off_ok pl sb ps \<and> held pl sb ps = bs \<and> sb_size sb = int (length bs)"

lemma holds_empty: "holds pl fs sb ps os bs \<Longrightarrow> ps = [] \<longleftrightarrow> bs = []"
  using held_Nil held_Cons by (cases ps) (auto simp: holds_def off_ok_def)

lemma holds_head: "holds pl fs sb ps os bs \<Longrightarrow> sb_head sb = None \<longleftrightarrow> bs = []"
  using holds_empty [of pl fs sb ps os bs] by (cases ps) (auto simp: holds_def own_def)

text \<open>The buffer \<open>sb\<close> of a pool becomes \<open>sb'\<close> with the contents \<open>bs\<close>; the other buffers stay.\<close>

definition becomes :: "pool \<Rightarrow> nat list \<Rightarrow> nat list \<Rightarrow> pool \<Rightarrow> socket_buffer \<Rightarrow> u8 list \<Rightarrow> bool" where
  "becomes pl ps os pl' sb' bs \<longleftrightarrow> (\<exists>fs' ps'. holds pl' fs' sb' ps' os bs \<and> keeps pl ps pl' ps' os)"

lemma holds_becomes: "holds pl fs sb ps os bs \<Longrightarrow> becomes pl ps os pl sb bs"
  using keeps_refl unfolding becomes_def by blast

lemma taken_becomes:
  assumes "holds pl fs sb ps os bs" "taken pl sb ps os n pl' sb'" "n \<le> length bs"
  shows "becomes pl ps os pl' (sb'\<lparr>sb_size := sb_size sb' - int n\<rparr>) (drop n bs)"
  using assms unfolding taken_def becomes_def holds_def
  by (fastforce simp: own_offset off_ok_size of_nat_diff)

lemma lpopbuffer_ok:
  assumes "holds pl fs sb ps os bs" "0 \<le> sz"
  shows "\<exists>pl' sb'. if sz = 0 \<or> int (length bs) < sz
    then lpopbuffer pl sb sz = Some (Inr ((None, int (length bs)), pl, sb))
    else lpopbuffer pl sb sz = Some (Inr ((Some (take (nat sz) bs), int (length bs) - sz), pl', sb')) \<and>
      becomes pl ps os pl' sb' (drop (nat sz) bs)"
proof (cases "sz = 0 \<or> int (length bs) < sz")
  case True
  then show ?thesis using assms by (auto simp: lpopbuffer_def holds_def)
next
  case False
  have h: "own pl fs sb ps os" "off_ok pl sb ps" "held pl sb ps = bs" "sb_size sb = int (length bs)" using assms(1) by (auto simp: holds_def)
  have "ps \<noteq> []" using False holds_empty [OF assms(1)] assms(2) by auto
  with pop_lstring_ok [OF h(1,2), of 0 sz] False assms(2) h(3) obtain pl' sb' where
    p: "pop_lstring pl sb sz 0 = Some (Inr (take (nat sz) bs, pl', sb'))" "taken pl sb ps os (nat sz) pl' sb'" by auto
  moreover have "sb_size sb' = int (length bs)" using p(2) h(4) by (auto simp: taken_def)
  moreover have "nat sz \<le> length bs" using False by auto
  ultimately show ?thesis using taken_becomes [OF assms(1), of "nat sz" pl' sb'] False assms(2) h(4)
    by (auto simp: lpopbuffer_def)
qed



subsection \<open>Lines\<close>














subsection \<open>Adding a message\<close>

lemma new_nodes_length [simp]: "length (new_nodes a n) = n"
  by (simp add: new_nodes_def)

lemma node_append [simp]: "p < length ns \<Longrightarrow> node_msg (ns @ xs) p = node_msg ns p" "p < length ns \<Longrightarrow> node_full (ns @ xs) p = node_full ns p"
  by (simp_all add: node_msg_def node_full_def nth_append split: option.split)

lemma own_bound: "own pl fs sb ps os \<Longrightarrow> p \<in> set (fs @ ps @ os) \<Longrightarrow> p < length (pl_nodes pl)"
  by (auto simp: own_def)

text \<open>With a free node in hand: either the old free list, or a new chunk.\<close>

lemma take_free_node_ok:
  assumes "own pl fs sb ps os"
  shows "\<exists>p pl1 fs1. take_free_node pl = (p, pl1) \<and> own (pl1\<lparr>pl_free := Some p\<rparr>) (p # fs1) sb ps os \<and>
    keeps pl ps pl1 ps os \<and> msgs pl1 ps = msgs pl ps \<and> length (pl_nodes pl) \<le> length (pl_nodes pl1)"
proof (cases fs)
  case (Cons p fs1)
  then have f: "pl_free pl = Some p" using assms by (simp add: own_def)
  then have "pl\<lparr>pl_free := Some p\<rparr> = pl" by (cases pl) simp
  then have "own (pl\<lparr>pl_free := Some p\<rparr>) (p # fs1) sb ps os" using assms Cons by (simp only:)
  with f keeps_refl show ?thesis by (auto simp: take_free_node_def)
next
  case Nil
  let ?ns = "pl_nodes pl"
  obtain n where n: "8 * 2 ^ (if length (pl_chunks pl) + 1 \<le> LARGE_PAGE_NODE - 3 then length (pl_chunks pl) + 1 else LARGE_PAGE_NODE - 3) = (n::nat)" "0 < n"
    by simp
  let ?new = "?ns @ new_nodes (length ?ns) n"
  let ?fs = "map (\<lambda>i. length ?ns + i) [0..<n]"
  obtain pl1 where pl1: "take_free_node pl = (length ?ns, pl1)" "pl_nodes pl1 = ?new" "pl_freed pl1 = pl_freed pl"
    using Nil assms n by (auto simp: take_free_node_def own_def lnewpool_def Let_def)
  have ch: "chain ?new (Some (length ?ns)) ?fs" using chain_new_nodes [of ?ns n 0] n(2) by simp
  have fs: "?fs = length ?ns # map (\<lambda>i. length ?ns + i) [1..<n]" using n(2) by (simp add: upt_conv_Cons)
  have ps: "\<And>p. p \<in> set ps \<Longrightarrow> p < length ?ns" "\<And>p. p \<in> set os \<Longrightarrow> p < length ?ns" using own_bound [OF assms] by auto
  have img: "set ?fs = {length ?ns..<length ?ns + n}"
    by (auto simp: image_iff Bex_def)
  have eq: "set ps \<union> set os = {..<length ?ns}" using assms Nil by (auto simp: own_def)
  have "{..<length ?ns} \<union> {length ?ns..<length ?ns + n} = {..<length ?ns + n}" by auto
  then have un: "set ps \<union> set os \<union> {length ?ns..<length ?ns + n} = {..<length ?ns + n}" unfolding eq .
  have msgs: "msgs pl1 ps = msgs pl ps" using ps pl1(2) by (simp add: msgs_def)
  have "own (pl1\<lparr>pl_free := Some (length ?ns)\<rparr>) ?fs sb ps os"
    unfolding own_def
  proof (intro conjI)
    show "distinct (?fs @ ps @ os)" using assms Nil ps img by (auto simp: own_def distinct_map inj_on_def)
    show "set (?fs @ ps @ os) = {..<length (pl_nodes (pl1\<lparr>pl_free := Some (length ?ns)\<rparr>))}"
      using un img pl1(2) by auto
    show "\<forall>p \<in> set ?fs. bn_msg (pl_nodes (pl1\<lparr>pl_free := Some (length ?ns)\<rparr>) ! p) = None"
      using pl1(2) by (auto simp: new_nodes_def nth_append)
    show "\<forall>p \<in> set ps. node_full (pl_nodes (pl1\<lparr>pl_free := Some (length ?ns)\<rparr>)) p"
      using assms pl1(2) ps by (auto simp: own_def)
  qed (use assms pl1(2) ch chain_extend in \<open>auto simp: own_def\<close>)
  then show ?thesis using fs pl1 ps msgs by (auto simp: keeps_def nth_append)
qed

text \<open>The node \<open>p\<close> of the free list is filled and becomes the last one of the buffer.\<close>

definition link_last :: "buffer_node list \<Rightarrow> nat list \<Rightarrow> nat \<Rightarrow> u8 list \<Rightarrow> buffer_node list" where
  "link_last ns ps p msg =
     (let ns1 = ns[p := \<lparr>bn_msg = Some msg, bn_sz = int (length msg), bn_next = None\<rparr>]
      in if ps = [] then ns1 else ns1[last ps := (ns1 ! last ps)\<lparr>bn_next := Some p\<rparr>])"

lemma link_last_nodes:
  assumes "p < length ns" "\<forall>q \<in> set ps. q < length ns" "p \<notin> set ps"
  shows "q \<notin> insert p (set ps) \<Longrightarrow> link_last ns ps p msg ! q = ns ! q" "length (link_last ns ps p msg) = length ns"
    "q \<in> set ps \<Longrightarrow> node_msg (link_last ns ps p msg) q = node_msg ns q"
    "q \<in> set ps \<Longrightarrow> node_full (link_last ns ps p msg) q = node_full ns q"
    "node_msg (link_last ns ps p msg) p = msg" "msg \<noteq> [] \<Longrightarrow> node_full (link_last ns ps p msg) p"
  using assms by (auto simp: link_last_def Let_def node_msg_def node_full_def nth_list_update split: option.split)

lemma link_last_chain:
  assumes "chain ns a ps" "distinct ps" "p < length ns" "p \<notin> set ps"
  shows "chain (link_last ns ps p msg) (if ps = [] then Some p else a) (ps @ [p])"
proof -
  let ?ns1 = "ns[p := \<lparr>bn_msg = Some msg, bn_sz = int (length msg), bn_next = None\<rparr>]"
  have "chain ?ns1 a ps" using assms by (simp add: chain_update)
  with chain_snoc [OF this _ assms(2,4)] assms(3) show ?thesis by (auto simp: link_last_def Let_def)
qed

lemma link_last_own:
  assumes "own (pl\<lparr>pl_free := Some p\<rparr>) (p # fs) sb ps os" "msg \<noteq> []"
    and "pl_nodes pl' = link_last (pl_nodes pl) ps p msg" "pl_free pl' = bn_next (pl_nodes pl ! p)"
    and "sb_head sb' = (if ps = [] then Some p else sb_head sb)" "sb_tail sb' = Some p"
  shows "own pl' fs sb' (ps @ [p]) os" "msgs pl' (ps @ [p]) = msgs pl ps @ [msg]" "q \<in> set os \<Longrightarrow> pl_nodes pl' ! q = pl_nodes pl ! q"
proof -
  let ?ns = "pl_nodes pl"
  have o: "p < length ?ns" "chain ?ns (bn_next (?ns ! p)) fs" "chain ?ns (sb_head sb) ps" "\<forall>p \<in> set ps. node_full ?ns p"
    "\<forall>p \<in> set fs. bn_msg (?ns ! p) = None" "p \<notin> set fs" "p \<notin> set ps" "p \<notin> set os" "distinct (fs @ ps @ os)"
    "insert p (set (fs @ ps @ os)) = {..<length ?ns}"
    using assms(1) by (auto simp: own_def)
  have b: "\<forall>q \<in> set ps. q < length ?ns" using chain_bound [OF o(3)] by blast
  note l = link_last_nodes [OF o(1) b o(7)]
  have fs: "set fs \<inter> set ps = {}" "set os \<inter> set ps = {}" using o(9) by auto
  have keep: "link_last ?ns ps p msg ! q = ?ns ! q" if "q \<in> set fs \<union> set os" for q
    by (rule l(1)) (use that fs o(6,8) in auto)
  have "ps \<noteq> [] \<Longrightarrow> last ps \<notin> set fs" using fs(1) by auto
  then have "chain (link_last ?ns ps p msg) a fs = chain ?ns a fs" for a
    using o(6) by (simp add: link_last_def Let_def chain_update)
  then show "own pl' fs sb' (ps @ [p]) os"
    using o assms(2-6) l keep link_last_chain [OF o(3) _ o(1,7), of msg] unfolding own_def by auto
  show "msgs pl' (ps @ [p]) = msgs pl ps @ [msg]" using l(3,5) assms(3) by (simp add: msgs_def)
  show "q \<in> set os \<Longrightarrow> pl_nodes pl' ! q = pl_nodes pl ! q" using keep assms(3) by simp
qed

lemma lpushbuffer_ok:
  assumes "holds pl fs sb ps os bs" "msg \<noteq> []" "int (length bs + length msg) < 2 ^ 31"
  shows "\<exists>pl' sb' fs' ps'. lpushbuffer pl sb msg (int (length msg)) = Some (int (length (bs @ msg)), pl', sb') \<and>
    holds pl' fs' sb' ps' os (bs @ msg) \<and> (\<forall>p \<in> set os. pl_nodes pl' ! p = pl_nodes pl ! p) \<and>
    mset (pl_freed pl') + mset (msgs pl' ps') = mset (pl_freed pl) + mset (msgs pl ps) + {#msg#}"
proof -
  have h: "own pl fs sb ps os" "off_ok pl sb ps" "held pl sb ps = bs" "sb_size sb = int (length bs)" using assms(1) by (auto simp: holds_def)
  obtain p pl1 fs1 where t: "take_free_node pl = (p, pl1)" "own (pl1\<lparr>pl_free := Some p\<rparr>) (p # fs1) sb ps os"
    "keeps pl ps pl1 ps os" "msgs pl1 ps = msgs pl ps" using take_free_node_ok [OF h(1)] by blast
  have p: "p < length (pl_nodes pl1)" "p \<notin> set ps" "\<forall>q \<in> set ps. q < length (pl_nodes pl1)"
    using t(2) own_bound [OF t(2)] by (auto simp: own_def)
  define pl' where "pl' = pl1\<lparr>pl_nodes := link_last (pl_nodes pl1) ps p msg, pl_free := bn_next (pl_nodes pl1 ! p)\<rparr>"
  define sb' where "sb' = sb\<lparr>sb_size := int (length (bs @ msg)), sb_head := (if ps = [] then Some p else sb_head sb), sb_tail := Some p\<rparr>"
  have new: "pl_nodes pl' = link_last (pl_nodes pl1) ps p msg" "pl_free pl' = bn_next (pl_nodes pl1 ! p)" "pl_freed pl' = pl_freed pl1"
    "sb_head sb' = (if ps = [] then Some p else sb_head sb)" "sb_tail sb' = Some p" "sb_offset sb' = sb_offset sb" "sb_size sb' = int (length (bs @ msg))"
    by (simp_all add: pl'_def sb'_def)
  have push: "lpushbuffer pl sb msg (int (length msg)) = Some (int (length (bs @ msg)), pl', sb')"
  proof (cases ps rule: rev_cases)
    case Nil
    then have "sb_head sb = None" "sb_tail sb = None" using h(1) by (auto simp: own_def)
    with Nil t(1) p assms(3) h(4) show ?thesis
      by (simp add: lpushbuffer_def get_node_def set_node_def link_last_def to_s32_id Let_def pl'_def sb'_def)
  next
    case (snoc qs q)
    then have "sb_tail sb = Some q" "sb_head sb \<noteq> None" using h(1) by (cases "sb_head sb"; auto simp: own_def)+
    with snoc t(1) p assms(3) h(4) show ?thesis
      by (auto simp: lpushbuffer_def get_node_def set_node_def link_last_def to_s32_id Let_def pl'_def sb'_def)
  qed
  note own = link_last_own [OF t(2) assms(2) new(1,2,4,5)]
  have off: "off_ok pl' sb' (ps @ [p])"
    using h(2) new(6) own(2) t(4) assms(2) by (cases ps) (auto simp: off_ok_def msgs_def)
  have held: "held pl' sb' (ps @ [p]) = bs @ msg"
  proof -
    have "nat (sb_offset sb) \<le> length (concat (msgs pl ps))" using h(2) by (cases ps) (auto simp: off_ok_def msgs_def)
    then show ?thesis using h(3) new(6) own(2) t(4) by (simp add: held_def)
  qed
  have "holds pl' fs1 sb' (ps @ [p]) os (bs @ msg)"
    using own(1) off held by (simp add: holds_def new(7))
  with push own(2,3) new(3) t(3,4) show ?thesis by (fastforce simp: keeps_def)
qed

subsection \<open>Many buffers on one pool\<close>
























text \<open>A negative size: an error of Lua while there is data, a null pointer when there is none.\<close>

lemma lpopbuffer_negative:
  assumes "holds pl fs sb ps os bs" "sz < 0"
  shows "lpopbuffer pl sb sz = (if bs = [] then None else Some (Inl ''not enough memory''))"
proof (cases ps)
  case Nil
  then show ?thesis using assms holds_empty [OF assms(1)]
    by (auto simp: lpopbuffer_def pop_lstring_def head_sz_def holds_def own_def)
next
  case (Cons p qs)
  then have h: "own pl fs sb (p # qs) os" "off_ok pl sb (p # qs)" "sb_size sb = int (length bs)" "bs \<noteq> []"
    using assms(1) holds_empty [OF assms(1)] by (auto simp: holds_def)
  have "sz \<le> int (length (node_msg (pl_nodes pl) p)) - sb_offset sb" using h(2) assms(2) by (simp add: off_ok_def)
  with h(3,4) head_facts(1) [OF h(1,2)] assms(2) show ?thesis by (simp add: lpopbuffer_def pop_lstring_def)
qed

text \<open>The interface of a stream of bytes on one buffer of a pool.\<close>

definition sb_push :: "pool \<times> socket_buffer \<Rightarrow> u8 list \<Rightarrow> (pool \<times> socket_buffer) option" where
  "sb_push s msg = (case s of (pl, sb) \<Rightarrow> map_option snd (lpushbuffer pl sb msg (int (length msg))))"

definition sb_pop :: "pool \<times> socket_buffer \<Rightarrow> nat \<Rightarrow> (u8 list \<times> pool \<times> socket_buffer) option" where
  "sb_pop s n = (case s of (pl, sb) \<Rightarrow> do {
     r \<leftarrow> lpopbuffer pl sb (int n);
     (case r of Inl e \<Rightarrow> None | Inr ((str, m), pl1, sb1) \<Rightarrow> do { bs \<leftarrow> str; Some (bs, pl1, sb1) })
   })"

definition sb_rep :: "pool \<times> socket_buffer \<Rightarrow> u8 list \<Rightarrow> bool" where
  "sb_rep s bs \<longleftrightarrow> (\<exists>fs ps os. holds (fst s) fs (snd s) ps os bs)"

interpretation socket_stream: byte_stream sb_push sb_pop sb_rep "\<lambda>bs. int (length bs) < 2 ^ 31"
proof
  show "\<exists>s'. sb_push s c = Some s' \<and> sb_rep s' (bs @ c)"
    if rep: "sb_rep s bs" and c: "c \<noteq> []" "int (length (bs @ c)) < 2 ^ 31" for s bs c
  proof -
    obtain fs ps os where "holds (fst s) fs (snd s) ps os bs" using rep by (auto simp: sb_rep_def)
    from lpushbuffer_ok [OF this c(1)] c(2) show ?thesis unfolding sb_rep_def
      by (cases s) (fastforce simp: sb_push_def)
  qed
  show "\<exists>s'. sb_pop s n = Some (take n bs, s') \<and> sb_rep s' (drop n bs)"
    if rep: "sb_rep s bs" and n: "0 < n" "n \<le> length bs" for s bs n
  proof -
    obtain fs ps os where "holds (fst s) fs (snd s) ps os bs" using rep by (auto simp: sb_rep_def)
    from lpopbuffer_ok [OF this, of "int n"] n obtain pl' sb' where
      "lpopbuffer (fst s) (snd s) (int n) = Some (Inr ((Some (take n bs), int (length bs) - int n), pl', sb'))"
      "becomes (fst s) ps os pl' sb' (drop n bs)" by auto
    then show ?thesis by (cases s) (auto simp: sb_pop_def sb_rep_def becomes_def)
  qed
qed auto

text \<open>Packages of known sizes come out of a buffer whole, however the data was cut.\<close>

lemma socket_reads_packages:
  assumes "[] \<notin> set cs" "[] \<notin> set xs" "int (length (concat cs)) < 2 ^ 31" "concat cs = concat xs @ rest"
  shows "\<exists>s1 s2. socket_stream.push_all (empty_pool, lnewbuffer) cs = Some s1 \<and>
    socket_stream.pop_all s1 (map length xs) = Some (xs, s2) \<and> sb_rep s2 rest"
proof (rule socket_stream.reads_parts)
  have "holds empty_pool [] lnewbuffer [] [] []"
    by (auto simp: holds_def own_def off_ok_def held_def msgs_def empty_pool_def lnewbuffer_def)
  then show "sb_rep (empty_pool, lnewbuffer) []" by (auto simp: sb_rep_def)
qed (use assms in auto)

subsection \<open>Addresses\<close>

lemma strchr_append: "c \<notin> set a \<Longrightarrow> strchr (a @ b) c = map_option ((+) (length a)) (strchr b c)"
  by (cases "strchr b c"; induction a) auto

lemma strchr_none: "c \<notin> set a \<Longrightarrow> strchr a c = None"
  by (induction a) auto

lemma strtoul10_fmt_u: "n < 2 ^ 64 \<Longrightarrow> strtoul10 (fmt_u n) = int n"
proof -
  assume n: "n < 2 ^ 64"
  obtain c cs where p: "print_base 10 n = c # cs" by (cases "print_base 10 n") (auto simp: print_base.simps [of 10 n] split: if_splits)
  have "base_digit 10 c \<noteq> None" using print_base_digits [of 10 c n] p by simp
  then have "strip_sign (print_base 10 n) = (False, print_base 10 n)" using digit_plain [of 10 c] p by (simp add: strip_sign_def)
  then show ?thesis using n read_print_base [of 10 n] by (simp add: strtoul10_def fmt_u_def)
qed

text \<open>
  The two texts of an address and port are taken apart again: \<open>host:port\<close> for a host without
  colon and bracket, and \<open>[host]:port\<close> for a host without closing bracket, colons allowed.
\<close>

theorem address_port_round_trip:
  assumes "port < 2 ^ 31"
  shows "(CHR '':'' \<notin> set host \<and> CHR ''['' \<notin> set host \<longrightarrow>
      address_port (host @ '':'' @ fmt_u port) None = Some (Inr (host, int port))) \<and>
    (CHR '']'' \<notin> set host \<longrightarrow>
      address_port (''['' @ host @ '']:'' @ fmt_u port) None = Some (Inr (host, int port)))"
proof -
  have num: "to_s32 (strtoul10 (fmt_u port)) = int port" using assms by (simp add: strtoul10_fmt_u to_s32_id)
  have "base_digit 10 c \<noteq> None" if "c \<in> set (fmt_u port)" for c
    using print_base_digits [of 10 c port] that by (simp add: fmt_u_def)
  then have dig: "CHR ''['' \<notin> set (fmt_u port)"
    by (auto simp: base_digit_def digit_val_def code_def dest!: meta_spec [of _ "CHR ''[''"])
  show ?thesis using dig num by (auto simp: address_port_def strchr_append strchr_none)
qed

theorem address_port_round_trip_witness:
  "address_port ''game.example:8001'' None = Some (Inr (''game.example'', 8001)) \<and>
   address_port ''[::1]:80'' None = Some (Inr (''::1'', 80))"
proof -
  have "fmt_u 8001 = ''8001''" "fmt_u 80 = ''80''" by (simp_all add: fmt_u_def print_base.simps lower_hex_def)
  with address_port_round_trip [of 8001 "''game.example''"] address_port_round_trip [of 80 "''::1''"] show ?thesis by simp
qed

lemma address_port_crash: "address_port ''][:80'' None = None"
  by code_simp

end
