(* ===== verification/Socket_Server.thy ===== *)
theory Socket_Server
  imports C_Strings "HOL-Library.Monad_Syntax"
begin

text \<open>
  The socket layer: \<^verbatim>\<open>skynet-src/socket_server.c\<close>. Slots for sockets with their lists of
  buffers that wait to be written, the control pipe through which services talk to the socket
  thread, the direct writes of services, and the poll loop. Every system call is answered by the
  argument \<open>os\<close> and recorded; operations on one socket are functions of the shared \<open>world\<close> and
  the \<open>socket\<close>, those on the server are functions of \<open>socket_server\<close>.
\<close>

subsection \<open>Data\<close>

definition MAX_SOCKET_P :: nat where "MAX_SOCKET_P = 16"
definition MAX_SOCKET :: nat where "MAX_SOCKET = 2 ^ MAX_SOCKET_P"
definition MIN_READ_BUFFER :: int where "MIN_READ_BUFFER = 64"
definition WARNING_SIZE :: int where "WARNING_SIZE = 1024 * 1024"

datatype socket_type =
    SOCKET_TYPE_INVALID
  | SOCKET_TYPE_RESERVE
  | SOCKET_TYPE_PLISTEN
  | SOCKET_TYPE_LISTEN
  | SOCKET_TYPE_CONNECTING
  | SOCKET_TYPE_CONNECTED
  | SOCKET_TYPE_HALFCLOSE
  | SOCKET_TYPE_PACCEPT
  | SOCKET_TYPE_BIND

datatype priority = PRIORITY_HIGH | PRIORITY_LOW

datatype protocol = PROTOCOL_TCP | PROTOCOL_UDP | PROTOCOL_UDPv6 | PROTOCOL_UNKNOWN

definition protocol_byte :: "protocol \<Rightarrow> u8" where
  "protocol_byte p = (case p of PROTOCOL_TCP \<Rightarrow> 0 | PROTOCOL_UDP \<Rightarrow> 1 | PROTOCOL_UDPv6 \<Rightarrow> 2 | PROTOCOL_UNKNOWN \<Rightarrow> 255)"

definition HASH_ID :: "int \<Rightarrow> nat" where
  "HASH_ID i = nat (i mod int MAX_SOCKET)"

definition ID_TAG16 :: "int \<Rightarrow> u32" where
  "ID_TAG16 i = word_of_int (i div int MAX_SOCKET) AND 0xffff"

text \<open>
  A \<open>socket_sendbuffer\<close> without its id: memory, a user object (whose contents are at some
  distance from the address of the object), or a pointer that the server must not keep. The
  first component is the address, the last one the contents.
\<close>

datatype sendbuffer =
    SOCKET_BUFFER_MEMORY nat "u8 list"
  | SOCKET_BUFFER_OBJECT nat nat "u8 list"
  | SOCKET_BUFFER_RAWPOINTER nat "u8 list"

fun contents :: "sendbuffer \<Rightarrow> u8 list" where
  "contents (SOCKET_BUFFER_MEMORY a bs) = bs"
| "contents (SOCKET_BUFFER_OBJECT a d bs) = bs"
| "contents (SOCKET_BUFFER_RAWPOINTER a bs) = bs"

text \<open>\<open>ptr\<close> is an offset into the contents; \<open>udp_address\<close> is only there for UDP.\<close>

record write_buffer =
  wb_buffer :: sendbuffer
  wb_ptr :: nat
  wb_sz :: nat
  wb_udp_address :: "u8 list"

record socket_stat =
  st_rtime :: u64
  st_wtime :: u64
  st_read :: u64
  st_write :: u64

text \<open>
  The lists of buffers are HOL lists. The union \<open>p\<close> is two fields, of which TCP uses the first
  and UDP the second.
\<close>

record socket =
  s_opaque :: u64
  s_high :: "write_buffer list"
  s_low :: "write_buffer list"
  s_wb_size :: int
  s_stat :: socket_stat
  s_sending :: u32
  s_fd :: int
  s_id :: int
  s_protocol :: protocol
  s_type :: socket_type
  s_reading :: bool
  s_writing :: bool
  s_udpconnecting :: int
  s_warn_size :: int
  s_size :: int
  s_udp_address :: "u8 list"
  s_dw_offset :: nat
  s_dw_buffer :: "sendbuffer option"

datatype socket_event =
    SOCKET_DATA
  | SOCKET_CLOSE
  | SOCKET_OPEN
  | SOCKET_ACCEPT
  | SOCKET_ERR
  | SOCKET_EXIT
  | SOCKET_UDP
  | SOCKET_WARNING

datatype message_data = NoData | Text string | Data "u8 list"

record socket_message =
  sm_id :: int
  sm_opaque :: u64
  sm_ud :: int
  sm_data :: message_data

text \<open>What a handler returns: -1, or a type together with the filled \<open>result\<close>.\<close>

type_synonym report = "(socket_event \<times> socket_message) option"

definition report_type :: "report \<Rightarrow> socket_event option" where
  "report_type r = map_option fst r"

subsection \<open>The operating system\<close>

datatype errno = EINTR | EAGAIN | EINPROGRESS | EMFILE | ENFILE | Errno int

text \<open>An address with port, both in network order.\<close>

datatype sockaddr = V4 "u8 list" "u8 list" | V6 "u8 list" "u8 list"

text \<open>An event of the poll: the slot (none for the control pipe) and the flags.\<close>

record event =
  ev_s :: "nat option"
  ev_read :: bool
  ev_write :: bool
  ev_error :: bool
  ev_eof :: bool

text \<open>
  Each call on the system is recorded with its answer. A lock that may be held by another
  thread is asked for in the same way.
\<close>

datatype syscall =
    Write int "u8 list" "errno + nat"
  | Sendto int "u8 list" sockaddr "errno + nat"
  | Read int int "errno + u8 list"
  | Recvfrom int "errno + u8 list \<times> sockaddr"
  | Accept int "errno + int \<times> sockaddr"
  | Trylock int bool
  | SpAdd int "nat option" bool
  | SpEnable int bool bool bool
  | SpDel int
  | SpWait "errno + event list"
  | SoError int "errno + int"
  | Peer int "string option"
  | Sockname int "string option"
  | Getaddrinfo string int bool
  | NewSocket "errno + int"
  | Connect int sockaddr "errno option"
  | Bind int "errno option"
  | Reuseaddr int bool
  | Listen int int "errno option"
  | CloseFd int
  | Shutdown int
  | Setsockopt int string int
  | Nonblocking int
  | SkynetError string

text \<open>
  The answers of the system, as functions of all the calls before: any behaviour of the kernel
  and of the other threads is such a record. \<open>os_error_text\<close> is \<open>strerror\<close> of the current
  \<open>errno\<close>, \<open>os_inet_ntop\<close> is the text of an address.
\<close>

record os =
  os_write :: "syscall list \<Rightarrow> int \<Rightarrow> u8 list \<Rightarrow> errno + nat"
  os_sendto :: "syscall list \<Rightarrow> int \<Rightarrow> u8 list \<Rightarrow> sockaddr \<Rightarrow> errno + nat"
  os_read :: "syscall list \<Rightarrow> int \<Rightarrow> int \<Rightarrow> errno + u8 list"
  os_recvfrom :: "syscall list \<Rightarrow> int \<Rightarrow> errno + u8 list \<times> sockaddr"
  os_accept :: "syscall list \<Rightarrow> int \<Rightarrow> errno + int \<times> sockaddr"
  os_trylock :: "syscall list \<Rightarrow> int \<Rightarrow> bool"
  os_sp_add :: "syscall list \<Rightarrow> int \<Rightarrow> bool"
  os_sp_enable :: "syscall list \<Rightarrow> int \<Rightarrow> bool"
  os_sp_wait :: "syscall list \<Rightarrow> errno + event list"
  os_so_error :: "syscall list \<Rightarrow> int \<Rightarrow> errno + int"
  os_peer :: "syscall list \<Rightarrow> int \<Rightarrow> string option"
  os_sockname :: "syscall list \<Rightarrow> int \<Rightarrow> string option"
  os_getaddrinfo :: "syscall list \<Rightarrow> string \<Rightarrow> int \<Rightarrow> string + sockaddr list"
  os_socket :: "syscall list \<Rightarrow> errno + int"
  os_connect :: "syscall list \<Rightarrow> int \<Rightarrow> sockaddr \<Rightarrow> errno option"
  os_bind :: "syscall list \<Rightarrow> int \<Rightarrow> errno option"
  os_reuseaddr :: "syscall list \<Rightarrow> int \<Rightarrow> bool"
  os_listen :: "syscall list \<Rightarrow> int \<Rightarrow> errno option"
  os_error_text :: "syscall list \<Rightarrow> string"
  os_strerror_code :: "int \<Rightarrow> string"
  os_inet_ntop :: "sockaddr \<Rightarrow> string option"
  os_ntohs :: "u8 list \<Rightarrow> int"

text \<open>
  What all the sockets share: the clock, whether the interface for user objects is set, the
  calls so far, and the buffers that were freed.
\<close>

record world =
  w_time :: u64
  w_soi :: bool
  w_calls :: "syscall list"
  w_freed :: "sendbuffer list"

definition call :: "world \<Rightarrow> syscall \<Rightarrow> world" where
  "call w c = w\<lparr>w_calls := w_calls w @ [c]\<rparr>"

definition ask :: "(syscall list \<Rightarrow> 'r) \<Rightarrow> ('r \<Rightarrow> syscall) \<Rightarrow> world \<Rightarrow> 'r \<times> world" where
  "ask f c w = (let r = f (w_calls w) in (r, call w (c r)))"

definition sys_write :: "os \<Rightarrow> world \<Rightarrow> int \<Rightarrow> u8 list \<Rightarrow> (errno + nat) \<times> world" where
  "sys_write os w fd bs = ask (\<lambda>h. os_write os h fd bs) (Write fd bs) w"

definition sys_sendto :: "os \<Rightarrow> world \<Rightarrow> int \<Rightarrow> u8 list \<Rightarrow> sockaddr \<Rightarrow> (errno + nat) \<times> world" where
  "sys_sendto os w fd bs sa = ask (\<lambda>h. os_sendto os h fd bs sa) (Sendto fd bs sa) w"

definition sys_trylock :: "os \<Rightarrow> world \<Rightarrow> int \<Rightarrow> bool \<times> world" where
  "sys_trylock os w i = ask (\<lambda>h. os_trylock os h i) (Trylock i) w"

definition sp_add :: "os \<Rightarrow> world \<Rightarrow> int \<Rightarrow> nat option \<Rightarrow> bool \<times> world" where
  "sp_add os w fd ud = ask (\<lambda>h. os_sp_add os h fd) (SpAdd fd ud) w"

definition sp_enable :: "os \<Rightarrow> world \<Rightarrow> int \<Rightarrow> bool \<Rightarrow> bool \<Rightarrow> bool \<times> world" where
  "sp_enable os w fd r_on w_on = ask (\<lambda>h. os_sp_enable os h fd) (SpEnable fd r_on w_on) w"

subsection \<open>Buffers\<close>

text \<open>\<open>send_object_init\<close> calls \<open>soi.buffer\<close> and \<open>soi.size\<close>, which must be set.\<close>

definition send_object_init :: "world \<Rightarrow> sendbuffer \<Rightarrow> u8 list option" where
  "send_object_init w b =
     (case b of
        SOCKET_BUFFER_OBJECT a d bs \<Rightarrow> if w_soi w then Some bs else None
      | _ \<Rightarrow> Some (contents b))"

definition free_buffer :: "world \<Rightarrow> sendbuffer \<Rightarrow> world option" where
  "free_buffer w b =
     (case b of
        SOCKET_BUFFER_MEMORY a bs \<Rightarrow> Some (w\<lparr>w_freed := w_freed w @ [b]\<rparr>)
      | SOCKET_BUFFER_OBJECT a d bs \<Rightarrow> if w_soi w then Some (w\<lparr>w_freed := w_freed w @ [b]\<rparr>) else None
      | SOCKET_BUFFER_RAWPOINTER a bs \<Rightarrow> Some w)"

fun clone_buffer :: "sendbuffer \<Rightarrow> sendbuffer" where
  "clone_buffer (SOCKET_BUFFER_RAWPOINTER a bs) = SOCKET_BUFFER_MEMORY a bs"
| "clone_buffer b = b"

definition write_buffer_free :: "world \<Rightarrow> write_buffer \<Rightarrow> world option" where
  "write_buffer_free w wb = free_buffer w (wb_buffer wb)"

primrec free_wb_list :: "world \<Rightarrow> write_buffer list \<Rightarrow> world option" where
  "free_wb_list w [] = Some w"
| "free_wb_list w (wb # wbs) = do { w1 \<leftarrow> write_buffer_free w wb; free_wb_list w1 wbs }"

text \<open>The bytes from \<open>ptr\<close> on that a write of the head of a list passes to the system.\<close>

definition wb_data :: "write_buffer \<Rightarrow> u8 list" where
  "wb_data wb = take (wb_sz wb) (drop (wb_ptr wb) (contents (wb_buffer wb)))"

definition wb_list :: "priority \<Rightarrow> socket \<Rightarrow> write_buffer list" where
  "wb_list p s = (if p = PRIORITY_HIGH then s_high s else s_low s)"

definition set_wb_list :: "priority \<Rightarrow> write_buffer list \<Rightarrow> socket \<Rightarrow> socket" where
  "set_wb_list p l s = (if p = PRIORITY_HIGH then s\<lparr>s_high := l\<rparr> else s\<lparr>s_low := l\<rparr>)"

text \<open>
  \<open>ptr != buffer\<close>: the contents of an object are not at its own address unless the distance
  is 0.
\<close>

definition list_uncomplete :: "write_buffer list \<Rightarrow> bool" where
  "list_uncomplete l =
     (case l of
        [] \<Rightarrow> False
      | wb # _ \<Rightarrow> (case wb_buffer wb of SOCKET_BUFFER_OBJECT a d bs \<Rightarrow> d | _ \<Rightarrow> 0) + wb_ptr wb \<noteq> 0)"

definition raise_uncomplete :: "socket \<Rightarrow> socket option" where
  "raise_uncomplete s =
     (case s_low s of
        [] \<Rightarrow> None
      | tmp # rest \<Rightarrow> do { c_assert (s_high s = []); Some (s\<lparr>s_low := rest, s_high := [tmp]\<rparr>) })"

definition send_buffer_empty :: "socket \<Rightarrow> bool" where
  "send_buffer_empty s = (s_high s = [] \<and> s_low s = [])"

definition nomore_sending_data :: "socket \<Rightarrow> bool" where
  "nomore_sending_data s = (send_buffer_empty s \<and> s_dw_buffer s = None \<and> s_sending s AND 0xffff = 0)"

subsection \<open>One socket\<close>

definition message :: "socket \<Rightarrow> message_data \<Rightarrow> socket_message" where
  "message s d = \<lparr>sm_id = s_id s, sm_opaque = s_opaque s, sm_ud = 0, sm_data = d\<rparr>"

definition stat_read :: "world \<Rightarrow> socket \<Rightarrow> int \<Rightarrow> socket" where
  "stat_read w s n = s\<lparr>s_stat := (s_stat s)\<lparr>st_read := st_read (s_stat s) + word_of_int n, st_rtime := w_time w\<rparr>\<rparr>"

definition stat_write :: "world \<Rightarrow> socket \<Rightarrow> int \<Rightarrow> socket" where
  "stat_write w s n = s\<lparr>s_stat := (s_stat s)\<lparr>st_write := st_write (s_stat s) + word_of_int n, st_wtime := w_time w\<rparr>\<rparr>"

definition free_dw_buffer :: "world \<Rightarrow> socket \<Rightarrow> (world \<times> socket) option" where
  "free_dw_buffer w s =
     (case s_dw_buffer s of
        None \<Rightarrow> Some (w, s)
      | Some b \<Rightarrow> do { w1 \<leftarrow> free_buffer w b; Some (w1, s\<lparr>s_dw_buffer := None\<rparr>) })"

definition force_close :: "world \<Rightarrow> socket \<Rightarrow> (socket_message \<times> world \<times> socket) option" where
  "force_close w s =
     (if s_type s = SOCKET_TYPE_INVALID then Some (message s NoData, w, s)
      else do {
        c_assert (s_type s \<noteq> SOCKET_TYPE_RESERVE);
        w1 \<leftarrow> free_wb_list w (s_high s);
        w2 \<leftarrow> free_wb_list w1 (s_low s);
        let w3 = call w2 (SpDel (s_fd s));
        let w4 = (if s_type s \<noteq> SOCKET_TYPE_BIND then call w3 (CloseFd (s_fd s)) else w3);
        (w5, s1) \<leftarrow> free_dw_buffer w4 (s\<lparr>s_high := [], s_low := [], s_type := SOCKET_TYPE_INVALID\<rparr>);
        Some (message s NoData, w5, s1)
      })"

definition enable_write :: "os \<Rightarrow> world \<Rightarrow> socket \<Rightarrow> bool \<Rightarrow> bool \<times> world \<times> socket" where
  "enable_write os w s enable =
     (if s_writing s \<noteq> enable
      then (let (e, w1) = sp_enable os w (s_fd s) (s_reading s) enable in (e, w1, s\<lparr>s_writing := enable\<rparr>))
      else (False, w, s))"

definition enable_read :: "os \<Rightarrow> world \<Rightarrow> socket \<Rightarrow> bool \<Rightarrow> bool \<times> world \<times> socket" where
  "enable_read os w s enable =
     (if s_reading s \<noteq> enable
      then (let (e, w1) = sp_enable os w (s_fd s) enable (s_writing s) in (e, w1, s\<lparr>s_reading := enable\<rparr>))
      else (False, w, s))"

text \<open>False when the slot could not be registered.\<close>

definition new_fd :: "os \<Rightarrow> world \<Rightarrow> socket \<Rightarrow> int \<Rightarrow> int \<Rightarrow> protocol \<Rightarrow> u64 \<Rightarrow> bool \<Rightarrow> (bool \<times> world \<times> socket) option" where
  "new_fd os w s i fd protocol opaque reading = do {
     c_assert (s_type s = SOCKET_TYPE_RESERVE);
     let (err, w1) = sp_add os w fd (Some (HASH_ID i));
     (if err then Some (False, w1, s\<lparr>s_type := SOCKET_TYPE_INVALID\<rparr>)
      else do {
        c_assert (s_high s = [] \<and> s_low s = []);
        let (err1, w2, s1) = enable_read os w1
          (s\<lparr>s_id := i, s_fd := fd, s_reading := True, s_writing := False,
             s_sending := push_bit 16 (ID_TAG16 i), s_protocol := protocol, s_size := MIN_READ_BUFFER,
             s_opaque := opaque, s_wb_size := 0, s_warn_size := 0, s_dw_buffer := None,
             s_stat := \<lparr>st_rtime = 0, st_wtime = 0, st_read = 0, st_write = 0\<rparr>\<rparr>) reading;
        Some (if err1 then (False, w2, s1\<lparr>s_type := SOCKET_TYPE_INVALID\<rparr>) else (True, w2, s1))
      })
   }"

subsection \<open>Writing what waits\<close>

text \<open>
  \<open>send_list_tcp\<close>; a write that is interrupted is tried again, so that the loop returns only
  when the system lets it.
\<close>

partial_function (option) send_list_tcp ::
    "os \<Rightarrow> priority \<Rightarrow> world \<Rightarrow> socket \<Rightarrow> (report \<times> world \<times> socket) option" where
  "send_list_tcp os p w s =
     (case wb_list p s of
        [] \<Rightarrow> Some (None, w, s)
      | tmp # rest \<Rightarrow>
          (case sys_write os w (s_fd s) (wb_data tmp) of
             (Inl e, w1) \<Rightarrow>
               if e = EINTR then send_list_tcp os p w1 s
               else if e = EAGAIN then Some (None, w1, s)
               else do {
                 (m, w2, s1) \<leftarrow> force_close w1 s;
                 Some (Some (SOCKET_CLOSE, m), w2, s1)
               }
           | (Inr sz, w1) \<Rightarrow>
               (let s1 = (stat_write w1 s (int sz))\<lparr>s_wb_size := s_wb_size s - int sz\<rparr>
                in if sz \<noteq> wb_sz tmp
                   then Some (None, w1, set_wb_list p (tmp\<lparr>wb_ptr := wb_ptr tmp + sz, wb_sz := wb_sz tmp - sz\<rparr> # rest) s1)
                   else do {
                     w2 \<leftarrow> write_buffer_free w1 tmp;
                     send_list_tcp os p w2 (set_wb_list p rest s1)
                   })))"

text \<open>\<open>udp_socket_address\<close>: the address only when its first byte is the protocol of the socket.\<close>

definition udp_socket_address :: "socket \<Rightarrow> u8 list \<Rightarrow> sockaddr option" where
  "udp_socket_address s a =
     (if hd a \<noteq> protocol_byte (s_protocol s) then None
      else (case s_protocol s of
          PROTOCOL_UDP \<Rightarrow> Some (V4 (take 2 (drop 1 a)) (take 4 (drop 3 a)))
        | PROTOCOL_UDPv6 \<Rightarrow> Some (V6 (take 2 (drop 1 a)) (take 16 (drop 3 a)))
        | _ \<Rightarrow> None))"

definition drop_udp :: "priority \<Rightarrow> world \<Rightarrow> socket \<Rightarrow> write_buffer \<Rightarrow> write_buffer list \<Rightarrow> (world \<times> socket) option" where
  "drop_udp p w s tmp rest = do {
     w1 \<leftarrow> write_buffer_free w tmp;
     Some (w1, set_wb_list p rest (s\<lparr>s_wb_size := s_wb_size s - int (wb_sz tmp)\<rparr>))
   }"

text \<open>A buffer without room for an address is read outside its allocation.\<close>

function send_list_udp :: "os \<Rightarrow> priority \<Rightarrow> world \<Rightarrow> socket \<Rightarrow> (report \<times> world \<times> socket) option" where
  "send_list_udp os p w s =
     (case wb_list p s of
        [] \<Rightarrow> Some (None, w, s)
      | tmp # rest \<Rightarrow>
          if wb_udp_address tmp = [] then None
          else (case udp_socket_address s (wb_udp_address tmp) of
             None \<Rightarrow> do {
               let w0 = call w (SkynetError ''socket-server : udp type mismatch.'');
               (w1, s1) \<leftarrow> drop_udp p w0 s tmp rest;
               Some (None, w1, s1)
             }
           | Some sa \<Rightarrow>
               (case sys_sendto os w (s_fd s) (wb_data tmp) sa of
                  (Inl e, w1) \<Rightarrow>
                    if e = EINTR \<or> e = EAGAIN then Some (None, w1, s)
                    else do {
                      let w2 = call w1 (SkynetError ''socket-server : udp sendto error.'');
                      (w3, s1) \<leftarrow> drop_udp p w2 s tmp rest;
                      Some (None, w3, s1)
                    }
                | (Inr n, w1) \<Rightarrow>
                    (let s1 = (stat_write w1 s (int (wb_sz tmp)))\<lparr>s_wb_size := s_wb_size s - int (wb_sz tmp)\<rparr>
                     in do {
                       w2 \<leftarrow> write_buffer_free w1 tmp;
                       send_list_udp os p w2 (set_wb_list p rest s1)
                     }))))"
  by pat_completeness auto
termination
  by (relation "measure (\<lambda>(_, p, _, s). length (wb_list p s))") (auto simp: wb_list_def set_wb_list_def split: if_splits)

declare send_list_udp.simps [simp del]

definition send_list :: "os \<Rightarrow> priority \<Rightarrow> world \<Rightarrow> socket \<Rightarrow> (report \<times> world \<times> socket) option" where
  "send_list os p w s =
     (if s_protocol s = PROTOCOL_TCP then send_list_tcp os p w s else send_list_udp os p w s)"

text \<open>Step 4 of \<open>send_buffer_\<close>: both lists are empty.\<close>

definition send_buffer_drained :: "os \<Rightarrow> world \<Rightarrow> socket \<Rightarrow> (report \<times> world \<times> socket) option" where
  "send_buffer_drained os w s = do {
     c_assert (send_buffer_empty s \<and> s_wb_size s = 0);
     let (err, w1, s1) = enable_write os w s False;
     (if s_type s1 = SOCKET_TYPE_HALFCLOSE then do {
        (m, w2, s2) \<leftarrow> force_close w1 s1;
        Some (Some (SOCKET_CLOSE, m), w2, s2)
      }
      else if err then Some (Some (SOCKET_ERR, message s1 (Text ''disable write failed'')), w1, s1)
      else if s_warn_size s1 > 0
      then Some (Some (SOCKET_WARNING, message s1 NoData), w1, s1\<lparr>s_warn_size := 0\<rparr>)
      else Some (None, w1, s1))
   }"

definition send_buffer0 :: "os \<Rightarrow> world \<Rightarrow> socket \<Rightarrow> (report \<times> world \<times> socket) option" where
  "send_buffer0 os w s = do {
     c_assert (\<not> list_uncomplete (s_low s));
     (r, w1, s1) \<leftarrow> send_list os PRIORITY_HIGH w s;
     (if report_type r = Some SOCKET_CLOSE then Some (r, w1, s1)
      else if s_high s1 \<noteq> [] then Some (None, w1, s1)
      else if s_low s1 \<noteq> [] then do {
        (r2, w2, s2) \<leftarrow> send_list os PRIORITY_LOW w1 s1;
        (if report_type r2 = Some SOCKET_CLOSE then Some (r2, w2, s2)
         else if list_uncomplete (s_low s2) then do {
           s3 \<leftarrow> raise_uncomplete s2;
           Some (None, w2, s3)
         }
         else if s_low s2 \<noteq> [] then Some (None, w2, s2)
         else send_buffer_drained os w2 s2)
      }
      else send_buffer_drained os w1 s1)
   }"

text \<open>The rest of a direct write goes before the high list.\<close>

definition put_dw_buffer :: "world \<Rightarrow> socket \<Rightarrow> socket option" where
  "put_dw_buffer w s =
     (case s_dw_buffer s of
        None \<Rightarrow> Some s
      | Some b \<Rightarrow> do {
          bs \<leftarrow> send_object_init w b;
          let sz = length bs - s_dw_offset s;
          Some (s\<lparr>s_high := \<lparr>wb_buffer = b, wb_ptr = s_dw_offset s, wb_sz = sz, wb_udp_address = []\<rparr> # s_high s,
                  s_wb_size := s_wb_size s + int sz, s_dw_buffer := None\<rparr>)
        })"

definition send_buffer :: "os \<Rightarrow> world \<Rightarrow> socket \<Rightarrow> (report \<times> world \<times> socket) option" where
  "send_buffer os w s =
     (case sys_trylock os w (s_id s) of
        (False, w1) \<Rightarrow> Some (None, w1, s)
      | (True, w1) \<Rightarrow> do {
          s1 \<leftarrow> put_dw_buffer w1 s;
          send_buffer0 os w1 s1
        })"

subsection \<open>Taking a package\<close>

definition append_sendbuffer0 :: "world \<Rightarrow> priority \<Rightarrow> sendbuffer \<Rightarrow> u8 list \<Rightarrow> socket \<Rightarrow> socket option" where
  "append_sendbuffer0 w p b udp s = do {
     bs \<leftarrow> send_object_init w b;
     Some (set_wb_list p (wb_list p s @ [\<lparr>wb_buffer = b, wb_ptr = 0, wb_sz = length bs, wb_udp_address = udp\<rparr>])
       (s\<lparr>s_wb_size := s_wb_size s + int (length bs)\<rparr>))
   }"

definition append_sendbuffer_udp :: "world \<Rightarrow> priority \<Rightarrow> sendbuffer \<Rightarrow> u8 list \<Rightarrow> socket \<Rightarrow> socket option" where
  "append_sendbuffer_udp w p b udp s = append_sendbuffer0 w p b udp s"

definition append_sendbuffer :: "world \<Rightarrow> sendbuffer \<Rightarrow> socket \<Rightarrow> socket option" where
  "append_sendbuffer w b s = append_sendbuffer0 w PRIORITY_HIGH b [] s"

definition append_sendbuffer_low :: "world \<Rightarrow> sendbuffer \<Rightarrow> socket \<Rightarrow> socket option" where
  "append_sendbuffer_low w b s = append_sendbuffer0 w PRIORITY_LOW b [] s"

text \<open>The end of \<open>send_socket\<close>: the warning about a growing list.\<close>

definition warn_check :: "world \<Rightarrow> socket \<Rightarrow> report \<times> world \<times> socket" where
  "warn_check w s =
     (if s_wb_size s \<ge> WARNING_SIZE \<and> s_wb_size s \<ge> s_warn_size s
      then (Some (SOCKET_WARNING, (message s NoData)\<lparr>sm_ud :=
              to_s32 (if s_wb_size s mod 1024 = 0 then s_wb_size s div 1024 else s_wb_size s div 1024 + 1)\<rparr>),
            w, s\<lparr>s_warn_size := if s_warn_size s = 0 then WARNING_SIZE * 2 else s_warn_size s * 2\<rparr>)
      else (None, w, s))"

definition drop_request :: "world \<Rightarrow> sendbuffer \<Rightarrow> socket \<Rightarrow> (report \<times> world \<times> socket) option" where
  "drop_request w b s = do { w1 \<leftarrow> free_buffer w b; Some (None, w1, s) }"

definition write_on :: "os \<Rightarrow> world \<Rightarrow> socket \<Rightarrow> (report \<times> world \<times> socket) option" where
  "write_on os w s =
     (case enable_write os w s True of
        (True, w1, s1) \<Rightarrow> Some (Some (SOCKET_ERR, message s1 (Text ''enable write failed'')), w1, s1)
      | (False, w1, s1) \<Rightarrow> Some (warn_check w1 s1))"

definition send_socket :: "os \<Rightarrow> int \<Rightarrow> sendbuffer \<Rightarrow> priority \<Rightarrow> u8 list option \<Rightarrow> world \<Rightarrow> socket \<Rightarrow>
    (report \<times> world \<times> socket) option" where
  "send_socket os i b p udp w s = do {
     bs \<leftarrow> send_object_init w b;
     (if s_type s = SOCKET_TYPE_INVALID \<or> s_id s \<noteq> i \<or> s_type s = SOCKET_TYPE_HALFCLOSE \<or> s_type s = SOCKET_TYPE_PACCEPT
      then drop_request w b s
      else if s_type s = SOCKET_TYPE_PLISTEN \<or> s_type s = SOCKET_TYPE_LISTEN
      then drop_request (call w (SkynetError ''socket-server: write to listen fd.'')) b s
      else if send_buffer_empty s \<and> s_type s = SOCKET_TYPE_CONNECTED then
        (if s_protocol s = PROTOCOL_TCP then do {
           s1 \<leftarrow> append_sendbuffer w b s;
           write_on os w s1
         }
         else
           (let a = (case udp of None \<Rightarrow> s_udp_address s | Some a \<Rightarrow> a)
            in case udp_socket_address s a of
                 None \<Rightarrow> drop_request (call w (SkynetError ''socket-server: udp socket type mistach.'')) b s
               | Some sa \<Rightarrow>
                   (case sys_sendto os w (s_fd s) bs sa of
                      (Inr n, w1) \<Rightarrow>
                        if n = length bs then drop_request w1 b (stat_write w1 s (int n))
                        else do { s1 \<leftarrow> append_sendbuffer_udp w1 p b a s; write_on os w1 s1 }
                    | (Inl e, w1) \<Rightarrow> do { s1 \<leftarrow> append_sendbuffer_udp w1 p b a s; write_on os w1 s1 })))
      else do {
        s1 \<leftarrow> (if s_protocol s = PROTOCOL_TCP
               then (if p = PRIORITY_LOW then append_sendbuffer_low w b s else append_sendbuffer w b s)
               else append_sendbuffer_udp w p b (case udp of None \<Rightarrow> s_udp_address s | Some a \<Rightarrow> a) s);
        Some (warn_check w s1)
      })
   }"

definition trigger_write :: "os \<Rightarrow> int \<Rightarrow> world \<Rightarrow> socket \<Rightarrow> (report \<times> world \<times> socket) option" where
  "trigger_write os i w s =
     (if s_type s = SOCKET_TYPE_INVALID \<or> s_id s \<noteq> i then Some (None, w, s)
      else (case enable_write os w s True of
          (True, w1, s1) \<Rightarrow> Some (Some (SOCKET_ERR, message s1 (Text ''enable write failed'')), w1, s1)
        | (False, w1, s1) \<Rightarrow> Some (None, w1, s1)))"

subsection \<open>The commands of the control pipe\<close>

definition err_report :: "int \<Rightarrow> u64 \<Rightarrow> string \<Rightarrow> report" where
  "err_report i opaque text = Some (SOCKET_ERR, \<lparr>sm_id = i, sm_opaque = opaque, sm_ud = 0, sm_data = Text text\<rparr>)"

definition report_as :: "socket_event \<Rightarrow> int \<Rightarrow> u64 \<Rightarrow> message_data \<Rightarrow> report" where
  "report_as ty i opaque d = Some (ty, \<lparr>sm_id = i, sm_opaque = opaque, sm_ud = 0, sm_data = d\<rparr>)"

definition socket_keepalive :: "world \<Rightarrow> int \<Rightarrow> world" where
  "socket_keepalive w fd = call w (Setsockopt fd ''SO_KEEPALIVE'' 1)"

text \<open>
  The loop of \<open>open_socket\<close> over the addresses: the descriptor, its address, and whether it is
  connected already.
\<close>

primrec connect_loop :: "os \<Rightarrow> world \<Rightarrow> sockaddr list \<Rightarrow> (int \<times> sockaddr \<times> bool) option \<times> world" where
  "connect_loop os w [] = (None, w)"
| "connect_loop os w (ai # ais) =
     (case ask (os_socket os) NewSocket w of
        (Inl e, w1) \<Rightarrow> connect_loop os w1 ais
      | (Inr sock, w1) \<Rightarrow>
          (let w2 = call (socket_keepalive w1 sock) (Nonblocking sock)
           in case ask (\<lambda>h. os_connect os h sock ai) (Connect sock ai) w2 of
                (None, w3) \<Rightarrow> (Some (sock, ai, True), w3)
              | (Some e, w3) \<Rightarrow>
                  if e = EINPROGRESS then (Some (sock, ai, False), w3)
                  else connect_loop os (call w3 (CloseFd sock)) ais))"

definition open_socket :: "os \<Rightarrow> int \<Rightarrow> int \<Rightarrow> u64 \<Rightarrow> string \<Rightarrow> world \<Rightarrow> socket \<Rightarrow> (report \<times> world \<times> socket) option" where
  "open_socket os i port opaque host w s =
     (case os_getaddrinfo os (w_calls w) host port of
        Inl text \<Rightarrow> Some (err_report i opaque text, call w (Getaddrinfo host port False), s\<lparr>s_type := SOCKET_TYPE_INVALID\<rparr>)
      | Inr ai_list \<Rightarrow>
          (case connect_loop os (call w (Getaddrinfo host port True)) ai_list of
             (None, w1) \<Rightarrow> Some (err_report i opaque (os_error_text os (w_calls w1)), w1, s\<lparr>s_type := SOCKET_TYPE_INVALID\<rparr>)
           | (Some (sock, ai, connected), w1) \<Rightarrow> do {
               (ok, w2, ns) \<leftarrow> new_fd os w1 s i sock PROTOCOL_TCP opaque True;
               (if \<not> ok
                then Some (err_report i opaque ''reach skynet socket number limit'', call w2 (CloseFd sock), ns\<lparr>s_type := SOCKET_TYPE_INVALID\<rparr>)
                else if connected
                then Some (report_as SOCKET_OPEN i opaque (case os_inet_ntop os ai of None \<Rightarrow> NoData | Some t \<Rightarrow> Text t),
                       w2, ns\<lparr>s_type := SOCKET_TYPE_CONNECTED\<rparr>)
                else (case enable_write os w2 (ns\<lparr>s_type := SOCKET_TYPE_CONNECTING\<rparr>) True of
                    (True, w3, s3) \<Rightarrow> Some (err_report i opaque ''enable write failed'', w3, s3\<lparr>s_type := SOCKET_TYPE_INVALID\<rparr>)
                  | (False, w3, s3) \<Rightarrow> Some (None, w3, s3)))
             }))"

definition listen_socket :: "os \<Rightarrow> int \<Rightarrow> int \<Rightarrow> u64 \<Rightarrow> world \<Rightarrow> socket \<Rightarrow> (report \<times> world \<times> socket) option" where
  "listen_socket os i listen_fd opaque w s = do {
     (ok, w1, s1) \<leftarrow> new_fd os w s i listen_fd PROTOCOL_TCP opaque False;
     (if ok then Some (None, w1, s1\<lparr>s_type := SOCKET_TYPE_PLISTEN\<rparr>)
      else Some (err_report i opaque ''reach skynet socket number limit'', call w1 (CloseFd listen_fd),
             s1\<lparr>s_type := SOCKET_TYPE_INVALID\<rparr>))
   }"

definition close_socket :: "os \<Rightarrow> int \<Rightarrow> bool \<Rightarrow> u64 \<Rightarrow> world \<Rightarrow> socket \<Rightarrow> (report \<times> world \<times> socket) option" where
  "close_socket os i shut opaque w s =
     (if s_type s = SOCKET_TYPE_INVALID \<or> s_id s \<noteq> i then Some (report_as SOCKET_CLOSE i opaque NoData, w, s)
      else do {
        (r, w1, s1) \<leftarrow>
          (if nomore_sending_data s then Some (None, w, s)
           else (case enable_read os w s True of (_, w0, s0) \<Rightarrow> send_buffer os w0 s0));
        (if r \<noteq> None \<and> report_type r \<noteq> Some SOCKET_WARNING then Some (r, w1, s1)
         else if shut \<or> nomore_sending_data s1 then do {
           (m, w2, s2) \<leftarrow> force_close w1 s1;
           Some (Some (SOCKET_CLOSE, m\<lparr>sm_id := i, sm_opaque := opaque\<rparr>), w2, s2)
         }
         else Some (None, call w1 (Shutdown (s_fd s1)), s1\<lparr>s_type := SOCKET_TYPE_HALFCLOSE\<rparr>))
      })"

definition bind_socket :: "os \<Rightarrow> int \<Rightarrow> int \<Rightarrow> u64 \<Rightarrow> world \<Rightarrow> socket \<Rightarrow> (report \<times> world \<times> socket) option" where
  "bind_socket os i fd opaque w s = do {
     (ok, w1, s1) \<leftarrow> new_fd os w s i fd PROTOCOL_TCP opaque True;
     (if ok then Some (report_as SOCKET_OPEN i opaque (Text ''binding''), call w1 (Nonblocking fd), s1\<lparr>s_type := SOCKET_TYPE_BIND\<rparr>)
      else Some (err_report i opaque ''reach skynet socket number limit'', w1, s1))
   }"

definition resume_socket :: "os \<Rightarrow> int \<Rightarrow> u64 \<Rightarrow> world \<Rightarrow> socket \<Rightarrow> (report \<times> world \<times> socket) option" where
  "resume_socket os i opaque w s =
     (if s_type s = SOCKET_TYPE_INVALID \<or> s_id s \<noteq> i then Some (err_report i opaque ''invalid socket'', w, s)
      else (case enable_read os w s True of
          (True, w1, s1) \<Rightarrow> Some (err_report i opaque ''enable read failed'', w1, s1)
        | (False, w1, s1) \<Rightarrow>
            if s_type s1 = SOCKET_TYPE_PACCEPT \<or> s_type s1 = SOCKET_TYPE_PLISTEN
            then Some (report_as SOCKET_OPEN i opaque (Text ''start''), w1,
                   s1\<lparr>s_type := (if s_type s1 = SOCKET_TYPE_PACCEPT then SOCKET_TYPE_CONNECTED else SOCKET_TYPE_LISTEN),
                      s_opaque := opaque\<rparr>)
            else if s_type s1 = SOCKET_TYPE_CONNECTED
            then Some (report_as SOCKET_OPEN i opaque (Text ''transfer''), w1, s1\<lparr>s_opaque := opaque\<rparr>)
            else Some (None, w1, s1)))"

definition pause_socket :: "os \<Rightarrow> int \<Rightarrow> u64 \<Rightarrow> world \<Rightarrow> socket \<Rightarrow> (report \<times> world \<times> socket) option" where
  "pause_socket os i opaque w s =
     (if s_type s = SOCKET_TYPE_INVALID \<or> s_id s \<noteq> i then Some (None, w, s)
      else (case enable_read os w s False of
          (True, w1, s1) \<Rightarrow> Some (err_report i opaque ''enable read failed'', w1, s1)
        | (False, w1, s1) \<Rightarrow> Some (None, w1, s1)))"

definition setopt_socket :: "int \<Rightarrow> string \<Rightarrow> int \<Rightarrow> world \<Rightarrow> socket \<Rightarrow> (report \<times> world \<times> socket) option" where
  "setopt_socket i what v w s =
     (if s_type s = SOCKET_TYPE_INVALID \<or> s_id s \<noteq> i then Some (None, w, s)
      else Some (None, call w (Setsockopt (s_fd s) what v), s))"

definition add_udp_socket :: "os \<Rightarrow> int \<Rightarrow> int \<Rightarrow> bool \<Rightarrow> u64 \<Rightarrow> world \<Rightarrow> socket \<Rightarrow> (report \<times> world \<times> socket) option" where
  "add_udp_socket os i fd inet6 opaque w s = do {
     (ok, w1, s1) \<leftarrow> new_fd os w s i fd (if inet6 then PROTOCOL_UDPv6 else PROTOCOL_UDP) opaque True;
     (if ok then Some (None, w1, s1\<lparr>s_type := SOCKET_TYPE_CONNECTED, s_udp_address := replicate 19 0\<rparr>)
      else Some (None, call w1 (CloseFd fd), s1\<lparr>s_type := SOCKET_TYPE_INVALID\<rparr>))
   }"

definition set_udp_address :: "int \<Rightarrow> u8 list \<Rightarrow> world \<Rightarrow> socket \<Rightarrow> (report \<times> world \<times> socket) option" where
  "set_udp_address i a w s =
     (if s_type s = SOCKET_TYPE_INVALID \<or> s_id s \<noteq> i then Some (None, w, s)
      else if hd a \<noteq> protocol_byte (s_protocol s)
      then Some (Some (SOCKET_ERR, message s (Text ''protocol mismatch'')), w, s)
      else (let n = (if hd a = protocol_byte PROTOCOL_UDP then 7 else 19)
        in Some (None, w, s\<lparr>s_udp_address := take n a @ drop n (s_udp_address s),
             s_udpconnecting := s_udpconnecting s - 1\<rparr>)))"

subsection \<open>The count of packages on the way\<close>

text \<open>
  \<open>None\<close> when the count is full: the loop then waits for the socket thread.
\<close>

definition inc_sending_ref :: "int \<Rightarrow> socket \<Rightarrow> socket option" where
  "inc_sending_ref i s =
     (if s_protocol s \<noteq> PROTOCOL_TCP then Some s
      else if drop_bit 16 (s_sending s) = ID_TAG16 i
      then (if s_sending s AND 0xffff = 0xffff then None else Some (s\<lparr>s_sending := s_sending s + 1\<rparr>))
      else Some s)"

definition dec_sending_ref :: "int \<Rightarrow> socket \<Rightarrow> socket option" where
  "dec_sending_ref i s =
     (if s_id s = i \<and> s_protocol s = PROTOCOL_TCP
      then do { c_assert (s_sending s AND 0xffff \<noteq> 0); Some (s\<lparr>s_sending := s_sending s - 1\<rparr>) }
      else Some s)"

subsection \<open>The server\<close>

text \<open>
  A request on the control pipe, by the letter of its type. The pipe keeps whole requests: each
  is one write and one read of at most 258 bytes.
\<close>

datatype request =
    ReqR int u64
  | ReqS int u64
  | ReqB int int u64
  | ReqL int int u64
  | ReqK int bool u64
  | ReqO int int u64 string
  | ReqX
  | ReqW int
  | ReqD int sendbuffer
  | ReqP int sendbuffer
  | ReqA int sendbuffer "u8 list"
  | ReqC int "u8 list"
  | ReqT int string int
  | ReqU int int bool u64

record socket_server =
  ss_w :: world
  ss_recvctrl_fd :: int
  ss_sendctrl_fd :: int
  ss_pipe :: "request list"
  ss_checkctrl :: bool
  ss_event_fd :: int
  ss_alloc_id :: int
  ss_event_index :: nat
  ss_ev :: "event list"
  ss_slot :: "nat \<Rightarrow> socket"

definition at_slot :: "nat \<Rightarrow> (world \<Rightarrow> socket \<Rightarrow> ('r \<times> world \<times> socket) option) \<Rightarrow> socket_server \<Rightarrow>
    ('r \<times> socket_server) option" where
  "at_slot n f ss = do {
     (r, w, s) \<leftarrow> f (ss_w ss) (ss_slot ss n);
     Some (r, ss\<lparr>ss_w := w, ss_slot := (ss_slot ss)(n := s)\<rparr>)
   }"

definition change_slot :: "nat \<Rightarrow> (socket \<Rightarrow> socket option) \<Rightarrow> socket_server \<Rightarrow> socket_server option" where
  "change_slot n f ss = do { s \<leftarrow> f (ss_slot ss n); Some (ss\<lparr>ss_slot := (ss_slot ss)(n := s)\<rparr>) }"

text \<open>\<open>ATOM_INC\<close> wraps; a negative id is masked with \<open>0x7fffffff\<close>.\<close>

definition next_id :: "int \<Rightarrow> int" where
  "next_id a = (let i = to_s32 (a + 1) in if i < 0 then i mod 2 ^ 31 else i)"

primrec reserve_scan :: "nat \<Rightarrow> socket_server \<Rightarrow> int \<times> socket_server" where
  "reserve_scan 0 ss = (-1, ss)"
| "reserve_scan (Suc n) ss =
     (let i = next_id (ss_alloc_id ss); ss1 = ss\<lparr>ss_alloc_id := i\<rparr>; s = ss_slot ss (HASH_ID i)
      in if s_type s = SOCKET_TYPE_INVALID
         then (i, ss1\<lparr>ss_slot := (ss_slot ss)(HASH_ID i := s\<lparr>s_type := SOCKET_TYPE_RESERVE, s_id := i,
                s_protocol := PROTOCOL_UNKNOWN, s_udpconnecting := 0, s_fd := -1\<rparr>)\<rparr>)
         else reserve_scan n ss1)"

definition reserve_id :: "socket_server \<Rightarrow> int \<times> socket_server" where
  "reserve_id ss = reserve_scan MAX_SOCKET ss"

text \<open>The memory of the slots that \<open>MALLOC\<close> returns is the argument \<open>raw\<close>.\<close>

definition socket_server_create :: "(nat \<Rightarrow> socket) \<Rightarrow> int option \<Rightarrow> (int \<times> int) option \<Rightarrow> bool \<Rightarrow> u64 \<Rightarrow>
    socket_server option option" where
  "socket_server_create raw efd fds add_fails time =
     (case (efd, fds) of
        (Some e, Some (rfd, sfd)) \<Rightarrow>
          if add_fails then Some None
          else do {
            c_assert (rfd < 1024);
            Some (Some \<lparr>ss_w = \<lparr>w_time = time, w_soi = False, w_calls = [], w_freed = []\<rparr>,
              ss_recvctrl_fd = rfd, ss_sendctrl_fd = sfd, ss_pipe = [], ss_checkctrl = True, ss_event_fd = e,
              ss_alloc_id = 0, ss_event_index = 0, ss_ev = [],
              ss_slot = (\<lambda>n. (raw n)\<lparr>s_type := SOCKET_TYPE_INVALID, s_high := [], s_low := []\<rparr>)\<rparr>)
          }
      | _ \<Rightarrow> Some None)"

definition socket_server_updatetime :: "socket_server \<Rightarrow> u64 \<Rightarrow> socket_server" where
  "socket_server_updatetime ss time = ss\<lparr>ss_w := (ss_w ss)\<lparr>w_time := time\<rparr>\<rparr>"

definition socket_server_userobject :: "socket_server \<Rightarrow> socket_server" where
  "socket_server_userobject ss = ss\<lparr>ss_w := (ss_w ss)\<lparr>w_soi := True\<rparr>\<rparr>"

primrec release_slots :: "nat \<Rightarrow> socket_server \<Rightarrow> socket_server option" where
  "release_slots 0 ss = Some ss"
| "release_slots (Suc n) ss = do {
     ss1 \<leftarrow> release_slots n ss;
     (if s_type (ss_slot ss1 n) = SOCKET_TYPE_RESERVE then Some ss1
      else do { (_, ss2) \<leftarrow> at_slot n force_close ss1; Some ss2 })
   }"

definition socket_server_release :: "socket_server \<Rightarrow> world option" where
  "socket_server_release ss = do {
     ss1 \<leftarrow> release_slots MAX_SOCKET ss;
     Some (call (call (call (ss_w ss1) (CloseFd (ss_sendctrl_fd ss1))) (CloseFd (ss_recvctrl_fd ss1))) (CloseFd (ss_event_fd ss1)))
   }"

subsection \<open>Control commands\<close>

definition with_sending :: "int \<Rightarrow> (report \<times> socket_server) \<Rightarrow> (report \<times> socket_server) option" where
  "with_sending i rs = do {
     ss1 \<leftarrow> change_slot (HASH_ID i) (dec_sending_ref i) (snd rs);
     Some (fst rs, ss1)
   }"

fun run_request :: "os \<Rightarrow> request \<Rightarrow> socket_server \<Rightarrow> (report \<times> socket_server) option" where
  "run_request os (ReqR i opaque) ss = at_slot (HASH_ID i) (resume_socket os i opaque) ss"
| "run_request os (ReqS i opaque) ss = at_slot (HASH_ID i) (pause_socket os i opaque) ss"
| "run_request os (ReqB i fd opaque) ss = at_slot (HASH_ID i) (bind_socket os i fd opaque) ss"
| "run_request os (ReqL i fd opaque) ss = at_slot (HASH_ID i) (listen_socket os i fd opaque) ss"
| "run_request os (ReqK i shut opaque) ss = at_slot (HASH_ID i) (close_socket os i shut opaque) ss"
| "run_request os (ReqO i port opaque host) ss = at_slot (HASH_ID i) (open_socket os i port opaque host) ss"
| "run_request os ReqX ss = Some (report_as SOCKET_EXIT 0 0 NoData, ss)"
| "run_request os (ReqW i) ss = at_slot (HASH_ID i) (trigger_write os i) ss"
| "run_request os (ReqD i b) ss =
     at_slot (HASH_ID i) (send_socket os i b PRIORITY_HIGH None) ss \<bind> with_sending i"
| "run_request os (ReqP i b) ss =
     at_slot (HASH_ID i) (send_socket os i b PRIORITY_LOW None) ss \<bind> with_sending i"
| "run_request os (ReqA i b a) ss = at_slot (HASH_ID i) (send_socket os i b PRIORITY_HIGH (Some a)) ss"
| "run_request os (ReqC i a) ss = at_slot (HASH_ID i) (set_udp_address i a) ss"
| "run_request os (ReqT i what v) ss = at_slot (HASH_ID i) (setopt_socket i what v) ss"
| "run_request os (ReqU i fd inet6 opaque) ss = at_slot (HASH_ID i) (add_udp_socket os i fd inet6 opaque) ss"

text \<open>\<open>ctrl_cmd\<close> reads a request from a pipe that has one.\<close>

definition ctrl_cmd :: "os \<Rightarrow> socket_server \<Rightarrow> (report \<times> socket_server) option" where
  "ctrl_cmd os ss =
     (case ss_pipe ss of
        [] \<Rightarrow> None
      | r # rs \<Rightarrow> run_request os r (ss\<lparr>ss_pipe := rs\<rparr>))"

definition has_cmd :: "socket_server \<Rightarrow> bool" where
  "has_cmd ss = (ss_pipe ss \<noteq> [])"

subsection \<open>Reading\<close>

definition forward_message_tcp :: "os \<Rightarrow> world \<Rightarrow> socket \<Rightarrow> (report \<times> world \<times> socket) option" where
  "forward_message_tcp os w s =
     (let sz = s_size s
      in case ask (\<lambda>h. os_read os h (s_fd s) sz) (Read (s_fd s) sz) w of
           (Inl e, w1) \<Rightarrow>
             if e = EINTR then Some (None, w1, s)
             else if e = EAGAIN then Some (None, call w1 (SkynetError ''socket-server: EAGAIN capture.''), s)
             else do {
               (m, w2, s1) \<leftarrow> force_close w1 s;
               Some (Some (SOCKET_ERR, m\<lparr>sm_data := Text (os_error_text os (w_calls w2))\<rparr>), w2, s1)
             }
         | (Inr [], w1) \<Rightarrow> do {
             (m, w2, s1) \<leftarrow> force_close w1 s;
             Some (Some (SOCKET_CLOSE, m), w2, s1)
           }
         | (Inr bs, w1) \<Rightarrow>
             if s_type s = SOCKET_TYPE_HALFCLOSE then Some (None, w1, s)
             else (let n = int (length bs);
                       s1 = stat_read w1 s n;
                       s2 = (if n = sz then s1\<lparr>s_size := to_s32 (sz * 2)\<rparr>
                             else if sz > MIN_READ_BUFFER \<and> n * 2 < sz then s1\<lparr>s_size := sz div 2\<rparr>
                             else s1)
                   in Some (Some (SOCKET_DATA, (message s2 (Data bs))\<lparr>sm_ud := n\<rparr>), w1, s2)))"

fun gen_udp_address :: "sockaddr \<Rightarrow> u8 list" where
  "gen_udp_address (V4 port ip) = protocol_byte PROTOCOL_UDP # port @ ip"
| "gen_udp_address (V6 port ip) = protocol_byte PROTOCOL_UDPv6 # port @ ip"

definition sockaddr_protocol :: "sockaddr \<Rightarrow> protocol" where
  "sockaddr_protocol sa = (case sa of V4 _ _ \<Rightarrow> PROTOCOL_UDP | V6 _ _ \<Rightarrow> PROTOCOL_UDPv6)"

text \<open>The address is put behind the bytes of the package.\<close>

definition forward_message_udp :: "os \<Rightarrow> world \<Rightarrow> socket \<Rightarrow> (report \<times> world \<times> socket) option" where
  "forward_message_udp os w s =
     (case ask (\<lambda>h. os_recvfrom os h (s_fd s)) (Recvfrom (s_fd s)) w of
        (Inl e, w1) \<Rightarrow>
          if e = EINTR \<or> e = EAGAIN then Some (None, w1, s)
          else do {
            (m, w2, s1) \<leftarrow> force_close w1 s;
            Some (Some (SOCKET_ERR, m\<lparr>sm_data := Text (os_error_text os (w_calls w2))\<rparr>), w2, s1)
          }
      | (Inr (bs, sa), w1) \<Rightarrow>
          (let s1 = stat_read w1 s (int (length bs))
           in if s_protocol s \<noteq> sockaddr_protocol sa then Some (None, w1, s1)
              else Some (Some (SOCKET_UDP, (message s1 (Data (bs @ gen_udp_address sa)))\<lparr>sm_ud := int (length bs)\<rparr>), w1, s1)))"

definition report_connect :: "os \<Rightarrow> world \<Rightarrow> socket \<Rightarrow> (report \<times> world \<times> socket) option" where
  "report_connect os w s =
     (case ask (\<lambda>h. os_so_error os h (s_fd s)) (SoError (s_fd s)) w of
        (Inl e, w1) \<Rightarrow> do {
          (m, w2, s1) \<leftarrow> force_close w1 s;
          Some (Some (SOCKET_ERR, m\<lparr>sm_data := Text (os_error_text os (w_calls w2))\<rparr>), w2, s1)
        }
      | (Inr error, w1) \<Rightarrow>
          if error \<noteq> 0 then do {
            (m, w2, s1) \<leftarrow> force_close w1 s;
            Some (Some (SOCKET_ERR, m\<lparr>sm_data := Text (os_strerror_code os error)\<rparr>), w2, s1)
          }
          else (let s0 = s\<lparr>s_type := SOCKET_TYPE_CONNECTED\<rparr>
            in case (if nomore_sending_data s0 then enable_write os w1 s0 False else (False, w1, s0)) of
                 (True, w2, s1) \<Rightarrow> do {
                   (m, w3, s2) \<leftarrow> force_close w2 s1;
                   Some (Some (SOCKET_ERR, m\<lparr>sm_data := Text ''disable write failed''\<rparr>), w3, s2)
                 }
               | (False, w2, s1) \<Rightarrow>
                   (case ask (\<lambda>h. os_peer os h (s_fd s1)) (Peer (s_fd s1)) w2 of
                      (p, w3) \<Rightarrow> Some (Some (SOCKET_OPEN, message s1 (case p of None \<Rightarrow> NoData | Some t \<Rightarrow> Text t)), w3, s1))))"

definition getname :: "os \<Rightarrow> sockaddr \<Rightarrow> string option" where
  "getname os sa =
     (case sa of
        V4 port ip \<Rightarrow> map_option (\<lambda>t. t @ '':'' @ fmt_d (os_ntohs os port)) (os_inet_ntop os sa)
      | V6 port ip \<Rightarrow> map_option (\<lambda>t. t @ '':'' @ fmt_d (os_ntohs os port)) (os_inet_ntop os sa))"

text \<open>
  \<open>report_accept\<close> on slot \<open>n\<close>: an accepted connection, an error because descriptors ran out,
  or nothing.
\<close>

definition report_accept :: "os \<Rightarrow> nat \<Rightarrow> socket_server \<Rightarrow> (report \<times> socket_server) option" where
  "report_accept os n ss =
     (let s = ss_slot ss n
      in case ask (\<lambda>h. os_accept os h (s_fd s)) (Accept (s_fd s)) (ss_w ss) of
           (Inl e, w1) \<Rightarrow>
             if e = EMFILE \<or> e = ENFILE
             then Some (Some (SOCKET_ERR, message s (Text (os_error_text os (w_calls w1)))), ss\<lparr>ss_w := w1\<rparr>)
             else Some (None, ss\<lparr>ss_w := w1\<rparr>)
         | (Inr (client_fd, sa), w1) \<Rightarrow>
             (case reserve_id (ss\<lparr>ss_w := w1\<rparr>) of
                (i, ss1) \<Rightarrow>
                  if i < 0 then Some (None, ss1\<lparr>ss_w := call (ss_w ss1) (CloseFd client_fd)\<rparr>)
                  else do {
                    let ss2 = ss1\<lparr>ss_w := call (socket_keepalive (ss_w ss1) client_fd) (Nonblocking client_fd)\<rparr>;
                    (ok, ss3) \<leftarrow> at_slot (HASH_ID i) (\<lambda>w ns. new_fd os w ns i client_fd PROTOCOL_TCP (s_opaque s) False) ss2;
                    (if \<not> ok then Some (None, ss3\<lparr>ss_w := call (ss_w ss3) (CloseFd client_fd)\<rparr>)
                     else do {
                       ss4 \<leftarrow> change_slot n (\<lambda>s. Some (stat_read (ss_w ss3) s 1)) ss3;
                       ss5 \<leftarrow> change_slot (HASH_ID i) (\<lambda>ns. Some (ns\<lparr>s_type := SOCKET_TYPE_PACCEPT\<rparr>)) ss4;
                       Some (Some (SOCKET_ACCEPT, \<lparr>sm_id = s_id s, sm_opaque = s_opaque s, sm_ud = i,
                               sm_data = (case getname os sa of None \<Rightarrow> NoData | Some t \<Rightarrow> Text t)\<rparr>), ss5)
                     })
                  }))"

subsection \<open>The poll\<close>

text \<open>The first event on the closed slot among those not handled yet loses its slot.\<close>

fun clear_events :: "(nat \<Rightarrow> socket) \<Rightarrow> int \<Rightarrow> event list \<Rightarrow> event list" where
  "clear_events slot i [] = []"
| "clear_events slot i (e # es) =
     (case ev_s e of
        Some n \<Rightarrow> if s_type (slot n) = SOCKET_TYPE_INVALID \<and> s_id (slot n) = i then e\<lparr>ev_s := None\<rparr> # es
          else e # clear_events slot i es
      | None \<Rightarrow> e # clear_events slot i es)"

definition clear_closed_event :: "report \<Rightarrow> socket_server \<Rightarrow> socket_server" where
  "clear_closed_event r ss =
     (case r of
        Some (ty, m) \<Rightarrow>
          if ty = SOCKET_CLOSE \<or> ty = SOCKET_ERR
          then ss\<lparr>ss_ev := take (ss_event_index ss) (ss_ev ss) @
                 clear_events (ss_slot ss) (sm_id m) (drop (ss_event_index ss) (ss_ev ss))\<rparr>
          else ss
      | None \<Rightarrow> ss)"

text \<open>An iteration of the loop goes on or returns a report (\<open>None\<close> for -1).\<close>

datatype poll_outcome = Again | Return report

definition outcome :: "report \<Rightarrow> poll_outcome" where
  "outcome r = (case r of None \<Rightarrow> Again | Some _ \<Rightarrow> Return r)"

text \<open>The branch for sockets that carry data.\<close>

definition data_event :: "os \<Rightarrow> event \<Rightarrow> nat \<Rightarrow> socket_server \<Rightarrow> (poll_outcome \<times> socket_server) option" where
  "data_event os e n ss =
     (if ev_read e then do {
        (r, ss1) \<leftarrow> at_slot n (if s_protocol (ss_slot ss n) = PROTOCOL_TCP then forward_message_tcp os else forward_message_udp os) ss;
        (if s_protocol (ss_slot ss n) \<noteq> PROTOCOL_TCP \<and> report_type r = Some SOCKET_UDP
         then Some (Return r, ss1\<lparr>ss_event_index := ss_event_index ss1 - 1\<rparr>)
         else if ev_write e \<and> report_type r \<notin> {Some SOCKET_CLOSE, Some SOCKET_ERR}
         then Some (outcome r, ss1\<lparr>ss_event_index := ss_event_index ss1 - 1,
                ss_ev := (ss_ev ss1)[ss_event_index ss1 - 1 := e\<lparr>ev_read := False\<rparr>]\<rparr>)
         else Some (outcome r, ss1))
      }
      else if ev_write e then do { (r, ss1) \<leftarrow> at_slot n (send_buffer os) ss; Some (outcome r, ss1) }
      else if ev_error e then do {
        let s = ss_slot ss n;
        let (code, w1) = ask (\<lambda>h. os_so_error os h (s_fd s)) (SoError (s_fd s)) (ss_w ss);
        let err = (case code of Inl _ \<Rightarrow> os_error_text os (w_calls w1)
          | Inr error \<Rightarrow> if error \<noteq> 0 then os_strerror_code os error else ''Unknown error'');
        (m, ss1) \<leftarrow> at_slot n force_close (ss\<lparr>ss_w := w1\<rparr>);
        Some (Return (Some (SOCKET_ERR, m\<lparr>sm_data := Text err\<rparr>)), ss1)
      }
      else if ev_eof e then do {
        (m, ss1) \<leftarrow> at_slot n force_close ss;
        Some (Return (Some (SOCKET_CLOSE, m)), ss1)
      }
      else Some (Again, ss))"

definition poll_event :: "os \<Rightarrow> socket_server \<Rightarrow> (poll_outcome \<times> socket_server) option" where
  "poll_event os ss = do {
     e \<leftarrow> rd (ss_ev ss) (ss_event_index ss);
     let ss1 = ss\<lparr>ss_event_index := ss_event_index ss + 1\<rparr>;
     (case ev_s e of
        None \<Rightarrow> Some (Again, ss1)
      | Some n \<Rightarrow>
          (case s_type (ss_slot ss n) of
             SOCKET_TYPE_CONNECTING \<Rightarrow> do { (r, ss2) \<leftarrow> at_slot n (report_connect os) ss1; Some (Return r, ss2) }
           | SOCKET_TYPE_LISTEN \<Rightarrow> do { (r, ss2) \<leftarrow> report_accept os n ss1; Some (outcome r, ss2) }
           | SOCKET_TYPE_INVALID \<Rightarrow>
               Some (Again, ss1\<lparr>ss_w := call (ss_w ss1) (SkynetError ''socket-server: invalid socket'')\<rparr>)
           | _ \<Rightarrow> data_event os e n ss1))
   }"

text \<open>One iteration; the flag is what is stored in \<open>more\<close>.\<close>

definition poll_step :: "os \<Rightarrow> bool \<Rightarrow> socket_server \<Rightarrow> (poll_outcome \<times> bool \<times> socket_server) option" where
  "poll_step os mo ss =
     (if ss_checkctrl ss \<and> has_cmd ss then do {
        (r, ss1) \<leftarrow> ctrl_cmd os ss;
        Some (outcome r, mo, clear_closed_event r ss1)
      }
      else (let ss1 = ss\<lparr>ss_checkctrl := False\<rparr>
        in if ss_event_index ss1 = length (ss_ev ss1)
           then (case ask (os_sp_wait os) SpWait (ss_w ss1) of
               (Inl e, w1) \<Rightarrow> Some (if e = EINTR then Again else Return None, False,
                 ss1\<lparr>ss_w := w1, ss_checkctrl := True, ss_event_index := 0, ss_ev := []\<rparr>)
             | (Inr evs, w1) \<Rightarrow>
                 (let ss2 = ss1\<lparr>ss_w := w1, ss_checkctrl := True, ss_event_index := 0, ss_ev := evs\<rparr>
                  in if evs = [] then Some (Return None, False, ss2)
                     else do { (r, ss3) \<leftarrow> poll_event os ss2; Some (r, False, ss3) }))
           else do { (r, ss2) \<leftarrow> poll_event os ss1; Some (r, mo, ss2) }))"

partial_function (option) socket_server_poll :: "os \<Rightarrow> bool \<Rightarrow> socket_server \<Rightarrow> (report \<times> bool \<times> socket_server) option" where
  "socket_server_poll os mo ss = do {
     (out, m1, ss1) \<leftarrow> poll_step os mo ss;
     (case out of Again \<Rightarrow> socket_server_poll os m1 ss1 | Return r \<Rightarrow> Some (r, m1, ss1))
   }"

subsection \<open>Requests of the services\<close>

definition send_request :: "socket_server \<Rightarrow> request \<Rightarrow> socket_server" where
  "send_request ss r = ss\<lparr>ss_pipe := ss_pipe ss @ [r]\<rparr>"

text \<open>\<open>sizeof(request_open)\<close> is 24.\<close>

definition open_request :: "socket_server \<Rightarrow> string \<Rightarrow> int \<times> socket_server" where
  "open_request ss addr =
     (if length addr + 24 \<ge> 256
      then (-1, ss\<lparr>ss_w := call (ss_w ss) (SkynetError (''socket-server : Invalid addr '' @ addr))\<rparr>)
      else reserve_id ss)"

definition socket_server_connect :: "socket_server \<Rightarrow> u64 \<Rightarrow> string \<Rightarrow> int \<Rightarrow> int \<times> socket_server" where
  "socket_server_connect ss opaque addr port =
     (let (i, ss1) = open_request ss addr
      in if i < 0 then (-1, ss1) else (i, send_request ss1 (ReqO i port opaque addr)))"

definition can_direct_write :: "socket \<Rightarrow> int \<Rightarrow> bool" where
  "can_direct_write s i =
     (s_id s = i \<and> nomore_sending_data s \<and> s_type s = SOCKET_TYPE_CONNECTED \<and> s_udpconnecting s = 0)"

text \<open>
  A direct write, under the lock of the socket: the number of bytes written (0 after an error)
  is compared with the size, and the rest is left to the socket thread.
\<close>

definition direct_write :: "int \<Rightarrow> sendbuffer \<Rightarrow> u8 list \<Rightarrow> errno + nat \<Rightarrow> socket_server \<Rightarrow> (int \<times> socket_server) option" where
  "direct_write i b bs r ss =
     (let n = (case r of Inl _ \<Rightarrow> 0 | Inr n \<Rightarrow> n); h = HASH_ID i;
          s1 = stat_write (ss_w ss) (ss_slot ss h) (int n)
      in if n = length bs
         then do {
           w1 \<leftarrow> free_buffer (ss_w ss) b;
           Some (0, ss\<lparr>ss_w := w1, ss_slot := (ss_slot ss)(h := s1)\<rparr>)
         }
         else do {
           s2 \<leftarrow> inc_sending_ref i (s1\<lparr>s_dw_buffer := Some (clone_buffer b), s_dw_offset := n\<rparr>);
           Some (0, send_request (ss\<lparr>ss_slot := (ss_slot ss)(h := s2)\<rparr>) (ReqW i))
         })"

definition enqueue_send :: "int \<Rightarrow> request \<Rightarrow> socket_server \<Rightarrow> (int \<times> socket_server) option" where
  "enqueue_send i r ss = do {
     ss1 \<leftarrow> change_slot (HASH_ID i) (inc_sending_ref i) ss;
     Some (0, send_request ss1 r)
   }"

definition socket_server_send :: "os \<Rightarrow> socket_server \<Rightarrow> int \<Rightarrow> sendbuffer \<Rightarrow> (int \<times> socket_server) option" where
  "socket_server_send os ss i b =
     (let s = ss_slot ss (HASH_ID i)
      in if s_id s \<noteq> i \<or> s_type s = SOCKET_TYPE_INVALID
         then do { w1 \<leftarrow> free_buffer (ss_w ss) b; Some (-1, ss\<lparr>ss_w := w1\<rparr>) }
         else if can_direct_write s i
         then (case sys_trylock os (ss_w ss) i of
             (False, w1) \<Rightarrow> enqueue_send i (ReqD i (clone_buffer b)) (ss\<lparr>ss_w := w1\<rparr>)
           | (True, w1) \<Rightarrow> do {
               bs \<leftarrow> send_object_init w1 b;
               (if s_protocol s = PROTOCOL_TCP
                then (case sys_write os w1 (s_fd s) bs of (r, w2) \<Rightarrow> direct_write i b bs r (ss\<lparr>ss_w := w2\<rparr>))
                else (case udp_socket_address s (s_udp_address s) of
                    None \<Rightarrow> do {
                      w2 \<leftarrow> free_buffer (call w1 (SkynetError ''socket-server : set udp address first.'')) b;
                      Some (-1, ss\<lparr>ss_w := w2\<rparr>)
                    }
                  | Some sa \<Rightarrow>
                      (case sys_sendto os w1 (s_fd s) bs sa of (r, w2) \<Rightarrow> direct_write i b bs r (ss\<lparr>ss_w := w2\<rparr>))))
             })
         else enqueue_send i (ReqD i (clone_buffer b)) ss)"

definition socket_server_send_lowpriority :: "socket_server \<Rightarrow> int \<Rightarrow> sendbuffer \<Rightarrow> (int \<times> socket_server) option" where
  "socket_server_send_lowpriority ss i b =
     (let s = ss_slot ss (HASH_ID i)
      in if s_id s \<noteq> i \<or> s_type s = SOCKET_TYPE_INVALID
         then do { w1 \<leftarrow> free_buffer (ss_w ss) b; Some (-1, ss\<lparr>ss_w := w1\<rparr>) }
         else enqueue_send i (ReqP i (clone_buffer b)) ss)"

definition socket_server_exit :: "socket_server \<Rightarrow> socket_server" where
  "socket_server_exit ss = send_request ss ReqX"

definition socket_server_close :: "socket_server \<Rightarrow> u64 \<Rightarrow> int \<Rightarrow> socket_server" where
  "socket_server_close ss opaque i = send_request ss (ReqK i False opaque)"

definition socket_server_shutdown :: "socket_server \<Rightarrow> u64 \<Rightarrow> int \<Rightarrow> socket_server" where
  "socket_server_shutdown ss opaque i = send_request ss (ReqK i True opaque)"

definition socket_server_start :: "socket_server \<Rightarrow> u64 \<Rightarrow> int \<Rightarrow> socket_server" where
  "socket_server_start ss opaque i = send_request ss (ReqR i opaque)"

definition socket_server_pause :: "socket_server \<Rightarrow> u64 \<Rightarrow> int \<Rightarrow> socket_server" where
  "socket_server_pause ss opaque i = send_request ss (ReqS i opaque)"

definition socket_server_nodelay :: "socket_server \<Rightarrow> int \<Rightarrow> socket_server" where
  "socket_server_nodelay ss i = send_request ss (ReqT i ''TCP_NODELAY'' 1)"

subsection \<open>Listening\<close>

text \<open>
  The bound descriptor with its family (true for IPv6), or none. An empty list of addresses
  would be a null dereference.
\<close>

definition do_bind :: "os \<Rightarrow> world \<Rightarrow> string option \<Rightarrow> int \<Rightarrow> ((int \<times> bool) option \<times> world) option" where
  "do_bind os w host port =
     (let name = (case host of None \<Rightarrow> ''0.0.0.0'' | Some h \<Rightarrow> if h = [] then ''0.0.0.0'' else h)
      in case os_getaddrinfo os (w_calls w) name port of
           Inl _ \<Rightarrow> Some (None, call w (Getaddrinfo name port False))
         | Inr [] \<Rightarrow> None
         | Inr (ai # _) \<Rightarrow>
             (case ask (os_socket os) NewSocket (call w (Getaddrinfo name port True)) of
                (Inl e, w1) \<Rightarrow> Some (None, w1)
              | (Inr fd, w1) \<Rightarrow>
                  (case ask (\<lambda>h. os_reuseaddr os h fd) (Reuseaddr fd) w1 of
                     (True, w2) \<Rightarrow> Some (None, call w2 (CloseFd fd))
                   | (False, w2) \<Rightarrow>
                       (case ask (\<lambda>h. os_bind os h fd) (Bind fd) w2 of
                          (Some e, w3) \<Rightarrow> Some (None, call w3 (CloseFd fd))
                        | (None, w3) \<Rightarrow> Some (Some (fd, sockaddr_protocol ai = PROTOCOL_UDPv6), w3)))))"

definition do_listen :: "os \<Rightarrow> world \<Rightarrow> string option \<Rightarrow> int \<Rightarrow> int \<Rightarrow> (int option \<times> world) option" where
  "do_listen os w host port backlog = do {
     (r, w1) \<leftarrow> do_bind os w host port;
     (case r of
        None \<Rightarrow> Some (None, w1)
      | Some (fd, _) \<Rightarrow>
          (case ask (\<lambda>h. os_listen os h fd) (Listen fd backlog) w1 of
             (Some e, w2) \<Rightarrow> Some (None, call w2 (CloseFd fd))
           | (None, w2) \<Rightarrow> Some (Some fd, w2)))
   }"

definition socket_server_listen :: "os \<Rightarrow> socket_server \<Rightarrow> u64 \<Rightarrow> string option \<Rightarrow> int \<Rightarrow> int \<Rightarrow> (int \<times> socket_server) option" where
  "socket_server_listen os ss opaque addr port backlog = do {
     (r, w1) \<leftarrow> do_listen os (ss_w ss) addr port backlog;
     (case r of
        None \<Rightarrow> Some (-1, ss\<lparr>ss_w := w1\<rparr>)
      | Some fd \<Rightarrow>
          (case reserve_id (ss\<lparr>ss_w := w1\<rparr>) of
             (i, ss1) \<Rightarrow>
               if i < 0 then Some (i, ss1\<lparr>ss_w := call (ss_w ss1) (CloseFd fd)\<rparr>)
               else Some (i, send_request ss1 (ReqL i fd opaque))))
   }"

definition socket_server_bind :: "socket_server \<Rightarrow> u64 \<Rightarrow> int \<Rightarrow> int \<times> socket_server" where
  "socket_server_bind ss opaque fd =
     (let (i, ss1) = reserve_id ss
      in if i < 0 then (-1, ss1) else (i, send_request ss1 (ReqB i fd opaque)))"

subsection \<open>UDP\<close>

definition socket_server_udp :: "os \<Rightarrow> socket_server \<Rightarrow> u64 \<Rightarrow> string option \<Rightarrow> int \<Rightarrow> (int \<times> socket_server) option" where
  "socket_server_udp os ss opaque addr port = do {
     (r, w1) \<leftarrow> (if port \<noteq> 0 \<or> addr \<noteq> None then do_bind os (ss_w ss) addr port
                else (case ask (os_socket os) NewSocket (ss_w ss) of
                    (Inl e, w1) \<Rightarrow> Some (None, w1)
                  | (Inr fd, w1) \<Rightarrow> Some (Some (fd, False), w1)));
     (case r of
        None \<Rightarrow> Some (-1, ss\<lparr>ss_w := w1\<rparr>)
      | Some (fd, inet6) \<Rightarrow>
          (case reserve_id (ss\<lparr>ss_w := call w1 (Nonblocking fd)\<rparr>) of
             (i, ss1) \<Rightarrow>
               if i < 0 then Some (-1, ss1\<lparr>ss_w := call (ss_w ss1) (CloseFd fd)\<rparr>)
               else Some (i, send_request ss1 (ReqU i fd inet6 opaque))))
   }"

definition udp_address_size :: "u8 list \<Rightarrow> nat option" where
  "udp_address_size a =
     (if hd a = protocol_byte PROTOCOL_UDP then Some 7
      else if hd a = protocol_byte PROTOCOL_UDPv6 then Some 19 else None)"

definition socket_server_udp_send :: "os \<Rightarrow> socket_server \<Rightarrow> u8 list \<Rightarrow> int \<Rightarrow> sendbuffer \<Rightarrow> (int \<times> socket_server) option" where
  "socket_server_udp_send os ss addr i b =
     (let s = ss_slot ss (HASH_ID i); give_up = do { w1 \<leftarrow> free_buffer (ss_w ss) b; Some (-1, ss\<lparr>ss_w := w1\<rparr>) }
      in if s_id s \<noteq> i \<or> s_type s = SOCKET_TYPE_INVALID then give_up
         else (case udp_address_size addr of
             None \<Rightarrow> give_up
           | Some addrsz \<Rightarrow>
               (let request = ReqA i (clone_buffer b) (take addrsz addr)
                in if can_direct_write s i
                   then (case sys_trylock os (ss_w ss) i of
                       (False, w1) \<Rightarrow> Some (0, send_request (ss\<lparr>ss_w := w1\<rparr>) request)
                     | (True, w1) \<Rightarrow> do {
                         bs \<leftarrow> send_object_init w1 b;
                         (case udp_socket_address s addr of
                            None \<Rightarrow> do { w2 \<leftarrow> free_buffer w1 b; Some (-1, ss\<lparr>ss_w := w2\<rparr>) }
                          | Some sa \<Rightarrow>
                              (case sys_sendto os w1 (s_fd s) bs sa of
                                 (Inr n, w2) \<Rightarrow> do {
                                   w3 \<leftarrow> free_buffer w2 b;
                                   Some (0, ss\<lparr>ss_w := w3, ss_slot := (ss_slot ss)(HASH_ID i := stat_write w2 s (int n))\<rparr>)
                                 }
                               | (Inl e, w2) \<Rightarrow> Some (0, send_request (ss\<lparr>ss_w := w2\<rparr>) request)))
                       })
                   else Some (0, send_request ss request))))"

definition socket_server_udp_connect :: "os \<Rightarrow> socket_server \<Rightarrow> int \<Rightarrow> string \<Rightarrow> int \<Rightarrow> (int \<times> socket_server) option" where
  "socket_server_udp_connect os ss i addr port =
     (let s = ss_slot ss (HASH_ID i)
      in if s_id s \<noteq> i \<or> s_type s = SOCKET_TYPE_INVALID then Some (-1, ss)
         else (let ss1 = ss\<lparr>ss_slot := (ss_slot ss)(HASH_ID i := s\<lparr>s_udpconnecting := s_udpconnecting s + 1\<rparr>)\<rparr>
           in case os_getaddrinfo os (w_calls (ss_w ss)) addr port of
                Inl _ \<Rightarrow> Some (-1, ss1\<lparr>ss_w := call (ss_w ss) (Getaddrinfo addr port False)\<rparr>)
              | Inr [] \<Rightarrow> None
              | Inr (sa # _) \<Rightarrow>
                  Some (0, send_request (ss1\<lparr>ss_w := call (ss_w ss) (Getaddrinfo addr port True)\<rparr>)
                    (ReqC i (gen_udp_address sa)))))"

definition socket_server_udp_address :: "socket_message \<Rightarrow> u8 list option" where
  "socket_server_udp_address m =
     (case sm_data m of
        Data bs \<Rightarrow>
          (let address = drop (nat (sm_ud m)) bs
           in case udp_address_size address of None \<Rightarrow> None | Some addrsz \<Rightarrow> Some (take addrsz address))
      | _ \<Rightarrow> None)"

subsection \<open>Information\<close>

datatype info_type = SOCKET_INFO_LISTEN | SOCKET_INFO_TCP | SOCKET_INFO_UDP | SOCKET_INFO_BIND

record socket_info =
  si_id :: int
  si_type :: info_type
  si_opaque :: u64
  si_stat :: socket_stat
  si_wbuffer :: int
  si_reading :: bool
  si_writing :: bool
  si_name :: "string option"

definition info_of :: "socket \<Rightarrow> info_type \<Rightarrow> string option \<Rightarrow> socket_info" where
  "info_of s ty name = \<lparr>si_id = s_id s, si_type = ty, si_opaque = s_opaque s, si_stat = s_stat s,
     si_wbuffer = s_wb_size s, si_reading = s_reading s, si_writing = s_writing s, si_name = name\<rparr>"

definition query_info :: "os \<Rightarrow> world \<Rightarrow> socket \<Rightarrow> socket_info option \<times> world" where
  "query_info os w s =
     (case s_type s of
        SOCKET_TYPE_BIND \<Rightarrow> (Some (info_of s SOCKET_INFO_BIND (Some [])), w)
      | SOCKET_TYPE_LISTEN \<Rightarrow>
          (case ask (\<lambda>h. os_sockname os h (s_fd s)) (Sockname (s_fd s)) w of
             (name, w1) \<Rightarrow> (Some (info_of s SOCKET_INFO_LISTEN name), w1))
      | SOCKET_TYPE_CONNECTED \<Rightarrow>
          if s_protocol s = PROTOCOL_TCP
          then (case ask (\<lambda>h. os_peer os h (s_fd s)) (Peer (s_fd s)) w of
              (name, w1) \<Rightarrow> (Some (info_of s SOCKET_INFO_TCP name), w1))
          else (Some (info_of s SOCKET_INFO_UDP
              (case udp_socket_address s (s_udp_address s) of None \<Rightarrow> None | Some sa \<Rightarrow> getname os sa)), w)
      | _ \<Rightarrow> (None, w))"

primrec info_slots :: "os \<Rightarrow> (nat \<Rightarrow> socket) \<Rightarrow> nat \<Rightarrow> world \<Rightarrow> socket_info list \<times> world" where
  "info_slots os slot 0 w = ([], w)"
| "info_slots os slot (Suc n) w =
     (let (si, w1) = info_slots os slot n w; (r, w2) = query_info os w1 (slot n)
      in (case r of None \<Rightarrow> si | Some i \<Rightarrow> i # si, w2))"

definition socket_server_info :: "os \<Rightarrow> socket_server \<Rightarrow> socket_info list \<times> socket_server" where
  "socket_server_info os ss =
     (let (si, w1) = info_slots os (ss_slot ss) MAX_SOCKET (ss_w ss) in (si, ss\<lparr>ss_w := w1\<rparr>))"

end
