(* ===== verification/Socket_Writing.thy ===== *)
theory Socket_Writing
  imports Socket_Server
begin

text \<open>
  Writing to a TCP socket: whatever the kernel takes of each write, bytes move in order from the
  lists of a socket to the wire, buffers are freed when they are written, and an accepted
  package is put at the right place.
\<close>

subsection \<open>Bytes on the wire\<close>

fun wire_of :: "int \<Rightarrow> syscall \<Rightarrow> u8 list" where
  "wire_of fd (Write fd' bs (Inr n)) = (if fd' = fd then take n bs else [])"
| "wire_of fd _ = []"

definition wire :: "world \<Rightarrow> int \<Rightarrow> u8 list" where
  "wire w fd = concat (map (wire_of fd) (w_calls w))"

lemma wire_call [simp]: "wire (call w c) fd = wire w fd @ wire_of fd c"
  by (simp add: wire_def call_def)

lemma call_fields [simp]: "w_freed (call w c) = w_freed w" "w_soi (call w c) = w_soi w" "w_time (call w c) = w_time w"
  by (simp_all add: call_def)

lemma wire_fields [simp]: "wire (w\<lparr>w_freed := x\<rparr>) fd = wire w fd" "wire (w\<lparr>w_time := t\<rparr>) fd = wire w fd"
  by (simp_all add: wire_def)

lemma free_buffer_wire: "free_buffer w b = Some w' \<Longrightarrow> wire w' fd = wire w fd \<and> w_calls w' = w_calls w \<and> w_soi w' = w_soi w"
  by (auto simp: free_buffer_def wire_def split: sendbuffer.splits if_splits)

text \<open>
  What the documentation of \<open>write\<close> says: it takes at most what it is given, and it is not
  interrupted for ever.
\<close>

definition kernel_ok :: "os \<Rightarrow> bool" where
  "kernel_ok os \<longleftrightarrow>
     (\<forall>h fd bs n. os_write os h fd bs = Inr n \<longrightarrow> n \<le> length bs) \<and>
     (\<forall>h fd bs. \<exists>k. os_write os (h @ replicate k (Write fd bs (Inl EINTR))) fd bs \<noteq> Inl EINTR)"

text \<open>Buffers that are memory, which is what the services of this program send.\<close>

fun is_memory :: "sendbuffer \<Rightarrow> bool" where
  "is_memory (SOCKET_BUFFER_MEMORY _ _) = True"
| "is_memory _ = False"

lemma is_memory_simps:
  assumes "is_memory b"
  shows "send_object_init w b = Some (contents b)" "free_buffer w b = Some (w\<lparr>w_freed := w_freed w @ [b]\<rparr>)"
    "clone_buffer b = b"
  using assms by (cases b; simp add: send_object_init_def free_buffer_def)+

text \<open>A buffer in a list: \<open>sz\<close> bytes from \<open>ptr\<close> on are the rest of the contents.\<close>

definition wb_ok :: "write_buffer \<Rightarrow> bool" where
  "wb_ok wb \<longleftrightarrow> is_memory (wb_buffer wb) \<and> wb_ptr wb \<le> length (contents (wb_buffer wb)) \<and>
     wb_sz wb = length (contents (wb_buffer wb)) - wb_ptr wb"

definition whole :: "write_buffer \<Rightarrow> bool" where
  "whole wb \<longleftrightarrow> wb_ok wb \<and> wb_ptr wb = 0"

lemma whole_data: "whole wb \<Longrightarrow> wb_data wb = contents (wb_buffer wb)"
  by (simp add: whole_def wb_ok_def wb_data_def)

lemma wb_ok_data: "wb_ok wb \<Longrightarrow> wb_data wb = drop (wb_ptr wb) (contents (wb_buffer wb)) \<and> length (wb_data wb) = wb_sz wb"
  by (simp add: wb_ok_def wb_data_def)

lemma wb_ok_free: "wb_ok wb \<Longrightarrow> write_buffer_free w wb = Some (w\<lparr>w_freed := w_freed w @ [wb_buffer wb]\<rparr>)"
  by (simp add: wb_ok_def write_buffer_free_def is_memory_simps)

definition list_ok :: "write_buffer list \<Rightarrow> bool" where
  "list_ok l \<longleftrightarrow> (\<forall>wb \<in> set l. wb_ok wb) \<and> (\<forall>wb \<in> set (tl l). wb_ptr wb = 0)"

lemma list_ok_Nil [simp]: "list_ok []" by (simp add: list_ok_def)

lemma list_ok_Cons: "list_ok (wb # l) \<longleftrightarrow> wb_ok wb \<and> (\<forall>wb \<in> set l. whole wb)"
  by (auto simp: list_ok_def whole_def)

lemma wholes_ok: "\<forall>wb \<in> set l. whole wb \<Longrightarrow> list_ok l"
  by (cases l) (auto simp: list_ok_Cons whole_def)

definition rest_bytes :: "write_buffer list \<Rightarrow> u8 list" where
  "rest_bytes l = concat (map wb_data l)"

definition list_size :: "write_buffer list \<Rightarrow> int" where
  "list_size l = (\<Sum>wb \<leftarrow> l. int (wb_sz wb))"

lemma rest_bytes_simps [simp]: "rest_bytes [] = []" "rest_bytes (wb # l) = wb_data wb @ rest_bytes l"
    "rest_bytes (l @ l') = rest_bytes l @ rest_bytes l'"
  by (simp_all add: rest_bytes_def)

lemma list_size_simps [simp]: "list_size [] = 0" "list_size (wb # l) = int (wb_sz wb) + list_size l"
    "list_size (l @ l') = list_size l + list_size l'"
  by (simp_all add: list_size_def)

lemma list_size_nonneg: "list_size l \<ge> 0"
  by (induction l) auto

lemma list_size_0: "\<forall>wb \<in> set l. wb_ok wb \<Longrightarrow> list_size l = 0 \<Longrightarrow> rest_bytes l = []"
proof (induction l)
  case (Cons wb l)
  have "wb_sz wb = 0" "list_size l = 0" using Cons.prems(2) list_size_nonneg [of l] by auto
  with Cons show ?case using wb_ok_data [of wb] by auto
qed simp

definition bufs :: "write_buffer list \<Rightarrow> sendbuffer multiset" where
  "bufs l = mset (map wb_buffer l)"

lemma bufs_simps [simp]: "bufs [] = {#}" "bufs (wb # l) = add_mset (wb_buffer wb) (bufs l)" "bufs (l @ l') = bufs l + bufs l'"
  by (simp_all add: bufs_def)

lemma free_wb_list_ok:
  "\<forall>wb \<in> set l. wb_ok wb \<Longrightarrow> free_wb_list w l = Some (w\<lparr>w_freed := w_freed w @ map wb_buffer l\<rparr>)"
  by (induction l arbitrary: w) (simp_all add: wb_ok_free)

text \<open>The fields that writing never touches.\<close>

definition same_conn :: "socket \<Rightarrow> socket \<Rightarrow> bool" where
  "same_conn s s' \<longleftrightarrow> s_id s' = s_id s \<and> s_fd s' = s_fd s \<and> s_protocol s' = s_protocol s \<and> s_opaque s' = s_opaque s \<and>
     s_sending s' = s_sending s \<and> s_udpconnecting s' = s_udpconnecting s \<and> s_udp_address s' = s_udp_address s"

lemma same_conn_refl [simp]: "same_conn s s"
  by (simp add: same_conn_def)

lemma same_conn_trans: "same_conn s s' \<Longrightarrow> same_conn s' s'' \<Longrightarrow> same_conn s s''"
  by (simp add: same_conn_def)

lemma wb_list_set [simp]: "wb_list p (set_wb_list p l s) = l" "p \<noteq> q \<Longrightarrow> wb_list q (set_wb_list p l s) = wb_list q s"
  by (cases p; cases q; simp add: wb_list_def set_wb_list_def)+

lemma set_wb_list_fields [simp]:
  "s_type (set_wb_list p l s) = s_type s" "s_wb_size (set_wb_list p l s) = s_wb_size s" "s_fd (set_wb_list p l s) = s_fd s"
  "s_dw_buffer (set_wb_list p l s) = s_dw_buffer s" "s_dw_offset (set_wb_list p l s) = s_dw_offset s"
  "same_conn s' (set_wb_list p l s) = same_conn s' s" "s_warn_size (set_wb_list p l s) = s_warn_size s"
  "s_writing (set_wb_list p l s) = s_writing s" "s_reading (set_wb_list p l s) = s_reading s"
  by (auto simp: set_wb_list_def same_conn_def)

lemma stat_write_fields [simp]:
  "s_type (stat_write w s n) = s_type s" "s_fd (stat_write w s n) = s_fd s"
  "s_dw_buffer (stat_write w s n) = s_dw_buffer s" "s_dw_offset (stat_write w s n) = s_dw_offset s"
  "same_conn s' (stat_write w s n) = same_conn s' s" "wb_list p (stat_write w s n) = wb_list p s"
  "s_high (stat_write w s n) = s_high s" "s_low (stat_write w s n) = s_low s" "s_wb_size (stat_write w s n) = s_wb_size s"
  "s_id (stat_write w s n) = s_id s" "s_sending (stat_write w s n) = s_sending s"
  "s_protocol (stat_write w s n) = s_protocol s" "s_udpconnecting (stat_write w s n) = s_udpconnecting s"
  "s_writing (stat_write w s n) = s_writing s" "s_reading (stat_write w s n) = s_reading s"
  "s_warn_size (stat_write w s n) = s_warn_size s"
  by (auto simp: stat_write_def same_conn_def wb_list_def)

lemma wb_size_update_list [simp]: "wb_list p (s\<lparr>s_wb_size := x\<rparr>) = wb_list p s"
  by (simp add: wb_list_def)

subsection \<open>A list is sent\<close>

text \<open>The answer of the write that is not interrupted, and what the loop does with it.\<close>

definition after_write :: "os \<Rightarrow> priority \<Rightarrow> world \<Rightarrow> socket \<Rightarrow> write_buffer \<Rightarrow> write_buffer list \<Rightarrow> errno + nat \<Rightarrow>
    (report \<times> world \<times> socket) option" where
  "after_write os p w1 s tmp rest r =
     (case r of
        Inl e \<Rightarrow> if e = EAGAIN then Some (None, w1, s)
          else do { (m, w2, s1) \<leftarrow> force_close w1 s; Some (Some (SOCKET_CLOSE, m), w2, s1) }
      | Inr sz \<Rightarrow>
          (let s1 = (stat_write w1 s (int sz))\<lparr>s_wb_size := s_wb_size s - int sz\<rparr>
           in if sz \<noteq> wb_sz tmp
              then Some (None, w1, set_wb_list p (tmp\<lparr>wb_ptr := wb_ptr tmp + sz, wb_sz := wb_sz tmp - sz\<rparr> # rest) s1)
              else do { w2 \<leftarrow> write_buffer_free w1 tmp; send_list_tcp os p w2 (set_wb_list p rest s1) }))"

lemma call_calls [simp]: "w_calls (call w c) = w_calls w @ [c]"
  by (simp add: call_def)

lemma send_list_tcp_Nil: "wb_list p s = [] \<Longrightarrow> send_list_tcp os p w s = Some (None, w, s)"
  by (subst send_list_tcp.simps) simp

lemma send_list_tcp_Cons:
  assumes "wb_list p s = tmp # rest" "r = os_write os (w_calls w) (s_fd s) (wb_data tmp)"
    "w1 = call w (Write (s_fd s) (wb_data tmp) r)"
  shows "send_list_tcp os p w s =
    (if r = Inl EINTR then send_list_tcp os p w1 s else after_write os p w1 s tmp rest r)"
proof -
  have "sys_write os w (s_fd s) (wb_data tmp) = (r, w1)"
    by (simp add: sys_write_def ask_def assms(2,3) Let_def)
  then show ?thesis
    by (subst send_list_tcp.simps) (auto simp: assms(1) after_write_def split: sum.splits)
qed

lemma send_list_tcp_write:
  assumes "wb_list p s = tmp # rest"
    and "os_write os (w_calls w @ replicate k (Write (s_fd s) (wb_data tmp) (Inl EINTR))) (s_fd s) (wb_data tmp) \<noteq> Inl EINTR"
  shows "\<exists>w1 r. send_list_tcp os p w s = after_write os p (call w1 (Write (s_fd s) (wb_data tmp) r)) s tmp rest r \<and>
    r \<noteq> Inl EINTR \<and> r = os_write os (w_calls w1) (s_fd s) (wb_data tmp) \<and> (\<forall>fd. wire w1 fd = wire w fd) \<and>
    w_freed w1 = w_freed w \<and> w_soi w1 = w_soi w"
  using assms(2)
proof (induction k arbitrary: w)
  case 0
  then show ?case
    by (intro exI [of _ w]) (simp add: send_list_tcp_Cons [OF assms(1) refl refl])
next
  case (Suc k)
  let ?r = "os_write os (w_calls w) (s_fd s) (wb_data tmp)"
  let ?w = "call w (Write (s_fd s) (wb_data tmp) ?r)"
  show ?case
  proof (cases "?r = Inl EINTR")
    case True
    from Suc.prems True have "os_write os (w_calls ?w @ replicate k (Write (s_fd s) (wb_data tmp) (Inl EINTR))) (s_fd s) (wb_data tmp) \<noteq> Inl EINTR"
      by simp
    from Suc.IH [OF this] True show ?thesis
      by (simp add: send_list_tcp_Cons [OF assms(1) refl refl])
  next
    case False
    then show ?thesis
      by (intro exI [of _ w]) (simp add: send_list_tcp_Cons [OF assms(1) refl refl])
  qed
qed

definition dw_bufs :: "socket \<Rightarrow> sendbuffer list" where
  "dw_bufs s = (case s_dw_buffer s of None \<Rightarrow> [] | Some b \<Rightarrow> [b])"

text \<open>The buffers a socket must free.\<close>

definition owned :: "socket \<Rightarrow> sendbuffer multiset" where
  "owned s = mset (dw_bufs s) + bufs (s_high s) + bufs (s_low s)"

definition buffers_ok :: "socket \<Rightarrow> bool" where
  "buffers_ok s \<longleftrightarrow> (\<forall>wb \<in> set (s_high s @ s_low s). wb_ok wb) \<and> (\<forall>b \<in> set (dw_bufs s). is_memory b)"

definition live :: "socket \<Rightarrow> bool" where
  "live s \<longleftrightarrow> s_type s \<noteq> SOCKET_TYPE_INVALID \<and> s_type s \<noteq> SOCKET_TYPE_RESERVE"

text \<open>A close: everything is freed, nothing more is written.\<close>

definition closed_from :: "world \<Rightarrow> socket \<Rightarrow> world \<Rightarrow> socket \<Rightarrow> bool" where
  "closed_from w s w' s' \<longleftrightarrow> s_type s' = SOCKET_TYPE_INVALID \<and> owned s' = {#} \<and>
     mset (w_freed w') = mset (w_freed w) + owned s \<and> (\<forall>fd. wire w' fd = wire w fd) \<and>
     w_soi w' = w_soi w \<and> same_conn s s'"

lemma closed_from_lists: "closed_from w s w' s' \<Longrightarrow> s_high s' = [] \<and> s_low s' = [] \<and> s_dw_buffer s' = None"
  by (auto simp: closed_from_def owned_def bufs_def dw_bufs_def split: option.splits)

lemma force_close_ok:
  assumes "live s" "buffers_ok s"
  shows "\<exists>w' s'. force_close w s = Some (message s NoData, w', s') \<and> closed_from w s w' s'"
proof -
  have "\<forall>wb \<in> set (s_high s). wb_ok wb" "\<forall>wb \<in> set (s_low s). wb_ok wb"
    using assms(2) by (auto simp: buffers_ok_def)
  with assms show ?thesis
    by (cases "s_dw_buffer s")
      (auto simp: force_close_def live_def free_wb_list_ok Let_def free_dw_buffer_def buffers_ok_def dw_bufs_def is_memory_simps
        closed_from_def owned_def bufs_def same_conn_def)
qed

definition other :: "priority \<Rightarrow> priority" where
  "other p = (if p = PRIORITY_HIGH then PRIORITY_LOW else PRIORITY_HIGH)"

text \<open>What sending list \<open>p\<close> may do, without a close.\<close>

definition sent :: "priority \<Rightarrow> world \<Rightarrow> socket \<Rightarrow> world \<Rightarrow> socket \<Rightarrow> bool" where
  "sent p w s w' s' \<longleftrightarrow> same_conn s s' \<and> s_type s' = s_type s \<and> w_soi w' = w_soi w \<and>
     s_dw_buffer s' = s_dw_buffer s \<and> s_dw_offset s' = s_dw_offset s \<and> s_writing s' = s_writing s \<and>
     s_warn_size s' = s_warn_size s \<and> s_reading s' = s_reading s \<and>
     wb_list (other p) s' = wb_list (other p) s \<and> list_ok (wb_list p s') \<and>
     wire w' (s_fd s) @ rest_bytes (wb_list p s') = wire w (s_fd s) @ rest_bytes (wb_list p s) \<and>
     (\<forall>fd. fd \<noteq> s_fd s \<longrightarrow> wire w' fd = wire w fd) \<and>
     s_wb_size s' - list_size (wb_list p s') = s_wb_size s - list_size (wb_list p s) \<and>
     (\<exists>k. map wb_buffer (wb_list p s') = drop k (map wb_buffer (wb_list p s)) \<and>
       mset (w_freed w') = mset (w_freed w) + mset (take k (map wb_buffer (wb_list p s))))"

lemma sent_refl: "list_ok (wb_list p s) \<Longrightarrow> sent p w s w s"
  by (auto simp: sent_def intro!: exI [of _ 0])

text \<open>One write of the head, whole.\<close>

lemma sent_head:
  assumes "wb_list p s = tmp # rest" "list_ok (tmp # rest)"
    and w1: "\<forall>fd. wire w1 fd = wire w fd" "w_freed w1 = w_freed w" "w_soi w1 = w_soi w"
    and w2: "w2 = (call w1 (Write (s_fd s) (wb_data tmp) (Inr (wb_sz tmp))))\<lparr>w_freed := w_freed w @ [wb_buffer tmp]\<rparr>"
    and s2: "s2 = set_wb_list p rest ((stat_write wt s (int (wb_sz tmp)))\<lparr>s_wb_size := s_wb_size s - int (wb_sz tmp)\<rparr>)"
  shows "sent p w s w2 s2" "wb_list p s2 = rest"
proof -
  show l2: "wb_list p s2 = rest" by (simp add: s2)
  have o2: "wb_list (other p) s2 = wb_list (other p) s"
    by (cases p) (simp_all add: s2 other_def)
  have tmp: "length (wb_data tmp) = wb_sz tmp" by (metis list_ok_Cons wb_ok_data assms(2))
  have fd: "s_fd s2 = s_fd s" by (simp add: s2)
  show "sent p w s w2 s2"
    unfolding sent_def l2 o2 assms(1)
    using assms(2) tmp w1 fd
    by (auto simp: w2 s2 list_ok_Cons wholes_ok same_conn_def wire_def call_def stat_write_def set_wb_list_def intro!: exI [of _ 1])
qed

lemma sent_trans:
  assumes "sent p w s w1 s1" "sent p w1 s1 w2 s2"
  shows "sent p w s w2 s2"
proof -
  from assms obtain k j where
    k: "map wb_buffer (wb_list p s1) = drop k (map wb_buffer (wb_list p s))"
      "mset (w_freed w1) = mset (w_freed w) + mset (take k (map wb_buffer (wb_list p s)))" and
    j: "map wb_buffer (wb_list p s2) = drop j (map wb_buffer (wb_list p s1))"
      "mset (w_freed w2) = mset (w_freed w1) + mset (take j (map wb_buffer (wb_list p s1)))"
    by (auto simp: sent_def)
  have "take (k + j) (map wb_buffer (wb_list p s)) = take k (map wb_buffer (wb_list p s)) @ take j (drop k (map wb_buffer (wb_list p s)))"
    by (simp add: take_add)
  with k j have "map wb_buffer (wb_list p s2) = drop (k + j) (map wb_buffer (wb_list p s))"
    "mset (w_freed w2) = mset (w_freed w) + mset (take (k + j) (map wb_buffer (wb_list p s)))"
    by (simp_all add: add.commute)
  moreover have "s_fd s1 = s_fd s" using assms(1) by (simp add: sent_def same_conn_def)
  ultimately show ?thesis
    using assms unfolding sent_def by (auto simp: same_conn_def)
qed

text \<open>A part of the head is written, or nothing.\<close>

lemma sent_part:
  assumes "wb_list p s = tmp # rest" "list_ok (tmp # rest)" "n \<le> wb_sz tmp"
    and w1: "\<forall>fd. wire w1 fd = wire w fd" "w_freed w1 = w_freed w" "w_soi w1 = w_soi w"
    and w2: "w2 = call w1 (Write (s_fd s) (wb_data tmp) (Inr n))"
    and s2: "s2 = set_wb_list p (tmp\<lparr>wb_ptr := wb_ptr tmp + n, wb_sz := wb_sz tmp - n\<rparr> # rest)
      ((stat_write wt s (int n))\<lparr>s_wb_size := s_wb_size s - int n\<rparr>)"
  shows "sent p w s w2 s2"
proof -
  let ?t = "tmp\<lparr>wb_ptr := wb_ptr tmp + n, wb_sz := wb_sz tmp - n\<rparr>"
  have l2: "wb_list p s2 = ?t # rest" by (simp add: s2)
  have o2: "wb_list (other p) s2 = wb_list (other p) s"
    by (cases p) (simp_all add: s2 other_def)
  have ok: "wb_ok tmp" using assms(2) by (simp add: list_ok_Cons)
  then have t: "wb_ok ?t" using assms(3) by (auto simp: wb_ok_def)
  have "take n (wb_data tmp) @ wb_data ?t = wb_data tmp"
    using wb_ok_data [OF ok] wb_ok_data [OF t] by (simp add: add.commute flip: drop_drop)
  then have d: "take n (wb_data tmp) @ wb_data ?t @ ys = wb_data tmp @ ys" for ys
    by (metis append_assoc)
  show ?thesis
    unfolding sent_def l2 o2 assms(1)
    using assms(2,3) w1 t
    by (auto simp: w2 s2 list_ok_Cons same_conn_def wire_def call_def stat_write_def set_wb_list_def of_nat_diff d
        intro!: exI [of _ 0])
qed

definition sent_or_closed :: "priority \<Rightarrow> world \<Rightarrow> socket \<Rightarrow> report \<Rightarrow> world \<Rightarrow> socket \<Rightarrow> bool" where
  "sent_or_closed p w s r w' s' \<longleftrightarrow>
     r = None \<and> sent p w s w' s' \<or>
     (\<exists>m w1 s1. r = Some (SOCKET_CLOSE, m) \<and> m = message s NoData \<and> sent p w s w1 s1 \<and> closed_from w1 s1 w' s')"

lemma sent_or_closed_trans:
  assumes "sent p w s w1 s1" "sent_or_closed p w1 s1 r w' s'"
  shows "sent_or_closed p w s r w' s'"
proof -
  have "message s1 NoData = message s NoData"
    using assms(1) by (simp add: message_def sent_def same_conn_def)
  with assms(2) show ?thesis
    unfolding sent_or_closed_def using sent_trans [OF assms(1)] by metis
qed

lemma sent_buffers_ok:
  assumes "sent p w s w' s'" "buffers_ok s"
  shows "buffers_ok s'"
proof -
  have l: "list_ok (wb_list p s')" "wb_list (other p) s' = wb_list (other p) s" "s_dw_buffer s' = s_dw_buffer s"
    using assms(1) by (auto simp: sent_def)
  have "\<forall>wb \<in> set (wb_list p s'). wb_ok wb" using l(1) by (auto simp: list_ok_def)
  with l(2,3) assms(2) show ?thesis
    by (cases p) (auto simp: buffers_ok_def wb_list_def other_def dw_bufs_def)
qed

lemma sent_live: "sent p w s w' s' \<Longrightarrow> live s' = live s"
  by (simp add: sent_def live_def)

theorem send_list_tcp_ok:
  assumes "kernel_ok os" "list_ok (wb_list p s)" "buffers_ok s" "live s"
  shows "\<exists>r w' s'. send_list_tcp os p w s = Some (r, w', s') \<and> sent_or_closed p w s r w' s'"
  using assms(2-)
proof (induction "wb_list p s" arbitrary: w s)
  case Nil
  then show ?case
    by (auto simp: send_list_tcp_Nil sent_or_closed_def sent_refl)
next
  case (Cons tmp rest)
  note list = Cons.hyps(2) [symmetric]
  have lok: "list_ok (tmp # rest)" using Cons.prems(1) list by simp
  obtain k where k: "os_write os (w_calls w @ replicate k (Write (s_fd s) (wb_data tmp) (Inl EINTR))) (s_fd s) (wb_data tmp) \<noteq> Inl EINTR"
    using assms(1) unfolding kernel_ok_def by blast
  from send_list_tcp_write [OF list k] obtain w1 r where
    run: "send_list_tcp os p w s = after_write os p (call w1 (Write (s_fd s) (wb_data tmp) r)) s tmp rest r"
    and r: "r \<noteq> Inl EINTR" "r = os_write os (w_calls w1) (s_fd s) (wb_data tmp)"
    and w1: "\<forall>fd. wire w1 fd = wire w fd" "w_freed w1 = w_freed w" "w_soi w1 = w_soi w" by blast
  let ?w1 = "call w1 (Write (s_fd s) (wb_data tmp) r)"
  show ?case
  proof (cases r)
    case (Inl e)
    have same: "sent p w s ?w1 s" if "list_ok (wb_list p s)"
      using that w1 Inl by (auto simp: sent_def intro!: exI [of _ 0])
    show ?thesis
    proof (cases "e = EAGAIN")
      case True
      then show ?thesis
        using run Inl same [OF Cons.prems(1)] by (auto simp: after_write_def sent_or_closed_def)
    next
      case False
      from force_close_ok [OF Cons.prems(3,2), of ?w1] obtain w' s' where
        "force_close ?w1 s = Some (message s NoData, w', s')" "closed_from ?w1 s w' s'" by blast
      with run Inl False same [OF Cons.prems(1)] show ?thesis
        by (fastforce simp: after_write_def sent_or_closed_def)
    qed
  next
    case (Inr n)
    have n: "n \<le> wb_sz tmp"
      using assms(1) r(2) Inr wb_ok_data [of tmp] lok unfolding kernel_ok_def list_ok_Cons by metis
    show ?thesis
    proof (cases "n = wb_sz tmp")
      case False
      from sent_part [OF list lok n w1 refl refl, of ?w1] run Inr False show ?thesis
        by (simp add: after_write_def sent_or_closed_def)
    next
      case True
      define w2 where "w2 = ?w1\<lparr>w_freed := w_freed w @ [wb_buffer tmp]\<rparr>"
      define s2 where "s2 = set_wb_list p rest ((stat_write ?w1 s (int (wb_sz tmp)))\<lparr>s_wb_size := s_wb_size s - int (wb_sz tmp)\<rparr>)"
      have free: "write_buffer_free ?w1 tmp = Some w2"
        using lok w1(2) by (simp add: w2_def wb_ok_free list_ok_Cons)
      have step: "sent p w s w2 s2" "wb_list p s2 = rest"
        by (rule sent_head [OF list lok w1], simp_all add: w2_def s2_def Inr True)+
      have eq: "send_list_tcp os p w s = send_list_tcp os p w2 s2"
        using run Inr True free by (simp add: after_write_def s2_def)
      have "list_ok (wb_list p s2)" using step(1) by (simp add: sent_def)
      from Cons.hyps(1) [OF step(2) [symmetric] this sent_buffers_ok [OF step(1) Cons.prems(2)]] Cons.prems(3) sent_live [OF step(1)]
      obtain r' w' s' where "send_list_tcp os p w2 s2 = Some (r', w', s')" "sent_or_closed p w2 s2 r' w' s'"
        by blast
      with eq sent_or_closed_trans [OF step(1)] show ?thesis by auto
    qed
  qed
qed

subsection \<open>A socket is written\<close>

definition dw_bytes :: "socket \<Rightarrow> u8 list" where
  "dw_bytes s = (case s_dw_buffer s of None \<Rightarrow> [] | Some b \<Rightarrow> drop (s_dw_offset s) (contents b))"

text \<open>The bytes that wait, in the order in which they will be written.\<close>

definition pending_bytes :: "socket \<Rightarrow> u8 list" where
  "pending_bytes s = dw_bytes s @ rest_bytes (s_high s) @ rest_bytes (s_low s)"

definition tcp_ok :: "socket \<Rightarrow> bool" where
  "tcp_ok s \<longleftrightarrow> s_protocol s = PROTOCOL_TCP \<and> buffers_ok s \<and> list_ok (s_high s) \<and> (\<forall>wb \<in> set (s_low s). whole wb) \<and>
     (\<forall>b. s_dw_buffer s = Some b \<longrightarrow> (\<forall>wb \<in> set (s_high s). whole wb) \<and> s_dw_offset s \<le> length (contents b)) \<and>
     s_wb_size s = list_size (s_high s) + list_size (s_low s)"

definition low_messages :: "socket \<Rightarrow> u8 list list" where
  "low_messages s = map (\<lambda>wb. contents (wb_buffer wb)) (s_low s)"

text \<open>Progress of the writing: bytes move from the waiting ones to the wire, buffers to the freed ones.\<close>

definition flushed :: "world \<Rightarrow> socket \<Rightarrow> world \<Rightarrow> socket \<Rightarrow> bool" where
  "flushed w s w' s' \<longleftrightarrow> same_conn s s' \<and> s_type s' = s_type s \<and> w_soi w' = w_soi w \<and> tcp_ok s' \<and>
     wire w' (s_fd s) @ pending_bytes s' = wire w (s_fd s) @ pending_bytes s \<and>
     (\<forall>fd. fd \<noteq> s_fd s \<longrightarrow> wire w' fd = wire w fd) \<and>
     mset (w_freed w') + owned s' = mset (w_freed w) + owned s \<and>
     (\<exists>k. low_messages s' = drop k (low_messages s)) \<and>
     (s_dw_buffer s' = None \<or> s_dw_buffer s' = s_dw_buffer s)"

lemma flushed_refl [simp]: "tcp_ok s \<Longrightarrow> flushed w s w s"
  by (auto simp: flushed_def intro!: exI [of _ 0])

lemma flushed_trans:
  assumes "flushed w s w1 s1" "flushed w1 s1 w2 s2"
  shows "flushed w s w2 s2"
proof -
  have "s_fd s1 = s_fd s" using assms(1) by (simp add: flushed_def same_conn_def)
  moreover obtain j k where "low_messages s1 = drop j (low_messages s)" "low_messages s2 = drop k (low_messages s1)"
    using assms by (auto simp: flushed_def)
  then have "low_messages s2 = drop (k + j) (low_messages s)" by simp
  ultimately show ?thesis
    using assms unfolding flushed_def by (auto intro: same_conn_trans)
qed

lemma flushed_calls: "flushed w s w' s' \<Longrightarrow> (\<forall>fd. wire w2 fd = wire w' fd) \<Longrightarrow> w_freed w2 = w_freed w' \<Longrightarrow> w_soi w2 = w_soi w' \<Longrightarrow> flushed w s w2 s'"
  by (simp add: flushed_def)

lemma tcp_ok_lists:
  assumes "tcp_ok s"
  shows "list_ok (s_high s)" "list_ok (s_low s)" "buffers_ok s" "s_protocol s = PROTOCOL_TCP"
  using assms by (auto simp: tcp_ok_def wholes_ok)

lemma bufs_take_drop: "mset (take k (map wb_buffer l)) + mset (drop k (map wb_buffer l)) = bufs l"
  by (metis append_take_drop_id bufs_def mset_append)

lemma sent_owned:
  assumes "sent p w s w' s'"
  shows "mset (w_freed w') + owned s' = mset (w_freed w) + owned s"
proof -
  from assms obtain k where k: "map wb_buffer (wb_list p s') = drop k (map wb_buffer (wb_list p s))"
    "mset (w_freed w') = mset (w_freed w) + mset (take k (map wb_buffer (wb_list p s)))"
    "wb_list (other p) s' = wb_list (other p) s" "s_dw_buffer s' = s_dw_buffer s"
    unfolding sent_def by blast
  have "bufs (wb_list p s') = mset (drop k (map wb_buffer (wb_list p s)))" by (simp add: bufs_def k(1))
  with bufs_take_drop [of k "wb_list p s"] have "bufs (wb_list p s) = mset (take k (map wb_buffer (wb_list p s))) + bufs (wb_list p s')"
    by simp
  with k(2,3,4) show ?thesis
    by (cases p) (simp_all add: owned_def wb_list_def other_def dw_bufs_def)
qed

lemma wholes_drop:
  assumes "\<forall>wb \<in> set l. whole wb" "map wb_buffer l' = drop k (map wb_buffer l)" "list_ok l'"
  shows "map (\<lambda>wb. contents (wb_buffer wb)) l' = drop k (map (\<lambda>wb. contents (wb_buffer wb)) l)"
  using arg_cong [OF assms(2), of "map contents"] by (simp add: drop_map comp_def)

text \<open>The high list is sent while no direct write waits.\<close>

lemma sent_high_flushed:
  assumes "tcp_ok s" "s_dw_buffer s = None" "sent PRIORITY_HIGH w s w' s'"
  shows "flushed w s w' s'"
proof -
  have "tcp_ok s'"
    using assms sent_buffers_ok [OF assms(3) tcp_ok_lists(3) [OF assms(1)]]
    by (auto simp: tcp_ok_def sent_def wb_list_def other_def same_conn_def)
  with assms sent_owned [OF assms(3)] show ?thesis
    by (auto simp: flushed_def sent_def pending_bytes_def wb_list_def other_def low_messages_def dw_bytes_def intro!: exI [of _ 0]
        simp flip: append_assoc)
qed

text \<open>The low list is sent while the high list is empty; a head that was written in part moves.\<close>

definition raised :: "socket \<Rightarrow> socket" where
  "raised s = (if list_uncomplete (s_low s) then s\<lparr>s_low := tl (s_low s), s_high := [hd (s_low s)]\<rparr> else s)"

lemma uncomplete_head: "wb_ok wb \<Longrightarrow> list_uncomplete (wb # l) \<longleftrightarrow> wb_ptr wb \<noteq> 0"
  by (cases "wb_buffer wb") (auto simp: list_uncomplete_def wb_ok_def)

lemma raised_lists:
  assumes "s_high s = []" "list_ok (s_low s)"
  shows "list_ok (s_high (raised s))" "\<forall>wb \<in> set (s_low (raised s)). whole wb"
    "s_high (raised s) @ s_low (raised s) = s_low s"
proof -
  have "list_ok (s_high (raised s)) \<and> (\<forall>wb \<in> set (s_low (raised s)). whole wb) \<and> s_high (raised s) @ s_low (raised s) = s_low s"
  proof (cases "s_low s")
    case Nil
    with assms(1) show ?thesis by (simp add: raised_def list_uncomplete_def)
  next
    case (Cons wb l)
    with assms(2) have "wb_ok wb" "\<forall>wb \<in> set l. whole wb" by (simp_all add: list_ok_Cons)
    with assms(1) Cons show ?thesis
      by (cases "wb_ptr wb = 0") (simp_all add: raised_def uncomplete_head list_ok_Cons whole_def)
  qed
  then show "list_ok (s_high (raised s))" "\<forall>wb \<in> set (s_low (raised s)). whole wb"
    "s_high (raised s) @ s_low (raised s) = s_low s" by blast+
qed

lemma raised_fields:
  "same_conn s (raised s)" "s_type (raised s) = s_type s" "s_dw_buffer (raised s) = s_dw_buffer s"
  "s_wb_size (raised s) = s_wb_size s" "s_dw_offset (raised s) = s_dw_offset s"
  by (simp_all add: raised_def same_conn_def)

lemma sent_low_flushed:
  assumes "tcp_ok s" "s_dw_buffer s = None" "s_high s = []" "sent PRIORITY_LOW w s w' s'"
  shows "flushed w s w' (raised s')"
proof -
  have s': "s_high s' = []" "s_dw_buffer s' = None" "list_ok (s_low s')" "buffers_ok s'"
    "same_conn s s'" "s_type s' = s_type s" "s_wb_size s' = list_size (s_low s')"
    "wire w' (s_fd s) @ rest_bytes (s_low s') = wire w (s_fd s) @ rest_bytes (s_low s)"
    "\<forall>fd. fd \<noteq> s_fd s \<longrightarrow> wire w' fd = wire w fd" "w_soi w' = w_soi w"
    using assms sent_buffers_ok [OF assms(4) tcp_ok_lists(3) [OF assms(1)]]
    by (auto simp: sent_def wb_list_def other_def tcp_ok_def)
  note r = raised_lists [OF s'(1,3)] and rf = raised_fields [of s']
  obtain k where k: "map wb_buffer (s_low s') = drop k (map wb_buffer (s_low s))"
    using assms(4) by (auto simp: sent_def wb_list_def)
  have low: "low_messages s' = drop k (low_messages s)"
    unfolding low_messages_def using assms(1) by (intro wholes_drop k s'(3)) (auto simp: tcp_ok_def)
  have lists: "list_size (s_high (raised s')) + list_size (s_low (raised s')) = list_size (s_low s')"
    "bufs (s_high (raised s')) + bufs (s_low (raised s')) = bufs (s_low s')"
    "rest_bytes (s_high (raised s')) @ rest_bytes (s_low (raised s')) = rest_bytes (s_low s')"
    by (simp_all flip: r(3))
  have "buffers_ok (raised s')"
    using s'(1,4) rf(3) by (simp add: buffers_ok_def dw_bufs_def r(3))
  then have ok: "tcp_ok (raised s')"
    using r(1,2) rf s'(2,5,7) assms(1) lists(1) by (simp add: tcp_ok_def same_conn_def)
  have "\<exists>j. low_messages (raised s') = drop j (low_messages s)"
  proof (cases "list_uncomplete (s_low s')")
    case True
    then have "low_messages (raised s') = drop 1 (low_messages s')" by (simp add: raised_def low_messages_def drop_Suc map_tl)
    then show ?thesis by (auto simp: low)
  qed (auto simp: raised_def low)
  moreover have "mset (w_freed w') + owned (raised s') = mset (w_freed w) + owned s"
    using sent_owned [OF assms(4)] s'(1) rf(3) lists(2) by (simp add: owned_def dw_bufs_def add.assoc)
  ultimately show ?thesis
    using ok rf s' assms(2,3) lists(3) same_conn_trans [OF s'(5) rf(1)]
    by (simp add: flushed_def pending_bytes_def dw_bytes_def)
qed

text \<open>The result of writing: progress, or progress and then a close.\<close>

definition written :: "world \<Rightarrow> socket \<Rightarrow> report \<Rightarrow> world \<Rightarrow> socket \<Rightarrow> bool" where
  "written w s r w' s' \<longleftrightarrow>
     report_type r \<noteq> Some SOCKET_CLOSE \<and> flushed w s w' s' \<or>
     (\<exists>w1 s1. r = Some (SOCKET_CLOSE, message s NoData) \<and> flushed w s w1 s1 \<and> closed_from w1 s1 w' s')"

lemma flushed_message: "flushed w s w' s' \<Longrightarrow> message s' d = message s d"
  by (simp add: flushed_def message_def same_conn_def)

lemma flushed_live: "flushed w s w' s' \<Longrightarrow> live s' = live s"
  by (simp add: flushed_def live_def)

lemma flushed_ok: "flushed w s w' s' \<Longrightarrow> tcp_ok s'"
  by (simp add: flushed_def)

lemma written_trans: "flushed w s w1 s1 \<Longrightarrow> written w1 s1 r w' s' \<Longrightarrow> written w s r w' s'"
  unfolding written_def using flushed_message [of w s w1 s1] flushed_trans [of w s w1 s1] by metis

lemma report_type_simps [simp]: "report_type None = None" "report_type (Some (t, m)) = Some t"
  by (simp_all add: report_type_def)

lemma writing_flushed:
  "tcp_ok s \<Longrightarrow> flushed w s w (s\<lparr>s_writing := b\<rparr>)" "tcp_ok s \<Longrightarrow> flushed w s w (s\<lparr>s_reading := b\<rparr>)"
  "tcp_ok s \<Longrightarrow> flushed w s w (s\<lparr>s_warn_size := i\<rparr>)"
  by (auto simp: flushed_def tcp_ok_def buffers_ok_def dw_bufs_def same_conn_def pending_bytes_def dw_bytes_def owned_def low_messages_def
      split: option.splits intro!: exI [of _ 0])

lemma flushed_call: "flushed w s w' s' \<Longrightarrow> \<forall>fd. wire_of fd c = [] \<Longrightarrow> flushed w s (call w' c) s'"
  by (simp add: flushed_def)

lemma enable_write_flushed:
  "tcp_ok s \<Longrightarrow> enable_write os w s b = (e, w1, s1) \<Longrightarrow> flushed w s w1 s1"
  "tcp_ok s \<Longrightarrow> enable_read os w s b = (e, w1, s1) \<Longrightarrow> flushed w s w1 s1"
  by (auto simp: enable_write_def enable_read_def sp_enable_def ask_def Let_def split: if_splits intro!: flushed_call writing_flushed)

lemma force_close_written:
  assumes "flushed w s w1 s1" "live s"
  shows "\<exists>m w' s'. force_close w1 s1 = Some (m, w', s') \<and> written w s (Some (SOCKET_CLOSE, m)) w' s'"
proof -
  have "live s1" using assms flushed_live by blast
  from force_close_ok [OF this tcp_ok_lists(3) [OF flushed_ok [OF assms(1)]], of w1] assms(1) show ?thesis
    unfolding written_def using flushed_message [OF assms(1)] by auto
qed

lemma send_buffer_drained_ok:
  assumes "tcp_ok s" "live s" "s_high s = []" "s_low s = []"
  shows "\<exists>r w' s'. send_buffer_drained os w s = Some (r, w', s') \<and> written w s r w' s'"
proof -
  obtain e w1 s1 where en: "enable_write os w s False = (e, w1, s1)" by (metis prod_cases3)
  note f = enable_write_flushed(1) [OF assms(1) en]
  have size: "send_buffer_empty s \<and> s_wb_size s = 0" using assms(1,3,4) by (simp add: tcp_ok_def send_buffer_empty_def)
  obtain m w2 s2 where cl: "force_close w1 s1 = Some (m, w2, s2)" "written w s (Some (SOCKET_CLOSE, m)) w2 s2"
    using force_close_written [OF f assms(2)] by blast
  have "flushed w s w1 (s1\<lparr>s_warn_size := 0\<rparr>)"
    using flushed_trans [OF f writing_flushed(3) [OF flushed_ok [OF f]]] .
  with f cl size en show ?thesis
    by (simp add: send_buffer_drained_def written_def)
qed

lemma send_list_high:
  assumes "kernel_ok os" "tcp_ok s" "live s" "s_dw_buffer s = None"
  shows "\<exists>r w1 s1. send_list os PRIORITY_HIGH w s = Some (r, w1, s1) \<and>
    (r = None \<and> flushed w s w1 s1 \<or> report_type r = Some SOCKET_CLOSE \<and> written w s r w1 s1)"
proof -
  note lists = tcp_ok_lists [OF assms(2)]
  have "list_ok (wb_list PRIORITY_HIGH s)" using lists(1) by (simp add: wb_list_def)
  from send_list_tcp_ok [OF assms(1) this lists(3) assms(3), of w] obtain r w1 s1 where
    run: "send_list_tcp os PRIORITY_HIGH w s = Some (r, w1, s1)" and r: "sent_or_closed PRIORITY_HIGH w s r w1 s1" by blast
  note high = sent_high_flushed [OF assms(2,4)]
  from r have "r = None \<and> flushed w s w1 s1 \<or> report_type r = Some SOCKET_CLOSE \<and> written w s r w1 s1"
    unfolding sent_or_closed_def written_def using high by auto
  with run show ?thesis using lists(4) by (simp add: send_list_def)
qed

lemma send_list_low:
  assumes "kernel_ok os" "tcp_ok s" "live s" "s_dw_buffer s = None" "s_high s = []"
  shows "\<exists>r w1 s1. send_list os PRIORITY_LOW w s = Some (r, w1, s1) \<and>
    (r = None \<and> s_high s1 = [] \<and> s_dw_buffer s1 = None \<and> flushed w s w1 (raised s1) \<or>
     report_type r = Some SOCKET_CLOSE \<and> written w s r w1 s1)"
proof -
  note lists = tcp_ok_lists [OF assms(2)]
  have "list_ok (wb_list PRIORITY_LOW s)" using lists(2) by (simp add: wb_list_def)
  from send_list_tcp_ok [OF assms(1) this lists(3) assms(3), of w] obtain r w1 s1 where
    run: "send_list_tcp os PRIORITY_LOW w s = Some (r, w1, s1)" and r: "sent_or_closed PRIORITY_LOW w s r w1 s1" by blast
  note low = sent_low_flushed [OF assms(2,4,5)]
  have closed: "closed_from wa (raised sa) wb sb" if "closed_from wa sa wb sb" "sent PRIORITY_LOW w s wa sa" for wa sa wb sb
  proof -
    have "s_high sa = []" "list_ok (s_low sa)"
      using that(2) assms(5) by (auto simp: sent_def wb_list_def other_def)
    note l = raised_lists [OF this]
    have "owned (raised sa) = owned sa"
      using arg_cong [OF l(3), of bufs] \<open>s_high sa = []\<close> raised_fields(3) [of sa] by (simp add: owned_def dw_bufs_def add.assoc)
    with that(1) raised_fields(1) [of sa] show ?thesis by (simp add: closed_from_def same_conn_def)
  qed
  from r consider "r = None" "sent PRIORITY_LOW w s w1 s1"
    | wa sa where "r = Some (SOCKET_CLOSE, message s NoData)" "sent PRIORITY_LOW w s wa sa" "closed_from wa sa w1 s1"
    unfolding sent_or_closed_def by blast
  then have "r = None \<and> s_high s1 = [] \<and> s_dw_buffer s1 = None \<and> flushed w s w1 (raised s1) \<or>
     report_type r = Some SOCKET_CLOSE \<and> written w s r w1 s1"
  proof cases
    case 1
    then have "s_high s1 = [] \<and> s_dw_buffer s1 = None"
      using assms(4,5) by (auto simp: sent_def wb_list_def other_def)
    with 1 low show ?thesis by blast
  next
    case (2 wa sa)
    then show ?thesis using low [OF 2(2)] closed [OF 2(3,2)] unfolding written_def by auto
  qed
  with run show ?thesis using lists(4) by (simp add: send_list_def)
qed

lemma low_complete: "tcp_ok s \<Longrightarrow> \<not> list_uncomplete (s_low s)"
  by (cases "s_low s") (auto simp: tcp_ok_def whole_def uncomplete_head, simp add: list_uncomplete_def)

lemma send_buffer0_ok:
  assumes "kernel_ok os" "tcp_ok s" "live s" "s_dw_buffer s = None"
  shows "\<exists>r w' s'. send_buffer0 os w s = Some (r, w', s') \<and> written w s r w' s'"
proof -
  obtain r w1 s1 where high: "send_list os PRIORITY_HIGH w s = Some (r, w1, s1)"
    and r: "r = None \<and> flushed w s w1 s1 \<or> report_type r = Some SOCKET_CLOSE \<and> written w s r w1 s1"
    using send_list_high [OF assms] by blast
  show ?thesis
  proof (cases "report_type r = Some SOCKET_CLOSE")
    case True
    with high r low_complete [OF assms(2)] show ?thesis by (auto simp: send_buffer0_def)
  next
    case False
    with r have "r = None" and f: "flushed w s w1 s1" by auto
    have s1: "tcp_ok s1" "live s1" "s_dw_buffer s1 = None"
      using f assms(3,4) flushed_live [OF f] by (auto simp: flushed_def)
    show ?thesis
    proof (cases "s_high s1 = [] \<and> s_low s1 \<noteq> []")
      case True
      then obtain r2 w2 s2 where low: "send_list os PRIORITY_LOW w1 s1 = Some (r2, w2, s2)"
        and r2: "r2 = None \<and> s_high s2 = [] \<and> s_dw_buffer s2 = None \<and> flushed w1 s1 w2 (raised s2) \<or>
          report_type r2 = Some SOCKET_CLOSE \<and> written w1 s1 r2 w2 s2"
        using send_list_low [OF assms(1) s1] by blast
      show ?thesis
      proof (cases "report_type r2 = Some SOCKET_CLOSE")
        case True
        with r2 high low \<open>r = None\<close> \<open>s_high s1 = [] \<and> s_low s1 \<noteq> []\<close> low_complete [OF assms(2)] written_trans [OF f]
        show ?thesis by (auto simp: send_buffer0_def)
      next
        case False
        with r2 have r2: "r2 = None" "s_high s2 = []" "flushed w1 s1 w2 (raised s2)" by auto
        note f2 = flushed_trans [OF f r2(3)]
        have unc: "raise_uncomplete s2 = Some (raised s2)" if "list_uncomplete (s_low s2)"
          using that r2(2) by (cases "s_low s2") (auto simp: raise_uncomplete_def raised_def list_uncomplete_def)
        have fin: "written w s None w2 (raised s2)" using f2 by (simp add: written_def)
        have "\<exists>r w' s'. send_buffer_drained os w2 s2 = Some (r, w', s') \<and> written w s r w' s'"
          if "s_low s2 = []"
        proof -
          have "raised s2 = s2" using that by (simp add: raised_def list_uncomplete_def)
          with send_buffer_drained_ok [of s2 os w2] flushed_ok [OF r2(3)] flushed_live [OF r2(3)] s1(2) that r2(2) written_trans [OF f2]
          show ?thesis by auto
        qed
        with fin unc high low \<open>r = None\<close> \<open>s_high s1 = [] \<and> s_low s1 \<noteq> []\<close> low_complete [OF assms(2)] r2
        show ?thesis by (cases "list_uncomplete (s_low s2)"; cases "s_low s2 = []")
          (auto simp: send_buffer0_def raised_def list_uncomplete_def)
      qed
    next
      case False
      have "written w s None w1 s1" using f by (simp add: written_def)
      moreover have "\<exists>r w' s'. send_buffer_drained os w1 s1 = Some (r, w', s') \<and> written w s r w' s'"
        if "s_high s1 = []" "s_low s1 = []"
        using send_buffer_drained_ok [OF s1(1,2) that] written_trans [OF f] by blast
      ultimately show ?thesis
        using False high \<open>r = None\<close> low_complete [OF assms(2)] by (auto simp: send_buffer0_def)
    qed
  qed
qed

lemma put_dw_buffer_ok:
  assumes "tcp_ok s"
  shows "\<exists>s1. put_dw_buffer w s = Some s1 \<and> flushed w s w s1 \<and> s_dw_buffer s1 = None"
proof (cases "s_dw_buffer s")
  case None
  with assms show ?thesis by (auto simp: put_dw_buffer_def)
next
  case (Some b)
  have b: "is_memory b" "s_dw_offset s \<le> length (contents b)" "\<forall>wb \<in> set (s_high s). whole wb"
    using assms Some by (auto simp: tcp_ok_def buffers_ok_def dw_bufs_def)
  let ?wb = "\<lparr>wb_buffer = b, wb_ptr = s_dw_offset s, wb_sz = length (contents b) - s_dw_offset s, wb_udp_address = []\<rparr>"
  let ?s = "s\<lparr>s_high := ?wb # s_high s, s_wb_size := s_wb_size s + int (length (contents b) - s_dw_offset s), s_dw_buffer := None\<rparr>"
  have wb: "wb_ok ?wb" "wb_data ?wb = drop (s_dw_offset s) (contents b)"
    using b(1,2) by (simp_all add: wb_ok_def wb_data_def)
  have "put_dw_buffer w s = Some ?s"
    using b(1) Some by (simp add: put_dw_buffer_def is_memory_simps Let_def)
  moreover have "tcp_ok ?s"
    using assms b(3) wb(1) by (auto simp: tcp_ok_def buffers_ok_def dw_bufs_def list_ok_Cons)
  then have "flushed w s w ?s"
    using Some wb(2) by (auto simp: flushed_def same_conn_def pending_bytes_def dw_bytes_def owned_def dw_bufs_def low_messages_def
      intro!: exI [of _ 0])
  ultimately show ?thesis by simp
qed

text \<open>
  The writing of a socket always returns, whatever the system answers: every byte is either
  written or still waits, in the same order, or the socket was closed.
\<close>

lemma send_buffer_written:
  assumes "kernel_ok os" "tcp_ok s" "live s"
  shows "\<exists>r w' s'. send_buffer os w s = Some (r, w', s') \<and> written w s r w' s'"
proof -
  obtain got w1 where lock: "sys_trylock os w (s_id s) = (got, w1)" by fastforce
  then have f: "flushed w s w1 s"
    using assms(2) by (auto simp: sys_trylock_def ask_def Let_def intro!: flushed_call)
  obtain s1 where s1: "put_dw_buffer w1 s = Some s1" "flushed w1 s w1 s1" "s_dw_buffer s1 = None"
    using put_dw_buffer_ok [OF assms(2)] by blast
  note f1 = flushed_trans [OF f s1(2)]
  from send_buffer0_ok [OF assms(1) flushed_ok [OF s1(2)] _ s1(3), of w1] assms(3) flushed_live [OF s1(2)] written_trans [OF f1]
  have "\<exists>r w' s'. send_buffer0 os w1 s1 = Some (r, w', s') \<and> written w s r w' s'" by metis
  then show ?thesis
    using f s1(1) by (cases got) (auto simp: send_buffer_def lock written_def)
qed

subsection \<open>A package is taken\<close>

definition new_buffer :: "sendbuffer \<Rightarrow> write_buffer" where
  "new_buffer b = \<lparr>wb_buffer = b, wb_ptr = 0, wb_sz = length (contents b), wb_udp_address = []\<rparr>"

definition added :: "priority \<Rightarrow> sendbuffer \<Rightarrow> socket \<Rightarrow> socket" where
  "added p b s = set_wb_list p (wb_list p s @ [new_buffer b]) (s\<lparr>s_wb_size := s_wb_size s + int (length (contents b))\<rparr>)"

lemma added_same_conn: "same_conn s (added p b s)" "s_type (added p b s) = s_type s"
  by (simp_all add: added_def same_conn_def set_wb_list_def)

lemma new_buffer_data: "wb_data (new_buffer b) = contents b" "wb_buffer (new_buffer b) = b"
  by (auto simp: new_buffer_def wb_data_def)

lemma new_buffer_whole: "is_memory b \<Longrightarrow> whole (new_buffer b)"
  by (auto simp: new_buffer_def whole_def wb_ok_def)

lemma list_ok_snoc: "list_ok l \<Longrightarrow> whole wb \<Longrightarrow> list_ok (l @ [wb])"
  by (cases l) (auto simp: list_ok_Cons whole_def)

lemma added_ok:
  assumes "tcp_ok s" "is_memory b"
  shows "tcp_ok (added p b s)" "owned (added p b s) = add_mset b (owned s)"
    "s_dw_buffer (added p b s) = s_dw_buffer s" "s_dw_offset (added p b s) = s_dw_offset s"
proof -
  note wb = new_buffer_whole [OF assms(2)]
  have "wb_ok (new_buffer b)" "wb_sz (new_buffer b) = length (contents b)" using wb by (auto simp: whole_def new_buffer_def)
  with assms wb show "tcp_ok (added p b s)"
    by (cases p) (auto simp: tcp_ok_def added_def set_wb_list_def wb_list_def buffers_ok_def dw_bufs_def list_ok_snoc)
  show "owned (added p b s) = add_mset b (owned s)"
    by (cases p) (simp_all add: owned_def added_def set_wb_list_def wb_list_def dw_bufs_def new_buffer_def)
  show "s_dw_buffer (added p b s) = s_dw_buffer s" "s_dw_offset (added p b s) = s_dw_offset s"
    by (simp_all add: added_def set_wb_list_def)
qed

lemma append_added: "is_memory b \<Longrightarrow> append_sendbuffer0 w p b [] s = Some (added p b s)"
  by (cases p) (simp_all add: append_sendbuffer0_def is_memory_simps added_def new_buffer_def wb_list_def)

lemma warn_check_ok:
  assumes "tcp_ok s" "flushed w s0 w s"
  shows "\<exists>r w' s'. warn_check w s = (r, w', s') \<and> report_type r \<noteq> Some SOCKET_CLOSE \<and> flushed w s0 w' s'"
  using flushed_trans [OF assms(2) writing_flushed(3) [OF assms(1)]] assms(2) by (simp add: warn_check_def)

lemma write_on_ok:
  assumes "tcp_ok s"
  shows "\<exists>r w' s'. write_on os w s = Some (r, w', s') \<and> report_type r \<noteq> Some SOCKET_CLOSE \<and> flushed w s w' s'"
proof -
  obtain e w1 s1 where en: "enable_write os w s True = (e, w1, s1)" by (metis prod_cases3)
  note f = enable_write_flushed(1) [OF assms en]
  then show ?thesis
    using writing_flushed(3) [OF flushed_ok [OF f]] flushed_trans [OF f]
    by (cases e) (simp_all add: write_on_def en warn_check_def)
qed

text \<open>
  An accepted package is put behind the others of its priority, or is the next one when
  nothing waits.
\<close>

lemma send_socket_ok:
  assumes "tcp_ok s" "is_memory b" "s_type s = SOCKET_TYPE_CONNECTED" "s_id s = i"
    and "p' = (if send_buffer_empty s then PRIORITY_HIGH else p)"
  shows "\<exists>r w' s'. send_socket os i b p None w s = Some (r, w', s') \<and> report_type r \<noteq> Some SOCKET_CLOSE \<and>
    flushed w (added p' b s) w' s'"
proof -
  note ok = added_ok(1) [OF assms(1,2)]
  have tcp: "s_protocol s = PROTOCOL_TCP" using assms(1) by (simp add: tcp_ok_def)
  show ?thesis
  proof (cases "send_buffer_empty s")
    case True
    with write_on_ok [OF ok, of os w PRIORITY_HIGH] tcp assms(2-5) show ?thesis
      by (simp add: send_socket_def is_memory_simps append_sendbuffer_def append_added)
  next
    case False
    obtain r w' s' where "warn_check w (added p b s) = (r, w', s')" "report_type r \<noteq> Some SOCKET_CLOSE" "flushed w (added p b s) w' s'"
      using warn_check_ok [OF ok flushed_refl [OF ok]] by blast
    with False tcp assms(2-5) show ?thesis
      by (cases p) (simp_all add: send_socket_def is_memory_simps append_sendbuffer_def append_sendbuffer_low_def append_added)
  qed
qed

subsection \<open>The order of the messages\<close>

text \<open>
  What was written and what waits is an interleaving of the high messages \<open>hs\<close> and the low
  messages \<open>ls\<close>, each in order and none cut, where the waiting low messages come last.
\<close>

definition ordered :: "u8 list \<Rightarrow> u8 list list \<Rightarrow> u8 list list \<Rightarrow> world \<Rightarrow> socket \<Rightarrow> bool" where
  "ordered base hs ls w s \<longleftrightarrow>
     (\<exists>A lo. wire w (s_fd s) @ pending_bytes s = base @ concat (A @ low_messages s) \<and>
       ls = lo @ low_messages s \<and> A \<in> shuffles hs lo)"

lemma shuffles_snoc1: "A \<in> shuffles hs ls \<Longrightarrow> A @ [m] \<in> shuffles (hs @ [m]) ls"
proof (induction hs ls arbitrary: A rule: shuffles.induct)
  case (1 ys)
  then have "A = ys" by simp
  then show ?case
    by (induction ys arbitrary: A) auto
next
  case (3 x xs y ys)
  then show ?case by (auto simp: image_iff)
qed auto

lemma shuffles_snoc2: "A \<in> shuffles hs ls \<Longrightarrow> A @ ms \<in> shuffles hs (ls @ ms)"
proof (induction ms arbitrary: A ls)
  case (Cons m ms)
  have "A @ [m] \<in> shuffles hs (ls @ [m])"
    using shuffles_snoc1 [of A ls hs m] Cons.prems by (simp add: shuffles_commutes)
  from Cons.IH [OF this] show ?case by simp
qed simp

lemma ordered_flushed:
  assumes "ordered base hs ls w s" "flushed w s w' s'"
  shows "ordered base hs ls w' s'"
proof -
  obtain A lo where A: "wire w (s_fd s) @ pending_bytes s = base @ concat (A @ low_messages s)"
    "ls = lo @ low_messages s" "A \<in> shuffles hs lo" using assms(1) by (auto simp: ordered_def)
  obtain k where k: "low_messages s' = drop k (low_messages s)" using assms(2) by (auto simp: flushed_def)
  have "A @ low_messages s = (A @ take k (low_messages s)) @ low_messages s'" "lo @ low_messages s = (lo @ take k (low_messages s)) @ low_messages s'"
    by (simp_all add: k)
  moreover have "wire w' (s_fd s') @ pending_bytes s' = wire w (s_fd s) @ pending_bytes s"
    using assms(2) by (simp add: flushed_def same_conn_def)
  ultimately show ?thesis
    unfolding ordered_def using A shuffles_snoc2 [OF A(3), of "take k (low_messages s)"] by metis
qed

lemma low_bytes: "tcp_ok s \<Longrightarrow> rest_bytes (s_low s) = concat (low_messages s)"
proof -
  have "\<forall>wb \<in> set l. whole wb \<Longrightarrow> rest_bytes l = concat (map (\<lambda>wb. contents (wb_buffer wb)) l)" for l
    by (induction l) (auto simp: whole_data)
  then show "tcp_ok s \<Longrightarrow> ?thesis" by (simp add: tcp_ok_def low_messages_def)
qed

lemma pending_high: "pending_bytes s = dw_bytes s @ rest_bytes (s_high s) @ rest_bytes (s_low s)"
  by (simp add: pending_bytes_def)

lemma ordered_prefix:
  "tcp_ok s \<Longrightarrow> wire w (s_fd s) @ pending_bytes s = base @ concat (A @ low_messages s) \<Longrightarrow>
     wire w (s_fd s) @ dw_bytes s @ rest_bytes (s_high s) = base @ concat A"
  by (simp add: pending_bytes_def low_bytes)

lemma added_bytes:
  assumes "tcp_ok s" "is_memory b"
  shows "pending_bytes (added PRIORITY_HIGH b s) = dw_bytes s @ rest_bytes (s_high s) @ contents b @ rest_bytes (s_low s)"
    "low_messages (added PRIORITY_HIGH b s) = low_messages s"
    "pending_bytes (added PRIORITY_LOW b s) = pending_bytes s @ contents b"
    "low_messages (added PRIORITY_LOW b s) = low_messages s @ [contents b]"
    "s_fd (added p b s) = s_fd s"
  by (simp_all add: new_buffer_data pending_bytes_def dw_bytes_def added_def set_wb_list_def wb_list_def low_messages_def split: option.split)

lemma ordered_high:
  assumes "ordered base hs ls w s" "tcp_ok s" "is_memory b"
  shows "ordered base (hs @ [contents b]) ls w (added PRIORITY_HIGH b s)"
proof -
  obtain A lo where A: "wire w (s_fd s) @ pending_bytes s = base @ concat (A @ low_messages s)"
    "ls = lo @ low_messages s" "A \<in> shuffles hs lo" using assms(1) by (auto simp: ordered_def)
  note b = added_bytes [OF assms(2,3)]
  have "wire w (s_fd s) @ pending_bytes (added PRIORITY_HIGH b s) = base @ concat ((A @ [contents b]) @ low_messages s)"
    using ordered_prefix [OF assms(2) A(1)] b(1) low_bytes [OF assms(2)] by (metis append.assoc concat_append concat.simps append_Nil2)
  with A(2) shuffles_snoc1 [OF A(3), of "contents b"] b(2,5) show ?thesis
    unfolding ordered_def by metis
qed

lemma ordered_low:
  assumes "ordered base hs ls w s" "tcp_ok s" "is_memory b"
    and "p = (if send_buffer_empty s then PRIORITY_HIGH else PRIORITY_LOW)"
  shows "ordered base hs (ls @ [contents b]) w (added p b s)"
proof -
  obtain A lo where A: "wire w (s_fd s) @ pending_bytes s = base @ concat (A @ low_messages s)"
    "ls = lo @ low_messages s" "A \<in> shuffles hs lo" using assms(1) by (auto simp: ordered_def)
  note b = added_bytes [OF assms(2,3)]
  show ?thesis
  proof (cases "send_buffer_empty s")
    case True
    then have low: "low_messages s = []" "pending_bytes (added p b s) = pending_bytes s @ contents b" "low_messages (added p b s) = []"
      using assms(4) b(1,2) by (simp_all add: send_buffer_empty_def low_messages_def pending_bytes_def)
    have "wire w (s_fd s) @ pending_bytes (added p b s) = base @ concat ((A @ [contents b]) @ low_messages (added p b s))"
      using A(1) low by simp
    moreover have "ls @ [contents b] = (lo @ [contents b]) @ low_messages (added p b s)" using A(2) low by simp
    ultimately show ?thesis
      unfolding ordered_def using shuffles_snoc2 [OF A(3), of "[contents b]"] b(5) by metis
  next
    case False
    then have p: "p = PRIORITY_LOW" using assms(4) by simp
    have "wire w (s_fd s) @ pending_bytes (added p b s) = base @ concat (A @ low_messages (added p b s))"
      using A(1) b(3,4) unfolding p by simp
    moreover have "ls @ [contents b] = lo @ low_messages (added p b s)" using A(2) b(4) unfolding p by simp
    ultimately show ?thesis unfolding ordered_def using A(3) b(5) by metis
  qed
qed

end
