(* ===== verification/Socket_Connection.thy ===== *)
theory Socket_Connection
  imports Socket_Writing "HOL-Library.Sublist"
begin

text \<open>
  A connection from the calls of the services to the wire: direct writes, requests in the control
  pipe and writable events in any order; reserving ids; closing.
\<close>

subsection \<open>The count of packages on the way\<close>

definition on_the_way :: "socket \<Rightarrow> nat" where
  "on_the_way s = unat (s_sending s AND 0xffff)"

lemma and_low16: "unat (x AND 0xffff :: u32) = unat x mod 65536"
proof -
  have "x AND 0xffff = take_bit 16 x" by (simp add: take_bit_eq_mask mask_eq_exp_minus_1)
  then have "unat (x AND 0xffff) = take_bit 16 (unat x)" by (simp only: unsigned_take_bit_eq)
  then show ?thesis by (simp add: take_bit_eq_mod)
qed

lemma drop_low16: "unat (drop_bit 16 (x :: u32)) = unat x div 65536"
proof -
  have "unat (drop_bit 16 x) = drop_bit 16 (unat x)" 
    using u32_bound [of x] by (simp only: unsigned_drop_bit_eq) (simp add: take_bit_eq_mod)
  then show ?thesis by (simp add: drop_bit_eq_div)
qed

lemma tag16_same: "drop_bit 16 (x :: u32) = drop_bit 16 y \<longleftrightarrow> unat x div 65536 = unat y div 65536"
  unfolding drop_low16 [symmetric] by (simp only: word_unat_eq_iff)

lemma inc_div_mod: "n mod 65536 < 65535 \<Longrightarrow> Suc n mod 65536 = Suc (n mod 65536) \<and> Suc n div 65536 = n div 65536"
  by (simp add: mod_Suc div_Suc)

lemma sending_inc:
  assumes "unat (x AND 0xffff :: u32) < 65535"
  shows "unat ((x + 1) AND 0xffff) = Suc (unat (x AND 0xffff))" "drop_bit 16 (x + 1) = drop_bit 16 x"
proof -
  have "1 + x \<noteq> 0"
  proof
    assume "1 + x = 0"
    then have "x = -1" by (simp add: add_eq_0_iff)
    with assms show False by simp
  qed
  then have s: "unat (x + 1) = Suc (unat x)" by (metis unatSuc add.commute)
  show "unat ((x + 1) AND 0xffff) = Suc (unat (x AND 0xffff))" "drop_bit 16 (x + 1) = drop_bit 16 x"
    using inc_div_mod [of "unat x"] assms by (simp_all add: and_low16 s tag16_same)
qed

lemma sending_dec:
  assumes "unat (x AND 0xffff :: u32) > 0"
  shows "Suc (unat ((x - 1) AND 0xffff)) = unat (x AND 0xffff)" "drop_bit 16 (x - 1) = drop_bit 16 x"
proof -
  have x: "x \<noteq> 0" using assms by auto
  have s: "unat x = Suc (unat (x - 1))" using x unat_minus_one [of x] unat_gt_0 [of x] by simp
  have "unat (x - 1) mod 65536 < 65535"
  proof (rule ccontr)
    assume "\<not> unat (x - 1) mod 65536 < 65535"
    then have "Suc (unat (x - 1)) mod 65536 = 0" by (simp add: mod_Suc)
    with assms s show False by (simp add: and_low16)
  qed
  from inc_div_mod [OF this] s show "Suc (unat ((x - 1) AND 0xffff)) = unat (x AND 0xffff)" "drop_bit 16 (x - 1) = drop_bit 16 x"
    by (simp_all add: and_low16 tag16_same)
qed

lemma inc_sending_ref_ok:
  assumes "s_protocol s = PROTOCOL_TCP" "drop_bit 16 (s_sending s) = ID_TAG16 i" "on_the_way s < 65535"
  shows "\<exists>x. inc_sending_ref i s = Some (s\<lparr>s_sending := x\<rparr>) \<and> drop_bit 16 x = ID_TAG16 i \<and> unat (x AND 0xffff) = Suc (on_the_way s)"
proof -
  have "s_sending s AND 0xffff \<noteq> 0xffff"
  proof
    assume "s_sending s AND 0xffff = 0xffff"
    with assms(3) show False by (simp add: on_the_way_def)
  qed
  with assms sending_inc [of "s_sending s"] show ?thesis
    by (auto simp: inc_sending_ref_def on_the_way_def)
qed

lemma dec_sending_ref_ok:
  assumes "s_id s = i" "s_protocol s = PROTOCOL_TCP" "drop_bit 16 (s_sending s) = ID_TAG16 i" "0 < on_the_way s"
  shows "\<exists>x. dec_sending_ref i s = Some (s\<lparr>s_sending := x\<rparr>) \<and> drop_bit 16 x = ID_TAG16 i \<and> Suc (unat (x AND 0xffff)) = on_the_way s"
proof -
  have "s_sending s AND 0xffff \<noteq> 0" using assms(4) by (auto simp: on_the_way_def)
  with assms sending_dec [of "s_sending s"] show ?thesis
    by (auto simp: dec_sending_ref_def on_the_way_def)
qed

subsection \<open>A connection and its senders\<close>

text \<open>
  What happens to one connection, in any order: a service sends a package of either priority,
  the socket thread handles the next command, the socket becomes writable.
\<close>

datatype conn_op = SendHigh sendbuffer | SendLow sendbuffer | Command | Writable

fun conn_step :: "os \<Rightarrow> int \<Rightarrow> conn_op \<Rightarrow> socket_server \<Rightarrow> socket_server option" where
  "conn_step os i (SendHigh b) ss = map_option snd (socket_server_send os ss i b)"
| "conn_step os i (SendLow b) ss = map_option snd (socket_server_send_lowpriority ss i b)"
| "conn_step os i Command ss = (if has_cmd ss then map_option snd (ctrl_cmd os ss) else Some ss)"
| "conn_step os i Writable ss = map_option snd (at_slot (HASH_ID i) (send_buffer os) ss)"

text \<open>Until the connection is closed; the operations that were done, and the state.\<close>

primrec conn_run :: "os \<Rightarrow> int \<Rightarrow> conn_op list \<Rightarrow> socket_server \<Rightarrow> (conn_op list \<times> socket_server) option" where
  "conn_run os i [] ss = Some ([], ss)"
| "conn_run os i (x # ops) ss =
     (if s_type (ss_slot ss (HASH_ID i)) \<noteq> SOCKET_TYPE_CONNECTED then Some ([], ss)
      else do {
        ss1 \<leftarrow> conn_step os i x ss;
        (dn, ss2) \<leftarrow> conn_run os i ops ss1;
        Some (x # dn, ss2)
      })"

fun op_high :: "conn_op \<Rightarrow> u8 list list" where
  "op_high (SendHigh b) = [contents b]"
| "op_high _ = []"

fun op_low :: "conn_op \<Rightarrow> u8 list list" where
  "op_low (SendLow b) = [contents b]"
| "op_low _ = []"

fun op_bufs :: "conn_op \<Rightarrow> sendbuffer list" where
  "op_bufs (SendHigh b) = [b]"
| "op_bufs (SendLow b) = [b]"
| "op_bufs _ = []"

definition msgs_high :: "conn_op list \<Rightarrow> u8 list list" where
  "msgs_high ops = concat (map op_high ops)"

definition msgs_low :: "conn_op list \<Rightarrow> u8 list list" where
  "msgs_low ops = concat (map op_low ops)"

definition given :: "conn_op list \<Rightarrow> sendbuffer list" where
  "given ops = concat (map op_bufs ops)"

fun req_high :: "request \<Rightarrow> u8 list list" where
  "req_high (ReqD _ b) = [contents b]"
| "req_high _ = []"

fun req_low :: "request \<Rightarrow> u8 list list" where
  "req_low (ReqP _ b) = [contents b]"
| "req_low _ = []"

fun req_bufs :: "request \<Rightarrow> sendbuffer list" where
  "req_bufs (ReqD _ b) = [b]"
| "req_bufs (ReqP _ b) = [b]"
| "req_bufs _ = []"

definition piped :: "(request \<Rightarrow> 'a list) \<Rightarrow> request list \<Rightarrow> 'a list" where
  "piped f rs = concat (map f rs)"

lemma piped_simps [simp]: "piped f [] = []" "piped f (r # rs) = f r @ piped f rs" "piped f (rs @ rs') = piped f rs @ piped f rs'"
  by (simp_all add: piped_def)

lemma msgs_simps [simp]: "msgs_high [] = []" "msgs_low [] = []" "given [] = []"
    "msgs_high (ds @ [x]) = msgs_high ds @ op_high x" "msgs_low (ds @ [x]) = msgs_low ds @ op_low x"
    "given (ds @ [x]) = given ds @ op_bufs x"
  by (simp_all add: msgs_high_def msgs_low_def given_def)

fun conn_request :: "int \<Rightarrow> request \<Rightarrow> bool" where
  "conn_request i (ReqD j b) = (j = i \<and> is_memory b)"
| "conn_request i (ReqP j b) = (j = i \<and> is_memory b)"
| "conn_request i (ReqW j) = (j = i)"
| "conn_request i _ = False"

text \<open>
  An open connection: the messages of the operations \<open>ds\<close> that were done are on the wire, in
  the lists or in the pipe; each package in the pipe is counted, so that a direct write finds
  the pipe empty; and the buffers are freed, owned by the socket or in the pipe.
\<close>

definition conn_open :: "int \<Rightarrow> int \<Rightarrow> u8 list \<Rightarrow> sendbuffer multiset \<Rightarrow> nat \<Rightarrow> nat \<Rightarrow> conn_op list \<Rightarrow> request list \<Rightarrow> world \<Rightarrow> socket \<Rightarrow> bool" where
  "conn_open i fd base F k n ds pipe w s \<longleftrightarrow>
     s_id s = i \<and> s_fd s = fd \<and> s_type s = SOCKET_TYPE_CONNECTED \<and> tcp_ok s \<and> (\<forall>r \<in> set pipe. conn_request i r) \<and>
     drop_bit 16 (s_sending s) = ID_TAG16 i \<and> length (piped req_bufs pipe) + k \<le> on_the_way s \<and> on_the_way s \<le> n \<and>
     (\<exists>hs ls. msgs_high ds = hs @ piped req_high pipe \<and> msgs_low ds = ls @ piped req_low pipe \<and> ordered base hs ls w s) \<and>
     mset (w_freed w) + owned s + mset (piped req_bufs pipe) = F + mset (given ds)"

text \<open>A closed connection: a prefix of such an order is on the wire.\<close>

definition conn_closed :: "int \<Rightarrow> u8 list \<Rightarrow> sendbuffer multiset \<Rightarrow> conn_op list \<Rightarrow> request list \<Rightarrow> world \<Rightarrow> socket \<Rightarrow> bool" where
  "conn_closed fd base F ds pipe w s \<longleftrightarrow>
     s_type s = SOCKET_TYPE_INVALID \<and>
     (\<exists>hs ls xs ys A rest. msgs_high ds = hs @ xs \<and> msgs_low ds = ls @ ys \<and> A \<in> shuffles hs ls \<and>
        wire w fd @ rest = base @ concat A) \<and>
     owned s = {#} \<and> mset (w_freed w) + mset (piped req_bufs pipe) = F + mset (given ds)"

definition conn_up :: "int \<Rightarrow> int \<Rightarrow> u8 list \<Rightarrow> sendbuffer multiset \<Rightarrow> nat \<Rightarrow> nat \<Rightarrow> conn_op list \<Rightarrow> socket_server \<Rightarrow> bool" where
  "conn_up i fd base F k n ds ss \<longleftrightarrow>
     conn_open i fd base F k n ds (ss_pipe ss) (ss_w ss) (ss_slot ss (HASH_ID i))"

definition conn_inv :: "int \<Rightarrow> int \<Rightarrow> u8 list \<Rightarrow> sendbuffer multiset \<Rightarrow> nat \<Rightarrow> nat \<Rightarrow> conn_op list \<Rightarrow> socket_server \<Rightarrow> bool" where
  "conn_inv i fd base F k n ds ss \<longleftrightarrow>
     conn_up i fd base F k n ds ss \<or>
     conn_closed fd base F ds (ss_pipe ss) (ss_w ss) (ss_slot ss (HASH_ID i))"

lemma at_slot_Some:
  "f (ss_w ss) (ss_slot ss n) = Some (r, w, s) \<Longrightarrow>
     at_slot n f ss = Some (r, ss\<lparr>ss_w := w, ss_slot := (ss_slot ss)(n := s)\<rparr>)"
  by (simp add: at_slot_def)

lemma same_conn_sending: "same_conn s s' \<Longrightarrow> on_the_way s' = on_the_way s \<and> s_sending s' = s_sending s"
  by (simp add: same_conn_def on_the_way_def)

lemma conn_open_flushed:
  assumes "conn_open i fd base F k n ds pipe w s" "flushed w s w' s'"
  shows "conn_open i fd base F k n ds pipe w' s'"
proof -
  have "same_conn s s'" "s_type s' = s_type s" "tcp_ok s'" "mset (w_freed w') + owned s' = mset (w_freed w) + owned s"
    using assms(2) by (auto simp: flushed_def)
  with assms(1) same_conn_sending [OF this(1)] ordered_flushed [OF _ assms(2)] show ?thesis
    unfolding conn_open_def same_conn_def by (metis add.assoc)
qed

lemma conn_open_closed:
  assumes "conn_open i fd base F k n ds pipe w s" "closed_from w s w' s'"
  shows "conn_closed fd base F ds pipe w' s'"
proof -
  obtain hs ls where m: "msgs_high ds = hs @ piped req_high pipe" "msgs_low ds = ls @ piped req_low pipe" "ordered base hs ls w s"
    and fd: "s_fd s = fd" and own: "mset (w_freed w) + owned s + mset (piped req_bufs pipe) = F + mset (given ds)"
    using assms(1) unfolding conn_open_def by blast
  from m(3) obtain A lo where A: "wire w fd @ pending_bytes s = base @ concat (A @ low_messages s)"
    "ls = lo @ low_messages s" "A \<in> shuffles hs lo" unfolding ordered_def fd by blast
  have "A @ low_messages s \<in> shuffles hs ls" unfolding A(2) by (rule shuffles_snoc2 [OF A(3)])
  moreover have "wire w' fd @ pending_bytes s = base @ concat (A @ low_messages s)"
    using A(1) assms(2) by (simp add: closed_from_def)
  moreover have "mset (w_freed w') + mset (piped req_bufs pipe) = F + mset (given ds)" "s_type s' = SOCKET_TYPE_INVALID" "owned s' = {#}"
    using own assms(2) by (simp_all add: closed_from_def)
  ultimately show ?thesis
    using m(1,2) unfolding conn_closed_def by blast
qed

lemma conn_open_written:
  assumes "conn_open i fd base F k n ds pipe w s" "written w s r w' s'"
  shows "conn_open i fd base F k n ds pipe w' s' \<or> conn_closed fd base F ds pipe w' s'"
  using assms(2) conn_open_flushed [OF assms(1)] conn_open_closed [OF conn_open_flushed [OF assms(1)]]
  unfolding written_def by metis

lemma conn_open_live: "conn_open i fd base F k n ds pipe w s \<Longrightarrow> live s \<and> tcp_ok s \<and> s_protocol s = PROTOCOL_TCP"
  by (auto simp: conn_open_def live_def tcp_ok_def)

lemma dw_bytes_sending: "dw_bytes (s\<lparr>s_sending := x\<rparr>) = dw_bytes s"
  by (simp add: dw_bytes_def split: option.split)

lemma sending_update:
  "tcp_ok (s\<lparr>s_sending := x\<rparr>) = tcp_ok s" "owned (s\<lparr>s_sending := x\<rparr>) = owned s"
  "ordered base hs ls w (s\<lparr>s_sending := x\<rparr>) = ordered base hs ls w s" "on_the_way (s\<lparr>s_sending := x\<rparr>) = unat (x AND 0xffff)"
  by (simp_all add: tcp_ok_def buffers_ok_def dw_bufs_def owned_def ordered_def pending_bytes_def dw_bytes_sending low_messages_def on_the_way_def)

text \<open>A request is put into the pipe and counted.\<close>

lemma conn_open_piped:
  assumes "conn_open i fd base F k n ds pipe w s" "drop_bit 16 x = ID_TAG16 i" "unat (x AND 0xffff) = Suc (on_the_way s)"
    and "conn_request i r" "op_high d = req_high r" "op_low d = req_low r" "op_bufs d = req_bufs r" "length (req_bufs r) \<le> 1"
  shows "conn_open i fd base F k (Suc n) (ds @ [d]) (pipe @ [r]) w (s\<lparr>s_sending := x\<rparr>)"
  using assms unfolding conn_open_def sending_update by (auto simp: ac_simps)

lemma conn_open_enqueue:
  assumes "conn_inv i fd base F k n ds ss" "s_type (ss_slot ss (HASH_ID i)) = SOCKET_TYPE_CONNECTED" "n < 65535"
    and "conn_request i r" "op_high d = req_high r" "op_low d = req_low r" "op_bufs d = req_bufs r" "length (req_bufs r) \<le> 1"
  shows "\<exists>ss'. enqueue_send i r ss = Some (0, ss') \<and> conn_up i fd base F k (Suc n) (ds @ [d]) ss'"
proof -
  let ?s = "ss_slot ss (HASH_ID i)"
  have op: "conn_open i fd base F k n ds (ss_pipe ss) (ss_w ss) ?s"
    using assms(1,2) by (auto simp: conn_inv_def conn_up_def conn_closed_def)
  then have "s_protocol ?s = PROTOCOL_TCP" "drop_bit 16 (s_sending ?s) = ID_TAG16 i" "on_the_way ?s < 65535"
    using assms(3) by (auto simp: conn_open_def tcp_ok_def)
  from inc_sending_ref_ok [OF this] obtain x where x: "inc_sending_ref i ?s = Some (?s\<lparr>s_sending := x\<rparr>)"
    "drop_bit 16 x = ID_TAG16 i" "unat (x AND 0xffff) = Suc (on_the_way ?s)" by blast
  from conn_open_piped [OF op x(2,3) assms(4-8)] x(1) show ?thesis
    by (simp add: enqueue_send_def change_slot_def send_request_def conn_inv_def conn_up_def)
qed

text \<open>The direct write: nothing waits and the pipe has no package.\<close>

lemma conn_open_idle:
  assumes "conn_open i fd base F k n ds pipe w s" "nomore_sending_data s"
  shows "piped req_high pipe = []" "piped req_low pipe = []" "piped req_bufs pipe = []" "pending_bytes s = []" "low_messages s = []"
    "owned s = {#}" "s_dw_buffer s = None" "s_high s = []" "s_low s = []"
proof -
  have "length (piped req_bufs pipe) = 0"
    using assms by (simp add: conn_open_def nomore_sending_data_def on_the_way_def)
  then show b: "piped req_bufs pipe = []" by simp
  have "piped req_bufs rs = [] \<Longrightarrow> piped req_high rs = [] \<and> piped req_low rs = []" for rs
  proof (induction rs)
    case (Cons r rs)
    then show ?case by (cases r) auto
  qed simp
  with b show "piped req_high pipe = []" "piped req_low pipe = []" by auto
  show "pending_bytes s = []" "low_messages s = []" "owned s = {#}" "s_dw_buffer s = None" "s_high s = []" "s_low s = []"
    using assms(2) by (simp_all add: nomore_sending_data_def send_buffer_empty_def pending_bytes_def dw_bytes_def low_messages_def owned_def dw_bufs_def)
qed

lemma stat_write_socket:
  "tcp_ok (stat_write w s n) = tcp_ok s" "owned (stat_write w s n) = owned s" "pending_bytes (stat_write w s n) = pending_bytes s"
  "low_messages (stat_write w s n) = low_messages s" "on_the_way (stat_write w s n) = on_the_way s"
  by (simp_all add: tcp_ok_def buffers_ok_def dw_bufs_def owned_def pending_bytes_def dw_bytes_def low_messages_def on_the_way_def split: option.split)

lemma direct_write_ok:
  assumes op: "conn_open i fd base F k n ds (ss_pipe ss) w s" and idle: "nomore_sending_data s" and mem: "is_memory b"
    and n: "n < 65535" "\<And>m. r = Inr m \<Longrightarrow> m \<le> length (contents b)"
    and ss: "ss_w ss = call w (Write fd (contents b) r)" "ss_slot ss (HASH_ID i) = s"
  shows "\<exists>ss'. direct_write i b (contents b) r ss = Some (0, ss') \<and> conn_up i fd base F k (Suc n) (ds @ [SendHigh b]) ss' \<and>
    (r \<noteq> Inr (length (contents b)) \<and> contents b \<noteq> [] \<longrightarrow> conn_up i fd base F 1 (Suc n) (ds @ [SendHigh b]) ss')"
proof -
  define m where "m = (case r of Inl _ \<Rightarrow> 0 | Inr j \<Rightarrow> j)"
  have m: "m \<le> length (contents b)" "wire (ss_w ss) fd = wire w fd @ take m (contents b)"
    using n(2) by (auto simp: m_def ss(1) split: sum.split)
  note id = conn_open_idle [OF op idle]
  obtain hs ls A where hs: "msgs_high ds = hs @ piped req_high (ss_pipe ss)" "msgs_low ds = ls @ piped req_low (ss_pipe ss)"
    and A: "wire w fd = base @ concat A" "A \<in> shuffles hs ls"
    using op id(4,5) unfolding conn_open_def ordered_def by auto
  have o: "s_id s = i" "s_fd s = fd" "s_type s = SOCKET_TYPE_CONNECTED" "tcp_ok s" "\<forall>r \<in> set (ss_pipe ss). conn_request i r"
    "drop_bit 16 (s_sending s) = ID_TAG16 i" "on_the_way s \<le> n" "mset (w_freed w) = F + mset (given ds)"
    using op id(3,6) by (auto simp: conn_open_def)
  have k0: "k = 0" using op id(3) idle by (simp add: conn_open_def nomore_sending_data_def on_the_way_def)
  let ?s1 = "stat_write (ss_w ss) s (int m)"
  note order = shuffles_snoc1 [OF A(2), of "contents b"]
  show ?thesis
  proof (cases "m = length (contents b)")
    case True
    then have "ordered base (hs @ [contents b]) ls ((ss_w ss)\<lparr>w_freed := w_freed (ss_w ss) @ [b]\<rparr>) ?s1"
      unfolding ordered_def stat_write_socket id(4,5) stat_write_fields wire_fields o(2) m(2)
      using A(1) order by (auto intro!: exI [of _ "A @ [contents b]"])
    then have "conn_open i fd base F k (Suc n) (ds @ [SendHigh b]) (ss_pipe ss) ((ss_w ss)\<lparr>w_freed := w_freed (ss_w ss) @ [b]\<rparr>) ?s1"
      using o hs id(1-3,6) k0 unfolding conn_open_def stat_write_socket stat_write_fields by (auto simp: ss(1))
    moreover have "r = Inr (length (contents b)) \<or> contents b = []"
      using True by (auto simp: m_def split: sum.splits)
    ultimately show ?thesis
      using True mem ss(2) by (auto simp: direct_write_def m_def [symmetric] is_memory_simps conn_inv_def conn_up_def)
  next
    case False
    let ?s2 = "?s1\<lparr>s_dw_buffer := Some b, s_dw_offset := m\<rparr>"
    have lists: "s_high s = []" "s_low s = []" by (rule id)+
    have s2: "tcp_ok ?s2" "owned ?s2 = {#b#}" "pending_bytes ?s2 = drop m (contents b)" "low_messages ?s2 = []" "on_the_way ?s2 = on_the_way s"
      using o(4) lists mem m(1)
      by (auto simp: tcp_ok_def buffers_ok_def dw_bufs_def owned_def pending_bytes_def dw_bytes_def low_messages_def on_the_way_def)
    have "s_protocol ?s2 = PROTOCOL_TCP" "drop_bit 16 (s_sending ?s2) = ID_TAG16 i" "on_the_way ?s2 < 65535"
      using o n(1) s2(5) by (auto simp: tcp_ok_def)
    from inc_sending_ref_ok [OF this] obtain x where x: "inc_sending_ref i ?s2 = Some (?s2\<lparr>s_sending := x\<rparr>)"
      "drop_bit 16 x = ID_TAG16 i" "unat (x AND 0xffff) = Suc (on_the_way ?s2)" by blast
    have "ordered base (hs @ [contents b]) ls (ss_w ss) ?s2"
      unfolding ordered_def s2(3,4) using A(1) order o(2) m(2) by (auto intro!: exI [of _ "A @ [contents b]"])
    then have "conn_open i fd base F j (Suc n) (ds @ [SendHigh b]) (ss_pipe ss @ [ReqW i]) (ss_w ss) (?s2\<lparr>s_sending := x\<rparr>)" if "j \<le> 1" for j
      using o hs id(1-3) s2 x(2,3) that unfolding conn_open_def sending_update by (auto simp: ss(1))
    from this [of 0] this [of 1] k0 show ?thesis
      using False x(1) mem ss(2)
      by (auto simp: direct_write_def m_def [symmetric] is_memory_simps conn_inv_def conn_up_def send_request_def Let_def)
  qed
qed

lemma conn_open_call:
  "conn_open i fd base F k n ds pipe w s \<Longrightarrow> \<forall>fd. wire_of fd c = [] \<Longrightarrow> conn_open i fd base F k n ds pipe (call w c) s"
  using conn_open_flushed flushed_call [OF flushed_refl] conn_open_live by metis

lemma conn_send_high:
  assumes "kernel_ok os" "conn_inv i fd base F k n ds ss" "s_type (ss_slot ss (HASH_ID i)) = SOCKET_TYPE_CONNECTED" "n < 65535"
    and "is_memory b"
  shows "\<exists>ss'. socket_server_send os ss i b = Some (0, ss') \<and> conn_up i fd base F k (Suc n) (ds @ [SendHigh b]) ss'"
proof -
  let ?s = "ss_slot ss (HASH_ID i)"
  have op: "conn_open i fd base F k n ds (ss_pipe ss) (ss_w ss) ?s"
    using assms(2,3) by (auto simp: conn_inv_def conn_up_def conn_closed_def)
  have o: "s_id ?s = i" "s_protocol ?s = PROTOCOL_TCP" "s_fd ?s = fd" using op by (auto simp: conn_open_def tcp_ok_def)
  have enq: "\<exists>ss'. enqueue_send i (ReqD i b) st = Some (0, ss') \<and> conn_up i fd base F k (Suc n) (ds @ [SendHigh b]) ss'"
    if "conn_inv i fd base F k n ds st" "ss_slot st = ss_slot ss" for st
    using conn_open_enqueue [OF that(1) _ assms(4), of "ReqD i b" "SendHigh b"] assms(3,5) that(2) by simp
  show ?thesis
  proof (cases "can_direct_write ?s i")
    case False
    with enq [OF assms(2) refl] o(1) assms(3,5) show ?thesis
      by (simp add: socket_server_send_def is_memory_simps)
  next
    case True
    obtain got where lock: "sys_trylock os (ss_w ss) i = (got, call (ss_w ss) (Trylock i got))"
      by (simp add: sys_trylock_def ask_def Let_def)
    have op1: "conn_open i fd base F k n ds (ss_pipe ss) (call (ss_w ss) (Trylock i got)) ?s"
      using conn_open_call [OF op] by simp
    show ?thesis
    proof (cases got)
      case False
      have "conn_inv i fd base F k n ds (ss\<lparr>ss_w := call (ss_w ss) (Trylock i got)\<rparr>)"
        using op1 by (simp add: conn_inv_def conn_up_def)
      from enq [OF this] True lock o(1) assms(3,5) False show ?thesis
        by (auto simp: socket_server_send_def is_memory_simps)
    next
      case got: True
      let ?w1 = "call (ss_w ss) (Trylock i True)"
      let ?r = "os_write os (w_calls ?w1) fd (contents b)"
      have wr: "sys_write os ?w1 fd (contents b) = (?r, call ?w1 (Write fd (contents b) ?r))"
        by (simp add: sys_write_def ask_def Let_def)
      have le: "m \<le> length (contents b)" if "?r = Inr m" for m
        using assms(1) that unfolding kernel_ok_def by blast
      have idle: "nomore_sending_data ?s" using True by (simp add: can_direct_write_def)
      have "\<exists>ss'. direct_write i b (contents b) ?r (ss\<lparr>ss_w := call ?w1 (Write fd (contents b) ?r)\<rparr>) = Some (0, ss') \<and>
          conn_up i fd base F k (Suc n) (ds @ [SendHigh b]) ss'"
        using direct_write_ok [OF _ idle assms(5,4) le, of i fd base F k ds "ss\<lparr>ss_w := call ?w1 (Write fd (contents b) ?r)\<rparr>" ?w1] op1 got
        by auto
      with True lock got o assms(3,5) wr show ?thesis
        by (auto simp: socket_server_send_def is_memory_simps)
    qed
  qed
qed

lemma conn_send_low:
  assumes "conn_inv i fd base F k n ds ss" "s_type (ss_slot ss (HASH_ID i)) = SOCKET_TYPE_CONNECTED" "n < 65535" "is_memory b"
  shows "\<exists>ss'. socket_server_send_lowpriority ss i b = Some (0, ss') \<and> conn_up i fd base F k (Suc n) (ds @ [SendLow b]) ss'"
proof -
  have "s_id (ss_slot ss (HASH_ID i)) = i" using assms(1,2) by (auto simp: conn_inv_def conn_up_def conn_closed_def conn_open_def)
  with conn_open_enqueue [OF assms(1-3), of "ReqP i b" "SendLow b"] assms(2,4) show ?thesis
    by (auto simp: socket_server_send_lowpriority_def is_memory_simps)
qed

text \<open>The socket thread takes a package from the pipe.\<close>

lemma conn_take:
  assumes op: "conn_open i fd base F k n ds (r # pipe) w s" and r: "r = ReqD i b \<and> p = PRIORITY_HIGH \<or> r = ReqP i b \<and> p = PRIORITY_LOW"
    and ss: "ss_w ss = w" "ss_slot ss (HASH_ID i) = s" "ss_pipe ss = pipe"
  shows "\<exists>rep ss'. at_slot (HASH_ID i) (send_socket os i b p None) ss \<bind> with_sending i = Some (rep, ss') \<and>
    conn_up i fd base F k n ds ss'"
proof -
  obtain hs ls where m: "msgs_high ds = hs @ piped req_high (r # pipe)" "msgs_low ds = ls @ piped req_low (r # pipe)" "ordered base hs ls w s"
    using op unfolding conn_open_def by blast
  have o: "tcp_ok s" "is_memory b" "s_type s = SOCKET_TYPE_CONNECTED" "s_id s = i" "s_fd s = fd"
    "\<forall>r \<in> set pipe. conn_request i r" "drop_bit 16 (s_sending s) = ID_TAG16 i"
    "Suc (length (piped req_bufs pipe) + k) \<le> on_the_way s" "on_the_way s \<le> n"
    "mset (w_freed w) + owned s + mset (piped req_bufs pipe) + {#b#} = F + mset (given ds)"
    using op r by (auto simp: conn_open_def ac_simps)
  define p' where "p' = (if send_buffer_empty s then PRIORITY_HIGH else p)"
  from send_socket_ok [OF o(1-4) p'_def, of os w] obtain rep w' s' where
    run: "send_socket os i b p None w s = Some (rep, w', s')" and f: "flushed w (added p' b s) w' s'" by blast
  obtain hs' ls' where m': "msgs_high ds = hs' @ piped req_high pipe" "msgs_low ds = ls' @ piped req_low pipe"
    and ord: "ordered base hs' ls' w (added p' b s)"
  proof (cases "p = PRIORITY_HIGH")
    case True
    then have "p' = PRIORITY_HIGH" "r = ReqD i b" using r by (auto simp: p'_def)
    with that [of "hs @ [contents b]" ls] m(1,2) ordered_high [OF m(3) o(1,2)] show ?thesis by simp
  next
    case False
    then have "p' = (if send_buffer_empty s then PRIORITY_HIGH else PRIORITY_LOW)" "r = ReqP i b" using r by (auto simp: p'_def)
    with that [of hs "ls @ [contents b]"] m(1,2) ordered_low [OF m(3) o(1,2)] show ?thesis by simp
  qed
  note ad = added_ok [OF o(1,2), of p'] added_same_conn [where s = s and p = p' and b = b]
  have sc: "same_conn s s'" "s_type s' = SOCKET_TYPE_CONNECTED" "tcp_ok s'"
    "mset (w_freed w') + owned s' = mset (w_freed w) + owned s + {#b#}"
    using f ad o(3) by (auto simp: flushed_def intro: same_conn_trans)
  note snd = same_conn_sending [OF sc(1)]
  have "0 < on_the_way s'" "drop_bit 16 (s_sending s') = ID_TAG16 i" "s_id s' = i" "s_protocol s' = PROTOCOL_TCP" "s_fd s' = fd"
    using o sc snd by (auto simp: same_conn_def tcp_ok_def)
  note fields = this
  from dec_sending_ref_ok [OF fields(3,4,2,1)] obtain x where x: "dec_sending_ref i s' = Some (s'\<lparr>s_sending := x\<rparr>)"
    "drop_bit 16 x = ID_TAG16 i" "Suc (unat (x AND 0xffff)) = on_the_way s'" by blast
  have cons: "mset (w_freed w') + owned s' + mset (piped req_bufs pipe) = F + mset (given ds)"
    using sc(4) o(10) by (metis add.commute add.left_commute)
  have "conn_open i fd base F k n ds pipe w' (s'\<lparr>s_sending := x\<rparr>)"
    unfolding conn_open_def sending_update
    using o(6,8,9) m' ordered_flushed [OF ord f] sc fields x(2,3) snd cons by auto
  with run x(1) ss show ?thesis
    by (auto simp: at_slot_def with_sending_def change_slot_def conn_inv_def conn_up_def)
qed

lemma conn_up_inv: "conn_up i fd base F k n ds ss \<Longrightarrow> conn_inv i fd base F k n ds ss"
  by (simp add: conn_inv_def)

lemma conn_command:
  assumes "conn_inv i fd base F k n ds ss" "s_type (ss_slot ss (HASH_ID i)) = SOCKET_TYPE_CONNECTED"
  shows "\<exists>ss'. conn_step os i Command ss = Some ss' \<and> conn_up i fd base F k n ds ss'"
proof (cases "ss_pipe ss")
  case Nil
  with assms show ?thesis by (auto simp: has_cmd_def conn_inv_def conn_closed_def)
next
  case (Cons r pipe)
  let ?st = "ss\<lparr>ss_pipe := pipe\<rparr>" and ?s = "ss_slot ss (HASH_ID i)"
  have op: "conn_open i fd base F k n ds (r # pipe) (ss_w ss) ?s"
    using assms Cons by (auto simp: conn_inv_def conn_up_def conn_closed_def)
  then have "conn_request i r" "s_id ?s = i" "tcp_ok ?s" by (auto simp: conn_open_def)
  then consider b where "r = ReqD i b" | b where "r = ReqP i b" | "r = ReqW i"
    by (cases r) auto
  then have "\<exists>rep ss'. run_request os r ?st = Some (rep, ss') \<and> conn_up i fd base F k n ds ss'"
  proof cases
    case (1 b)
    with conn_take [OF op, of b PRIORITY_HIGH ?st] show ?thesis by simp
  next
    case (2 b)
    with conn_take [OF op, of b PRIORITY_LOW ?st] show ?thesis by simp
  next
    case 3
    obtain e w1 s1 where en: "enable_write os (ss_w ss) ?s True = (e, w1, s1)" by (metis prod_cases3)
    note f = enable_write_flushed(1) [OF \<open>tcp_ok ?s\<close> en]
    have "conn_open i fd base F k n ds pipe (ss_w ss) ?s"
      using op 3 by (simp add: conn_open_def)
    note op' = conn_open_flushed [OF this f]
    with 3 en assms(2) \<open>s_id ?s = i\<close> show ?thesis
      by (cases e) (auto simp: at_slot_def trigger_write_def conn_inv_def conn_up_def)
  qed
  with Cons show ?thesis by (auto simp: has_cmd_def ctrl_cmd_def)
qed

lemma conn_writable:
  assumes "kernel_ok os" "conn_inv i fd base F k n ds ss" "s_type (ss_slot ss (HASH_ID i)) = SOCKET_TYPE_CONNECTED"
  shows "\<exists>ss'. conn_step os i Writable ss = Some ss' \<and> conn_inv i fd base F k n ds ss'"
proof -
  let ?s = "ss_slot ss (HASH_ID i)"
  have op: "conn_open i fd base F k n ds (ss_pipe ss) (ss_w ss) ?s"
    using assms(2,3) by (auto simp: conn_inv_def conn_up_def conn_closed_def)
  note live = conn_open_live [OF op]
  from send_buffer_written [OF assms(1), of ?s "ss_w ss"] live obtain r w' s' where
    "send_buffer os (ss_w ss) ?s = Some (r, w', s')" "written (ss_w ss) ?s r w' s'" by blast
  with conn_open_written [OF op] show ?thesis by (auto simp: at_slot_Some conn_inv_def conn_up_def)
qed

lemma conn_inv_ops:
  assumes "op_high d = []" "op_low d = []" "op_bufs d = []" "conn_inv i fd base F k n ds ss" "n \<le> m"
  shows "conn_inv i fd base F k m (ds @ [d]) ss"
  using assms unfolding conn_inv_def conn_up_def conn_open_def conn_closed_def by auto

lemma conn_step_ok:
  assumes "kernel_ok os" "conn_inv i fd base F k n ds ss" "s_type (ss_slot ss (HASH_ID i)) = SOCKET_TYPE_CONNECTED" "n < 65535"
    and "\<forall>b \<in> set (op_bufs x). is_memory b"
  shows "\<exists>ss'. conn_step os i x ss = Some ss' \<and> conn_inv i fd base F k (Suc n) (ds @ [x]) ss'"
proof (cases x)
  case (SendHigh b)
  with conn_send_high [OF assms(1-4), of b] assms(5) conn_up_inv show ?thesis by fastforce
next
  case (SendLow b)
  with conn_send_low [OF assms(2-4), of b] assms(5) conn_up_inv show ?thesis by fastforce
next
  case Command
  obtain ss' where "conn_step os i Command ss = Some ss'" "conn_inv i fd base F k n ds ss'"
    using conn_command [OF assms(2,3)] conn_up_inv by blast
  with conn_inv_ops [of Command i fd base F k n ds ss' "Suc n"] Command show ?thesis by auto
next
  case Writable
  obtain ss' where "conn_step os i Writable ss = Some ss'" "conn_inv i fd base F k n ds ss'"
    using conn_writable [OF assms(1-3)] by blast
  with conn_inv_ops [of Writable i fd base F k n ds ss' "Suc n"] Writable show ?thesis by auto
qed

lemma given_Cons [simp]: "given (x # ops) = op_bufs x @ given ops"
  by (simp add: given_def)

theorem conn_run_inv:
  assumes "kernel_ok os" "conn_inv i fd base F k n ds ss" "n + length ops \<le> 65535" "\<forall>b \<in> set (given ops). is_memory b"
  shows "\<exists>dn ss' m. conn_run os i ops ss = Some (dn, ss') \<and> prefix dn ops \<and> conn_inv i fd base F k m (ds @ dn) ss' \<and>
    m \<le> n + length dn \<and> (s_type (ss_slot ss' (HASH_ID i)) = SOCKET_TYPE_CONNECTED \<longrightarrow> dn = ops)"
  using assms(2-)
proof (induction ops arbitrary: n ds ss)
  case Nil
  then show ?case by auto
next
  case (Cons x ops)
  show ?case
  proof (cases "s_type (ss_slot ss (HASH_ID i)) = SOCKET_TYPE_CONNECTED")
    case True
    from conn_step_ok [OF assms(1) Cons.prems(1) True, of x] Cons.prems(2,3) obtain ss1 where
      ss1: "conn_step os i x ss = Some ss1" "conn_inv i fd base F k (Suc n) (ds @ [x]) ss1" by auto
    from Cons.IH [OF ss1(2)] Cons.prems(2,3) obtain dn ss' m where
      "conn_run os i ops ss1 = Some (dn, ss')" "prefix dn ops" "conn_inv i fd base F k m ((ds @ [x]) @ dn) ss'"
      "m \<le> Suc n + length dn" "s_type (ss_slot ss' (HASH_ID i)) = SOCKET_TYPE_CONNECTED \<longrightarrow> dn = ops"
      by auto
    with True ss1(1) show ?thesis by auto
  next
    case False
    with Cons.prems(1) show ?thesis by auto
  qed
qed

text \<open>A connection that is open and has nothing to send, as \<open>new_fd\<close> and \<open>resume_socket\<close> leave it.\<close>

definition fresh_conn :: "int \<Rightarrow> socket_server \<Rightarrow> bool" where
  "fresh_conn i ss \<longleftrightarrow> (let s = ss_slot ss (HASH_ID i) in
     s_id s = i \<and> s_type s = SOCKET_TYPE_CONNECTED \<and> s_protocol s = PROTOCOL_TCP \<and> s_high s = [] \<and> s_low s = [] \<and>
     s_dw_buffer s = None \<and> s_wb_size s = 0 \<and> s_sending s = push_bit 16 (ID_TAG16 i) \<and> ss_pipe ss = [])"

lemma fresh_sending: "push_bit 16 (ID_TAG16 i) AND 0xffff = 0" "drop_bit 16 (push_bit 16 (ID_TAG16 i)) = ID_TAG16 i"
proof -
  have e: "unat (ID_TAG16 i) < 65536" by (simp add: ID_TAG16_def and_low16)
  have u: "unat (push_bit 16 (ID_TAG16 i)) = unat (ID_TAG16 i) * 65536"
    using e by (simp add: push_bit_eq_mult unat_word_ariths)
  show "push_bit 16 (ID_TAG16 i) AND 0xffff = 0"
    by (simp add: word_unat_eq_iff and_low16 u)
  show "drop_bit 16 (push_bit 16 (ID_TAG16 i)) = ID_TAG16 i"
    by (simp add: word_unat_eq_iff drop_low16 u)
qed

lemma fresh_conn_open:
  assumes "fresh_conn i ss"
  shows "conn_inv i (s_fd (ss_slot ss (HASH_ID i))) (wire (ss_w ss) (s_fd (ss_slot ss (HASH_ID i)))) (mset (w_freed (ss_w ss))) 0 0 [] ss"
  using assms fresh_sending [of i]
  by (auto simp: fresh_conn_def conn_inv_def conn_up_def conn_open_def tcp_ok_def buffers_ok_def dw_bufs_def on_the_way_def ordered_def
      pending_bytes_def dw_bytes_def low_messages_def owned_def Let_def)


subsection \<open>A system that takes everything\<close>











subsection \<open>The guarantees of a connection\<close>

text \<open>A service as the witnesses use it: the system takes at most \<open>n\<close> bytes of a write.\<close>

definition test_os :: "nat \<Rightarrow> os" where
  "test_os n = \<lparr>os_write = \<lambda>h fd bs. Inr (min n (length bs)), os_sendto = \<lambda>h fd bs sa. Inl EAGAIN,
     os_read = \<lambda>h fd sz. Inl EAGAIN, os_recvfrom = \<lambda>h fd. Inl EAGAIN, os_accept = \<lambda>h fd. Inl EAGAIN,
     os_trylock = \<lambda>h i. True, os_sp_add = \<lambda>h fd. False, os_sp_enable = \<lambda>h fd. False, os_sp_wait = \<lambda>h. Inl EINTR,
     os_so_error = \<lambda>h fd. Inr 0, os_peer = \<lambda>h fd. None, os_sockname = \<lambda>h fd. None, os_getaddrinfo = \<lambda>h a p. Inl [],
     os_socket = \<lambda>h. Inl EMFILE, os_connect = \<lambda>h fd sa. None, os_bind = \<lambda>h fd. None, os_reuseaddr = \<lambda>h fd. False,
     os_listen = \<lambda>h fd. None, os_error_text = \<lambda>h. [], os_strerror_code = \<lambda>e. [], os_inet_ntop = \<lambda>sa. None,
     os_ntohs = \<lambda>p. 0\<rparr>"

definition test_socket :: "protocol \<Rightarrow> int \<Rightarrow> socket" where
  "test_socket p i = \<lparr>s_opaque = 1, s_high = [], s_low = [], s_wb_size = 0,
     s_stat = \<lparr>st_rtime = 0, st_wtime = 0, st_read = 0, st_write = 0\<rparr>, s_sending = push_bit 16 (ID_TAG16 i), s_fd = 7, s_id = i,
     s_protocol = p, s_type = SOCKET_TYPE_CONNECTED, s_reading = True, s_writing = False, s_udpconnecting = 0, s_warn_size = 0,
     s_size = 64, s_udp_address = 1 # replicate 18 0, s_dw_offset = 0, s_dw_buffer = None\<rparr>"

definition test_server :: "protocol \<Rightarrow> int \<Rightarrow> socket_server" where
  "test_server p i = \<lparr>ss_w = \<lparr>w_time = 0, w_soi = False, w_calls = [], w_freed = []\<rparr>, ss_recvctrl_fd = 3, ss_sendctrl_fd = 4,
     ss_pipe = [], ss_checkctrl = False, ss_event_fd = 5, ss_alloc_id = i, ss_event_index = 0, ss_ev = [],
     ss_slot = (\<lambda>n. (test_socket p i)\<lparr>s_type := if n = HASH_ID i then SOCKET_TYPE_CONNECTED else SOCKET_TYPE_INVALID\<rparr>)\<rparr>"

lemma test_kernel: "0 < n \<Longrightarrow> kernel_ok (test_os n)"
  by (simp add: kernel_ok_def test_os_def)

lemma test_fresh: "fresh_conn i (test_server PROTOCOL_TCP i)"
  by (simp add: fresh_conn_def test_server_def test_socket_def)


definition test_ops :: "conn_op list" where
  "test_ops = [SendHigh (SOCKET_BUFFER_MEMORY 1 [10, 11, 12]), SendLow (SOCKET_BUFFER_MEMORY 2 [20, 21]), Command, Command, Writable]"

lemma test_facts:
  "HASH_ID 1 = 1" "length test_ops \<le> 65535" "\<forall>b \<in> set (given test_ops). is_memory b"
  "s_fd (ss_slot (test_server p i) n) = 7" "wire (ss_w (test_server p i)) fd = []" "w_freed (ss_w (test_server p i)) = []"
  by (simp_all add: test_ops_def HASH_ID_def MAX_SOCKET_def MAX_SOCKET_P_def given_def test_server_def test_socket_def wire_def)







subsection \<open>Direct writes\<close>

lemma partial_direct_write:
  assumes "kernel_ok os" "fresh_conn i ss" "is_memory b" "contents b \<noteq> []" "s_udpconnecting (ss_slot ss (HASH_ID i)) = 0"
    and "os_trylock os (w_calls (ss_w ss)) i"
    and "os_write os (w_calls (ss_w ss) @ [Trylock i True]) (s_fd (ss_slot ss (HASH_ID i))) (contents b) \<noteq> Inr (length (contents b))"
  shows "\<exists>ss1. socket_server_send os ss i b = Some (0, ss1) \<and>
    conn_up i (s_fd (ss_slot ss (HASH_ID i))) (wire (ss_w ss) (s_fd (ss_slot ss (HASH_ID i)))) (mset (w_freed (ss_w ss))) 1 1 [SendHigh b] ss1"
proof -
  let ?s = "ss_slot ss (HASH_ID i)"
  let ?fd = "s_fd ?s" and ?base = "wire (ss_w ss) (s_fd ?s)" and ?F = "mset (w_freed (ss_w ss))"
  let ?w1 = "call (ss_w ss) (Trylock i True)"
  let ?r = "os_write os (w_calls ?w1) ?fd (contents b)"
  have op: "conn_open i ?fd ?base ?F 0 0 [] (ss_pipe ss) (ss_w ss) ?s"
    using fresh_conn_open [OF assms(2)] assms(2) by (auto simp: conn_inv_def conn_up_def conn_closed_def fresh_conn_def Let_def)
  have o: "s_id ?s = i" "s_protocol ?s = PROTOCOL_TCP" "s_type ?s = SOCKET_TYPE_CONNECTED" using op by (auto simp: conn_open_def tcp_ok_def)
  have idle: "nomore_sending_data ?s"
    using assms(2) fresh_sending [of i] by (auto simp: fresh_conn_def nomore_sending_data_def send_buffer_empty_def Let_def)
  have can: "can_direct_write ?s i" using idle o assms(5) by (simp add: can_direct_write_def)
  have lock: "sys_trylock os (ss_w ss) i = (True, ?w1)" using assms(6) by (simp add: sys_trylock_def ask_def)
  have wr: "sys_write os ?w1 ?fd (contents b) = (?r, call ?w1 (Write ?fd (contents b) ?r))"
    by (simp add: sys_write_def ask_def Let_def)
  have le: "m \<le> length (contents b)" if "?r = Inr m" for m
    using assms(1) that unfolding kernel_ok_def by blast
  have op1: "conn_open i ?fd ?base ?F 0 0 [] (ss_pipe ss) ?w1 ?s" using conn_open_call [OF op] by simp
  have "\<exists>ss1. direct_write i b (contents b) ?r (ss\<lparr>ss_w := call ?w1 (Write ?fd (contents b) ?r)\<rparr>) = Some (0, ss1) \<and>
      conn_up i ?fd ?base ?F 1 1 [SendHigh b] ss1"
    using direct_write_ok [OF _ idle assms(3) _ le, of i ?fd ?base ?F 0 0 "[]" "ss\<lparr>ss_w := call ?w1 (Write ?fd (contents b) ?r)\<rparr>" ?w1]
      op1 assms(4,7) by auto
  with can lock o wr assms(3) show ?thesis
    by (auto simp: socket_server_send_def is_memory_simps)
qed

text \<open>
  C32: A direct write that the kernel takes only in part is the last one of its connection: it
  counts a package on the way for its W request, which no command takes back, so that after any
  further operations the connection is never idle again, and a close without shutdown never
  closes at once.
\<close>

theorem direct_write_never_again:
  assumes "kernel_ok os" "fresh_conn i ss" "is_memory b" "contents b \<noteq> []" "s_udpconnecting (ss_slot ss (HASH_ID i)) = 0"
    and "os_trylock os (w_calls (ss_w ss)) i"
    and "os_write os (w_calls (ss_w ss) @ [Trylock i True]) (s_fd (ss_slot ss (HASH_ID i))) (contents b) \<noteq> Inr (length (contents b))"
    and "length ops < 65535" "\<forall>b \<in> set (given ops). is_memory b"
  shows "\<exists>ss1 dn ss2. socket_server_send os ss i b = Some (0, ss1) \<and> conn_run os i ops ss1 = Some (dn, ss2) \<and>
    \<not> can_direct_write (ss_slot ss2 (HASH_ID i)) i \<and>
    (s_type (ss_slot ss2 (HASH_ID i)) = SOCKET_TYPE_CONNECTED \<longrightarrow> \<not> nomore_sending_data (ss_slot ss2 (HASH_ID i)))"
proof -
  obtain ss1 where ss1: "socket_server_send os ss i b = Some (0, ss1)"
    "conn_up i (s_fd (ss_slot ss (HASH_ID i))) (wire (ss_w ss) (s_fd (ss_slot ss (HASH_ID i)))) (mset (w_freed (ss_w ss))) 1 1 [SendHigh b] ss1"
    using partial_direct_write [OF assms(1-7)] by blast
  obtain dn ss2 m where run: "conn_run os i ops ss1 = Some (dn, ss2)"
    and inv: "conn_inv i (s_fd (ss_slot ss (HASH_ID i))) (wire (ss_w ss) (s_fd (ss_slot ss (HASH_ID i)))) (mset (w_freed (ss_w ss))) 1 m ([SendHigh b] @ dn) ss2"
    using conn_run_inv [OF assms(1) conn_up_inv [OF ss1(2)] _ assms(9)] assms(8) by auto
  have "\<not> nomore_sending_data (ss_slot ss2 (HASH_ID i)) \<or> s_type (ss_slot ss2 (HASH_ID i)) = SOCKET_TYPE_INVALID"
    using inv by (auto simp: conn_inv_def conn_up_def conn_open_def conn_closed_def nomore_sending_data_def on_the_way_def)
  with ss1(1) run show ?thesis by (auto simp: can_direct_write_def)
qed

theorem direct_write_never_again_witness:
  "\<exists>ss1 dn ss2. socket_server_send (test_os 2) (test_server PROTOCOL_TCP 1) 1 (SOCKET_BUFFER_MEMORY 1 [1, 2, 3]) = Some (0, ss1) \<and>
    conn_run (test_os 2) 1 [Command, Writable, Writable] ss1 = Some (dn, ss2) \<and> \<not> can_direct_write (ss_slot ss2 1) 1"
proof -
  have k: "kernel_ok (test_os 2)" by (rule test_kernel) simp
  have o: "\<forall>b \<in> set (given [Command, Writable, Writable]). is_memory b" by simp
  have l: "length [Command, Writable, Writable] < 65535" by simp
  have h: "s_udpconnecting (ss_slot (test_server PROTOCOL_TCP 1) (HASH_ID 1)) = 0"
    "os_trylock (test_os 2) (w_calls (ss_w (test_server PROTOCOL_TCP 1))) 1"
    "os_write (test_os 2) (w_calls (ss_w (test_server PROTOCOL_TCP 1)) @ [Trylock 1 True])
       (s_fd (ss_slot (test_server PROTOCOL_TCP 1) (HASH_ID 1))) (contents (SOCKET_BUFFER_MEMORY 1 [1, 2, 3])) \<noteq>
     Inr (length (contents (SOCKET_BUFFER_MEMORY 1 [1, 2, 3])))"
    by (simp_all add: test_server_def test_socket_def test_os_def)
  have b: "is_memory (SOCKET_BUFFER_MEMORY 1 [1, 2, 3])" "contents (SOCKET_BUFFER_MEMORY 1 [1, 2, 3]) \<noteq> []" by simp_all
  from direct_write_never_again [OF k test_fresh [of 1] b h l o] show ?thesis
    unfolding test_facts(1) by blast
qed

text \<open>
  C33: A UDP socket on which a direct write finds the kernel busy makes the socket thread read
  outside the buffer: the rest of the package is put into a buffer without room for an address,
  and the next writable event reads the address there.
\<close>

theorem udp_direct_write_reads_outside:
  assumes "s_id (ss_slot ss (HASH_ID i)) = i" "can_direct_write (ss_slot ss (HASH_ID i)) i"
    and "s_protocol (ss_slot ss (HASH_ID i)) = PROTOCOL_UDP" "hd (s_udp_address (ss_slot ss (HASH_ID i))) = 1"
    and "is_memory b" "contents b \<noteq> []" "\<And>h i. os_trylock os h i" "\<And>h fd bs sa. os_sendto os h fd bs sa = Inl EAGAIN"
  shows "\<exists>ss1. socket_server_send os ss i b = Some (0, ss1) \<and> at_slot (HASH_ID i) (send_buffer os) ss1 = None"
proof -
  let ?s = "ss_slot ss (HASH_ID i)"
  have s: "s_high ?s = []" "s_low ?s = []" "s_dw_buffer ?s = None" "s_type ?s = SOCKET_TYPE_CONNECTED"
    using assms(2) by (simp_all add: can_direct_write_def nomore_sending_data_def send_buffer_empty_def)
  have adr: "\<exists>sa. udp_socket_address ?s (s_udp_address ?s) = Some sa"
    using assms(3,4) by (simp add: udp_socket_address_def protocol_byte_def)
  have "\<exists>ss1. socket_server_send os ss i b = Some (0, ss1) \<and> s_protocol (ss_slot ss1 (HASH_ID i)) = PROTOCOL_UDP \<and>
      s_high (ss_slot ss1 (HASH_ID i)) = [] \<and> s_low (ss_slot ss1 (HASH_ID i)) = [] \<and>
      s_dw_buffer (ss_slot ss1 (HASH_ID i)) = Some b"
    using assms(1,2,3,5-8) s adr
    by (auto simp: socket_server_send_def sys_trylock_def ask_def is_memory_simps sys_sendto_def direct_write_def
        inc_sending_ref_def send_request_def Let_def)
  then obtain ss1 where ss1: "socket_server_send os ss i b = Some (0, ss1)" "s_protocol (ss_slot ss1 (HASH_ID i)) = PROTOCOL_UDP"
    "s_high (ss_slot ss1 (HASH_ID i)) = []" "s_low (ss_slot ss1 (HASH_ID i)) = []" "s_dw_buffer (ss_slot ss1 (HASH_ID i)) = Some b"
    by blast
  have "at_slot (HASH_ID i) (send_buffer os) ss1 = None"
    using ss1(2-5) assms(5,7)
    by (simp add: at_slot_def send_buffer_def sys_trylock_def ask_def put_dw_buffer_def is_memory_simps send_buffer0_def
        list_uncomplete_def send_list_def send_list_udp.simps wb_list_def Let_def)
  with ss1(1) show ?thesis by blast
qed

theorem udp_direct_write_reads_outside_witness:
  "\<exists>ss1. socket_server_send (test_os 2) (test_server PROTOCOL_UDP 1) 1 (SOCKET_BUFFER_MEMORY 1 [1, 2, 3]) = Some (0, ss1) \<and>
    at_slot 1 (send_buffer (test_os 2)) ss1 = None"
proof -
  have s: "s_id (ss_slot (test_server PROTOCOL_UDP 1) (HASH_ID 1)) = 1"
    "can_direct_write (ss_slot (test_server PROTOCOL_UDP 1) (HASH_ID 1)) 1"
    "s_protocol (ss_slot (test_server PROTOCOL_UDP 1) (HASH_ID 1)) = PROTOCOL_UDP"
    "hd (s_udp_address (ss_slot (test_server PROTOCOL_UDP 1) (HASH_ID 1))) = 1"
    using fresh_sending [of 1]
    by (simp_all add: test_server_def test_socket_def can_direct_write_def nomore_sending_data_def send_buffer_empty_def)
  have b: "is_memory (SOCKET_BUFFER_MEMORY 1 [1, 2, 3])" "contents (SOCKET_BUFFER_MEMORY 1 [1, 2, 3]) \<noteq> []" by simp_all
  show ?thesis
    using udp_direct_write_reads_outside [OF s b, of "test_os 2"] by (simp add: test_facts(1) test_os_def)
qed

subsection \<open>Socket ids\<close>

lemma next_id_range: "0 \<le> a \<Longrightarrow> a < 2 ^ 31 \<Longrightarrow> next_id a = (a + 1) mod 2 ^ 31"
proof -
  assume a: "0 \<le> a" "a < 2 ^ 31"
  show ?thesis
  proof (cases "a = 2 ^ 31 - 1")
    case True
    then show ?thesis by (simp add: next_id_def to_s32_def)
  next
    case False
    with a show ?thesis by (simp add: next_id_def to_s32_id)
  qed
qed

lemma HASH_ID_mod: "HASH_ID (x mod 2147483648) = HASH_ID x" "HASH_ID (x mod 2 ^ 31) = HASH_ID x"
  by (simp_all add: HASH_ID_def MAX_SOCKET_def MAX_SOCKET_P_def mod_mod_cancel)

lemma HASH_ID_less: "HASH_ID x < MAX_SOCKET"
  by (simp add: HASH_ID_def MAX_SOCKET_def MAX_SOCKET_P_def nat_less_iff)

definition reserved :: "socket \<Rightarrow> int \<Rightarrow> socket" where
  "reserved s i = s\<lparr>s_type := SOCKET_TYPE_RESERVE, s_id := i, s_protocol := PROTOCOL_UNKNOWN, s_udpconnecting := 0, s_fd := -1\<rparr>"

text \<open>The scan tries the ids after \<open>alloc_id\<close> one by one.\<close>

lemma reserve_scan_found:
  assumes "0 \<le> ss_alloc_id ss" "ss_alloc_id ss < 2 ^ 31"
    and "k < n" "s_type (ss_slot ss (HASH_ID (ss_alloc_id ss + 1 + int k))) = SOCKET_TYPE_INVALID"
    and "\<And>j. j < k \<Longrightarrow> s_type (ss_slot ss (HASH_ID (ss_alloc_id ss + 1 + int j))) \<noteq> SOCKET_TYPE_INVALID"
  shows "reserve_scan n ss = (let i = (ss_alloc_id ss + 1 + int k) mod 2 ^ 31 in
    (i, ss\<lparr>ss_alloc_id := i, ss_slot := (ss_slot ss)(HASH_ID i := reserved (ss_slot ss (HASH_ID i)) i)\<rparr>))"
  using assms
proof (induction n arbitrary: ss k)
  case 0
  then show ?case by simp
next
  case (Suc n)
  let ?a = "ss_alloc_id ss"
  let ?i = "(?a + 1) mod 2 ^ 31"
  have i: "next_id ?a = ?i" using next_id_range Suc.prems(1,2) by blast
  show ?case
  proof (cases k)
    case 0
    with Suc.prems(4) i show ?thesis by (simp add: Let_def HASH_ID_mod reserved_def fun_upd_def cong: if_cong)
  next
    case (Suc j)
    let ?ss = "ss\<lparr>ss_alloc_id := ?i\<rparr>"
    have "s_type (ss_slot ss (HASH_ID ?i)) \<noteq> SOCKET_TYPE_INVALID"
      using Suc.prems(5) [of 0] Suc by (simp add: HASH_ID_mod)
    then have step: "reserve_scan (Suc n) ss = reserve_scan n ?ss" by (simp add: Let_def i)
    have h: "HASH_ID (ss_alloc_id ?ss + 1 + int m) = HASH_ID (?a + 1 + int (Suc m))" for m
    proof -
      have "HASH_ID (?i + (1 + int m)) = HASH_ID ((?i + (1 + int m)) mod 2 ^ 31)" by (simp only: HASH_ID_mod)
      also have "(?i + (1 + int m)) mod 2 ^ 31 = (?a + 1 + int (Suc m)) mod 2 ^ 31"
        by (simp add: mod_add_left_eq add.assoc)
      finally show ?thesis by (simp only: HASH_ID_mod) (simp add: add.assoc)
    qed
    have r: "(ss_alloc_id ?ss + 1 + int j) mod 2 ^ 31 = (?a + 1 + int k) mod 2 ^ 31"
      using Suc by (simp add: mod_add_left_eq add.assoc)
    have "reserve_scan n ?ss = (let i = (ss_alloc_id ?ss + 1 + int j) mod 2 ^ 31 in
        (i, ?ss\<lparr>ss_alloc_id := i, ss_slot := (ss_slot ?ss)(HASH_ID i := reserved (ss_slot ?ss (HASH_ID i)) i)\<rparr>))"
    proof (rule Suc.IH)
      show "0 \<le> ss_alloc_id ?ss" "ss_alloc_id ?ss < 2 ^ 31" by simp_all
      show "j < n" using Suc Suc.prems(3) by simp
      show "s_type (ss_slot ?ss (HASH_ID (ss_alloc_id ?ss + 1 + int j))) = SOCKET_TYPE_INVALID"
        unfolding h using Suc.prems(4) Suc by simp
      show "s_type (ss_slot ?ss (HASH_ID (ss_alloc_id ?ss + 1 + int m))) \<noteq> SOCKET_TYPE_INVALID" if "m < j" for m
        unfolding h using Suc.prems(5) [of "Suc m"] Suc that by simp
    qed
    also note r
    finally show ?thesis unfolding step by (simp add: Let_def)
  qed
qed

lemma reserve_scan_full:
  assumes "0 \<le> ss_alloc_id ss" "ss_alloc_id ss < 2 ^ 31"
    and "\<And>h. h < MAX_SOCKET \<Longrightarrow> s_type (ss_slot ss h) \<noteq> SOCKET_TYPE_INVALID"
  shows "\<exists>a. reserve_scan n ss = (-1, ss\<lparr>ss_alloc_id := a\<rparr>)"
  using assms
proof (induction n arbitrary: ss)
  case 0
  then show ?case by (auto intro!: exI [of _ "ss_alloc_id ss"])
next
  case (Suc n)
  have "reserve_scan (Suc n) ss = reserve_scan n (ss\<lparr>ss_alloc_id := next_id (ss_alloc_id ss)\<rparr>)"
    using Suc.prems(3) [OF HASH_ID_less] by (simp add: Let_def)
  with Suc.IH [of "ss\<lparr>ss_alloc_id := next_id (ss_alloc_id ss)\<rparr>"] Suc.prems next_id_range [OF Suc.prems(1,2)] show ?case
    by auto
qed

lemma hash_hits:
  assumes "h < MAX_SOCKET"
  shows "\<exists>k < MAX_SOCKET. HASH_ID (a + 1 + int k) = h"
proof -
  let ?m = "int MAX_SOCKET"
  have m: "0 < ?m" by (simp add: MAX_SOCKET_def)
  let ?k = "nat ((int h - (a + 1)) mod ?m)"
  have k: "int ?k = (int h - (a + 1)) mod ?m" using m by simp
  have "(a + 1 + int ?k) mod ?m = int h"
    unfolding k using assms by (simp add: mod_add_right_eq)
  moreover have "?k < MAX_SOCKET"
    using pos_mod_bound [OF m, of "int h - (a + 1)"] k by linarith
  ultimately show ?thesis by (auto simp: HASH_ID_def)
qed

text \<open>
  C16: Reserving an id finds a free slot whenever there is one, also when the counter wraps: the
  id is not negative, it is not the id of any other slot in use, only its slot changes, and it
  fails only when all 65536 slots are in use.
\<close>

theorem reserve_id_fresh:
  assumes "0 \<le> ss_alloc_id ss" "ss_alloc_id ss < 2 ^ 31"
    and "\<forall>h < MAX_SOCKET. s_type (ss_slot ss h) \<noteq> SOCKET_TYPE_INVALID \<longrightarrow> HASH_ID (s_id (ss_slot ss h)) = h"
  shows "if \<exists>h < MAX_SOCKET. s_type (ss_slot ss h) = SOCKET_TYPE_INVALID
    then \<exists>i. reserve_id ss = (i, ss\<lparr>ss_alloc_id := i, ss_slot := (ss_slot ss)(HASH_ID i := reserved (ss_slot ss (HASH_ID i)) i)\<rparr>) \<and>
      0 \<le> i \<and> i < 2 ^ 31 \<and> s_type (ss_slot ss (HASH_ID i)) = SOCKET_TYPE_INVALID \<and>
      (\<forall>h < MAX_SOCKET. s_type (ss_slot ss h) \<noteq> SOCKET_TYPE_INVALID \<longrightarrow> s_id (ss_slot ss h) \<noteq> i)
    else \<exists>a. reserve_id ss = (-1, ss\<lparr>ss_alloc_id := a\<rparr>)"
proof (cases "\<exists>h < MAX_SOCKET. s_type (ss_slot ss h) = SOCKET_TYPE_INVALID")
  case True
  then obtain h where h: "h < MAX_SOCKET" "s_type (ss_slot ss h) = SOCKET_TYPE_INVALID" by blast
  define P where "P k \<longleftrightarrow> s_type (ss_slot ss (HASH_ID (ss_alloc_id ss + 1 + int k))) = SOCKET_TYPE_INVALID" for k
  obtain k0 where k0: "k0 < MAX_SOCKET" "P k0" using hash_hits [OF h(1), of "ss_alloc_id ss"] h(2) by (auto simp: P_def)
  define k where "k = (LEAST k. P k)"
  have "P k" "k \<le> k0" unfolding k_def using LeastI [of P k0] Least_le [of P k0] k0(2) by blast+
  then have k: "P k" "k < MAX_SOCKET" using k0(1) by auto
  have less: "\<not> P j" if "j < k" for j using not_less_Least [of j P] that by (simp add: k_def)
  let ?i = "(ss_alloc_id ss + 1 + int k) mod 2 ^ 31"
  have "reserve_id ss = (let i = ?i in (i, ss\<lparr>ss_alloc_id := i, ss_slot := (ss_slot ss)(HASH_ID i := reserved (ss_slot ss (HASH_ID i)) i)\<rparr>))"
    unfolding reserve_id_def by (rule reserve_scan_found [OF assms(1,2) k(2) k(1) [unfolded P_def] less [unfolded P_def]])
  moreover have free: "s_type (ss_slot ss (HASH_ID ?i)) = SOCKET_TYPE_INVALID" using k(1) by (simp add: P_def HASH_ID_mod)
  moreover have "s_id (ss_slot ss h) \<noteq> ?i" if "h < MAX_SOCKET" "s_type (ss_slot ss h) \<noteq> SOCKET_TYPE_INVALID" for h
    using assms(3) that free by metis
  ultimately show ?thesis using True by (auto simp: Let_def)
next
  case False
  then have "h < MAX_SOCKET \<Longrightarrow> s_type (ss_slot ss h) \<noteq> SOCKET_TYPE_INVALID" for h by metis
  from reserve_scan_full [OF assms(1,2) this, of MAX_SOCKET] False show ?thesis by (auto simp: reserve_id_def)
qed

theorem reserve_id_fresh_witness:
  "\<exists>i. fst (reserve_id ((test_server PROTOCOL_TCP 1)\<lparr>ss_alloc_id := 2 ^ 31 - 1\<rparr>)) = i \<and> 0 \<le> i \<and> i \<noteq> 1"
proof -
  let ?ss = "(test_server PROTOCOL_TCP 1)\<lparr>ss_alloc_id := 2 ^ 31 - 1\<rparr>"
  have a: "0 \<le> ss_alloc_id ?ss" "ss_alloc_id ?ss < 2 ^ 31" by simp_all
  have b: "\<forall>h < MAX_SOCKET. s_type (ss_slot ?ss h) \<noteq> SOCKET_TYPE_INVALID \<longrightarrow> HASH_ID (s_id (ss_slot ?ss h)) = h"
    by (auto simp: test_server_def test_socket_def)
  have c: "0 < MAX_SOCKET" "1 < MAX_SOCKET" "s_type (ss_slot ?ss 0) = SOCKET_TYPE_INVALID" "s_type (ss_slot ?ss 1) \<noteq> SOCKET_TYPE_INVALID"
      "s_id (ss_slot ?ss 1) = 1"
    by (simp_all add: MAX_SOCKET_def MAX_SOCKET_P_def test_server_def test_socket_def test_facts(1))
  then have e: "\<exists>h < MAX_SOCKET. s_type (ss_slot ?ss h) = SOCKET_TYPE_INVALID" by blast
  from reserve_id_fresh [OF a b] obtain i where i: "0 \<le> i"
    "\<forall>h < MAX_SOCKET. s_type (ss_slot ?ss h) \<noteq> SOCKET_TYPE_INVALID \<longrightarrow> s_id (ss_slot ?ss h) \<noteq> i"
    "reserve_id ?ss = (i, ?ss\<lparr>ss_alloc_id := i, ss_slot := (ss_slot ?ss)(HASH_ID i := reserved (ss_slot ?ss (HASH_ID i)) i)\<rparr>)"
    unfolding if_P [OF e] by blast
  with c(2,4,5) show ?thesis by (intro exI [of _ i]) (auto simp del: One_nat_def)
qed

subsection \<open>Closing\<close>












end
