(* ===== verification/Skynet_Socket.thy ===== *)
theory Skynet_Socket
  imports Lua_Socket_Buffer Gate_Properties Server_Properties Socket_Connection
begin

text \<open>
  The interface between services and the socket server, \<^verbatim>\<open>skynet-src/skynet_socket.c\<close>: the
  socket thread turns what a poll returns into a message for the service that owns the socket,
  and the requests of services are handed on with their handle. Then the calls of the Lua driver
  \<^verbatim>\<open>lualib-src/lua-socket.c\<close> that take buffers and addresses apart. \<open>None\<close> is a crash.
\<close>

subsection \<open>Messages for services\<close>

definition SKYNET_SOCKET_TYPE_UDP :: int where "SKYNET_SOCKET_TYPE_UDP = 6"

text \<open>
  \<open>forward_message\<close>: the result of a poll as a message for the service that owns the socket.
  With padding the text goes behind the struct (at most 128 characters), without it the buffer
  is handed over. A buffer that no service takes is freed: it is the first component of the
  result. \<open>sizeof(struct skynet_socket_message)\<close> is 24.
\<close>

definition padding_bytes :: "message_data \<Rightarrow> u8 list option" where
  "padding_bytes d = (case d of NoData \<Rightarrow> Some [] | Text t \<Rightarrow> Some (bytes_of (take 128 (c_str t))) | Data bs \<Rightarrow> None)"

definition buffer_payload :: "message_data \<Rightarrow> payload option" where
  "buffer_payload d = (case d of NoData \<Rightarrow> Some PNull | Data bs \<Rightarrow> Some (PBytes bs) | Text t \<Rightarrow> None)"

definition forward_message :: "hooks \<Rightarrow> int \<Rightarrow> bool \<Rightarrow> socket_message \<Rightarrow> node \<Rightarrow> (payload \<times> node) option" where
  "forward_message K ty padding m N = do {
     extra \<leftarrow> (if padding then padding_bytes (sm_data m) else Some []);
     buffer \<leftarrow> (if padding then Some PNull else buffer_payload (sm_data m));
     (r, N1) \<leftarrow> skynet_context_push K N (ucast (sm_opaque m))
       \<lparr>msg_source = 0, msg_session = 0, msg_data = PSocket ty (sm_id m) (sm_ud m) buffer extra,
        msg_sz = of_nat (24 + length extra) OR typed_sz PTYPE_SOCKET\<rparr>;
     Some (if r \<noteq> 0 then buffer else PNull, N1)
   }"

text \<open>The type of the message and whether it is padded.\<close>

fun event_message :: "socket_event \<Rightarrow> (int \<times> bool) option" where
  "event_message SOCKET_DATA = Some (SKYNET_SOCKET_TYPE_DATA, False)"
| "event_message SOCKET_CLOSE = Some (SKYNET_SOCKET_TYPE_CLOSE, False)"
| "event_message SOCKET_OPEN = Some (SKYNET_SOCKET_TYPE_CONNECT, True)"
| "event_message SOCKET_ERR = Some (SKYNET_SOCKET_TYPE_ERROR, True)"
| "event_message SOCKET_ACCEPT = Some (SKYNET_SOCKET_TYPE_ACCEPT, True)"
| "event_message SOCKET_UDP = Some (SKYNET_SOCKET_TYPE_UDP, False)"
| "event_message SOCKET_WARNING = Some (SKYNET_SOCKET_TYPE_WARNING, False)"
| "event_message SOCKET_EXIT = None"

text \<open>The errors that the socket server logged go to the logger service, in their order.\<close>

primrec log_errors :: "hooks \<Rightarrow> syscall list \<Rightarrow> node \<Rightarrow> node option" where
  "log_errors K [] N = Some N"
| "log_errors K (c # cs) N = do {
     N1 \<leftarrow> (case c of SkynetError t \<Rightarrow> skynet_error K N None t | _ \<Rightarrow> Some N);
     log_errors K cs N1
   }"

text \<open>
  \<open>skynet_socket_poll\<close>: 0 when the server was told to exit, -1 when more events wait, 1
  otherwise; then the buffer that was freed, and the new states.
\<close>

definition skynet_socket_poll :: "hooks \<Rightarrow> os \<Rightarrow> node \<Rightarrow> socket_server \<Rightarrow> (int \<times> payload \<times> node \<times> socket_server) option" where
  "skynet_socket_poll K os N ss = do {
     (r, waiting, ss1) \<leftarrow> socket_server_poll os True ss;
     N1 \<leftarrow> log_errors K (drop (length (w_calls (ss_w ss))) (w_calls (ss_w ss1))) N;
     (case r of
        None \<Rightarrow> do { N2 \<leftarrow> skynet_error K N1 None ''Unknown socket message type -1.''; Some (-1, PNull, N2, ss1) }
      | Some (ev, m) \<Rightarrow>
          (case event_message ev of
             None \<Rightarrow> Some (0, PNull, N1, ss1)
           | Some (ty, padding) \<Rightarrow> do {
               (freed, N2) \<leftarrow> forward_message K ty padding m N1;
               Some (if waiting then -1 else 1, freed, N2, ss1)
             }))
   }"

subsection \<open>Requests of services\<close>

text \<open>The owner of a socket is the handle of the service.\<close>

definition source_of :: "node \<Rightarrow> cptr \<Rightarrow> u64 option" where
  "source_of N c = map_option ucast (skynet_context_handle N c)"

definition skynet_socket_init :: "(nat \<Rightarrow> socket) \<Rightarrow> int option \<Rightarrow> (int \<times> int) option \<Rightarrow> bool \<Rightarrow> u64 \<Rightarrow> socket_server option option" where
  "skynet_socket_init raw efd fds add_fails now = socket_server_create raw efd fds add_fails now"

definition skynet_socket_exit :: "socket_server \<Rightarrow> socket_server" where
  "skynet_socket_exit ss = socket_server_exit ss"

definition skynet_socket_free :: "socket_server \<Rightarrow> world option" where
  "skynet_socket_free ss = socket_server_release ss"

definition skynet_socket_updatetime :: "u64 \<Rightarrow> socket_server \<Rightarrow> socket_server" where
  "skynet_socket_updatetime now ss = socket_server_updatetime ss now"

definition skynet_socket_sendbuffer :: "os \<Rightarrow> socket_server \<Rightarrow> int \<Rightarrow> sendbuffer \<Rightarrow> (int \<times> socket_server) option" where
  "skynet_socket_sendbuffer os ss i b = socket_server_send os ss i b"

definition skynet_socket_sendbuffer_lowpriority :: "socket_server \<Rightarrow> int \<Rightarrow> sendbuffer \<Rightarrow> (int \<times> socket_server) option" where
  "skynet_socket_sendbuffer_lowpriority ss i b = socket_server_send_lowpriority ss i b"

definition skynet_socket_listen :: "os \<Rightarrow> node \<Rightarrow> cptr \<Rightarrow> socket_server \<Rightarrow> string option \<Rightarrow> int \<Rightarrow> int \<Rightarrow> (int \<times> socket_server) option" where
  "skynet_socket_listen os N c ss host port backlog = do {
     source \<leftarrow> source_of N c;
     socket_server_listen os ss source host port backlog
   }"

definition skynet_socket_connect :: "node \<Rightarrow> cptr \<Rightarrow> socket_server \<Rightarrow> string \<Rightarrow> int \<Rightarrow> (int \<times> socket_server) option" where
  "skynet_socket_connect N c ss host port = do {
     source \<leftarrow> source_of N c;
     Some (socket_server_connect ss source host port)
   }"

definition skynet_socket_bind :: "node \<Rightarrow> cptr \<Rightarrow> socket_server \<Rightarrow> int \<Rightarrow> (int \<times> socket_server) option" where
  "skynet_socket_bind N c ss fd = do { source \<leftarrow> source_of N c; Some (socket_server_bind ss source fd) }"

definition skynet_socket_close :: "node \<Rightarrow> cptr \<Rightarrow> socket_server \<Rightarrow> int \<Rightarrow> socket_server option" where
  "skynet_socket_close N c ss i = do { source \<leftarrow> source_of N c; Some (socket_server_close ss source i) }"

definition skynet_socket_shutdown :: "node \<Rightarrow> cptr \<Rightarrow> socket_server \<Rightarrow> int \<Rightarrow> socket_server option" where
  "skynet_socket_shutdown N c ss i = do { source \<leftarrow> source_of N c; Some (socket_server_shutdown ss source i) }"

definition skynet_socket_start :: "node \<Rightarrow> cptr \<Rightarrow> socket_server \<Rightarrow> int \<Rightarrow> socket_server option" where
  "skynet_socket_start N c ss i = do { source \<leftarrow> source_of N c; Some (socket_server_start ss source i) }"

definition skynet_socket_pause :: "node \<Rightarrow> cptr \<Rightarrow> socket_server \<Rightarrow> int \<Rightarrow> socket_server option" where
  "skynet_socket_pause N c ss i = do { source \<leftarrow> source_of N c; Some (socket_server_pause ss source i) }"

definition skynet_socket_nodelay :: "socket_server \<Rightarrow> int \<Rightarrow> socket_server" where
  "skynet_socket_nodelay ss i = socket_server_nodelay ss i"

definition skynet_socket_udp :: "os \<Rightarrow> node \<Rightarrow> cptr \<Rightarrow> socket_server \<Rightarrow> string option \<Rightarrow> int \<Rightarrow> (int \<times> socket_server) option" where
  "skynet_socket_udp os N c ss addr port = do { source \<leftarrow> source_of N c; socket_server_udp os ss source addr port }"

definition skynet_socket_udp_connect :: "os \<Rightarrow> socket_server \<Rightarrow> int \<Rightarrow> string \<Rightarrow> int \<Rightarrow> (int \<times> socket_server) option" where
  "skynet_socket_udp_connect os ss i addr port = socket_server_udp_connect os ss i addr port"

definition skynet_socket_udp_sendbuffer :: "os \<Rightarrow> socket_server \<Rightarrow> u8 list \<Rightarrow> int \<Rightarrow> sendbuffer \<Rightarrow> (int \<times> socket_server) option" where
  "skynet_socket_udp_sendbuffer os ss address i b = socket_server_udp_send os ss address i b"

text \<open>The address behind the bytes of a UDP message.\<close>

definition skynet_socket_udp_address :: "payload \<Rightarrow> u8 list option" where
  "skynet_socket_udp_address msg =
     (case msg of
        PSocket ty i ud (PBytes bs) extra \<Rightarrow>
          if ty \<noteq> SKYNET_SOCKET_TYPE_UDP then None
          else socket_server_udp_address \<lparr>sm_id = i, sm_opaque = 0, sm_ud = ud, sm_data = Data bs\<rparr>
      | _ \<Rightarrow> None)"

definition skynet_socket_info :: "os \<Rightarrow> socket_server \<Rightarrow> socket_info list \<times> socket_server" where
  "skynet_socket_info os ss = socket_server_info os ss"

subsection \<open>The Lua driver\<close>

text \<open>
  The buffer argument of \<open>lsend\<close>: a full userdata or a light one with an optional size, a table of
  strings, or a string. An entry of a table that is no string is an error. Memory allocated
  for a table gets the address \<open>a\<close>.
\<close>

datatype lua_buffer =
    FullUserdata nat "u8 list" "int option"
  | LightUserdata nat "u8 list" "int option"
  | StringTable "u8 list option list"
  | LuaString nat "u8 list"

primrec count_size :: "u8 list option list \<Rightarrow> string + nat" where
  "count_size [] = Inr 0"
| "count_size (e # es) =
     (case e of
        None \<Rightarrow> Inl ''string expected''
      | Some s \<Rightarrow> map_sum id (\<lambda>n. length s + n) (count_size es))"

text \<open>\<open>concat_table\<close>: what is written, and the room that is left.\<close>

primrec concat_loop :: "u8 list option list \<Rightarrow> nat \<Rightarrow> u8 list \<Rightarrow> u8 list \<times> nat" where
  "concat_loop [] tlen b = (b, tlen)"
| "concat_loop (e # es) tlen b =
     (case e of
        None \<Rightarrow> (b, tlen)
      | Some s \<Rightarrow> if tlen < length s then (b, tlen) else concat_loop es (tlen - length s) (b @ s))"

definition concat_table :: "u8 list option list \<Rightarrow> nat \<Rightarrow> string + u8 list" where
  "concat_table es tlen =
     (case concat_loop es tlen [] of (b, left) \<Rightarrow> if left \<noteq> 0 then Inl ''Invalid strings table'' else Inr b)"

text \<open>A size beyond the block it belongs to does not survive.\<close>

definition block :: "u8 list \<Rightarrow> int \<Rightarrow> u8 list option" where
  "block bs n = (if 0 \<le> n \<and> n \<le> int (length bs) then Some (take (nat n) bs) else None)"

definition get_sendbuffer :: "nat \<Rightarrow> nat \<Rightarrow> lua_buffer \<Rightarrow> (string + sendbuffer) option" where
  "get_sendbuffer a d v =
     (case v of
        FullUserdata p bs n \<Rightarrow> map_option (\<lambda>bs. Inr (SOCKET_BUFFER_RAWPOINTER p bs))
          (case n of Some n \<Rightarrow> block bs n | None \<Rightarrow> Some bs)
      | LightUserdata p bs n \<Rightarrow>
          (let sz = (case n of Some n \<Rightarrow> to_s32 n | None \<Rightarrow> -1)
           in if sz < 0 then Some (Inr (SOCKET_BUFFER_OBJECT p d bs))
              else map_option (\<lambda>bs. Inr (SOCKET_BUFFER_MEMORY p bs)) (block bs sz))
      | StringTable es \<Rightarrow>
          (case count_size es of
             Inl e \<Rightarrow> Some (Inl e)
           | Inr n \<Rightarrow> Some (map_sum id (SOCKET_BUFFER_MEMORY a) (concat_table es n)))
      | LuaString p bs \<Rightarrow> Some (Inr (SOCKET_BUFFER_RAWPOINTER p bs)))"

definition lsend :: "os \<Rightarrow> socket_server \<Rightarrow> int \<Rightarrow> nat \<Rightarrow> nat \<Rightarrow> lua_buffer \<Rightarrow> (string + bool \<times> socket_server) option" where
  "lsend os ss i a d v = do {
     r \<leftarrow> get_sendbuffer a d v;
     (case r of
        Inl e \<Rightarrow> Some (Inl e)
      | Inr b \<Rightarrow> do { (err, ss1) \<leftarrow> skynet_socket_sendbuffer os ss (to_s32 i) b; Some (Inr (err = 0, ss1)) })
   }"

definition lsendlow :: "socket_server \<Rightarrow> int \<Rightarrow> nat \<Rightarrow> nat \<Rightarrow> lua_buffer \<Rightarrow> (string + bool \<times> socket_server) option" where
  "lsendlow ss i a d v = do {
     r \<leftarrow> get_sendbuffer a d v;
     (case r of
        Inl e \<Rightarrow> Some (Inl e)
      | Inr b \<Rightarrow> do { (err, ss1) \<leftarrow> skynet_socket_sendbuffer_lowpriority ss (to_s32 i) b; Some (Inr (err = 0, ss1)) })
   }"

definition lconnect :: "node \<Rightarrow> cptr \<Rightarrow> socket_server \<Rightarrow> string \<Rightarrow> int option \<Rightarrow> (string + int \<times> socket_server) option" where
  "lconnect N c ss addr port_arg = do {
     r \<leftarrow> address_port addr port_arg;
     (case r of
        Inl e \<Rightarrow> Some (Inl e)
      | Inr (host, port) \<Rightarrow>
          if port = 0 then Some (Inl ''Invalid port'')
          else map_option Inr (skynet_socket_connect N c ss host port))
   }"

definition llisten :: "os \<Rightarrow> node \<Rightarrow> cptr \<Rightarrow> socket_server \<Rightarrow> string \<Rightarrow> int \<Rightarrow> int option \<Rightarrow> (string + int \<times> socket_server) option" where
  "llisten os N c ss host port backlog = do {
     (i, ss1) \<leftarrow> skynet_socket_listen os N c ss (Some host) (to_s32 port) (case backlog of Some b \<Rightarrow> to_s32 b | None \<Rightarrow> 32);
     Some (if i < 0 then Inl ''Listen error'' else Inr (i, ss1))
   }"

definition ludp :: "os \<Rightarrow> node \<Rightarrow> cptr \<Rightarrow> socket_server \<Rightarrow> string option \<Rightarrow> int option \<Rightarrow> (string + int \<times> socket_server) option" where
  "ludp os N c ss addr port_arg = do {
     r \<leftarrow> (case addr of None \<Rightarrow> Some (Inr (None, 0)) | Some a \<Rightarrow> map_option (map_sum id (map_prod Some id)) (address_port a port_arg));
     (case r of
        Inl e \<Rightarrow> Some (Inl e)
      | Inr (host, port) \<Rightarrow> do {
          (i, ss1) \<leftarrow> skynet_socket_udp os N c ss host port;
          Some (if i < 0 then Inl ''udp init failed'' else Inr (i, ss1))
        })
   }"

definition ludp_connect :: "os \<Rightarrow> socket_server \<Rightarrow> int \<Rightarrow> string \<Rightarrow> int option \<Rightarrow> (string + socket_server) option" where
  "ludp_connect os ss i addr port_arg = do {
     r \<leftarrow> address_port addr port_arg;
     (case r of
        Inl e \<Rightarrow> Some (Inl e)
      | Inr (host, port) \<Rightarrow> do {
          (err, ss1) \<leftarrow> skynet_socket_udp_connect os ss (to_s32 i) host port;
          Some (if err \<noteq> 0 then Inl ''udp connect failed'' else Inr ss1)
        })
   }"

definition ludp_send :: "os \<Rightarrow> socket_server \<Rightarrow> int \<Rightarrow> u8 list \<Rightarrow> nat \<Rightarrow> nat \<Rightarrow> lua_buffer \<Rightarrow> (string + bool \<times> socket_server) option" where
  "ludp_send os ss i address a d v = do {
     r \<leftarrow> get_sendbuffer a d v;
     (case r of
        Inl e \<Rightarrow> Some (Inl e)
      | Inr b \<Rightarrow> do { (err, ss1) \<leftarrow> skynet_socket_udp_sendbuffer os ss address (to_s32 i) b; Some (Inr (err = 0, ss1)) })
   }"

text \<open>\<open>lunpack\<close>: type, id, number, the text behind the struct or the buffer, and the address of a UDP message.\<close>

definition lunpack :: "payload \<Rightarrow> (int \<times> int \<times> int \<times> (u8 list + payload) \<times> u8 list option) option" where
  "lunpack msg =
     (case msg of
        PSocket ty i ud buffer extra \<Rightarrow>
          Some (ty, i, ud, if buffer = PNull then Inl extra else Inr buffer, skynet_socket_udp_address msg)
      | _ \<Rightarrow> None)"

text \<open>A UDP address as text; the length is only checked after the port was read from it.\<close>

definition ludp_address :: "os \<Rightarrow> u8 list \<Rightarrow> (string + string \<times> int) option" where
  "ludp_address os addr = do {
     c_assert (length addr \<ge> 2);
     let port = os_ntohs os (take 2 (drop 1 addr));
     (if length addr = 7 \<or> length addr = 19 then
        (case os_inet_ntop os (if length addr = 7 then V4 (take 2 (drop 1 addr)) (drop 3 addr) else V6 (take 2 (drop 1 addr)) (drop 3 addr)) of
           None \<Rightarrow> Some (Inl ''Invalid udp address'')
         | Some t \<Rightarrow> Some (Inr (t, port)))
      else Some (Inl ''Invalid udp address''))
   }"

end
