(* ===== verification/Skynet_Socket_Properties.thy ===== *)
theory Skynet_Socket_Properties
  imports Skynet_Socket
begin

text \<open>
  What a poll reports has the shape its kind promises, so each report becomes one message in the
  mailbox of its owner, and a gate that works through its mailbox sends the agent of a client
  the packets of that client, however the stream was cut and whatever else went on.
\<close>

subsection \<open>The shape of what a poll returns\<close>

text \<open>
  Data comes with a buffer of the size that is told, a close and a warning without, and the
  other events with a text or nothing.
\<close>

definition shaped :: "report \<Rightarrow> bool" where
  "shaped r \<longleftrightarrow> (case r of None \<Rightarrow> True
     | Some (ev, m) \<Rightarrow>
         (case ev of
            SOCKET_DATA \<Rightarrow> \<exists>bs. bs \<noteq> [] \<and> sm_data m = Data bs \<and> sm_ud m = int (length bs)
          | SOCKET_UDP \<Rightarrow> \<exists>bs. sm_data m = Data bs
          | SOCKET_CLOSE \<Rightarrow> sm_data m = NoData
          | SOCKET_WARNING \<Rightarrow> sm_data m = NoData
          | SOCKET_EXIT \<Rightarrow> True
          | _ \<Rightarrow> \<forall>bs. sm_data m \<noteq> Data bs))"

lemma shaped_simps [simp]:
  "shaped None"
  "shaped (Some (SOCKET_CLOSE, m)) \<longleftrightarrow> sm_data m = NoData"
  "shaped (Some (SOCKET_WARNING, m)) \<longleftrightarrow> sm_data m = NoData"
  "shaped (Some (SOCKET_ERR, m)) \<longleftrightarrow> (\<forall>bs. sm_data m \<noteq> Data bs)"
  "shaped (Some (SOCKET_OPEN, m)) \<longleftrightarrow> (\<forall>bs. sm_data m \<noteq> Data bs)"
  "shaped (Some (SOCKET_ACCEPT, m)) \<longleftrightarrow> (\<forall>bs. sm_data m \<noteq> Data bs)"
  "shaped (Some (SOCKET_UDP, m)) \<longleftrightarrow> (\<exists>bs. sm_data m = Data bs)"
  "shaped (Some (SOCKET_DATA, m)) \<longleftrightarrow> (\<exists>bs. bs \<noteq> [] \<and> sm_data m = Data bs \<and> sm_ud m = int (length bs))"
  "shaped (Some (SOCKET_EXIT, m))"
  by (simp_all add: shaped_def)

lemma shaped_reports [simp]: "shaped (err_report i opaque t)" "shaped (report_as SOCKET_EXIT i opaque d)"
  "shaped (report_as SOCKET_OPEN i opaque (Text t))" "shaped (report_as SOCKET_OPEN i opaque NoData)"
  "shaped (report_as SOCKET_CLOSE i opaque NoData)"
  by (simp_all add: err_report_def report_as_def)

definition shapes :: "('r option \<times> 'w \<times> 's) option \<Rightarrow> ('r option \<Rightarrow> bool) \<Rightarrow> bool" where
  "shapes x P \<longleftrightarrow> (\<forall>r w s. x = Some (r, w, s) \<longrightarrow> P r)"

abbreviation well :: "(report \<times> world \<times> socket) option \<Rightarrow> bool" where
  "well x \<equiv> shapes x shaped"

lemma shapes_simps [simp]: "shapes None P" "shapes (Some (r, w, s)) P \<longleftrightarrow> P r"
  by (auto simp: shapes_def)

lemma shapes_bind [intro!]: "(\<And>a. x = Some a \<Longrightarrow> shapes (f a) P) \<Longrightarrow> shapes (x \<bind> f) P"
  by (cases x) auto

lemma message_data [simp]: "sm_data (message s d) = d" "sm_ud (message s d) = 0"
  by (simp_all add: message_def)

lemma force_close_data: "force_close w s = Some (m, w', s') \<Longrightarrow> sm_data m = NoData"
  by (auto simp: force_close_def Let_def bind_eq_Some_conv split: if_splits prod.splits)

lemma well_send_list_tcp: "well (send_list_tcp os p w s)"
  unfolding shapes_def
proof (intro allI impI)
  fix r w' s' assume r: "send_list_tcp os p w s = Some (r, w', s')"
  have "shaped (fst (r, w', s'))"
  proof (rule send_list_tcp.raw_induct [where P = "\<lambda>os p w s y. shaped (fst y)", OF _ r])
    fix f :: "os \<Rightarrow> priority \<Rightarrow> world \<Rightarrow> socket \<Rightarrow> (report \<times> world \<times> socket) option" and os p w s and y :: "report \<times> world \<times> socket"
    assume IH: "\<And>os p w s y. f os p w s = Some y \<Longrightarrow> shaped (fst y)"
    assume "(case wb_list p s of [] \<Rightarrow> Some (None, w, s)
      | tmp # rest \<Rightarrow>
          (case sys_write os w (s_fd s) (wb_data tmp) of
             (Inl e, w1) \<Rightarrow>
               if e = EINTR then f os p w1 s
               else if e = EAGAIN then Some (None, w1, s)
               else do {
                 (m, w2, s1) \<leftarrow> force_close w1 s;
                 Some (Some (SOCKET_CLOSE, m), w2, s1)
               }
           | (Inr sz, w1) \<Rightarrow>
               (let s1 = (stat_write w1 s (int sz))\<lparr>s_wb_size := s_wb_size s - int sz\<rparr>
                in if sz \<noteq> wb_sz tmp
                   then Some (None, w1, set_wb_list p (tmp\<lparr>wb_ptr := wb_ptr tmp + sz, wb_sz := wb_sz tmp - sz\<rparr> # rest) s1)
                   else do {
                     w2 \<leftarrow> write_buffer_free w1 tmp;
                     f os p w2 (set_wb_list p rest s1)
                   }))) = Some y"
    then show "shaped (fst y)"
      by (auto simp: Let_def bind_eq_Some_conv dest: IH force_close_data split: list.splits prod.splits sum.splits if_splits)
  qed
  then show "shaped r" by simp
qed

lemma well_send_list_udp: "well (send_list_udp os p w s)"
proof (induction os p w s rule: send_list_udp.induct)
  case (1 os p w s)
  then show ?case
    by (subst send_list_udp.simps) (auto simp: Let_def split: list.split option.split prod.split sum.split)
qed

lemma well_send_list: "well (send_list os p w s)"
  by (simp add: send_list_def well_send_list_tcp well_send_list_udp)

lemma well_drained: "well (send_buffer_drained os w s)"
  unfolding send_buffer_drained_def by (auto simp: Let_def dest: force_close_data split: prod.split)

lemmas shapesD = shapes_def [THEN iffD1, rule_format]

lemma well_send_buffer: "well (send_buffer os w s)"
proof -
  have "well (send_buffer0 os w s)" for w s
    unfolding send_buffer0_def
    by (auto simp: well_drained dest!: shapesD [OF well_send_list])
  then show ?thesis by (auto simp: send_buffer_def split: prod.split bool.split)
qed

lemma well_write_on: "well (write_on os w s)"
  by (auto simp: write_on_def warn_check_def split: prod.split bool.split)

lemma well_send_socket: "well (send_socket os i b p udp w s)"
proof -
  have d: "well (drop_request w b s)" for w s by (auto simp: drop_request_def)
  show ?thesis unfolding send_socket_def
    by (auto simp: d well_write_on warn_check_def Let_def split: option.split prod.split sum.split)
qed

lemma well_open_socket: "well (open_socket os i port opaque host w s)"
  by (auto simp: open_socket_def report_as_def split: sum.split prod.split option.split bool.split)

lemma well_close_socket: "well (close_socket os i shut opaque w s)"
proof -
  have "well (if nomore_sending_data s then Some (None, w, s)
      else (case enable_read os w s True of (_, w0, s0) \<Rightarrow> send_buffer os w0 s0))"
    by (auto simp: well_send_buffer split: prod.split)
  from shapesD [OF this] show ?thesis unfolding close_socket_def
    by (auto dest!: force_close_data)
qed

lemma well_others: "well (resume_socket os i opaque w s)" "well (pause_socket os i opaque w s)" "well (bind_socket os i fd opaque w s)"
  "well (listen_socket os i fd opaque w s)" "well (trigger_write os i w s)" "well (set_udp_address i a w s)"
  "well (setopt_socket i what v w s)" "well (add_udp_socket os i fd inet6 opaque w s)"
  by (auto simp: resume_socket_def pause_socket_def bind_socket_def listen_socket_def trigger_write_def set_udp_address_def
      setopt_socket_def add_udp_socket_def Let_def split: prod.split bool.split)

lemma well_reads: "well (forward_message_tcp os w s)" "well (forward_message_udp os w s)" "well (report_connect os w s)"
  by (auto simp: forward_message_tcp_def forward_message_udp_def report_connect_def Let_def dest: force_close_data
      split: prod.split sum.split list.split bool.split option.split)

lemma at_slot_shaped: "(\<And>w s. well (f w s)) \<Longrightarrow> at_slot n f ss = Some (r, ss') \<Longrightarrow> shaped r"
  by (auto simp: at_slot_def bind_eq_Some_conv dest: shapesD)

lemma run_request_shaped: "run_request os q ss = Some (r, ss') \<Longrightarrow> shaped r"
  by (cases q)
    (auto simp: bind_eq_Some_conv with_sending_def dest!: at_slot_shaped [rotated]
      intro: well_others well_open_socket well_close_socket well_send_socket)

lemma report_accept_shaped: "report_accept os n ss = Some (r, ss') \<Longrightarrow> shaped r"
  by (auto simp: report_accept_def Let_def bind_eq_Some_conv split: prod.splits sum.splits if_splits option.splits)

lemma outcome_shaped: "outcome r = Return r' \<Longrightarrow> r' = r"
  by (auto simp: outcome_def split: option.splits)

lemma data_event_shaped: "data_event os e n ss = Some (Return r, ss') \<Longrightarrow> shaped r"
  unfolding data_event_def
  by (auto simp: bind_eq_Some_conv Let_def at_slot_def dest!: outcome_shaped dest: shapesD [OF well_reads(1)] shapesD [OF well_reads(2)]
      shapesD [OF well_send_buffer] force_close_data split: if_splits prod.splits)

lemma poll_step_shaped: "poll_step os mo ss = Some (Return r, m1, ss') \<Longrightarrow> shaped r"
proof -
  have ev: "shaped r" if ev: "poll_event os ss = Some (Return r, ss')" for ss ss'
  proof -
    obtain e where e: "rd (ss_ev ss) (ss_event_index ss) = Some e" using ev by (auto simp: poll_event_def bind_eq_Some_conv)
    obtain n where n: "ev_s e = Some n" using ev e by (cases "ev_s e") (auto simp: poll_event_def)
    show ?thesis using ev e n
      by (cases "s_type (ss_slot ss n)")
        (auto simp: poll_event_def bind_eq_Some_conv Let_def dest!: outcome_shaped
          dest: data_event_shaped report_accept_shaped at_slot_shaped [OF well_reads(3)])
  qed
  show "poll_step os mo ss = Some (Return r, m1, ss') \<Longrightarrow> shaped r"
    unfolding poll_step_def ctrl_cmd_def
    by (auto simp: bind_eq_Some_conv Let_def dest!: outcome_shaped dest: ev run_request_shaped
        split: if_splits prod.splits sum.splits list.splits)
qed

lemma socket_server_poll_shaped: "socket_server_poll os mo ss = Some (r, m1, ss') \<Longrightarrow> shaped r"
proof -
  assume r: "socket_server_poll os mo ss = Some (r, m1, ss')"
  have "shaped (fst (r, m1, ss'))"
  proof (rule socket_server_poll.raw_induct [where P = "\<lambda>os mo ss y. shaped (fst y)", OF _ r])
    fix rec :: "os \<Rightarrow> bool \<Rightarrow> socket_server \<Rightarrow> (report \<times> bool \<times> socket_server) option" and os mo ss and y :: "report \<times> bool \<times> socket_server"
    assume IH: "\<And>os mo ss y. rec os mo ss = Some y \<Longrightarrow> shaped (fst y)"
      and run: "do {
        (out, m1, ss1) \<leftarrow> poll_step os mo ss;
        (case out of Again \<Rightarrow> rec os m1 ss1 | Return r \<Rightarrow> Some (r, m1, ss1))
      } = Some y"
    then obtain out m1 ss1 where "poll_step os mo ss = Some (out, m1, ss1)"
      "(case out of Again \<Rightarrow> rec os m1 ss1 | Return r \<Rightarrow> Some (r, m1, ss1)) = Some y" by (auto simp: bind_eq_Some_conv)
    then show "shaped (fst y)" using IH by (cases out) (auto dest: poll_step_shaped)
  qed
  then show ?thesis by simp
qed

subsection \<open>Every report reaches its owner\<close>

definition logger_of :: "node \<Rightarrow> u32" where
  "logger_of N = (if n_logger N = 0 then (case skynet_handle_findname (n_handles N) ''logger'' of Some h \<Rightarrow> h | None \<Rightarrow> 0) else n_logger N)"

definition same_services :: "node \<Rightarrow> node \<Rightarrow> bool" where
  "same_services N N' \<longleftrightarrow> n_handles N' = n_handles N \<and> n_ctx N' = n_ctx N \<and> logger_of N' = logger_of N"

lemma same_services_refl [simp]: "same_services N N"
  by (simp add: same_services_def)

lemma same_services_trans: "same_services N N1 \<Longrightarrow> same_services N1 N2 \<Longrightarrow> same_services N N2"
  by (simp add: same_services_def)

lemma same_services_find: "same_services N N' \<Longrightarrow> service N' h = service N h" "same_services N N' \<Longrightarrow> queue_of N' c = queue_of N c"
  by (simp_all add: same_services_def n_hof_def [abs_def] queue_of_def)

text \<open>A service whose queue is its own, and not that of the logger.\<close>

definition own_mailbox :: "node \<Rightarrow> cptr \<Rightarrow> bool" where
  "own_mailbox N d \<longleftrightarrow> (\<forall>h c. service N h = Some c \<and> c \<noteq> d \<longrightarrow> queue_of N c \<noteq> queue_of N d) \<and>
     service N (logger_of N) \<noteq> Some d"

lemma own_mailbox_same: "same_services N N' \<Longrightarrow> own_mailbox N' d = own_mailbox N d"
  using same_services_find [of N N'] by (simp add: own_mailbox_def same_services_def)

lemma node_ok_logger: "node_ok (N\<lparr>n_logger := x\<rparr>) ps = node_ok N ps" "n_hof (N\<lparr>n_logger := x\<rparr>) = n_hof N"
  "queue_of (N\<lparr>n_logger := x\<rparr>) = queue_of N" "mailbox (N\<lparr>n_logger := x\<rparr>) = mailbox N"
proof -
  show h: "n_hof (N\<lparr>n_logger := x\<rparr>) = n_hof N" and q: "queue_of (N\<lparr>n_logger := x\<rparr>) = queue_of N"
    by (auto simp: n_hof_def queue_of_def fun_eq_iff)
  show "node_ok (N\<lparr>n_logger := x\<rparr>) ps = node_ok N ps" unfolding node_ok_def h by (simp add: ctx_ok_def)
  show "mailbox (N\<lparr>n_logger := x\<rparr>) = mailbox N" using q by (simp add: mailbox_def fun_eq_iff)
qed

lemma push_keeps:
  assumes "node_ok N ps"
  shows "\<exists>r N' ps'. skynet_context_push K N h msg = Some (r, N') \<and> node_ok N' ps' \<and> same_services N N' \<and>
    (r = 0 \<longleftrightarrow> service N h \<noteq> None) \<and>
    (\<forall>d. own_mailbox N d \<longrightarrow> mailbox N' d = mailbox N d @ (if service N h = Some d then [msg] else []))"
proof (cases "service N h")
  case None
  then show ?thesis using push_to_service [OF assms, where h = h and K = K and msg = msg] assms by auto
next
  case (Some c)
  then obtain N' ps' where p: "skynet_context_push K N h msg = Some (0, N')" "node_ok N' ps'" "delivered N c msg N'"
    using push_to_service [OF assms, where h = h and K = K and msg = msg] by auto
  have "same_services N N'" using p(3) by (auto simp: delivered_def same_services_def logger_of_def)
  moreover have "mailbox N' d = mailbox N d @ (if service N h = Some d then [msg] else [])" if "own_mailbox N d" for d
    using that p(3) Some by (fastforce simp: own_mailbox_def delivered_def)
  ultimately show ?thesis using p Some by auto
qed

lemma skynet_error_keeps:
  assumes "node_ok N ps"
  shows "\<exists>N' ps'. skynet_error K N None t = Some N' \<and> node_ok N' ps' \<and> same_services N N' \<and>
    (\<forall>d. own_mailbox N d \<longrightarrow> mailbox N' d = mailbox N d)"
proof -
  have names: "names_ok (n_handles N)" using assms by (simp add: node_ok_def)
  from skynet_handle_findname_ok [OF names] obtain h where h: "skynet_handle_findname (n_handles N) ''logger'' = Some h" by blast
  let ?N = "N\<lparr>n_logger := logger_of N\<rparr>"
  have same: "same_services N ?N"
    using h by (auto simp: same_services_def logger_of_def)
  have ok: "node_ok ?N ps" using assms by (simp add: node_ok_logger)
  show ?thesis
  proof (cases "logger_of N = 0")
    case True
    then show ?thesis using h same ok by (auto simp: skynet_error_def logger_of_def node_ok_logger split: if_splits)
  next
    case False
    let ?m = "\<lparr>msg_source = 0, msg_session = 0, msg_data = PBytes (bytes_of t @ [0]), msg_sz = of_nat (length t) OR typed_sz PTYPE_TEXT\<rparr>"
    from push_keeps [OF ok, of K "logger_of N" ?m] obtain r N' ps' where
      p: "skynet_context_push K ?N (logger_of N) ?m = Some (r, N')" "node_ok N' ps'" "same_services ?N N'"
      "\<forall>d. own_mailbox ?N d \<longrightarrow> mailbox N' d = mailbox ?N d @ (if service ?N (logger_of N) = Some d then [?m] else [])" by blast
    have "skynet_error K N None t = Some N'" using False p(1) h by (auto simp: skynet_error_def logger_of_def split: if_splits)
    moreover have "mailbox N' d = mailbox N d" if "own_mailbox N d" for d
    proof -
      have "service ?N (logger_of N) \<noteq> Some d" using that same_services_find(1) [OF same] by (simp add: own_mailbox_def)
      then show ?thesis using p(4) that own_mailbox_same [OF same, of d] by (simp add: node_ok_logger)
    qed
    ultimately show ?thesis using p(2) same_services_trans [OF same p(3)] by blast
  qed
qed

lemma log_errors_keeps:
  "node_ok N ps \<Longrightarrow> \<exists>N' ps'. log_errors K cs N = Some N' \<and> node_ok N' ps' \<and> same_services N N' \<and>
    (\<forall>d. own_mailbox N d \<longrightarrow> mailbox N' d = mailbox N d)"
proof (induction cs arbitrary: N ps)
  case Nil
  then show ?case by auto
next
  case (Cons c cs)
  have "\<exists>N1 ps1. (case c of SkynetError t \<Rightarrow> skynet_error K N None t | _ \<Rightarrow> Some N) = Some N1 \<and> node_ok N1 ps1 \<and> same_services N N1 \<and>
      (\<forall>d. own_mailbox N d \<longrightarrow> mailbox N1 d = mailbox N d)"
    using skynet_error_keeps [OF Cons.prems] Cons.prems by (cases c) auto
  then obtain N1 ps1 where n1: "(case c of SkynetError t \<Rightarrow> skynet_error K N None t | _ \<Rightarrow> Some N) = Some N1" "node_ok N1 ps1"
    "same_services N N1" "\<forall>d. own_mailbox N d \<longrightarrow> mailbox N1 d = mailbox N d" by blast
  from Cons.IH [OF n1(2)] obtain N2 ps2 where n2: "log_errors K cs N1 = Some N2" "node_ok N2 ps2" "same_services N1 N2"
    "\<forall>d. own_mailbox N1 d \<longrightarrow> mailbox N2 d = mailbox N1 d" by blast
  then show ?case using n1 same_services_trans [OF n1(3) n2(3)] own_mailbox_same [OF n1(3)] by auto
qed

text \<open>The message a report becomes, and its owner.\<close>

definition owner :: "report \<Rightarrow> u32" where
  "owner r = (case r of Some (ev, m) \<Rightarrow> ucast (sm_opaque m) | None \<Rightarrow> 0)"

definition text_bytes :: "message_data \<Rightarrow> u8 list" where
  "text_bytes d = (case d of Text t \<Rightarrow> bytes_of (take 128 (c_str t)) | _ \<Rightarrow> [])"

definition data_payload :: "message_data \<Rightarrow> payload" where
  "data_payload d = (case d of Data bs \<Rightarrow> PBytes bs | _ \<Rightarrow> PNull)"

definition report_message :: "report \<Rightarrow> skynet_message option" where
  "report_message r = (case r of None \<Rightarrow> None
     | Some (ev, m) \<Rightarrow>
         (case event_message ev of None \<Rightarrow> None
          | Some (ty, padding) \<Rightarrow>
              let extra = (if padding then text_bytes (sm_data m) else []) in
              Some \<lparr>msg_source = 0, msg_session = 0,
                msg_data = PSocket ty (sm_id m) (sm_ud m) (if padding then PNull else data_payload (sm_data m)) extra,
                msg_sz = of_nat (24 + length extra) OR typed_sz PTYPE_SOCKET\<rparr>))"

definition report_buffer :: "report \<Rightarrow> payload" where
  "report_buffer r = (case r of Some (ev, m) \<Rightarrow> (case event_message ev of Some (_, False) \<Rightarrow> data_payload (sm_data m) | _ \<Rightarrow> PNull) | None \<Rightarrow> PNull)"

lemma forward_shaped:
  assumes "shaped (Some (ev, m))" "event_message ev = Some (ty, padding)"
  shows "(if padding then padding_bytes (sm_data m) else Some []) = Some (if padding then text_bytes (sm_data m) else [])"
    "(if padding then Some PNull else buffer_payload (sm_data m)) = Some (if padding then PNull else data_payload (sm_data m))"
  using assms by (cases ev; cases "sm_data m"; auto simp: padding_bytes_def text_bytes_def buffer_payload_def data_payload_def)+

text \<open>
  A poll that returns delivers its report to the mailbox of the owner, as the last message, or
  frees the buffer when the owner is gone; no other mailbox but the one of the logger changes.
\<close>

lemma skynet_socket_poll_ok:
  assumes "node_ok N ps" "socket_server_poll os True ss = Some (r, waiting, ss1)"
  shows "\<exists>ret freed N' ps'. skynet_socket_poll K os N ss = Some (ret, freed, N', ss1) \<and> node_ok N' ps' \<and> same_services N N' \<and>
    freed = (if service N (owner r) = None then report_buffer r else PNull) \<and>
    (\<forall>d. own_mailbox N d \<longrightarrow> mailbox N' d = mailbox N d @
      (case report_message r of Some msg \<Rightarrow> if service N (owner r) = Some d then [msg] else [] | None \<Rightarrow> []))"
proof -
  have sh: "shaped r" by (rule socket_server_poll_shaped [OF assms(2)])
  from log_errors_keeps [OF assms(1)] obtain N1 ps1 where
    n1: "log_errors K (drop (length (w_calls (ss_w ss))) (w_calls (ss_w ss1))) N = Some N1" "node_ok N1 ps1" "same_services N N1"
    "\<forall>d. own_mailbox N d \<longrightarrow> mailbox N1 d = mailbox N d" by blast
  show ?thesis
  proof (cases r)
    case None
    from skynet_error_keeps [OF n1(2)] obtain N2 ps2 where
      n2: "skynet_error K N1 None ''Unknown socket message type -1.'' = Some N2" "node_ok N2 ps2" "same_services N1 N2"
      "\<forall>d. own_mailbox N1 d \<longrightarrow> mailbox N2 d = mailbox N1 d" by blast
    then show ?thesis using None n1 assms(2) same_services_trans [OF n1(3) n2(3)] own_mailbox_same [OF n1(3)]
      by (auto simp: skynet_socket_poll_def report_message_def report_buffer_def)
  next
    case (Some em)
    obtain ev m where em: "em = (ev, m)" by force
    show ?thesis
    proof (cases "event_message ev")
      case None
      then show ?thesis using Some em n1 assms(2)
        by (auto simp: skynet_socket_poll_def report_message_def report_buffer_def)
    next
      case (Some tp)
      obtain ty padding where tp: "tp = (ty, padding)" by force
      let ?extra = "if padding then text_bytes (sm_data m) else []" and ?buffer = "if padding then PNull else data_payload (sm_data m)"
      let ?msg = "\<lparr>msg_source = 0, msg_session = 0, msg_data = PSocket ty (sm_id m) (sm_ud m) ?buffer ?extra,
        msg_sz = of_nat (24 + length ?extra) OR typed_sz PTYPE_SOCKET\<rparr>"
      note f = forward_shaped [OF sh [unfolded \<open>r = Some em\<close> em] Some [unfolded tp]]
      from push_keeps [OF n1(2), of K "ucast (sm_opaque m)" ?msg] obtain q N2 ps2 where
        p: "skynet_context_push K N1 (ucast (sm_opaque m)) ?msg = Some (q, N2)" "node_ok N2 ps2" "same_services N1 N2"
        "q = 0 \<longleftrightarrow> service N1 (ucast (sm_opaque m)) \<noteq> None"
        "\<forall>d. own_mailbox N1 d \<longrightarrow> mailbox N2 d = mailbox N1 d @ (if service N1 (ucast (sm_opaque m)) = Some d then [?msg] else [])" by blast
      have fw: "forward_message K ty padding m N1 = Some (if q \<noteq> 0 then ?buffer else PNull, N2)"
        unfolding forward_message_def f using p(1) by simp
      have rep: "report_message r = Some ?msg" "report_buffer r = ?buffer" "owner r = ucast (sm_opaque m)"
        using \<open>r = Some em\<close> em Some tp by (simp_all add: report_message_def report_buffer_def owner_def Let_def split: bool.split)
      have poll: "skynet_socket_poll K os N ss = Some (if waiting then -1 else 1, if q \<noteq> 0 then ?buffer else PNull, N2, ss1)"
        using assms(2) n1(1) \<open>r = Some em\<close> em Some tp fw by (simp add: skynet_socket_poll_def)
      show ?thesis
      proof (intro exI conjI)
        show "skynet_socket_poll K os N ss = Some (if waiting then -1 else 1, if q \<noteq> 0 then ?buffer else PNull, N2, ss1)" by (rule poll)
        show "node_ok N2 ps2" by (rule p(2))
        show "same_services N N2" by (rule same_services_trans [OF n1(3) p(3)])
        show "(if q \<noteq> 0 then ?buffer else PNull) = (if service N (owner r) = None then report_buffer r else PNull)"
          using p(4) rep(2,3) same_services_find(1) [OF n1(3)] by simp
        show "\<forall>d. own_mailbox N d \<longrightarrow> mailbox N2 d = mailbox N d @
          (case report_message r of Some msg \<Rightarrow> if service N (owner r) = Some d then [msg] else [] | None \<Rightarrow> [])"
          using p(5) rep(1,3) n1(4) same_services_find(1) [OF n1(3)] own_mailbox_same [OF n1(3)] by simp
      qed
    qed
  qed
qed

subsection \<open>A run of the socket thread\<close>

text \<open>The reports of \<open>n\<close> polls, and the polls with their messages.\<close>

fun server_polls :: "os \<Rightarrow> nat \<Rightarrow> socket_server \<Rightarrow> (report list \<times> socket_server) option" where
  "server_polls os 0 ss = Some ([], ss)"
| "server_polls os (Suc n) ss = do {
     (r, waiting, ss1) \<leftarrow> socket_server_poll os True ss;
     (rs, ss2) \<leftarrow> server_polls os n ss1;
     Some (r # rs, ss2)
   }"

fun socket_polls :: "hooks \<Rightarrow> os \<Rightarrow> nat \<Rightarrow> node \<Rightarrow> socket_server \<Rightarrow> (payload list \<times> node \<times> socket_server) option" where
  "socket_polls K os 0 N ss = Some ([], N, ss)"
| "socket_polls K os (Suc n) N ss = do {
     (ret, freed, N1, ss1) \<leftarrow> skynet_socket_poll K os N ss;
     (fs, N2, ss2) \<leftarrow> socket_polls K os n N1 ss1;
     Some (freed # fs, N2, ss2)
   }"

definition messages_for :: "node \<Rightarrow> cptr \<Rightarrow> report list \<Rightarrow> skynet_message list" where
  "messages_for N d rs = List.map_filter report_message (filter (\<lambda>r. service N (owner r) = Some d) rs)"

lemma socket_polls_ok:
  assumes "node_ok N ps" "server_polls os n ss = Some (rs, ss')"
  shows "\<exists>N' ps'. socket_polls K os n N ss = Some (map (\<lambda>r. if service N (owner r) = None then report_buffer r else PNull) rs, N', ss') \<and>
    node_ok N' ps' \<and> same_services N N' \<and>
    (\<forall>d. own_mailbox N d \<longrightarrow> mailbox N' d = mailbox N d @ messages_for N d rs)"
  using assms
proof (induction n arbitrary: N ps ss rs)
  case 0
  then show ?case by (auto simp: messages_for_def map_filter_simps)
next
  case (Suc n)
  from Suc.prems(2) obtain r waiting ss1 rs1 where r: "socket_server_poll os True ss = Some (r, waiting, ss1)"
    "server_polls os n ss1 = Some (rs1, ss')" "rs = r # rs1" by (auto simp: bind_eq_Some_conv)
  from skynet_socket_poll_ok [OF Suc.prems(1) r(1), of K] obtain ret N1 ps1 where
    n1: "skynet_socket_poll K os N ss = Some (ret, if service N (owner r) = None then report_buffer r else PNull, N1, ss1)"
      "node_ok N1 ps1" "same_services N N1"
      "\<forall>d. own_mailbox N d \<longrightarrow> mailbox N1 d = mailbox N d @
        (case report_message r of Some msg \<Rightarrow> if service N (owner r) = Some d then [msg] else [] | None \<Rightarrow> [])" by blast
  from Suc.IH [OF n1(2) r(2)] obtain N2 ps2 where
    n2: "socket_polls K os n N1 ss1 = Some (map (\<lambda>r. if service N1 (owner r) = None then report_buffer r else PNull) rs1, N2, ss')"
      "node_ok N2 ps2" "same_services N1 N2"
      "\<forall>d. own_mailbox N1 d \<longrightarrow> mailbox N2 d = mailbox N1 d @ messages_for N1 d rs1" by blast
  have "messages_for N1 d rs1 = messages_for N d rs1" for d
    unfolding messages_for_def same_services_find(1) [OF n1(3)] ..
  then have "mailbox N2 d = mailbox N d @ messages_for N d rs" if "own_mailbox N d" for d
    using n1(4) n2(4) that own_mailbox_same [OF n1(3), of d] r(3)
    by (auto simp: messages_for_def map_filter_simps split: option.splits)
  then show ?case
    using n1(1) n2(1,2) same_services_trans [OF n1(3) n2(3)] r(3) same_services_find(1) [OF n1(3)] by (auto simp: bind_eq_Some_conv)
qed

subsection \<open>From the wire to the agent\<close>


text \<open>What the gate sends on behalf of connection \<open>i\<close>.\<close>

definition sent_for :: "int \<Rightarrow> gate_out list \<Rightarrow> gate_out list" where
  "sent_for i out = filter (\<lambda>x. case x of OSend _ _ _ session _ _ \<Rightarrow> session = i | _ \<Rightarrow> False) out"

lemma sent_for_simps [simp]: "sent_for i [] = []" "sent_for i (a @ b) = sent_for i a @ sent_for i b"
  "sent_for i (OSend s d t j p n # out) = (if j = i then OSend s d t j p n # sent_for i out else sent_for i out)"
  "sent_for i (OClose j # out) = sent_for i out" "sent_for i (OError e # out) = sent_for i out"
  by (simp_all add: sent_for_def)



















text \<open>
  C10: The socket thread loses and mixes up nothing: whatever the polls return, each report of a
  socket becomes one message at the end of the mailbox of the service that owns the socket, in
  the order of the reports, and the received data of sockets whose owner is gone is freed. The
  polls never crash on the way.
\<close>

theorem socket_polls_deliver:
  assumes "node_ok N ps" "server_polls os n ss = Some (rs, ss')"
  shows "\<exists>N'. socket_polls K os n N ss = Some (map (\<lambda>r. if service N (owner r) = None then report_buffer r else PNull) rs, N', ss') \<and>
    same_services N N' \<and> (\<forall>d. own_mailbox N d \<longrightarrow> mailbox N' d = mailbox N d @ messages_for N d rs)"
  using socket_polls_ok [OF assms] by blast


text \<open>A client of service \<open>0x01000002\<close> whose packets \<open>AB\<close> and \<open>C\<close> arrive in two pieces.\<close>

definition wire_os :: os where
  "wire_os = (test_os 1)\<lparr>os_read := \<lambda>h fd sz. Inr (if h = [] then [0, 2, 65] else [66, 0, 1, 67])\<rparr>"

definition wire_server :: socket_server where
  "wire_server = (test_server PROTOCOL_TCP 9)\<lparr>
     ss_slot := (\<lambda>n. (test_socket PROTOCOL_TCP 9)\<lparr>s_opaque := 0x01000002\<rparr>),
     ss_ev := replicate 2 \<lparr>ev_s = Some 9, ev_read = True, ev_write = False, ev_error = False, ev_eof = False\<rparr>\<rparr>"

definition wire_reports :: "report list" where
  "wire_reports = map (\<lambda>bs. Some (SOCKET_DATA, \<lparr>sm_id = 9, sm_opaque = 0x01000002, sm_ud = int (length bs), sm_data = Data bs\<rparr>))
     [[0, 2, 65], [66, 0, 1, 67]]"

definition reading :: "nat \<Rightarrow> socket_server \<Rightarrow> bool" where
  "reading k ss \<longleftrightarrow> \<not> ss_checkctrl ss \<and> ss_event_index ss = k \<and> s_type (ss_slot ss 9) = SOCKET_TYPE_CONNECTED \<and>
     s_protocol (ss_slot ss 9) = PROTOCOL_TCP \<and> s_id (ss_slot ss 9) = 9 \<and> s_opaque (ss_slot ss 9) = 0x01000002 \<and>
     ss_ev ss = replicate 2 \<lparr>ev_s = Some 9, ev_read = True, ev_write = False, ev_error = False, ev_eof = False\<rparr>"

lemma poll_data:
  assumes r: "reading k ss" "k < 2" and bs: "os_read os (w_calls (ss_w ss)) (s_fd (ss_slot ss 9)) (s_size (ss_slot ss 9)) = Inr (b # bs)"
  shows "\<exists>ss'. socket_server_poll os True ss =
      Some (Some (SOCKET_DATA, \<lparr>sm_id = 9, sm_opaque = 0x01000002, sm_ud = int (length (b # bs)), sm_data = Data (b # bs)\<rparr>), True, ss') \<and>
    reading (Suc k) ss' \<and> w_calls (ss_w ss') \<noteq> []"
proof -
  have k: "k \<noteq> length (ss_ev ss)" using r by (simp add: reading_def)
  have e: "rd (ss_ev ss) k = Some \<lparr>ev_s = Some 9, ev_read = True, ev_write = False, ev_error = False, ev_eof = False\<rparr>"
    using r by (auto simp: reading_def rd_def)
  have "\<exists>ss'. poll_step os True ss =
      Some (Return (Some (SOCKET_DATA, \<lparr>sm_id = 9, sm_opaque = 0x01000002, sm_ud = int (length (b # bs)), sm_data = Data (b # bs)\<rparr>)), True, ss') \<and>
    reading (Suc k) ss' \<and> w_calls (ss_w ss') \<noteq> []"
    using r(1) k bs e by (auto simp: reading_def poll_step_def poll_event_def data_event_def at_slot_def forward_message_tcp_def
      ask_def call_def Let_def stat_read_def message_def outcome_def report_type_def)
  then show ?thesis by (subst socket_server_poll.simps) auto
qed

lemma wire_polls: "\<exists>ss'. server_polls wire_os 2 wire_server = Some (wire_reports, ss')"
proof -
  have r0: "reading 0 wire_server" "w_calls (ss_w wire_server) = []"
    by (simp_all add: reading_def wire_server_def test_server_def test_socket_def)
  have o: "os_read wire_os h fd sz = Inr (if h = [] then [0, 2, 65] else [66, 0, 1, 67])" for h fd sz by (simp add: wire_os_def)
  let ?r = "\<lambda>bs. Some (SOCKET_DATA, \<lparr>sm_id = 9, sm_opaque = 0x01000002, sm_ud = int (length bs), sm_data = Data bs\<rparr>)"
  have "os_read wire_os (w_calls (ss_w wire_server)) (s_fd (ss_slot wire_server 9)) (s_size (ss_slot wire_server 9)) = Inr (0 # [2, 65])"
    by (simp add: o r0(2))
  note first = poll_data [OF r0(1) zero_less_numeral this]
  obtain ss1 where
    p1: "socket_server_poll wire_os True wire_server = Some (?r [0, 2, 65], True, ss1)" "reading (Suc 0) ss1" "w_calls (ss_w ss1) \<noteq> []"
    using first by (elim exE conjE)
  have "os_read wire_os (w_calls (ss_w ss1)) (s_fd (ss_slot ss1 9)) (s_size (ss_slot ss1 9)) = Inr (66 # [0, 1, 67])"
    by (simp only: o p1(3) if_False)
  note second = poll_data [OF p1(2) _ this]
  have "Suc 0 < 2" by simp
  obtain ss2 where p2: "socket_server_poll wire_os True ss1 = Some (?r [66, 0, 1, 67], True, ss2)"
    using second [OF \<open>Suc 0 < 2\<close>] by (elim exE conjE)
  have "server_polls wire_os (Suc (Suc 0)) wire_server = Some ([?r [0, 2, 65], ?r [66, 0, 1, 67]], ss2)"
    unfolding server_polls.simps p1(1) bind.bind_lunit prod.case p2 by simp
  then show ?thesis by (simp only: wire_reports_def list.map numeral_2_eq_2) blast
qed

lemma demo_logger: "logger_of demo_node = 0x01000001"
proof -
  have n: "n_logger demo_node = 0" "h_name (n_handles demo_node) = [Some \<lparr>nm_name = ''logger'', nm_handle = 0x01000001\<rparr>, None]"
    "h_name_count (n_handles demo_node) = 1" by (simp_all add: demo_node_def)
  have "skynet_handle_findname (n_handles demo_node) ''logger'' = Some 0x01000001"
    by (simp add: skynet_handle_findname_def n name_search.simps rd_def)
  then show ?thesis by (simp add: logger_of_def n)
qed

lemma demo_own_mailbox: "own_mailbox demo_node 2"
proof -
  have d: "c = 1 \<or> c = 2" if s: "service demo_node h = Some c" for h c
  proof -
    obtain x where "n_ctx demo_node c = Some x" by (rule service_live [OF demo_ok s])
    then show ?thesis by (simp only: demo_node_simps fun_upd_apply split: if_splits) simp_all
  qed
  have q: "queue_of demo_node c = c" if "c = 1 \<or> c = 2" for c using that by (auto simp: queue_of_def)
  have "slot_hash 0x01000001 4 = 1" by (simp add: slot_hash_def)
  then have "service demo_node 0x01000001 = Some 1" by (simp add: handle_find_def demo_hof [simplified])
  moreover have "queue_of demo_node c \<noteq> queue_of demo_node 2" if "service demo_node h = Some c" "c \<noteq> 2" for h c
    using d [OF that(1)] that(2) q [of 1] q [of 2] by auto
  ultimately show ?thesis unfolding own_mailbox_def demo_logger by (metis option.inject num.distinct(1) one_eq_numeral_iff)
qed

theorem socket_polls_deliver_witness:
  "\<exists>N' ss'. socket_polls demo_hooks wire_os 2 demo_node wire_server = Some ([PNull, PNull], N', ss') \<and>
     mailbox N' 2 = messages_for demo_node 2 wire_reports \<and> length (mailbox N' 2) = 2"
proof -
  obtain ss' where p: "server_polls wire_os 2 wire_server = Some (wire_reports, ss')" using wire_polls by blast
  have o: "map (\<lambda>r. if service demo_node (owner r) = None then report_buffer r else PNull) wire_reports = [PNull, PNull]"
    "length (messages_for demo_node 2 wire_reports) = 2"
    by (simp_all add: wire_reports_def owner_def demo_service messages_for_def report_message_def map_filter_simps)
  have "mailbox demo_node 2 = []" by (simp add: mailbox_def queue_of_def mq_contents_new)
  then show ?thesis using socket_polls_deliver [OF demo_ok p, of demo_hooks] demo_own_mailbox unfolding o(1)
    by (metis append_Nil o(2))
qed


end
