(* ===== verification/Cluster.thy ===== *)
theory Cluster
  imports Lua_Socket_Buffer Gate
begin

text \<open>
  The packages between the nodes of a cluster, \<^verbatim>\<open>lualib-src/lua-cluster.c\<close>: requests and pushes,
  responses, and the tables of parts that large ones are collected in; then the part of the Lua
  services that calls these functions for received packages. \<open>None\<close> is a crash.
\<close>

subsection \<open>Bytes and headers\<close>

definition TEMP_LENGTH :: nat where "TEMP_LENGTH = 0x8200"
definition MULTI_PART :: u32 where "MULTI_PART = 0x8000"

definition fill_uint32 :: "u32 \<Rightarrow> u8 list" where
  "fill_uint32 n = [ucast (n AND 0xff), ucast (drop_bit 8 n AND 0xff), ucast (drop_bit 16 n AND 0xff), ucast (drop_bit 24 n AND 0xff)]"

definition fill_header :: "int \<Rightarrow> u8 list option" where
  "fill_header sz = do {
     c_assert (sz < 0x10000);
     Some [of_int (drop_bit 8 sz AND 0xff), of_int (sz AND 0xff)]
   }"

definition unpack_uint32 :: "u8 list \<Rightarrow> int \<Rightarrow> u32 option" where
  "unpack_uint32 buf off = do {
     b \<leftarrow> bytes_at buf off 4;
     Some (ucast (b ! 0) OR push_bit 8 (ucast (b ! 1)) OR push_bit 16 (ucast (b ! 2)) OR push_bit 24 (ucast (b ! 3)))
   }"

text \<open>What is written to the local buffer has to fit.\<close>

definition temp_string :: "u8 list \<Rightarrow> u8 list option" where
  "temp_string bs = do { c_assert (length bs \<le> TEMP_LENGTH); Some bs }"

subsection \<open>Requests\<close>

text \<open>The address is the first argument: a number, a string or a value of another type.\<close>

datatype cluster_address = AddrId int | AddrName "u8 list" | AddrOther string

text \<open>Both results: the number of parts, or 0, and the string that is pushed.\<close>

definition packreq_number :: "int \<Rightarrow> int \<Rightarrow> u8 list \<Rightarrow> u32 \<Rightarrow> bool \<Rightarrow> (int \<times> u8 list) option" where
  "packreq_number addr session msg sz is_push =
     (if sz < MULTI_PART then do {
        h \<leftarrow> fill_header (uint (sz + 9));
        m \<leftarrow> bytes_at msg 0 (uint sz);
        str \<leftarrow> temp_string (h @ [0] @ fill_uint32 (of_int addr) @ fill_uint32 (if is_push then 0 else of_int session) @ m);
        Some (0, str)
      } else do {
        let part = to_s32 (uint ((sz - 1) div MULTI_PART + 1));
        h \<leftarrow> fill_header 13;
        str \<leftarrow> temp_string (h @ [if is_push then 0x41 else 1] @ fill_uint32 (of_int addr) @ fill_uint32 (of_int session) @ fill_uint32 sz);
        Some (part, str)
      })"

definition packreq_string :: "u8 list \<Rightarrow> int \<Rightarrow> u8 list \<Rightarrow> u32 \<Rightarrow> bool \<Rightarrow> (string + int \<times> u8 list) option" where
  "packreq_string name session msg sz is_push =
     (let namelen = int (length name) in
      if namelen < 1 \<or> namelen > 255 then Some (Inl (''name is too long '' @ c_str (string_of name)))
      else if sz < MULTI_PART then do {
        h \<leftarrow> fill_header (uint sz + 6 + namelen);
        m \<leftarrow> bytes_at msg 0 (uint sz);
        str \<leftarrow> temp_string (h @ [0x80, of_int namelen] @ name @ fill_uint32 (if is_push then 0 else of_int session) @ m);
        Some (Inr (0, str))
      } else do {
        let part = to_s32 (uint ((sz - 1) div MULTI_PART + 1));
        h \<leftarrow> fill_header (10 + namelen);
        str \<leftarrow> temp_string (h @ [if is_push then 0xc1 else 0x81, of_int namelen] @ name @ fill_uint32 (of_int session) @ fill_uint32 sz);
        Some (Inr (part, str))
      })"

text \<open>\<open>packreq_multi\<close>: \<open>off\<close> is how far \<open>ptr\<close> is in the message.\<close>

primrec packreq_parts :: "nat \<Rightarrow> int \<Rightarrow> u8 list \<Rightarrow> int \<Rightarrow> u32 \<Rightarrow> u8 list list option" where
  "packreq_parts 0 session msg off sz = Some []"
| "packreq_parts (Suc n) session msg off sz = do {
     let s = (if sz > MULTI_PART then MULTI_PART else sz);
     let ty = (if sz > MULTI_PART then 2 else 3);
     h \<leftarrow> fill_header (uint (s + 5));
     m \<leftarrow> bytes_at msg off (uint s);
     str \<leftarrow> temp_string (h @ [ty] @ fill_uint32 (of_int session) @ m);
     rest \<leftarrow> packreq_parts n session msg (off + uint s) (sz - s);
     Some (str # rest)
   }"

definition packreq_multi :: "int \<Rightarrow> u8 list \<Rightarrow> u32 \<Rightarrow> u8 list list option" where
  "packreq_multi session msg sz =
     (let part = to_s32 (uint ((sz - 1) div MULTI_PART + 1)) in packreq_parts (nat part) session msg 0 sz)"

text \<open>
  \<open>packrequest\<close>: an error, or the request, the next session and the table of parts. The
  message is freed in every case.
\<close>

definition packrequest :: "bool \<Rightarrow> cluster_address \<Rightarrow> int \<Rightarrow> u8 list option \<Rightarrow> int \<Rightarrow> (string + u8 list \<times> int \<times> u8 list list option) option" where
  "packrequest is_push addr session_arg msg_arg sz_arg =
     (case msg_arg of
        None \<Rightarrow> Some (Inl ''Invalid request message'')
      | Some msg \<Rightarrow>
          (let sz = of_int sz_arg; session = to_s32 session_arg in
           if session \<le> 0 then Some (Inl (''Invalid request session '' @ fmt_d session))
           else do {
             r \<leftarrow> (case addr of
                 AddrId a \<Rightarrow> map_option Inr (packreq_number a session msg sz is_push)
               | AddrName name \<Rightarrow> packreq_string name session msg sz is_push
               | AddrOther ty \<Rightarrow> Some (Inl (''name is not a string, it's a '' @ ty)));
             (case r of
                Inl e \<Rightarrow> Some (Inl e)
              | Inr (multipak, str) \<Rightarrow> do {
                  let next = (of_int session + 1 :: u32);
                  let new_session = (if next > 0x7fffffff then 1 else next);
                  (if multipak \<noteq> 0 then do {
                     parts \<leftarrow> packreq_multi session msg sz;
                     Some (Inr (str, uint new_session, Some parts))
                   } else Some (Inr (str, uint new_session, None)))
                })
           }))"

definition lpackrequest :: "cluster_address \<Rightarrow> int \<Rightarrow> u8 list option \<Rightarrow> int \<Rightarrow> (string + u8 list \<times> int \<times> u8 list list option) option" where
  "lpackrequest = packrequest False"

definition lpackpush :: "cluster_address \<Rightarrow> int \<Rightarrow> u8 list option \<Rightarrow> int \<Rightarrow> (string + u8 list \<times> int \<times> u8 list list option) option" where
  "lpackpush = packrequest True"

definition lpacktrace :: "u8 list \<Rightarrow> (string + u8 list) option" where
  "lpacktrace tag =
     (let sz = int (length tag) in
      if sz > 0x8000 then Some (Inl (''trace tag is too long : '' @ fmt_d (to_s32 sz)))
      else do {
        h \<leftarrow> fill_header (sz + 1);
        str \<leftarrow> temp_string (h @ [4] @ tag);
        Some (Inr str)
      })"

subsection \<open>Reading requests\<close>

text \<open>The values that are pushed: a pointer is the block it points to.\<close>

datatype stack_value = VNil | VBool bool | VInt int | VStr "u8 list" | VPtr "u8 list"

definition return_buffer :: "u8 list \<Rightarrow> int \<Rightarrow> int \<Rightarrow> stack_value list option" where
  "return_buffer buf off sz = do { b \<leftarrow> bytes_at buf off sz; Some [VPtr b, VInt sz] }"

type_synonym unpacked = "(string + stack_value list) option"

definition invalid_size :: "int \<Rightarrow> string" where
  "invalid_size sz = ''Invalid cluster message (size='' @ fmt_d sz @ '')''"

definition unpackreq_number :: "u8 list \<Rightarrow> int \<Rightarrow> unpacked" where
  "unpackreq_number buf sz =
     (if sz < 9 then Some (Inl (invalid_size sz))
      else do {
        address \<leftarrow> unpack_uint32 buf 1;
        session \<leftarrow> unpack_uint32 buf 5;
        b \<leftarrow> return_buffer buf 9 (sz - 9);
        Some (Inr ([VInt (uint address), VInt (uint session)] @ b @ (if session = 0 then [VNil, VBool True] else [])))
      })"

definition unpackmreq_number :: "u8 list \<Rightarrow> int \<Rightarrow> bool \<Rightarrow> unpacked" where
  "unpackmreq_number buf sz is_push =
     (if sz \<noteq> 13 then Some (Inl (''Invalid cluster message size '' @ fmt_d sz @ '' (multi req must be 13)''))
      else do {
        address \<leftarrow> unpack_uint32 buf 1;
        session \<leftarrow> unpack_uint32 buf 5;
        size \<leftarrow> unpack_uint32 buf 9;
        Some (Inr [VInt (uint address), VInt (uint session), VNil, VInt (uint size), VBool True, VBool is_push])
      })"

definition unpackmreq_part :: "u8 list \<Rightarrow> int \<Rightarrow> unpacked" where
  "unpackmreq_part buf sz =
     (if sz < 5 then Some (Inl ''Invalid cluster multi part message'')
      else do {
        ty \<leftarrow> rd buf 0;
        session \<leftarrow> unpack_uint32 buf 1;
        b \<leftarrow> return_buffer buf 5 (sz - 5);
        Some (Inr ([VBool False, VInt (uint session)] @ b @ [VBool (ty = 2)]))
      })"

definition unpacktrace :: "u8 list \<Rightarrow> int \<Rightarrow> unpacked" where
  "unpacktrace buf sz = do { b \<leftarrow> bytes_at buf 1 (sz - 1); Some (Inr [VStr b]) }"

definition unpackreq_string :: "u8 list \<Rightarrow> int \<Rightarrow> unpacked" where
  "unpackreq_string buf sz =
     (if sz < 2 then Some (Inl (invalid_size sz))
      else do {
        n \<leftarrow> rd buf 1;
        let namesz = uint n;
        (if sz < namesz + 6 then Some (Inl (invalid_size sz))
         else do {
           name \<leftarrow> bytes_at buf 2 namesz;
           session \<leftarrow> unpack_uint32 buf (namesz + 2);
           b \<leftarrow> return_buffer buf (2 + namesz + 4) (sz - namesz - 6);
           Some (Inr ([VStr name, VInt (uint session)] @ b @ (if session = 0 then [VNil, VBool True] else [])))
         })
      })"

definition unpackmreq_string :: "u8 list \<Rightarrow> int \<Rightarrow> bool \<Rightarrow> unpacked" where
  "unpackmreq_string buf sz is_push =
     (if sz < 2 then Some (Inl (invalid_size sz))
      else do {
        n \<leftarrow> rd buf 1;
        let namesz = uint n;
        (if sz < namesz + 10 then Some (Inl (invalid_size sz))
         else do {
           name \<leftarrow> bytes_at buf 2 namesz;
           session \<leftarrow> unpack_uint32 buf (namesz + 2);
           size \<leftarrow> unpack_uint32 buf (namesz + 6);
           Some (Inr [VStr name, VInt (uint session), VNil, VInt (uint size), VBool True, VBool is_push])
         })
      })"

text \<open>The dispatch on the first byte of a block \<open>msg\<close> whose size is told as \<open>sz\<close>.\<close>

definition unpackrequest :: "u8 list \<Rightarrow> int \<Rightarrow> unpacked" where
  "unpackrequest msg sz = do {
     ty \<leftarrow> rd msg 0;
     (if ty = 0 then unpackreq_number msg sz
      else if ty = 1 then unpackmreq_number msg sz False
      else if ty = 0x41 then unpackmreq_number msg sz True
      else if ty = 2 \<or> ty = 3 then unpackmreq_part msg sz
      else if ty = 4 then unpacktrace msg sz
      else if ty = 0x80 then unpackreq_string msg sz
      else if ty = 0x81 then unpackmreq_string msg sz False
      else if ty = 0xc1 then unpackmreq_string msg sz True
      else Some (Inl (''Invalid req package type '' @ fmt_d (sint ty))))
   }"

text \<open>The argument is a pointer with its size, or a string, which ends with a zero byte.\<close>

definition lunpackrequest :: "u8 list \<Rightarrow> int option \<Rightarrow> unpacked" where
  "lunpackrequest arg sz =
     (case sz of
        Some n \<Rightarrow> unpackrequest arg (to_s32 n)
      | None \<Rightarrow> unpackrequest (arg @ [0]) (to_s32 (int (length arg))))"

subsection \<open>Responses\<close>

text \<open>The parts of a large response; \<open>s\<close> is the size of a part.\<close>

primrec response_parts :: "nat \<Rightarrow> u32 \<Rightarrow> u8 list \<Rightarrow> int \<Rightarrow> u64 \<Rightarrow> u8 list list option" where
  "response_parts 0 session msg off sz = Some []"
| "response_parts (Suc n) session msg off sz = do {
     let s = (if sz > ucast MULTI_PART then uint MULTI_PART else to_s32 (uint sz));
     let ty = (if sz > ucast MULTI_PART then 3 else 4);
     h \<leftarrow> fill_header (s + 5);
     m \<leftarrow> bytes_at msg off s;
     str \<leftarrow> temp_string (h @ fill_uint32 session @ [ty] @ m);
     rest \<leftarrow> response_parts n session msg (off + s) (sz - of_int s);
     Some (str # rest)
   }"

text \<open>
  \<open>lpackresponse\<close>: a table of strings for a large response, one string otherwise. The message is
  a string, or a pointer with its size.
\<close>

definition lpackresponse :: "int \<Rightarrow> bool \<Rightarrow> u8 list \<Rightarrow> int option \<Rightarrow> (u8 list list + u8 list) option" where
  "lpackresponse session_arg ok msg sz_arg =
     (let session = (of_int session_arg :: u32);
          sz0 = (case sz_arg of None \<Rightarrow> of_nat (length msg) | Some n \<Rightarrow> of_int n) :: u64
      in if ok \<and> sz0 > ucast MULTI_PART then do {
           let part = to_s32 (uint ((sz0 - 1) div ucast MULTI_PART + 1));
           h \<leftarrow> fill_header 9;
           str \<leftarrow> temp_string (h @ fill_uint32 session @ [2] @ fill_uint32 (ucast sz0));
           parts \<leftarrow> response_parts (nat part) session msg 0 sz0;
           Some (Inl (str # parts))
         } else do {
           let sz = (if sz0 > ucast MULTI_PART then ucast MULTI_PART else sz0);
           h \<leftarrow> fill_header (uint sz + 5);
           m \<leftarrow> bytes_at msg 0 (uint sz);
           str \<leftarrow> temp_string (h @ fill_uint32 session @ [of_bool ok] @ m);
           Some (Inr str)
         })"

text \<open>The values are session, ok, message and padding; no value for what is no response.\<close>

definition lunpackresponse :: "u8 list \<Rightarrow> stack_value list option" where
  "lunpackresponse buf =
     (let sz = int (length buf) in
      if sz < 5 then Some []
      else do {
        session \<leftarrow> unpack_uint32 buf 0;
        ty \<leftarrow> rd buf 4;
        (if ty = 0 then do { b \<leftarrow> bytes_at buf 5 (sz - 5); Some [VInt (uint session), VBool False, VStr b] }
         else if ty = 1 \<or> ty = 4 then do { b \<leftarrow> bytes_at buf 5 (sz - 5); Some [VInt (uint session), VBool True, VStr b] }
         else if ty = 2 then
           (if sz \<noteq> 9 then Some []
            else do { size \<leftarrow> unpack_uint32 buf 5; Some [VInt (uint session), VBool True, VInt (uint size), VBool True] })
         else if ty = 3 then do { b \<leftarrow> bytes_at buf 5 (sz - 5); Some [VInt (uint session), VBool True, VStr b, VBool True] }
         else Some [])
      })"

subsection \<open>Large messages\<close>

text \<open>The table is the list of its entries from 1 on.\<close>

definition lappend :: "stack_value list \<Rightarrow> stack_value \<Rightarrow> stack_value \<Rightarrow> (string + stack_value list) option" where
  "lappend tbl buffer len =
     (case buffer of
        VNil \<Rightarrow> Some (Inr (tbl @ [len]))
      | VPtr b \<Rightarrow>
          (case len of
             VInt n \<Rightarrow> do { str \<leftarrow> bytes_at b 0 (to_s32 n); Some (Inr (tbl @ [VStr str])) }
           | _ \<Rightarrow> Some (Inl ''number expected''))
      | _ \<Rightarrow> Some (Inl ''Need lightuserdata''))"

text \<open>
  \<open>lconcat\<close>: the inner \<open>None\<close> is that nothing is returned. An allocation of a negative size, as
  \<open>size_t\<close>, does not survive.
\<close>

primrec concat_strings :: "stack_value list \<Rightarrow> int \<Rightarrow> u8 list \<Rightarrow> u8 list option" where
  "concat_strings [] sz buff = (if int (length buff) \<noteq> sz then None else Some buff)"
| "concat_strings (v # vs) sz buff =
     (case v of
        VStr str \<Rightarrow> if int (length str) + int (length buff) > sz then None else concat_strings vs sz (buff @ str)
      | _ \<Rightarrow> if int (length buff) \<noteq> sz then None else Some buff)"

definition lconcat :: "stack_value list \<Rightarrow> u8 list option option" where
  "lconcat tbl =
     (case tbl of
        VInt n # vs \<Rightarrow> (let sz = to_s32 n in do { c_assert (0 \<le> sz); Some (concat_strings vs sz []) })
      | _ \<Rightarrow> Some None)"

definition lisname :: "u8 list \<Rightarrow> bool" where
  "lisname name = (case name of c # _ \<Rightarrow> c = of_char CHR ''@'' | [] \<Rightarrow> False)"

text \<open>The host name and the process id are the answers of the system.\<close>

definition lnodename :: "string option \<Rightarrow> int \<Rightarrow> string" where
  "lnodename hostname pid = (case hostname of Some h \<Rightarrow> h @ fmt_d pid | None \<Rightarrow> ''noname'' @ fmt_d pid)"

subsection \<open>The agent of a connection\<close>

text \<open>
  How the Lua service \<^verbatim>\<open>service/clusteragent.lua\<close> uses these functions: it collects the parts
  of large requests by session. \<open>lq_tbl\<close> is the array part of the table of a request. Trace tags,
  which only go to the log, are left out.
\<close>

record large =
  lq_addr :: stack_value
  lq_push :: bool
  lq_tbl :: "stack_value list"

type_synonym large_requests = "int \<Rightarrow> large option"

text \<open>What becomes of a package: a request with address, session, message and push flag, or the error response.\<close>

datatype arrival = Request stack_value int "u8 list" bool | InvalidLarge int

definition arg :: "stack_value list \<Rightarrow> nat \<Rightarrow> stack_value" where
  "arg vs n = (if n < length vs then vs ! n else VNil)"

definition truth :: "stack_value \<Rightarrow> bool" where
  "truth v \<longleftrightarrow> v \<noteq> VNil \<and> v \<noteq> VBool False"

text \<open>
  \<open>dispatch_request\<close> up to the call of the service. An error inside ends the dispatch of the
  package; the state keeps what was done before.
\<close>

definition dispatch_request :: "large_requests \<Rightarrow> stack_value list \<Rightarrow> (large_requests \<times> arrival option) option" where
  "dispatch_request lr vs =
     (case arg vs 1 of
        VInt session \<Rightarrow>
          if truth (arg vs 4) then do {
            let req = (case lr session of Some r \<Rightarrow> r
              | None \<Rightarrow> \<lparr>lq_addr = arg vs 0, lq_push = truth (arg vs 5), lq_tbl = []\<rparr>);
            t \<leftarrow> lappend (lq_tbl req) (arg vs 2) (arg vs 3);
            Some (lr(session \<mapsto> (case t of Inl e \<Rightarrow> req | Inr tbl \<Rightarrow> req\<lparr>lq_tbl := tbl\<rparr>)), None)
          }
          else
            (case lr session of
               Some req \<Rightarrow> do {
                 t \<leftarrow> lappend (lq_tbl req) (arg vs 2) (arg vs 3);
                 (case t of
                    Inl e \<Rightarrow> Some (lr(session := None), None)
                  | Inr tbl \<Rightarrow> do {
                      m \<leftarrow> lconcat tbl;
                      Some (lr(session := None), Some (case m of
                         None \<Rightarrow> InvalidLarge session
                       | Some msg \<Rightarrow> Request (lq_addr req) session msg (lq_push req)))
                    })
               }
             | None \<Rightarrow>
                 Some (lr, Some (case arg vs 2 of
                    VPtr msg \<Rightarrow> Request (arg vs 0) session msg (truth (arg vs 5))
                  | _ \<Rightarrow> InvalidLarge session)))
      | _ \<Rightarrow> Some (lr, None))"

text \<open>A package from the gate; the gate has cut off the header.\<close>

definition agent_package :: "large_requests \<Rightarrow> u8 list \<Rightarrow> (large_requests \<times> arrival option) option" where
  "agent_package lr body = do {
     r \<leftarrow> unpackrequest body (int (length body));
     (case r of Inl e \<Rightarrow> Some (lr, None) | Inr vs \<Rightarrow> dispatch_request lr vs)
   }"

fun agent_run :: "large_requests \<Rightarrow> u8 list list \<Rightarrow> (large_requests \<times> arrival list) option" where
  "agent_run lr [] = Some (lr, [])"
| "agent_run lr (b # bs) = do {
     (lr1, a) \<leftarrow> agent_package lr b;
     (lr2, as) \<leftarrow> agent_run lr1 bs;
     Some (lr2, (case a of Some x \<Rightarrow> [x] | None \<Rightarrow> []) @ as)
   }"

text \<open>
  The reading side of a request, \<open>dispatch_by_session\<close> of \<^verbatim>\<open>lualib/skynet/socketchannel.lua\<close> with
  \<open>command.req\<close> of \<^verbatim>\<open>service/clustersender.lua\<close>, for the packages of one session: \<open>data\<close> is the
  table collected so far. The inner result is the answer once it is there: the message of a
  response, nothing for a large one that does not fit, or an error text.
\<close>

fun read_responses :: "stack_value list option \<Rightarrow> u8 list list \<Rightarrow> (u8 list + u8 list option) option option" where
  "read_responses data [] = Some None"
| "read_responses data (b # bs) = do {
     vs \<leftarrow> lunpackresponse b;
     (let ok = truth (arg vs 1); v = arg vs 2 in
      if truth (arg vs 3) \<and> ok then read_responses (Some ((case data of Some t \<Rightarrow> t | None \<Rightarrow> []) @ [v])) bs
      else if ok then
        (case data of
           Some t \<Rightarrow> map_option (Some \<circ> Inr) (lconcat (t @ [v]))
         | None \<Rightarrow> Some (case v of VStr m \<Rightarrow> Some (Inr (Some m)) | _ \<Rightarrow> None))
      else Some (case v of VStr m \<Rightarrow> Some (Inl m) | _ \<Rightarrow> None))
   }"

end
