(* ===== verification/Cluster_Properties.thy ===== *)
theory Cluster_Properties
  imports Cluster Gate_Properties
begin

text \<open>
  Every request and response of a cluster arrives as it was sent, whatever packages of other
  sessions come between its parts; reading never leaves the package; and the announced size of
  2 GB or more that brings the receiver down.
\<close>

subsection \<open>Bytes\<close>

lemma bytes_at_mid [simp]: "bytes_at (pre @ bs @ rest) (int (length pre)) (int (length bs)) = Some bs"
  by (simp add: bytes_at_def)

lemma bytes_at_pick: "k = int (length pre) \<Longrightarrow> n = int (length bs) \<Longrightarrow> bytes_at (pre @ bs @ rest) k n = Some bs"
  by simp

lemma bytes_at_in: "0 \<le> k \<Longrightarrow> 0 \<le> n \<Longrightarrow> k + n \<le> int (length bs) \<Longrightarrow> \<exists>r. bytes_at bs k n = Some r \<and> int (length r) = n"
  by (auto simp: bytes_at_def)

lemma length_fill_uint32 [simp]: "length (fill_uint32 n) = 4"
  by (simp add: fill_uint32_def)

lemma uint32_bytes:
  "ucast (ucast (n AND 0xff) :: u8) OR push_bit 8 (ucast (ucast (drop_bit 8 n AND 0xff) :: u8)) OR
   push_bit 16 (ucast (ucast (drop_bit 16 n AND 0xff) :: u8)) OR push_bit 24 (ucast (ucast (drop_bit 24 n AND 0xff) :: u8)) = (n :: u32)"
proof -
  have m: "x AND 0xff = take_bit 8 x" for x :: u32 by (simp add: take_bit_eq_mask mask_eq_exp_minus_1)
  show ?thesis unfolding m by (rule bit_word_eqI) (auto simp: bit_simps less_diff_conv2, metis le_add_diff_inverse not_less)
qed

lemma unpack_fill: "k = int (length pre) \<Longrightarrow> unpack_uint32 (pre @ fill_uint32 n @ rest) k = Some n"
  by (simp add: unpack_uint32_def bytes_at_pick) (simp add: fill_uint32_def uint32_bytes)

lemma unpack_in: "0 \<le> k \<Longrightarrow> k + 4 \<le> int (length bs) \<Longrightarrow> \<exists>n. unpack_uint32 bs k = Some n"
  using bytes_at_in [of k 4 bs] by (auto simp: unpack_uint32_def)


subsection \<open>A message cut into parts\<close>







subsection \<open>What is packed\<close>


definition request_part :: "u32 \<Rightarrow> bool \<Rightarrow> u8 list \<Rightarrow> u8 list" where
  "request_part session fin m = [if fin then 3 else 2] @ fill_uint32 session @ m"

definition response_part :: "u32 \<Rightarrow> bool \<Rightarrow> u8 list \<Rightarrow> u8 list" where
  "response_part session fin m = fill_uint32 session @ [if fin then 4 else 3] @ m"

lemma length_parts [simp]: "length (request_part session fin m) = length m + 5" "length (response_part session fin m) = length m + 5"
  by (simp_all add: request_part_def response_part_def)








fun address_ok :: "cluster_address \<Rightarrow> bool" where
  "address_ok (AddrId a) \<longleftrightarrow> True"
| "address_ok (AddrName name) \<longleftrightarrow> 0 < length name \<and> length name \<le> 255"
| "address_ok (AddrOther t) \<longleftrightarrow> False"

fun address_value :: "cluster_address \<Rightarrow> stack_value" where
  "address_value (AddrId a) = VInt (uint (of_int a :: u32))"
| "address_value (AddrName name) = VStr name"
| "address_value (AddrOther t) = VNil"


fun multi_body :: "bool \<Rightarrow> cluster_address \<Rightarrow> u32 \<Rightarrow> u32 \<Rightarrow> u8 list" where
  "multi_body is_push (AddrId a) session sz = [if is_push then 0x41 else 1] @ fill_uint32 (of_int a) @ fill_uint32 session @ fill_uint32 sz"
| "multi_body is_push (AddrName name) session sz =
     [if is_push then 0xc1 else 0x81, of_int (int (length name))] @ name @ fill_uint32 session @ fill_uint32 sz"
| "multi_body is_push (AddrOther t) session sz = []"










subsection \<open>What is unpacked\<close>


lemma unpack_multi:
  assumes "address_ok addr"
  shows "unpackrequest (multi_body p addr s n) (int (length (multi_body p addr s n))) =
    Some (Inr [address_value addr, VInt (uint s), VNil, VInt (uint n), VBool True, VBool p])"
proof (cases addr)
  case (AddrId a)
  let ?t = "if p then 0x41 else 1 :: u8"
  let ?b = "[?t] @ fill_uint32 (of_int a) @ fill_uint32 s @ fill_uint32 n"
  have "unpack_uint32 ?b 1 = Some (of_int a)" "unpack_uint32 ?b 5 = Some s" "unpack_uint32 ?b 9 = Some n"
    using unpack_fill [of 1 "[?t]" "of_int a" "fill_uint32 s @ fill_uint32 n"] unpack_fill [of 5 "[?t] @ fill_uint32 (of_int a)" s "fill_uint32 n"]
      unpack_fill [of 9 "[?t] @ fill_uint32 (of_int a) @ fill_uint32 s" n "[]"] by simp_all
  then show ?thesis using AddrId by (cases p) (simp_all add: unpackrequest_def unpackmreq_number_def)
next
  case (AddrName nm)
  then have nm: "uint (of_int (int (length nm)) :: u8) = int (length nm)" using assms
    by (simp add: unsigned_of_nat take_bit_nat_eq_self)
  let ?h = "[if p then 0xc1 else 0x81, of_int (int (length nm))] :: u8 list" and ?l = "int (length nm)"
  let ?b = "?h @ nm @ fill_uint32 s @ fill_uint32 n"
  have "unpack_uint32 ?b (?l + 2) = Some s" "bytes_at ?b 2 ?l = Some nm" "unpack_uint32 ?b (?l + 6) = Some n"
    using unpack_fill [of "?l + 2" "?h @ nm" s "fill_uint32 n"] bytes_at_pick [of 2 ?h ?l nm "fill_uint32 s @ fill_uint32 n"]
      unpack_fill [of "?l + 6" "?h @ nm @ fill_uint32 s" n "[]"] by simp_all
  then show ?thesis using AddrName nm by (cases p) (simp_all add: unpackrequest_def unpackmreq_string_def Let_def)
qed (use assms in simp)

lemma unpack_part:
  "unpackrequest (request_part s fin m) (int (length (request_part s fin m))) =
    Some (Inr [VBool False, VInt (uint s), VPtr m, VInt (int (length m)), VBool (\<not> fin)])"
proof -
  let ?t = "if fin then 3 else 2 :: u8"
  let ?b = "[?t] @ fill_uint32 s @ m"
  have "unpack_uint32 ?b 1 = Some s" "bytes_at ?b 5 (int (length m)) = Some m"
    using unpack_fill [of 1 "[?t]" s m] bytes_at_pick [of 5 "[?t] @ fill_uint32 s" _ m "[]"] by simp_all
  then show ?thesis by (auto simp: unpackrequest_def unpackmreq_part_def return_buffer_def request_part_def)
qed

subsection \<open>The agent\<close>

text \<open>The session a package is for, and the session of an arrival.\<close>

definition package_session :: "u8 list \<Rightarrow> int option" where
  "package_session b = (case unpackrequest b (int (length b)) of
       Some (Inr vs) \<Rightarrow> (case arg vs 1 of VInt s \<Rightarrow> Some s | _ \<Rightarrow> None) | _ \<Rightarrow> None)"






lemma session_word: "0 < s \<Longrightarrow> s < 2 ^ 31 \<Longrightarrow> uint (of_int s :: u32) = s"
  by (simp add: unsigned_of_int take_bit_int_eq_self)



lemma part_session: "0 < s \<Longrightarrow> s < 2 ^ 31 \<Longrightarrow> package_session (request_part (of_int s) fin y) = Some s"
  using session_word [of s] unpack_part [of "of_int s" fin y] by (simp add: package_session_def arg_def)








subsection \<open>Responses\<close>












text \<open>Reading a message never leaves it, whatever its bytes are.\<close>

lemma unpackrequest_in:
  assumes "buf \<noteq> []" "0 \<le> n" "n \<le> int (length buf)" "hd buf = 4 \<longrightarrow> 1 \<le> n"
  shows "\<exists>r. unpackrequest buf n = Some r"
proof -
  have u: "0 \<le> k \<Longrightarrow> k + 4 \<le> n \<Longrightarrow> \<exists>x. unpack_uint32 buf k = Some x" for k using unpack_in [of k buf] assms by simp
  have b: "0 \<le> k \<Longrightarrow> 0 \<le> j \<Longrightarrow> k + j \<le> n \<Longrightarrow> \<exists>x. bytes_at buf k j = Some x" for k j using bytes_at_in [of k j buf] assms by auto
  have "rd buf 0 = Some (hd buf)" using assms by (simp add: rd_def hd_conv_nth)
  moreover have "\<exists>r. unpackreq_number buf n = Some r"
    using u [of 1] u [of 5] b [of 9 "n - 9"] by (auto simp: unpackreq_number_def return_buffer_def)
  moreover have "\<exists>r. unpackmreq_number buf n p = Some r" for p
    using u [of 1] u [of 5] u [of 9] by (auto simp: unpackmreq_number_def)
  moreover have "\<exists>r. unpackmreq_part buf n = Some r"
    using u [of 1] b [of 5 "n - 5"] assms by (auto simp: unpackmreq_part_def return_buffer_def)
  moreover have "\<exists>r. unpacktrace buf n = Some r" if "1 \<le> n" using b [of 1 "n - 1"] that by (auto simp: unpacktrace_def)
  moreover have "\<exists>r. unpackreq_string buf n = Some r"
  proof (cases "n < 2")
    case False
    then obtain c where c: "rd buf 1 = Some c" using assms by (auto simp: rd_def)
    have "0 \<le> uint c" by simp
    then show ?thesis using False c b [of 2 "uint c"] u [of "uint c + 2"] b [of "2 + uint c + 4" "n - uint c - 6"]
      by (auto simp: unpackreq_string_def return_buffer_def Let_def)
  qed (simp add: unpackreq_string_def)
  moreover have "\<exists>r. unpackmreq_string buf n p = Some r" for p
  proof (cases "n < 2")
    case False
    then obtain c where c: "rd buf 1 = Some c" using assms by (auto simp: rd_def)
    have "0 \<le> uint c" by simp
    then show ?thesis using False c b [of 2 "uint c"] u [of "uint c + 2"] u [of "uint c + 6"]
      by (auto simp: unpackmreq_string_def Let_def)
  qed (simp add: unpackmreq_string_def)
  ultimately show ?thesis using assms(4) by (simp add: unpackrequest_def)
qed

text \<open>
  C36: \<open>unpackrequest\<close> and \<open>unpackresponse\<close> read nothing outside the string they are given, whatever
  a node sends: every string below 2 GB gives values or an error.
\<close>

theorem cluster_unpack_safe:
  assumes "int (length s) < 2 ^ 31"
  shows "(\<exists>r. lunpackrequest s None = Some r) \<and> (\<exists>vs. lunpackresponse s = Some vs)"
proof
  have n: "to_s32 (int (length s)) = int (length s)" using assms by (simp add: to_s32_id)
  have "hd (s @ [0]) = 4 \<longrightarrow> 1 \<le> int (length s)" by (cases s) auto
  then have "\<exists>r. unpackrequest (s @ [0]) (int (length s)) = Some r" by (intro unpackrequest_in) auto
  then show "\<exists>r. lunpackrequest s None = Some r" by (simp add: lunpackrequest_def n)
  show "\<exists>vs. lunpackresponse s = Some vs"
  proof (cases "length s < 5")
    case False
    then have "\<exists>x. unpack_uint32 s 0 = Some x" "rd s 4 = Some (s ! 4)" "\<exists>b. bytes_at s 5 (int (length s) - 5) = Some b"
      using unpack_in [of 0 s] bytes_at_in [of 5 "int (length s) - 5" s] by auto
    moreover have "length s = 9 \<Longrightarrow> \<exists>x. unpack_uint32 s 5 = Some x" using unpack_in [of 5 s] by simp
    ultimately show ?thesis using False by (auto simp: lunpackresponse_def Let_def)
  qed (simp add: lunpackresponse_def)
qed

theorem cluster_unpack_safe_witness:
  "(\<exists>r. lunpackrequest [0x80, 9, 1] None = Some r) \<and> (\<exists>vs. lunpackresponse [0x80, 9, 1] = Some vs)"
  by (rule cluster_unpack_safe) simp

text \<open>
  C37: The size of a large request is read as an \<open>int\<close> when its parts are put together. Two small
  packages that announce 2 GB or more make the process of the receiver abort in the allocation.
\<close>

theorem cluster_size_crash:
  assumes "0 < s" "s < 2 ^ 31" "lr s = None" "2 ^ 31 \<le> n" "n < 2 ^ 32" "length m < 2 ^ 31"
  shows "agent_run lr [multi_body p (AddrId a) (of_int s) (of_int n), request_part (of_int s) True m] = None"
proof -
  have n: "uint (of_int n :: u32) = n" using assms(4,5) by (simp add: unsigned_of_int take_bit_int_eq_self)
  let ?l = "\<lparr>lq_addr = address_value (AddrId a), lq_push = p, lq_tbl = [VInt n]\<rparr>"
  have "agent_package lr (multi_body p (AddrId a) (of_int s) (of_int n)) = Some (lr(s \<mapsto> ?l), None)"
    using unpack_multi [of "AddrId a" p "of_int s" "of_int n"] session_word [OF assms(1,2)] assms(3)
    by (simp add: agent_package_def dispatch_request_def arg_def truth_def lappend_def n del: multi_body.simps)
  moreover have "to_s32 n < 0"
  proof -
    have "(n + 2147483648) mod 4294967296 = (n - 2147483648 + 4294967296) mod 4294967296" by (simp add: add.commute)
    also have "\<dots> = n - 2147483648" unfolding mod_add_self2 using assms(4,5) by (intro mod_pos_pos_trivial) auto
    finally show ?thesis using assms(5) by (simp add: to_s32_def)
  qed
  then have "agent_package (lr(s \<mapsto> ?l)) (request_part (of_int s) True m) = None"
    using session_word [OF assms(1,2)] assms(6)
    by (simp add: agent_package_def unpack_part [simplified] dispatch_request_def arg_def truth_def lappend_def bytes_at_def to_s32_id lconcat_def Let_def)
  ultimately show ?thesis by simp
qed

theorem cluster_size_crash_witness:
  "agent_run Map.empty [multi_body False (AddrId 7) 1 0xFFFFFFFF, request_part 1 True []] = None"
  using cluster_size_crash [of 1 Map.empty "0xFFFFFFFF" "[]" False 7] by simp



end
