(* ===== verification/Lua_Stm.thy ===== *)
theory Lua_Stm
  imports Skynet_Prelude
begin

text \<open>
  Messages that a writer shares with readers in other services, \<^verbatim>\<open>lualib-src/lua-stm.c\<close>: an object
  with a current copy, copies with reference counts, the Lua boxes of writer and readers; then a
  specification with versions. \<open>None\<close> is a crash: a use of freed memory or a failed assertion.
\<close>

subsection \<open>The shared object\<close>

text \<open>
  A copy is a version of the message. The functions below are critical sections: the lock of the
  object makes each of them one step, and the counters of the copies are atomic. Addresses of
  copies are numbers; \<open>st_object\<close> is the one object, \<open>None\<close> once it is freed; \<open>st_freed\<close> keeps the
  messages that were freed, in their order.
\<close>

record stm_version =
  cp_reference :: int
  cp_sz :: u32
  cp_msg :: "u8 list"

record stm_object =
  ob_reference :: int
  ob_copy :: "nat option"

record stm_heap =
  st_object :: "stm_object option"
  st_copies :: "nat \<Rightarrow> stm_version option"
  st_freed :: "u8 list list"

text \<open>\<open>alloc\<close> stands for \<open>skynet_malloc\<close>: an address, given what is allocated.\<close>

type_synonym allocator = "(nat \<Rightarrow> stm_version option) \<Rightarrow> nat"

definition stm_newcopy :: "allocator \<Rightarrow> u8 list \<Rightarrow> u32 \<Rightarrow> stm_heap \<Rightarrow> nat \<times> stm_heap" where
  "stm_newcopy alloc msg sz S =
     (let a = alloc (st_copies S)
      in (a, S\<lparr>st_copies := (st_copies S)(a \<mapsto> \<lparr>cp_reference = 1, cp_sz = sz, cp_msg = msg\<rparr>)\<rparr>))"

definition stm_new :: "allocator \<Rightarrow> u8 list \<Rightarrow> u32 \<Rightarrow> stm_heap \<Rightarrow> stm_heap" where
  "stm_new alloc msg sz S =
     (let (a, S1) = stm_newcopy alloc msg sz S in S1\<lparr>st_object := Some \<lparr>ob_reference = 1, ob_copy = Some a\<rparr>\<rparr>)"

definition stm_releasecopy :: "nat option \<Rightarrow> stm_heap \<Rightarrow> stm_heap option" where
  "stm_releasecopy copy S =
     (case copy of
        None \<Rightarrow> Some S
      | Some a \<Rightarrow> do {
          c \<leftarrow> st_copies S a;
          let ref = cp_reference c - 1;
          Some (if ref = 0 then S\<lparr>st_copies := (st_copies S)(a := None), st_freed := st_freed S @ [cp_msg c]\<rparr>
                else S\<lparr>st_copies := (st_copies S)(a \<mapsto> c\<lparr>cp_reference := ref\<rparr>)\<rparr>)
        })"

definition stm_release :: "stm_heap \<Rightarrow> stm_heap option" where
  "stm_release S = do {
     obj \<leftarrow> st_object S;
     c_assert (ob_copy obj \<noteq> None);
     S1 \<leftarrow> stm_releasecopy (ob_copy obj) S;
     let ref = ob_reference obj - 1;
     Some (S1\<lparr>st_object := if ref > 0 then Some \<lparr>ob_reference = ref, ob_copy = None\<rparr> else None\<rparr>)
   }"

definition stm_releasereader :: "stm_heap \<Rightarrow> stm_heap option" where
  "stm_releasereader S = do {
     obj \<leftarrow> st_object S;
     let ref = ob_reference obj - 1;
     (if ref = 0 then do { c_assert (ob_copy obj = None); Some (S\<lparr>st_object := None\<rparr>) }
      else Some (S\<lparr>st_object := Some (obj\<lparr>ob_reference := ref\<rparr>)\<rparr>))
   }"

definition stm_grab :: "stm_heap \<Rightarrow> stm_heap option" where
  "stm_grab S = do {
     obj \<leftarrow> st_object S;
     c_assert (ob_reference obj > 0);
     Some (S\<lparr>st_object := Some (obj\<lparr>ob_reference := ob_reference obj + 1\<rparr>)\<rparr>)
   }"

definition stm_copy :: "stm_heap \<Rightarrow> (nat option \<times> stm_heap) option" where
  "stm_copy S = do {
     obj \<leftarrow> st_object S;
     (case ob_copy obj of
        None \<Rightarrow> Some (None, S)
      | Some a \<Rightarrow> do {
          c \<leftarrow> st_copies S a;
          c_assert (cp_reference c > 0);
          Some (Some a, S\<lparr>st_copies := (st_copies S)(a \<mapsto> c\<lparr>cp_reference := cp_reference c + 1\<rparr>)\<rparr>)
        })
   }"

definition stm_update :: "allocator \<Rightarrow> u8 list \<Rightarrow> u32 \<Rightarrow> stm_heap \<Rightarrow> stm_heap option" where
  "stm_update alloc msg sz S =
     (let (a, S1) = stm_newcopy alloc msg sz S in do {
        obj \<leftarrow> st_object S1;
        stm_releasecopy (ob_copy obj) (S1\<lparr>st_object := Some (obj\<lparr>ob_copy := Some a\<rparr>)\<rparr>)
      })"

subsection \<open>The Lua objects\<close>

text \<open>
  The box of the writer, the pointers that \<open>copy\<close> handed out and that no reader has taken yet, and
  the boxes of readers with their last copy. A box whose object was set to null is not there.
\<close>

record stm_world =
  sw_heap :: stm_heap
  sw_writer :: bool
  sw_sent :: nat
  sw_readers :: "nat \<Rightarrow> nat option option"

definition lnewwriter :: "allocator \<Rightarrow> u8 list \<Rightarrow> stm_world" where
  "lnewwriter alloc msg =
     \<lparr>sw_heap = stm_new alloc msg (of_nat (length msg)) \<lparr>st_object = None, st_copies = Map.empty, st_freed = []\<rparr>,
      sw_writer = True, sw_sent = 0, sw_readers = Map.empty\<rparr>"

definition lcopy :: "stm_world \<Rightarrow> stm_world option" where
  "lcopy W = do { S \<leftarrow> stm_grab (sw_heap W); Some (W\<lparr>sw_heap := S, sw_sent := sw_sent W + 1\<rparr>) }"

definition ldeletewriter :: "stm_world \<Rightarrow> stm_world option" where
  "ldeletewriter W = do { S \<leftarrow> stm_release (sw_heap W); Some (W\<lparr>sw_heap := S, sw_writer := False\<rparr>) }"

definition lupdate :: "allocator \<Rightarrow> u8 list \<Rightarrow> stm_world \<Rightarrow> stm_world option" where
  "lupdate alloc msg W = do { S \<leftarrow> stm_update alloc msg (of_nat (length msg)) (sw_heap W); Some (W\<lparr>sw_heap := S\<rparr>) }"

definition lnewreader :: "nat \<Rightarrow> stm_world \<Rightarrow> stm_world" where
  "lnewreader r W = W\<lparr>sw_sent := sw_sent W - 1, sw_readers := (sw_readers W)(r \<mapsto> None)\<rparr>"

definition ldeletereader :: "nat \<Rightarrow> stm_world \<Rightarrow> stm_world option" where
  "ldeletereader r W = do {
     lastcopy \<leftarrow> sw_readers W r;
     S1 \<leftarrow> stm_releasereader (sw_heap W);
     S2 \<leftarrow> stm_releasecopy lastcopy S1;
     Some (W\<lparr>sw_heap := S2, sw_readers := (sw_readers W)(r := None)\<rparr>)
   }"

text \<open>The first component is what the callback gets, if there is something new.\<close>

definition lread :: "nat \<Rightarrow> stm_world \<Rightarrow> ((u8 list \<times> u32) option \<times> stm_world) option" where
  "lread r W = do {
     lastcopy \<leftarrow> sw_readers W r;
     (copy, S1) \<leftarrow> stm_copy (sw_heap W);
     (if copy = lastcopy then do { S2 \<leftarrow> stm_releasecopy copy S1; Some (None, W\<lparr>sw_heap := S2\<rparr>) }
      else do {
        S2 \<leftarrow> stm_releasecopy lastcopy S1;
        let W2 = W\<lparr>sw_heap := S2, sw_readers := (sw_readers W)(r \<mapsto> copy)\<rparr>;
        (case copy of
           None \<Rightarrow> Some (None, W2)
         | Some a \<Rightarrow> do { c \<leftarrow> st_copies S2 a; Some (Some (cp_msg c, cp_sz c), W2) })
      })
   }"

subsection \<open>Runs\<close>

datatype stm_op = CopyOp "nat option" | NewReader nat | Update "u8 list" | Read nat | DeleteReader nat | DeleteWriter

text \<open>What Lua can call: the boxes are there, a pointer is wrapped once, a name of a reader is new.\<close>

fun possible :: "stm_world \<Rightarrow> stm_op \<Rightarrow> bool" where
  "possible W (CopyOp None) \<longleftrightarrow> sw_writer W"
| "possible W (CopyOp (Some r)) \<longleftrightarrow> sw_readers W r \<noteq> None"
| "possible W (NewReader r) \<longleftrightarrow> 0 < sw_sent W \<and> sw_readers W r = None"
| "possible W (Update msg) \<longleftrightarrow> sw_writer W"
| "possible W (Read r) \<longleftrightarrow> sw_readers W r \<noteq> None"
| "possible W (DeleteReader r) \<longleftrightarrow> sw_readers W r \<noteq> None"
| "possible W DeleteWriter \<longleftrightarrow> sw_writer W"

type_synonym stm_out = "(u8 list \<times> u32) option"

fun stm_step :: "allocator \<Rightarrow> stm_op \<Rightarrow> stm_world \<Rightarrow> (stm_out \<times> stm_world) option" where
  "stm_step alloc (CopyOp b) W = map_option (Pair None) (lcopy W)"
| "stm_step alloc (NewReader r) W = Some (None, lnewreader r W)"
| "stm_step alloc (Update msg) W = map_option (Pair None) (lupdate alloc msg W)"
| "stm_step alloc (Read r) W = lread r W"
| "stm_step alloc (DeleteReader r) W = map_option (Pair None) (ldeletereader r W)"
| "stm_step alloc DeleteWriter W = map_option (Pair None) (ldeletewriter W)"

text \<open>
  The specification: the writer has a current version with its message, a reader the version it saw
  last; a read gives the current message exactly if it is not that version.
\<close>

record stm_spec =
  sp_current :: "(nat \<times> u8 list) option"
  sp_next :: nat
  sp_sent :: nat
  sp_seen :: "nat \<Rightarrow> nat option option"

definition spec_new :: "u8 list \<Rightarrow> stm_spec" where
  "spec_new msg = \<lparr>sp_current = Some (0, msg), sp_next = 1, sp_sent = 0, sp_seen = Map.empty\<rparr>"

fun spec_step :: "stm_op \<Rightarrow> stm_spec \<Rightarrow> stm_out \<times> stm_spec" where
  "spec_step (CopyOp b) P = (None, P\<lparr>sp_sent := sp_sent P + 1\<rparr>)"
| "spec_step (NewReader r) P = (None, P\<lparr>sp_sent := sp_sent P - 1, sp_seen := (sp_seen P)(r \<mapsto> None)\<rparr>)"
| "spec_step (Update msg) P = (None, P\<lparr>sp_current := Some (sp_next P, msg), sp_next := sp_next P + 1\<rparr>)"
| "spec_step (Read r) P =
     (case sp_current P of
        None \<Rightarrow> (None, P\<lparr>sp_seen := (sp_seen P)(r \<mapsto> None)\<rparr>)
      | Some (v, msg) \<Rightarrow>
          (if sp_seen P r = Some (Some v) then None else Some (msg, of_nat (length msg)), P\<lparr>sp_seen := (sp_seen P)(r \<mapsto> Some v)\<rparr>))"
| "spec_step (DeleteReader r) P = (None, P\<lparr>sp_seen := (sp_seen P)(r := None)\<rparr>)"
| "spec_step DeleteWriter P = (None, P\<lparr>sp_current := None\<rparr>)"

text \<open>Operations that Lua cannot call are left out of a run.\<close>

fun stm_run :: "allocator \<Rightarrow> stm_op list \<Rightarrow> stm_world \<Rightarrow> (stm_out list \<times> stm_op list \<times> stm_world) option" where
  "stm_run alloc [] W = Some ([], [], W)"
| "stm_run alloc (x # xs) W =
     (if possible W x then do {
        (o1, W1) \<leftarrow> stm_step alloc x W;
        (os, dn, W2) \<leftarrow> stm_run alloc xs W1;
        Some (o1 # os, x # dn, W2)
      } else stm_run alloc xs W)"

fun spec_run :: "stm_op list \<Rightarrow> stm_spec \<Rightarrow> stm_out list \<times> stm_spec" where
  "spec_run [] P = ([], P)"
| "spec_run (x # xs) P = (let (o1, P1) = spec_step x P; (os, P2) = spec_run xs P1 in (o1 # os, P2))"

end
