(* ===== verification/Lua_Stm_Properties.thy ===== *)
theory Lua_Stm_Properties
  imports Lua_Stm
begin

text \<open>
  The shared object implements the versions under any sequence of operations and frees every
  message once; and what goes wrong below its lock.
\<close>

subsection \<open>Reference counts of copies\<close>

text \<open>\<open>R a\<close> references to the copy at \<open>a\<close> are held.\<close>

definition heap_ok :: "(nat \<Rightarrow> nat) \<Rightarrow> stm_heap \<Rightarrow> bool" where
  "heap_ok R S \<longleftrightarrow> finite (dom (st_copies S)) \<and>
     (\<forall>a c. st_copies S a = Some c \<longrightarrow> cp_reference c = int (R a) \<and> 0 < R a) \<and> (\<forall>a. st_copies S a = None \<longrightarrow> R a = 0)"

definition content :: "stm_heap \<Rightarrow> nat \<Rightarrow> (u8 list \<times> u32) option" where
  "content S a = map_option (\<lambda>c. (cp_msg c, cp_sz c)) (st_copies S a)"

text \<open>All messages that were ever put in: freed or in a copy.\<close>

definition messages :: "stm_heap \<Rightarrow> u8 list multiset" where
  "messages S = mset (st_freed S) + image_mset (\<lambda>a. cp_msg (the (st_copies S a))) (mset_set (dom (st_copies S)))"

lemma heap_okD: "heap_ok R S \<Longrightarrow> 0 < R a \<Longrightarrow> \<exists>c. st_copies S a = Some c \<and> cp_reference c = int (R a)"
  by (cases "st_copies S a") (auto simp: heap_ok_def)

lemma heap_ok_content: "heap_ok R S \<Longrightarrow> content S a \<noteq> None \<longleftrightarrow> 0 < R a"
  by (cases "st_copies S a") (auto simp: heap_ok_def content_def)

lemma messages_upd:
  assumes "finite (dom m)"
  shows "image_mset (\<lambda>b. cp_msg (the ((m(a \<mapsto> c)) b))) (mset_set (dom (m(a \<mapsto> c)))) =
    image_mset (\<lambda>b. cp_msg (the (m b))) (mset_set (dom m - {a})) + {#cp_msg c#}"
proof -
  have d: "dom (m(a \<mapsto> c)) = insert a (dom m - {a})" by auto
  have "image_mset (\<lambda>b. cp_msg (the ((m(a \<mapsto> c)) b))) (mset_set (dom m - {a})) = image_mset (\<lambda>b. cp_msg (the (m b))) (mset_set (dom m - {a}))"
    by (rule image_mset_cong) (use assms in auto)
  then show ?thesis unfolding d by (subst mset_set.insert) (use assms in auto)
qed

lemma messages_del:
  assumes "finite (dom m)"
  shows "image_mset (\<lambda>b. cp_msg (the ((m(a := None)) b))) (mset_set (dom (m(a := None)))) =
    image_mset (\<lambda>b. cp_msg (the (m b))) (mset_set (dom m - {a}))"
proof -
  have "dom (m(a := None)) = dom m - {a}" by auto
  then show ?thesis by (auto intro!: image_mset_cong simp: assms)
qed

lemma messages_at:
  assumes "finite (dom m)" "m a = Some c"
  shows "image_mset (\<lambda>b. cp_msg (the (m b))) (mset_set (dom m)) =
    image_mset (\<lambda>b. cp_msg (the (m b))) (mset_set (dom m - {a})) + {#cp_msg c#}"
proof -
  have "dom m = insert a (dom m - {a})" using assms(2) by auto
  then have "mset_set (dom m) = add_mset a (mset_set (dom m - {a}))" using assms(1) by (metis finite_Diff insert_Diff_single mset_set.insert Diff_iff insertI1)
  then show ?thesis using assms(2) by simp
qed

lemma newcopy_ok:
  assumes "heap_ok R S" "alloc (st_copies S) \<notin> dom (st_copies S)"
  shows "\<exists>a S1. stm_newcopy alloc msg sz S = (a, S1) \<and> R a = 0 \<and> heap_ok (R(a := 1)) S1 \<and> content S1 = (content S)(a \<mapsto> (msg, sz)) \<and>
    messages S1 = messages S + {#msg#} \<and> st_object S1 = st_object S"
proof -
  let ?a = "alloc (st_copies S)"
  have n: "st_copies S ?a = None" using assms(2) by auto
  have fin: "finite (dom (st_copies S))" using assms(1) by (simp add: heap_ok_def)
  have "R ?a = 0" using assms(1) n by (simp add: heap_ok_def)
  moreover have "heap_ok (R(?a := 1)) (S\<lparr>st_copies := (st_copies S)(?a \<mapsto> \<lparr>cp_reference = 1, cp_sz = sz, cp_msg = msg\<rparr>)\<rparr>)"
    using assms(1) by (auto simp: heap_ok_def)
  moreover have "dom (st_copies S) - {?a} = dom (st_copies S)" using n by auto
  then have "messages (S\<lparr>st_copies := (st_copies S)(?a \<mapsto> \<lparr>cp_reference = 1, cp_sz = sz, cp_msg = msg\<rparr>)\<rparr>) = messages S + {#msg#}"
    using messages_upd [OF fin, of ?a "\<lparr>cp_reference = 1, cp_sz = sz, cp_msg = msg\<rparr>"] by (simp add: messages_def del: fun_upd_apply)
  ultimately show ?thesis by (auto simp: stm_newcopy_def Let_def content_def fun_eq_iff)
qed

lemma releasecopy_ok:
  assumes ok: "heap_ok R S" and a: "\<forall>a. copy = Some a \<longrightarrow> 0 < R a"
  shows "\<exists>S1. stm_releasecopy copy S = Some S1 \<and>
    (case copy of None \<Rightarrow> S1 = S | Some a \<Rightarrow> heap_ok (R(a := R a - 1)) S1 \<and> (\<forall>b. content S1 b = (if b = a \<and> R a = 1 then None else content S b))) \<and>
    messages S1 = messages S \<and> st_object S1 = st_object S"
proof (cases copy)
  case None
  then show ?thesis by (simp add: stm_releasecopy_def)
next
  case (Some a)
  from heap_okD [OF ok, of a] a Some obtain c where c: "st_copies S a = Some c" "cp_reference c = int (R a)" by auto
  have pos: "0 < R a" using a Some by simp
  have fin: "finite (dom (st_copies S))" using ok by (simp add: heap_ok_def)
  note at = messages_at [OF fin c(1)]
  show ?thesis
  proof (cases "R a = 1")
    case True
    let ?S = "S\<lparr>st_copies := (st_copies S)(a := None), st_freed := st_freed S @ [cp_msg c]\<rparr>"
    have "stm_releasecopy copy S = Some ?S" using Some c True by (simp add: stm_releasecopy_def)
    moreover have "heap_ok (R(a := R a - 1)) ?S" using ok True by (auto simp: heap_ok_def)
    moreover have "messages ?S = messages S" using at messages_del [OF fin, of a] by (simp add: messages_def del: fun_upd_apply)
    ultimately show ?thesis using Some True by (auto simp: content_def)
  next
    case False
    let ?c = "c\<lparr>cp_reference := cp_reference c - 1\<rparr>"
    let ?S = "S\<lparr>st_copies := (st_copies S)(a \<mapsto> ?c)\<rparr>"
    have "stm_releasecopy copy S = Some ?S" using Some c False pos by (simp add: stm_releasecopy_def Let_def)
    moreover have "1 < R a" using False pos by simp
    then have "heap_ok (R(a := R a - 1)) ?S" using ok c by (auto simp: heap_ok_def of_nat_diff)
    moreover have "messages ?S = messages S" using at messages_upd [OF fin, of a ?c] by (simp add: messages_def del: fun_upd_apply)
    ultimately show ?thesis using Some False c by (auto simp: content_def)
  qed
qed

lemma copy_ok:
  assumes ok: "heap_ok R S" and obj: "st_object S = Some obj" and a: "\<forall>a. ob_copy obj = Some a \<longrightarrow> 0 < R a"
  shows "\<exists>S1. stm_copy S = Some (ob_copy obj, S1) \<and>
    (case ob_copy obj of None \<Rightarrow> S1 = S | Some a \<Rightarrow> heap_ok (R(a := R a + 1)) S1) \<and> content S1 = content S \<and>
    messages S1 = messages S \<and> st_object S1 = st_object S"
proof (cases "ob_copy obj")
  case None
  then show ?thesis using obj by (simp add: stm_copy_def)
next
  case (Some a)
  from heap_okD [OF ok, of a] a Some obtain c where c: "st_copies S a = Some c" "cp_reference c = int (R a)" by auto
  have fin: "finite (dom (st_copies S))" using ok by (simp add: heap_ok_def)
  let ?c = "c\<lparr>cp_reference := cp_reference c + 1\<rparr>"
  let ?S = "S\<lparr>st_copies := (st_copies S)(a \<mapsto> ?c)\<rparr>"
  have "stm_copy S = Some (Some a, ?S)" using Some obj c a by (simp add: stm_copy_def)
  moreover have "heap_ok (R(a := R a + 1)) ?S" using ok c by (auto simp: heap_ok_def)
  moreover have "messages ?S = messages S" using messages_at [OF fin c(1)] messages_upd [OF fin, of a ?c] by (simp add: messages_def del: fun_upd_apply)
  moreover have "content ?S = content S" using c by (auto simp: content_def fun_eq_iff)
  ultimately show ?thesis using Some by auto
qed

subsection \<open>The model against the specification\<close>

definition malloc_ok :: "allocator \<Rightarrow> bool" where
  "malloc_ok alloc \<longleftrightarrow> (\<forall>m. finite (dom m) \<longrightarrow> alloc m \<notin> dom m)"

text \<open>The references to a copy: the object and the readers that saw it last.\<close>

definition refs :: "nat option \<Rightarrow> (nat \<Rightarrow> nat option option) \<Rightarrow> nat \<Rightarrow> nat" where
  "refs cur seen a = (if cur = Some a then 1 else 0) + card {r. seen r = Some (Some a)}"

lemma finite_seen: "finite (dom seen) \<Longrightarrow> finite {r. seen r = Some (Some a)}"
  by (rule finite_subset [of _ "dom seen"]) auto

lemma refs_upd:
  assumes "finite (dom seen)"
  shows "refs cur (seen(r := x)) a + (if seen r = Some (Some a) then 1 else 0) = refs cur seen a + (if x = Some (Some a) then 1 else 0)"
proof -
  have fin: "finite {q. q \<noteq> r \<and> seen q = Some (Some a)}" using finite_seen [OF assms, of a] by (rule rev_finite_subset) auto
  have "{q. (seen(r := x)) q = Some (Some a)} = (if x = Some (Some a) then {r} else {}) \<union> {q. q \<noteq> r \<and> seen q = Some (Some a)}"
    "{q. seen q = Some (Some a)} = (if seen r = Some (Some a) then {r} else {}) \<union> {q. q \<noteq> r \<and> seen q = Some (Some a)}" by auto
  then show ?thesis using fin by (simp add: refs_def)
qed

definition boxes :: "stm_world \<Rightarrow> nat" where
  "boxes W = (if sw_writer W then 1 else 0) + sw_sent W + card (dom (sw_readers W))"

definition sim :: "nat option \<Rightarrow> (nat \<Rightarrow> nat) \<Rightarrow> stm_world \<Rightarrow> stm_spec \<Rightarrow> bool" where
  "sim cur ver W P \<longleftrightarrow> (let S = sw_heap W in
     finite (dom (sw_readers W)) \<and> sp_sent P = sw_sent W \<and> (sw_writer W \<longleftrightarrow> cur \<noteq> None) \<and>
     st_object S = (if boxes W = 0 then None else Some \<lparr>ob_reference = int (boxes W), ob_copy = cur\<rparr>) \<and>
     heap_ok (refs cur (sw_readers W)) S \<and>
     sp_current P = (case cur of None \<Rightarrow> None | Some a \<Rightarrow> map_option (\<lambda>(m, z). (ver a, m)) (content S a)) \<and>
     sp_seen P = (\<lambda>r. map_option (map_option ver) (sw_readers W r)) \<and>
     inj_on ver {a. content S a \<noteq> None} \<and> (\<forall>a. content S a \<noteq> None \<longrightarrow> ver a < sp_next P) \<and>
     (\<forall>a m z. content S a = Some (m, z) \<longrightarrow> z = of_nat (length m)))"

text \<open>A reader lets go of its copy while the object holds \<open>cur\<close>.\<close>

lemma card_dom_upd: "finite (dom m) \<Longrightarrow> card (dom (m(r \<mapsto> x))) = (if m r = None then Suc (card (dom m)) else card (dom m))"
  by (simp add: card_insert_if domIff)

lemma card_dom_del: "finite (dom m) \<Longrightarrow> m r \<noteq> None \<Longrightarrow> Suc (card (dom (m(r := None)))) = card (dom m)"
proof -
  assume fin: "finite (dom m)" and r: "m r \<noteq> None"
  have "dom (m(r := None)) = dom m - {r}" by auto
  moreover have "r \<in> dom m" using r by auto
  ultimately show ?thesis using fin by (metis card_Suc_Diff1)
qed

lemma sim_live:
  assumes "sim cur ver W P"
  shows "cur = Some a \<Longrightarrow> 0 < refs cur (sw_readers W) a" "sw_readers W r = Some (Some a) \<Longrightarrow> 0 < refs cur (sw_readers W) a"
proof -
  have fin: "finite (dom (sw_readers W))" using assms by (simp add: sim_def Let_def)
  show "cur = Some a \<Longrightarrow> 0 < refs cur (sw_readers W) a" by (simp add: refs_def)
  assume "sw_readers W r = Some (Some a)"
  then have "{r. sw_readers W r = Some (Some a)} \<noteq> {}" by auto
  then show "0 < refs cur (sw_readers W) a" using finite_seen [OF fin, of a] by (simp add: refs_def card_gt_0_iff)
qed

lemma sim_parts:
  assumes "sim cur ver W P"
  shows "finite (dom (sw_readers W))" "sp_sent P = sw_sent W" "sw_writer W \<longleftrightarrow> cur \<noteq> None"
    "st_object (sw_heap W) = (if boxes W = 0 then None else Some \<lparr>ob_reference = int (boxes W), ob_copy = cur\<rparr>)"
    "heap_ok (refs cur (sw_readers W)) (sw_heap W)"
    "sp_current P = (case cur of None \<Rightarrow> None | Some a \<Rightarrow> map_option (\<lambda>(m, z). (ver a, m)) (content (sw_heap W) a))"
    "sp_seen P = (\<lambda>r. map_option (map_option ver) (sw_readers W r))"
    "inj_on ver {a. content (sw_heap W) a \<noteq> None}" "\<And>a. content (sw_heap W) a \<noteq> None \<Longrightarrow> ver a < sp_next P"
    "\<And>a m z. content (sw_heap W) a = Some (m, z) \<Longrightarrow> z = of_nat (length m)"
  using assms by (simp_all add: sim_def Let_def)

text \<open>The heap changes only in counts, and copies that nobody holds go.\<close>

lemma sim_shrink:
  assumes "sim cur ver W P" "finite (dom seen)" "\<And>a. content S a \<noteq> None \<Longrightarrow> content S a = content (sw_heap W) a"
    "heap_ok (refs cur' seen) S" "cur' = cur \<or> cur' = None" "sw_writer W' \<longleftrightarrow> cur' \<noteq> None" "sw_heap W' = S" "sw_readers W' = seen"
    "st_object S = (if boxes W' = 0 then None else Some \<lparr>ob_reference = int (boxes W'), ob_copy = cur'\<rparr>)"
    "sp_sent P' = sw_sent W'" "sp_next P' = sp_next P" "sp_seen P' = (\<lambda>r. map_option (map_option ver) (seen r))"
    "sp_current P' = (if cur' = None then None else sp_current P)"
  shows "sim cur' ver W' P'"
proof -
  note p = sim_parts [OF assms(1)]
  have sub: "{a. content S a \<noteq> None} \<subseteq> {a. content (sw_heap W) a \<noteq> None}" using assms(3) by auto
  have "content S a = content (sw_heap W) a" if "cur' = Some a" for a
    using assms(3) heap_ok_content [OF assms(4), of a] that by (simp add: refs_def)
  then have "sp_current P' = (case cur' of None \<Rightarrow> None | Some a \<Rightarrow> map_option (\<lambda>(m, z). (ver a, m)) (content S a))"
    using p(6) assms(5,13) by (auto split: option.split)
  moreover have "inj_on ver {a. content S a \<noteq> None}" using p(8) sub by (rule inj_on_subset)
  moreover have "\<forall>a. content S a \<noteq> None \<longrightarrow> ver a < sp_next P'" using assms(3,11) p(9) by metis
  moreover have "\<forall>a m z. content S a = Some (m, z) \<longrightarrow> z = of_nat (length m)" using assms(3) p(10) by (metis option.distinct(1))
  ultimately show ?thesis using assms by (simp add: sim_def Let_def)
qed

definition stepped :: "allocator \<Rightarrow> stm_op \<Rightarrow> stm_world \<Rightarrow> stm_spec \<Rightarrow> bool" where
  "stepped alloc x W P \<longleftrightarrow> (\<exists>W' cur' ver'. stm_step alloc x W = Some (fst (spec_step x P), W') \<and> sim cur' ver' W' (snd (spec_step x P)) \<and>
     messages (sw_heap W') = messages (sw_heap W) + (case x of Update m \<Rightarrow> {#m#} | _ \<Rightarrow> {#}))"

lemma steppedI:
  "stm_step alloc x W = Some (o1, W') \<Longrightarrow> sim cur' ver' W' P' \<Longrightarrow> spec_step x P = (o1, P') \<Longrightarrow>
    messages (sw_heap W') = messages (sw_heap W) + (case x of Update m \<Rightarrow> {#m#} | _ \<Rightarrow> {#}) \<Longrightarrow> stepped alloc x W P"
  by (auto simp: stepped_def)

lemma heap_ok_object [simp]: "heap_ok R (S\<lparr>st_object := x\<rparr>) = heap_ok R S" "content (S\<lparr>st_object := x\<rparr>) = content S"
  "messages (S\<lparr>st_object := x\<rparr>) = messages S"
  by (simp_all add: heap_ok_def content_def messages_def fun_eq_iff)

lemma heap_ok_cong: "heap_ok R S \<Longrightarrow> (\<And>a. R a = R' a) \<Longrightarrow> heap_ok R' S"
  by (simp add: heap_ok_def)

lemma step_copy:
  assumes sim: "sim cur ver W P" and pos: "possible W (CopyOp b)"
  shows "stepped alloc (CopyOp b) W P"
proof -
  note p = sim_parts [OF sim]
  have n: "0 < boxes W"
  proof (cases b)
    case (Some r)
    then have "dom (sw_readers W) \<noteq> {}" using pos by auto
    then show ?thesis using p(1) by (simp add: boxes_def card_gt_0_iff)
  qed (use pos in \<open>simp add: boxes_def\<close>)
  let ?S = "(sw_heap W)\<lparr>st_object := Some \<lparr>ob_reference = int (boxes W) + 1, ob_copy = cur\<rparr>\<rparr>"
  let ?W = "W\<lparr>sw_heap := ?S, sw_sent := sw_sent W + 1\<rparr>"
  have "stm_step alloc (CopyOp b) W = Some (None, ?W)" using n p(4) by (simp add: lcopy_def stm_grab_def)
  moreover have "sim cur ver ?W (snd (spec_step (CopyOp b) P))"
    by (rule sim_shrink [OF sim p(1)]) (use p in \<open>auto simp: boxes_def\<close>)
  ultimately show ?thesis by (rule steppedI) simp_all
qed

lemma step_newreader:
  assumes sim: "sim cur ver W P" and pos: "possible W (NewReader r)"
  shows "stepped alloc (NewReader r) W P"
proof -
  note p = sim_parts [OF sim]
  have b: "boxes (lnewreader r W) = boxes W" using pos p(1) by (simp add: boxes_def lnewreader_def card_insert_if domIff)
  have fin: "finite (dom ((sw_readers W)(r \<mapsto> None)))" using p(1) by simp
  have R: "refs cur (sw_readers W) a = refs cur ((sw_readers W)(r \<mapsto> None)) a" for a
    using refs_upd [OF p(1), of cur r "Some None" a] pos by simp
  have "sim cur ver (lnewreader r W) (snd (spec_step (NewReader r) P))"
    by (rule sim_shrink [OF sim fin _ heap_ok_cong [OF p(5) R]])
      (use p b in \<open>auto simp: lnewreader_def fun_eq_iff\<close>)
  then show ?thesis by (auto simp: stepped_def lnewreader_def)
qed

lemma step_deletewriter:
  assumes sim: "sim cur ver W P" and pos: "possible W DeleteWriter"
  shows "stepped alloc DeleteWriter W P"
proof -
  note p = sim_parts [OF sim]
  obtain a where a: "cur = Some a" using pos p(3) by auto
  have n: "0 < boxes W" using pos by (simp add: boxes_def)
  have "\<forall>a. cur = Some a \<longrightarrow> 0 < refs cur (sw_readers W) a" using sim_live(1) [OF sim] by blast
  from releasecopy_ok [OF p(5) this] a obtain S1 where
    r: "stm_releasecopy cur (sw_heap W) = Some S1" "heap_ok ((refs cur (sw_readers W))(a := refs cur (sw_readers W) a - 1)) S1"
      "\<forall>b. content S1 b = (if b = a \<and> refs cur (sw_readers W) a = 1 then None else content (sw_heap W) b)"
      "messages S1 = messages (sw_heap W)" by auto
  let ?obj = "if int (boxes W) - 1 > 0 then Some \<lparr>ob_reference = int (boxes W) - 1, ob_copy = None\<rparr> else None"
  let ?W = "W\<lparr>sw_heap := S1\<lparr>st_object := ?obj\<rparr>, sw_writer := False\<rparr>"
  have b: "boxes ?W = boxes W - 1" using pos by (simp add: boxes_def)
  have "stm_step alloc DeleteWriter W = Some (None, ?W)" using n p(4) a r(1) by (simp add: ldeletewriter_def stm_release_def Let_def)
  moreover have "sim None ver ?W (snd (spec_step DeleteWriter P))"
  proof (rule sim_shrink [OF sim p(1)])
    have "(refs cur (sw_readers W))(a := refs cur (sw_readers W) a - 1) = refs None (sw_readers W)"
      using a by (auto simp: refs_def fun_eq_iff)
    then show "heap_ok (refs None (sw_readers W)) (S1\<lparr>st_object := ?obj\<rparr>)" using r(2) by simp
  qed (use p b r(3) n in \<open>auto simp: of_nat_diff split: if_split_asm\<close>)
  ultimately show ?thesis by (rule steppedI) (use r(4) in simp_all)
qed

lemma step_deletereader:
  assumes sim: "sim cur ver W P" and pos: "possible W (DeleteReader r)"
  shows "stepped alloc (DeleteReader r) W P"
proof -
  note p = sim_parts [OF sim]
  obtain lc where lc: "sw_readers W r = Some lc" using pos by auto
  have "r \<in> dom (sw_readers W)" using lc by auto
  then have n: "0 < boxes W" using p(1) by (auto simp: boxes_def card_gt_0_iff)
  let ?rd = "(sw_readers W)(r := None)"
  have c: "Suc (card (dom ?rd)) = card (dom (sw_readers W))" using card_dom_del [OF p(1), of r] lc by simp
  have w: "boxes W = 1 \<Longrightarrow> cur = None" using p(3) c by (auto simp: boxes_def split: if_split_asm)
  let ?obj = "if int (boxes W) - 1 = 0 then None else Some \<lparr>ob_reference = int (boxes W) - 1, ob_copy = cur\<rparr>"
  let ?S = "(sw_heap W)\<lparr>st_object := ?obj\<rparr>"
  have rr: "stm_releasereader (sw_heap W) = Some ?S" using n p(4) w by (auto simp: stm_releasereader_def Let_def)
  have ok: "heap_ok (refs cur (sw_readers W)) ?S" using p(5) by simp
  have "\<forall>a. lc = Some a \<longrightarrow> 0 < refs cur (sw_readers W) a" using sim_live(2) [OF sim] lc by blast
  from releasecopy_ok [OF ok this] obtain S1 where
    r: "stm_releasecopy lc ?S = Some S1" "case lc of None \<Rightarrow> S1 = ?S | Some a \<Rightarrow> heap_ok ((refs cur (sw_readers W))(a := refs cur (sw_readers W) a - 1)) S1 \<and>
        (\<forall>b. content S1 b = (if b = a \<and> refs cur (sw_readers W) a = 1 then None else content ?S b))"
      "messages S1 = messages ?S" "st_object S1 = st_object ?S" by blast
  let ?W = "W\<lparr>sw_heap := S1, sw_readers := ?rd\<rparr>"
  have b: "boxes ?W = boxes W - 1" using c by (simp add: boxes_def)
  have R: "refs cur ?rd a = (if lc = Some a then refs cur (sw_readers W) a - 1 else refs cur (sw_readers W) a)" for a
    using refs_upd [OF p(1), of cur r None a] lc by (auto split: if_split_asm)
  have h: "heap_ok (refs cur ?rd) S1"
  proof (cases lc)
    case None
    have "heap_ok (refs cur (sw_readers W)) S1" using None r(2) p(5) by simp
    then show ?thesis by (rule heap_ok_cong) (simp add: R None)
  next
    case (Some a)
    have "heap_ok ((refs cur (sw_readers W))(a := refs cur (sw_readers W) a - 1)) S1" using Some r(2) by simp
    then show ?thesis by (rule heap_ok_cong) (simp add: R Some)
  qed
  have "stm_step alloc (DeleteReader r) W = Some (None, ?W)" using lc rr r(1) by (simp add: ldeletereader_def)
  moreover have "sim cur ver ?W (snd (spec_step (DeleteReader r) P))"
  proof (rule sim_shrink [OF sim _ _ h])
    show "finite (dom ?rd)" using p(1) by simp
    show "content S1 a = content (sw_heap W) a" if "content S1 a \<noteq> None" for a
      using r(2) that by (cases lc) (auto split: if_split_asm)
    show "st_object S1 = (if boxes ?W = 0 then None else Some \<lparr>ob_reference = int (boxes ?W), ob_copy = cur\<rparr>)"
      using r(4) b n by (auto simp: of_nat_diff)
  qed (use p in \<open>auto simp: fun_eq_iff\<close>)
  ultimately show ?thesis by (rule steppedI) (use r(3) in simp_all)
qed

lemma step_read:
  assumes sim: "sim cur ver W P" and pos: "possible W (Read r)"
  shows "stepped alloc (Read r) W P"
proof -
  note p = sim_parts [OF sim]
  obtain lc where lc: "sw_readers W r = Some lc" using pos by auto
  have "r \<in> dom (sw_readers W)" using lc by auto
  then have n: "0 < boxes W" using p(1) by (auto simp: boxes_def card_gt_0_iff)
  let ?R = "refs cur (sw_readers W)" and ?S = "sw_heap W"
  have obj: "st_object ?S = Some \<lparr>ob_reference = int (boxes W), ob_copy = cur\<rparr>" using p(4) n by simp
  have "\<forall>a. ob_copy \<lparr>ob_reference = int (boxes W), ob_copy = cur\<rparr> = Some a \<longrightarrow> 0 < ?R a" using sim_live(1) [OF sim] by simp
  from copy_ok [OF p(5) obj this] obtain S1 where
    s1: "stm_copy ?S = Some (cur, S1)" "case cur of None \<Rightarrow> S1 = ?S | Some a \<Rightarrow> heap_ok (?R(a := ?R a + 1)) S1"
      "content S1 = content ?S" "messages S1 = messages ?S" "st_object S1 = st_object ?S" by auto
  let ?R1 = "\<lambda>a. ?R a + (if cur = Some a then 1 else 0)"
  have h1: "heap_ok ?R1 S1"
  proof (cases cur)
    case None
    then show ?thesis using s1(2) p(5) by simp
  next
    case (Some a)
    then have "heap_ok (?R(a := ?R a + 1)) S1" using s1(2) by simp
    then show ?thesis by (rule heap_ok_cong) (simp add: Some)
  qed
  have "\<forall>a. lc = Some a \<longrightarrow> 0 < ?R1 a" using sim_live(2) [OF sim, of r] lc by auto
  from releasecopy_ok [OF h1 this] obtain S2 where
    s2: "stm_releasecopy lc S1 = Some S2" "case lc of None \<Rightarrow> S2 = S1 | Some a \<Rightarrow> heap_ok (?R1(a := ?R1 a - 1)) S2 \<and>
        (\<forall>b. content S2 b = (if b = a \<and> ?R1 a = 1 then None else content S1 b))"
      "messages S2 = messages S1" "st_object S2 = st_object S1" by blast
  let ?rd = "(sw_readers W)(r \<mapsto> cur)"
  have R: "refs cur ?rd a = (if lc = Some a then ?R1 a - 1 else ?R1 a)" for a
    using refs_upd [OF p(1), of cur r "Some cur" a] lc by (auto split: if_split_asm)
  have h2: "heap_ok (refs cur ?rd) S2"
  proof (cases lc)
    case None
    have "heap_ok ?R1 S2" using None s2(2) h1 by simp
    then show ?thesis by (rule heap_ok_cong) (simp add: R None)
  next
    case (Some a)
    have "heap_ok (?R1(a := ?R1 a - 1)) S2" using Some s2(2) by simp
    then show ?thesis by (rule heap_ok_cong) (simp add: R Some)
  qed
  let ?W = "W\<lparr>sw_heap := S2, sw_readers := ?rd\<rparr>"
  have b: "boxes ?W = boxes W" using lc p(1) by (simp add: boxes_def card_insert_if domIff)
  have c2: "content S2 a = content ?S a" if "content S2 a \<noteq> None" for a
    using s2(2) s1(3) that by (cases lc) (auto split: if_split_asm)
  obtain P' where P': "P' = P\<lparr>sp_seen := (sp_seen P)(r \<mapsto> map_option ver cur)\<rparr>" by blast
  have sim': "sim cur ver ?W P'"
  proof (rule sim_shrink [OF sim _ c2 h2])
    show "finite (dom ?rd)" using p(1) by simp
    show "st_object S2 = (if boxes ?W = 0 then None else Some \<lparr>ob_reference = int (boxes ?W), ob_copy = cur\<rparr>)"
      using s2(4) s1(5) obj n b by simp
  qed (use p b in \<open>auto simp: fun_eq_iff P'\<close>)
  have same: "?W = W\<lparr>sw_heap := S2\<rparr>" if "cur = lc" using that lc by (simp add: fun_upd_idem)
  have spec: "spec_step (Read r) P = ((case cur of None \<Rightarrow> None | Some a \<Rightarrow> if cur = lc then None else content ?S a), P')"
  proof (cases cur)
    case None
    then show ?thesis using p(6) by (simp add: P')
  next
    case (Some a)
    have "0 < ?R a" using sim_live(1) [OF sim Some] .
    then obtain m z where m: "content ?S a = Some (m, z)" using heap_ok_content [OF p(5), of a] by auto
    then have z: "z = of_nat (length m)" using p(10) by blast
    have "ver a = ver b \<longleftrightarrow> a = b" if "lc = Some b" for b
    proof -
      have "content ?S b \<noteq> None" using heap_ok_content [OF p(5), of b] sim_live(2) [OF sim, of r b] lc that by simp
      then show ?thesis using p(8) m by (auto simp: inj_on_def)
    qed
    then show ?thesis using Some p(6,7) m z lc by (cases lc) (auto simp: P')
  qed
  have "stm_step alloc (Read r) W = Some ((case cur of None \<Rightarrow> None | Some a \<Rightarrow> if cur = lc then None else content ?S a), ?W)"
  proof (cases "cur = lc")
    case True
    then show ?thesis using lc s1(1) s2(1) same by (auto simp: lread_def split: option.split)
  next
    case False
    show ?thesis
    proof (cases cur)
      case None
      then show ?thesis using False lc s1(1) s2(1) by (simp add: lread_def Let_def)
    next
      case (Some a)
      have "content S2 a \<noteq> None" using heap_ok_content [OF h2, of a] Some by (simp add: refs_def)
      then obtain c where c: "st_copies S2 a = Some c" by (auto simp: content_def)
      then have "content S2 a = Some (cp_msg c, cp_sz c)" by (simp add: content_def)
      then have "content ?S a = Some (cp_msg c, cp_sz c)" using c2 [of a] by simp
      then show ?thesis using False Some c lc s1(1) s2(1) by (simp add: lread_def Let_def)
    qed
  qed
  then show ?thesis by (rule steppedI [OF _ sim' spec]) (use s2(3) s1(4) in simp_all)
qed

lemma step_update:
  assumes sim: "sim cur ver W P" and pos: "possible W (Update msg)" and alloc: "malloc_ok alloc"
  shows "stepped alloc (Update msg) W P"
proof -
  note p = sim_parts [OF sim]
  let ?R = "refs cur (sw_readers W)" and ?S = "sw_heap W"
  have fresh: "alloc (st_copies ?S) \<notin> dom (st_copies ?S)" using alloc p(5) by (simp add: malloc_ok_def heap_ok_def)
  obtain a where a: "cur = Some a" using pos p(3) by auto
  have n: "0 < boxes W" using pos by (simp add: boxes_def)
  from newcopy_ok [where alloc = alloc, OF p(5) fresh, of msg "of_nat (length msg)"] obtain d S1 where
    s1: "stm_newcopy alloc msg (of_nat (length msg)) ?S = (d, S1)" "?R d = 0" "heap_ok (?R(d := 1)) S1"
      "content S1 = (content ?S)(d \<mapsto> (msg, of_nat (length msg)))" "messages S1 = messages ?S + {#msg#}" "st_object S1 = st_object ?S" by blast
  have ad: "a \<noteq> d" using sim_live(1) [OF sim a] s1(2) by auto
  let ?obj = "Some \<lparr>ob_reference = int (boxes W), ob_copy = Some d\<rparr>"
  let ?S1 = "S1\<lparr>st_object := ?obj\<rparr>" and ?R1 = "?R(d := 1)"
  have h1: "heap_ok ?R1 ?S1" using s1(3) by simp
  have "\<forall>b. cur = Some b \<longrightarrow> 0 < ?R1 b" using sim_live(1) [OF sim] by simp
  from releasecopy_ok [OF h1 this] a obtain S2 where
    s2: "stm_releasecopy cur ?S1 = Some S2" "heap_ok (?R1(a := ?R1 a - 1)) S2"
      "\<forall>b. content S2 b = (if b = a \<and> ?R1 a = 1 then None else content ?S1 b)"
      "messages S2 = messages ?S1" "st_object S2 = st_object ?S1" by auto
  let ?W = "W\<lparr>sw_heap := S2\<rparr>" and ?ver = "ver(d := sp_next P)"
  have "refs (Some d) (sw_readers W) b = (?R1(a := ?R1 a - 1)) b" for b
    using s1(2) a ad by (auto simp: refs_def)
  then have h2: "heap_ok (refs (Some d) (sw_readers W)) S2" using s2(2) by (auto intro: heap_ok_cong)
  have c: "content S2 b = (if b = d then Some (msg, of_nat (length msg)) else if b = a \<and> ?R a = 1 then None else content ?S b)" for b
    using s2(3) s1(4) ad by simp
  have seen: "sw_readers W r = Some (Some b) \<Longrightarrow> b \<noteq> d" for r b using sim_live(2) [OF sim, of r b] s1(2) by auto
  have live: "content ?S d = None" using heap_ok_content [OF p(5), of d] s1(2) by (cases "content ?S d") auto
  have "sim (Some d) ?ver ?W (snd (spec_step (Update msg) P))"
    unfolding sim_def Let_def
  proof (intro conjI)
    show "inj_on ?ver {b. content (sw_heap ?W) b \<noteq> None}"
      using p(8,9) by (fastforce simp: inj_on_def c split: if_split_asm)
    show "\<forall>b. content (sw_heap ?W) b \<noteq> None \<longrightarrow> ?ver b < sp_next (snd (spec_step (Update msg) P))"
      using p(9) by (auto simp: c less_Suc_eq split: if_split_asm)
    show "\<forall>b m z. content (sw_heap ?W) b = Some (m, z) \<longrightarrow> z = of_nat (length m)" using p(10) by (auto simp: c split: if_split_asm)
    show "sp_seen (snd (spec_step (Update msg) P)) = (\<lambda>r. map_option (map_option ?ver) (sw_readers ?W r))"
      using p(7) seen by (auto simp: fun_eq_iff map_option_case split: option.split)
    show "st_object (sw_heap ?W) = (if boxes ?W = 0 then None else Some \<lparr>ob_reference = int (boxes ?W), ob_copy = Some d\<rparr>)"
      using s2(5) n by (simp add: boxes_def)
    show "sp_current (snd (spec_step (Update msg) P)) =
      (case Some d of None \<Rightarrow> None | Some b \<Rightarrow> map_option (\<lambda>(m, z). (?ver b, m)) (content (sw_heap ?W) b))" by (simp add: c)
  qed (use p h2 pos in simp_all)
  moreover have "stm_step alloc (Update msg) W = Some (None, ?W)"
    using s1(1,6) s2(1) p(4) n by (simp add: lupdate_def stm_update_def Let_def)
  ultimately show ?thesis by - (rule steppedI, assumption, assumption, use s2(4) s1(5) in simp_all)
qed

lemma stm_step_ok:
  assumes "sim cur ver W P" "possible W x" "malloc_ok alloc"
  shows "stepped alloc x W P"
  using assms by (cases x) (auto intro: step_copy step_newreader step_update step_read step_deletereader step_deletewriter)

definition updates :: "stm_op list \<Rightarrow> u8 list list" where
  "updates xs = List.map_filter (\<lambda>x. case x of Update m \<Rightarrow> Some m | _ \<Rightarrow> None) xs"

lemma stm_run_ok:
  assumes "sim cur ver W P" "malloc_ok alloc"
  shows "\<exists>dn W' cur' ver'. stm_run alloc xs W = Some (fst (spec_run dn P), dn, W') \<and> sim cur' ver' W' (snd (spec_run dn P)) \<and>
    messages (sw_heap W') = messages (sw_heap W) + mset (updates dn)"
  using assms(1)
proof (induction xs arbitrary: cur ver W P)
  case Nil
  then show ?case by (auto simp: updates_def map_filter_simps)
next
  case (Cons x xs)
  show ?case
  proof (cases "possible W x")
    case False
    then show ?thesis using Cons.IH [OF Cons.prems] by simp
  next
    case True
    from stm_step_ok [OF Cons.prems True assms(2)] obtain W1 cur1 ver1 where
      s: "stm_step alloc x W = Some (fst (spec_step x P), W1)" "sim cur1 ver1 W1 (snd (spec_step x P))"
        "messages (sw_heap W1) = messages (sw_heap W) + (case x of Update m \<Rightarrow> {#m#} | _ \<Rightarrow> {#})" unfolding stepped_def by blast
    from Cons.IH [OF s(2)] obtain dn W' cur' ver' where
      r: "stm_run alloc xs W1 = Some (fst (spec_run dn (snd (spec_step x P))), dn, W')" "sim cur' ver' W' (snd (spec_run dn (snd (spec_step x P))))"
        "messages (sw_heap W') = messages (sw_heap W1) + mset (updates dn)" by blast
    have "stm_run alloc (x # xs) W = Some (fst (spec_run (x # dn) P), x # dn, W')"
      using True s(1) r(1) by (simp add: split_beta)
    moreover have "sim cur' ver' W' (snd (spec_run (x # dn) P))" using r(2) by (simp add: split_beta)
    moreover have "messages (sw_heap W') = messages (sw_heap W) + mset (updates (x # dn))"
      using s(3) r(3) by (cases x) (simp_all add: updates_def map_filter_simps)
    ultimately show ?thesis by blast
  qed
qed

lemma sim_new:
  assumes "malloc_ok alloc"
  shows "\<exists>cur ver. sim cur ver (lnewwriter alloc msg) (spec_new msg)" "messages (sw_heap (lnewwriter alloc msg)) = {#msg#}"
proof -
  let ?S = "\<lparr>st_object = None, st_copies = Map.empty, st_freed = []\<rparr>"
  have "heap_ok (\<lambda>_. 0) ?S" by (simp add: heap_ok_def)
  moreover have "alloc (st_copies ?S) \<notin> dom (st_copies ?S)" by simp
  ultimately obtain a S1 where
    s: "stm_newcopy alloc msg (of_nat (length msg)) ?S = (a, S1)" "heap_ok ((\<lambda>_. 0)(a := 1)) S1"
      "content S1 = (content ?S)(a \<mapsto> (msg, of_nat (length msg)))" "messages S1 = messages ?S + {#msg#}"
    using newcopy_ok [where R = "\<lambda>_. 0" and S = ?S and alloc = alloc and msg = msg and sz = "of_nat (length msg)"] by blast
  have c: "content ?S = Map.empty" by (simp add: content_def fun_eq_iff)
  have R: "(\<lambda>_. 0)(a := 1) = refs (Some a) Map.empty" by (auto simp: refs_def fun_eq_iff)
  have "sim (Some a) (\<lambda>_. 0) (lnewwriter alloc msg) (spec_new msg)"
    using s(1-3) c R by (auto simp: sim_def lnewwriter_def stm_new_def boxes_def spec_new_def Let_def inj_on_def split: if_split_asm)
  then show "\<exists>cur ver. sim cur ver (lnewwriter alloc msg) (spec_new msg)" by blast
  show "messages (sw_heap (lnewwriter alloc msg)) = {#msg#}"
    using s(1,4) by (simp add: lnewwriter_def stm_new_def messages_def [of ?S])
qed

text \<open>
  C38: A shared object under any sequence of copies, new readers, updates, reads and collections of
  readers and the writer: nothing is used after it was freed, and no assertion fails; a read gives
  the writer's latest message exactly when the reader has not seen this version yet, although
  versions are told apart by addresses that are used again; each message is freed at most once,
  and when the last box is gone everything is freed.
\<close>

theorem stm_refines_versions:
  assumes "malloc_ok alloc"
  shows "\<exists>dn W'. stm_run alloc xs (lnewwriter alloc msg) = Some (fst (spec_run dn (spec_new msg)), dn, W') \<and>
    mset (st_freed (sw_heap W')) \<subseteq># mset (msg # updates dn) \<and>
    (\<not> sw_writer W' \<and> sw_sent W' = 0 \<and> sw_readers W' = Map.empty \<longrightarrow>
       st_object (sw_heap W') = None \<and> st_copies (sw_heap W') = Map.empty \<and> mset (st_freed (sw_heap W')) = mset (msg # updates dn))"
proof -
  from sim_new(1) [OF assms, of msg] obtain cur ver where "sim cur ver (lnewwriter alloc msg) (spec_new msg)" by blast
  from stm_run_ok [OF this assms, of xs] obtain dn W' cur' ver' where
    r: "stm_run alloc xs (lnewwriter alloc msg) = Some (fst (spec_run dn (spec_new msg)), dn, W')" "sim cur' ver' W' (snd (spec_run dn (spec_new msg)))"
      "messages (sw_heap W') = {#msg#} + mset (updates dn)" using sim_new(2) [OF assms, of msg] by auto
  note p = sim_parts [OF r(2)]
  have m: "messages (sw_heap W') = mset (msg # updates dn)" using r(3) by simp
  have "mset (st_freed (sw_heap W')) \<subseteq># mset (msg # updates dn)" unfolding m [symmetric] by (simp add: messages_def)
  moreover have "st_object (sw_heap W') = None \<and> st_copies (sw_heap W') = Map.empty \<and> mset (st_freed (sw_heap W')) = mset (msg # updates dn)"
    if gone: "\<not> sw_writer W'" "sw_sent W' = 0" "sw_readers W' = Map.empty"
  proof -
    have "boxes W' = 0" "cur' = None" using gone p(3) by (simp_all add: boxes_def)
    then have "refs cur' (sw_readers W') a = 0" for a using gone by (simp add: refs_def)
    then have "st_copies (sw_heap W') a = None" for a using p(5) by (cases "st_copies (sw_heap W') a") (auto simp: heap_ok_def)
    then have e: "st_copies (sw_heap W') = Map.empty" by (rule ext)
    then show ?thesis using p(4) \<open>boxes W' = 0\<close> m by (simp add: messages_def)
  qed
  ultimately show ?thesis using r(1) by (intro exI [of _ dn] exI [of _ W'] conjI impI) simp_all
qed

definition first_free :: allocator where
  "first_free m = (LEAST a. m a = None)"

lemma first_free_ok: "malloc_ok first_free"
  unfolding malloc_ok_def first_free_def
proof (intro allI impI)
  fix m :: "nat \<Rightarrow> stm_version option" assume "finite (dom m)"
  then obtain a where "a \<notin> dom m" using ex_new_if_finite infinite_UNIV_nat by blast
  then have "m a = None" by auto
  then have "m (LEAST a. m a = None) = None" by (rule LeastI)
  then show "(LEAST a. m a = None) \<notin> dom m" by auto
qed

theorem stm_refines_versions_witness:
  "\<exists>dn W'. stm_run first_free [CopyOp None, NewReader 1, Read 1, Read 1, Update [2], Read 1, DeleteWriter, DeleteReader 1] (lnewwriter first_free [1]) =
      Some (fst (spec_run dn (spec_new [1])), dn, W') \<and> mset (st_freed (sw_heap W')) \<subseteq># mset ([1] # updates dn)"
  using stm_refines_versions [OF first_free_ok, of "[CopyOp None, NewReader 1, Read 1, Read 1, Update [2], Read 1, DeleteWriter, DeleteReader 1]" "[1]"]
  by blast

subsection \<open>Below the lock\<close>

text \<open>
  \<open>stm_releasereader\<close> by two threads, one step at a time: the object is \<open>None\<close> once it is freed. The
  last reader frees it without waiting for the other, which still has to give the lock back.
\<close>

record shared =
  sh_write :: bool
  sh_read :: int
  sh_reference :: int
  sh_copy :: "nat option"

datatype release_pc = RLock | Dec | Free | RUnlock | Released

fun release_step :: "release_pc \<Rightarrow> shared option \<Rightarrow> (release_pc \<times> shared option) option" where
  "release_step RLock mem = do {
     obj \<leftarrow> mem;
     Some (if sh_write obj then (RLock, mem) else (Dec, Some (obj\<lparr>sh_read := sh_read obj + 1\<rparr>)))
   }"
| "release_step Dec mem = do {
     obj \<leftarrow> mem;
     let ref = sh_reference obj - 1;
     Some (if ref = 0 then Free else RUnlock, Some (obj\<lparr>sh_reference := ref\<rparr>))
   }"
| "release_step Free mem = do { obj \<leftarrow> mem; c_assert (sh_copy obj = None); Some (Released, None) }"
| "release_step RUnlock mem = do { obj \<leftarrow> mem; Some (Released, Some (obj\<lparr>sh_read := sh_read obj - 1\<rparr>)) }"
| "release_step Released mem = Some (Released, mem)"

fun release_run :: "bool list \<Rightarrow> release_pc \<times> release_pc \<Rightarrow> shared option \<Rightarrow> ((release_pc \<times> release_pc) \<times> shared option) option" where
  "release_run [] pcs mem = Some (pcs, mem)"
| "release_run (t # ts) (p, q) mem =
     (if t then do { (p1, mem1) \<leftarrow> release_step p mem; release_run ts (p1, q) mem1 }
      else do { (q1, mem1) \<leftarrow> release_step q mem; release_run ts (p, q1) mem1 })"

text \<open>
  When the last two readers go at the same time, one of them can touch the object after the
  other freed it; one after the other, they free it and nothing else happens.
\<close>

theorem stm_releasereader_race:
  assumes "sh_reference obj = 2" "sh_copy obj = None" "\<not> sh_write obj"
  shows "release_run [True, True, False, False, False, True] (RLock, RLock) (Some obj) = None \<and>
    release_run [True, True, True, False, False, False] (RLock, RLock) (Some obj) = Some ((Released, Released), None)"
  using assms by simp

theorem stm_releasereader_race_witness:
  "release_run [True, True, False, False, False, True] (RLock, RLock)
     (Some \<lparr>sh_write = False, sh_read = 0, sh_reference = 2, sh_copy = None\<rparr>) = None"
  using stm_releasereader_race [of "\<lparr>sh_write = False, sh_read = 0, sh_reference = 2, sh_copy = None\<rparr>"] by simp

text \<open>
  \<open>lnewreader\<close> initialises the lock of an object that is in use. The readers that are inside at that
  moment give back what is no longer counted: from then on the count is short by their number.
  The writer waits in \<open>rwlock_wlock\<close> until the count is 0, so it waits forever while nobody is
  inside, and enters beside that many readers.
\<close>

datatype lock_op = EnterReader | LeaveReader

fun lock_read :: "int \<Rightarrow> lock_op list \<Rightarrow> int" where
  "lock_read n [] = n"
| "lock_read n (EnterReader # xs) = lock_read (n + 1) xs"
| "lock_read n (LeaveReader # xs) = lock_read (n - 1) xs"

lemma lock_read_shift: "lock_read (n + k) xs = lock_read n xs + k"
  by (induction n xs rule: lock_read.induct) (simp_all add: algebra_simps)

lemma init_in_use: "lock_read 0 xs = 0 \<longleftrightarrow> lock_read inside xs = inside"
  using lock_read_shift [of 0 inside xs] by auto

end
